(* ===== verification/Prelude.thy ===== *)
theory Prelude
  imports Complex_Main "HOL-Library.Word"
begin

text \<open>
  Shared ground of the development: the machine integers of \<^verbatim>\<open>ndn-svs/common.hpp\<close>, the
  exceptions the library throws as values of a result type, and the generic lemmas on
  results, folds and lists that the component theories use.
\<close>

section \<open>Machine integers and bytes\<close>

text \<open>
  \<^verbatim>\<open>using SeqNo = uint64_t; using BootstrapTime = uint64_t;\<close> The two aliases are kept at
  their width, so that additions wrap as they do in the code.
\<close>

type_synonym u8 = "8 word"
type_synonym u16 = "16 word"
type_synonym u32 = "32 word"
type_synonym u64 = "64 word"
type_synonym seq_no = u64
type_synonym bootstrap_time = u64
type_synonym bytes = "u8 list"

named_theorems svs_simps \<open>defining equations that the component proofs unfold\<close>
named_theorems result_simps \<open>rewrite rules for results\<close>

lemma u64_less_imp_nonzero: "(a :: u64) < b \<Longrightarrow> b \<noteq> 0"
  by auto

lemma u64_succ_le: "(a :: u64) < b \<Longrightarrow> a + 1 \<le> b"
  by (simp add: inc_le)

lemma u64_succ_unat: "(a :: u64) < b \<Longrightarrow> unat (a + 1) = Suc (unat a)"
proof -
  assume "a < b"
  then have "unat a < unat b"
    by (simp add: word_less_nat_alt)
  moreover have "unat b < 2 ^ 64"
    using unsigned_less [of b, where ?'a = nat] by simp
  ultimately have "Suc (unat a) < 2 ^ 64"
    by linarith
  then show ?thesis
    by (simp add: unat_word_ariths)
qed

section \<open>Exceptions as values\<close>

text \<open>
  One constructor per exception class the modelled code throws or lets through:
  \<^verbatim>\<open>ndn::tlv::Error\<close>, \<^verbatim>\<open>SyncProtocolCodec::Error\<close>, \<^verbatim>\<open>VersionVector::Error\<close> and the
  standard ones. The string is the literal of the throw.
\<close>

datatype svs_error =
    TlvError string
  | CodecError string
  | VectorError string
  | InvalidArgument string
  | OutOfRange string
  | LengthError string
  | LogicError string
  | RuntimeError string

type_synonym 'a result = "svs_error + 'a"

definition res_bind :: "'a result \<Rightarrow> ('a \<Rightarrow> 'b result) \<Rightarrow> 'b result" where
  "res_bind r f = (case r of Inl e \<Rightarrow> Inl e | Inr x \<Rightarrow> f x)"

lemma res_bind_Inl [simp, result_simps]: "res_bind (Inl e) f = Inl e"
  by (simp add: res_bind_def)

lemma res_bind_Inr [simp, result_simps]: "res_bind (Inr x) f = f x"
  by (simp add: res_bind_def)

lemma res_bind_eq_Inr:
  "res_bind r f = Inr y \<longleftrightarrow> (\<exists>x. r = Inr x \<and> f x = Inr y)"
  by (cases r) auto

lemma res_bind_cong [fundef_cong]:
  "r = r' \<Longrightarrow> (\<And>x. r' = Inr x \<Longrightarrow> f x = g x) \<Longrightarrow> res_bind r f = res_bind r' g"
  by (cases r') auto

text \<open>An absent value becomes the given exception.\<close>

definition res_of_option :: "svs_error \<Rightarrow> 'a option \<Rightarrow> 'a result" where
  "res_of_option e x = (case x of None \<Rightarrow> Inl e | Some y \<Rightarrow> Inr y)"

lemma res_of_option_None [simp, result_simps]: "res_of_option e None = Inl e"
  by (simp add: res_of_option_def)

lemma res_of_option_Some [simp, result_simps]: "res_of_option e (Some x) = Inr x"
  by (simp add: res_of_option_def)

lemma res_of_option_eq_Inr [simp]: "res_of_option e x = Inr y \<longleftrightarrow> x = Some y"
  by (cases x) auto

text \<open>A range-based loop whose body may throw.\<close>

fun res_fold :: "('a \<Rightarrow> 's \<Rightarrow> 's result) \<Rightarrow> 'a list \<Rightarrow> 's \<Rightarrow> 's result" where
  "res_fold f [] s = Inr s"
| "res_fold f (x # xs) s = res_bind (f x s) (res_fold f xs)"

lemma res_fold_append:
  "res_fold f (xs @ ys) s = res_bind (res_fold f xs s) (res_fold f ys)"
  by (induction xs arbitrary: s) (simp_all add: res_bind_def split: sum.split)

lemma res_fold_invariant:
  assumes "res_fold f xs s = Inr t" and "P s"
    and "\<And>x s t. x \<in> set xs \<Longrightarrow> P s \<Longrightarrow> f x s = Inr t \<Longrightarrow> P t"
  shows "P t"
  using assms
proof (induction xs arbitrary: s)
  case Nil
  then show ?case by simp
next
  case (Cons x xs)
  from Cons.prems(1) obtain u where u: "f x s = Inr u" "res_fold f xs u = Inr t"
    by (auto simp: res_bind_eq_Inr)
  moreover have "P u"
    using Cons.prems(3) [OF _ Cons.prems(2) u(1)] by simp
  ultimately show ?case
    using Cons.IH [of u] Cons.prems(3) by (meson list.set_intros(2))
qed

text \<open>A loop whose body never throws is the pure fold.\<close>

lemma res_fold_total:
  assumes "\<And>x s. x \<in> set xs \<Longrightarrow> f x s = Inr (g x s)"
  shows "res_fold f xs s = Inr (fold g xs s)"
  using assms by (induction xs arbitrary: s) auto

text \<open>
  A member function that may throw after it changed the object: the state it leaves, and the
  exception, if any.
\<close>

type_synonym 's outcome = "'s \<times> svs_error option"

definition and_then :: "'s outcome \<Rightarrow> ('s \<Rightarrow> 's outcome) \<Rightarrow> 's outcome" where
  "and_then r f = (case r of (s, None) \<Rightarrow> f s | (s, Some e) \<Rightarrow> (s, Some e))"

text \<open>A handler that catches every exception.\<close>

definition caught :: "'s outcome \<Rightarrow> 's outcome" where
  "caught r = (fst r, None)"

lemma and_then_simps [simp, result_simps]:
  "and_then (s, None) f = f s"
  "and_then (s, Some e) f = (s, Some e)"
  by (simp_all add: and_then_def)

lemma caught_simps [simp, result_simps]:
  "fst (caught r) = fst r"
  "snd (caught r) = None"
  by (simp_all add: caught_def)

text \<open>What holds of the state whether or not a step throws.\<close>

lemma and_then_invariant:
  assumes "P (fst r)" and "\<And>s. P s \<Longrightarrow> P (fst (f s))"
  shows "P (fst (and_then r f))"
  using assms by (cases r; cases "snd r") (auto simp: and_then_def)

section \<open>Lists\<close>

lemma fold_invariant:
  assumes "P s" and "\<And>x s. x \<in> set xs \<Longrightarrow> P s \<Longrightarrow> P (f x s)"
  shows "P (fold f xs s)"
  using assms by (induction xs arbitrary: s) auto

lemma fold_max_start:
  fixes a :: "'a :: linorder"
  shows "fold max xs (max a b) = max a (fold max xs b)"
proof (induction xs arbitrary: b)
  case Nil
  then show ?case by simp
next
  case (Cons x xs)
  have "fold max (x # xs) (max a b) = fold max xs (max a (max x b))"
    by (simp add: max.left_commute)
  also have "\<dots> = max a (fold max xs (max x b))"
    by (rule Cons.IH)
  finally show ?case by simp
qed

lemma fold_max_ge:
  fixes a :: "'a :: linorder"
  shows "x \<in> insert a (set xs) \<Longrightarrow> x \<le> fold max xs a"
  by (induction xs arbitrary: a) (auto simp: fold_max_start le_max_iff_disj)

lemma fold_max_mem:
  fixes a :: "'a :: linorder"
  shows "fold max xs a \<in> insert a (set xs)"
  by (induction xs arbitrary: a) (auto simp: max_def split: if_splits)

lemma map_of_rev_distinct: "distinct (map fst es) \<Longrightarrow> map_of (rev es) = map_of es"
proof (rule ext)
  fix k
  assume d: "distinct (map fst es)"
  then have d': "distinct (map fst (rev es))"
    by (simp add: rev_map [symmetric])
  show "map_of (rev es) k = map_of es k"
  proof (cases "map_of es k")
    case None
    then have "map_of (rev es) k = None"
      by (simp add: map_of_eq_None_iff)
    with None show ?thesis by simp
  next
    case (Some v)
    then have "(k, v) \<in> set (rev es)"
      by (simp add: map_of_SomeD)
    then show ?thesis
      using d' Some by simp
  qed
qed

end
