(* ===== verification/Std_Map.thy ===== *)
theory Std_Map
  imports Prelude
begin

text \<open>
  \<^verbatim>\<open>std::map\<close> as the code uses it: an association list in strictly increasing key order,
  so that a range-based loop over the map is the list itself, \<^verbatim>\<open>rbegin\<close> its last entry, and
  two maps with the same lookups are equal. The interface its clients rely on is the locale
  \<open>key_store\<close>, interpreted on these operations at the end.
\<close>

type_synonym ('k, 'v) std_map = "('k \<times> 'v) list"

definition map_ok :: "('k :: linorder, 'v) std_map \<Rightarrow> bool" where
  "map_ok m \<longleftrightarrow> sorted_wrt (<) (map fst m)"

text \<open>\<^verbatim>\<open>m[k] = v\<close>\<close>

fun map_put :: "'k :: linorder \<Rightarrow> 'v \<Rightarrow> ('k, 'v) std_map \<Rightarrow> ('k, 'v) std_map" where
  "map_put k v [] = [(k, v)]"
| "map_put k v ((k', v') # m) =
     (if k < k' then (k, v) # (k', v') # m
      else if k = k' then (k, v) # m
      else (k', v') # map_put k v m)"

text \<open>\<^verbatim>\<open>m.erase(k)\<close>\<close>

fun map_erase :: "'k :: linorder \<Rightarrow> ('k, 'v) std_map \<Rightarrow> ('k, 'v) std_map" where
  "map_erase k [] = []"
| "map_erase k ((k', v') # m) = (if k = k' then m else (k', v') # map_erase k m)"

text \<open>\<^verbatim>\<open>m.lower_bound(k)\<close>: the first entry whose key is not less than \<open>k\<close>.\<close>

definition map_lower_bound :: "'k :: linorder \<Rightarrow> ('k, 'v) std_map \<Rightarrow> ('k \<times> 'v) option" where
  "map_lower_bound k m = find (\<lambda>e. k \<le> fst e) m"

text \<open>\<^verbatim>\<open>m.rbegin()\<close>\<close>

definition map_rbegin :: "('k, 'v) std_map \<Rightarrow> ('k \<times> 'v) option" where
  "map_rbegin m = (if m = [] then None else Some (last m))"

section \<open>Lookup, insertion and removal\<close>

lemma map_ok_Nil [simp]: "map_ok []"
  by (simp add: map_ok_def)

lemma map_ok_Cons [simp]:
  "map_ok ((k, v) # m) \<longleftrightarrow> (\<forall>k' \<in> fst ` set m. k < k') \<and> map_ok m"
  by (auto simp: map_ok_def)

lemma keys_map_put [simp]: "fst ` set (map_put k v m) = insert k (fst ` set m)"
  by (induction k v m rule: map_put.induct) auto

lemma map_ok_put [simp, intro]: "map_ok m \<Longrightarrow> map_ok (map_put k v m)"
  by (induction k v m rule: map_put.induct) (auto simp del: keys_map_put simp: keys_map_put)

lemma map_of_put [simp]: "map_of (map_put k v m) = (map_of m)(k \<mapsto> v)"
  by (induction k v m rule: map_put.induct) auto

lemma map_put_nonempty [simp]: "map_put k v m \<noteq> []"
  by (induction k v m rule: map_put.induct) auto

lemma keys_map_erase_subset: "fst ` set (map_erase k m) \<subseteq> fst ` set m"
  by (induction k m rule: map_erase.induct) auto

lemma set_map_erase_subset: "set (map_erase k m) \<subseteq> set m"
  by (induction k m rule: map_erase.induct) auto

lemma map_ok_erase [simp, intro]: "map_ok m \<Longrightarrow> map_ok (map_erase k m)"
  by (induction k m rule: map_erase.induct) (use keys_map_erase_subset in fastforce)+

lemma map_ok_distinct: "map_ok m \<Longrightarrow> distinct (map fst m)"
  by (simp add: map_ok_def strict_sorted_iff)

lemma map_of_not_key: "k \<notin> fst ` set m \<Longrightarrow> map_of m k = None"
  by (simp add: map_of_eq_None_iff)

lemma map_of_erase [simp]: "map_ok m \<Longrightarrow> map_of (map_erase k m) = (map_of m)(k := None)"
proof (induction k m rule: map_erase.induct)
  case (2 k k' v' m)
  then show ?case
    by (auto intro!: ext map_of_not_key simp: fun_upd_def)
qed simp

lemma map_ok_mem: "map_ok m \<Longrightarrow> (k, v) \<in> set m \<longleftrightarrow> map_of m k = Some v"
  by (simp add: map_of_eq_Some_iff map_ok_distinct)

lemma map_of_key: "map_of m k = Some v \<Longrightarrow> k \<in> fst ` set m"
  by (force dest: map_of_SomeD)

text \<open>An entry beyond the last key is appended.\<close>

lemma map_put_snoc: "\<forall>k' \<in> fst ` set m. k' < k \<Longrightarrow> map_put k v m = m @ [(k, v)]"
  by (induction m) auto

lemma map_put_overwrite: "map_put k v (map_put k w m) = map_put k v m"
  by (induction k w m rule: map_put.induct) auto

lemma map_ok_append_single:
  "map_ok (m @ [(k, v)]) \<longleftrightarrow> map_ok m \<and> (\<forall>k' \<in> fst ` set m. k' < k)"
  by (induction m) auto

lemma map_ok_appendD: "map_ok (m @ m') \<Longrightarrow> map_ok m \<and> map_ok m'"
  by (simp add: map_ok_def sorted_wrt_append)

section \<open>Extensionality\<close>

lemma map_ok_ext:
  assumes "map_ok m" and "map_ok m'" and "map_of m = map_of m'"
  shows "m = m'"
proof -
  have sets: "set m = set m'"
    using assms by (auto simp: map_ok_mem)
  have "map fst m = map fst m'"
  proof (rule sorted_distinct_set_unique)
    show "sorted (map fst m)" "sorted (map fst m')"
      using assms(1,2) by (auto simp: map_ok_def strict_sorted_imp_sorted)
    show "distinct (map fst m)" "distinct (map fst m')"
      using assms(1,2) by (auto simp: map_ok_distinct)
    show "set (map fst m) = set (map fst m')"
      using sets by simp
  qed
  then have "map fst m = map fst m'" .
  moreover have "\<And>i. i < length m \<Longrightarrow> m ! i = m' ! i"
  proof -
    fix i
    assume i: "i < length m"
    with calculation have i': "i < length m'" and "fst (m ! i) = fst (m' ! i)"
      by (metis length_map, metis length_map nth_map)
    then show "m ! i = m' ! i"
      using i sets assms(1) map_ok_mem [of m'] assms(2)
      by (metis eq_key_imp_eq_value map_ok_distinct nth_mem prod.collapse)
  qed
  ultimately show ?thesis
    by (metis length_map nth_equalityI)
qed

lemma map_put_same: "map_ok m \<Longrightarrow> map_of m k = Some v \<Longrightarrow> map_put k v m = m"
  by (rule map_ok_ext) auto

lemma map_lower_bound_Some:
  assumes "map_ok m" and "map_lower_bound k m = Some (k', v)"
  shows "map_of m k' = Some v" and "k \<le> k'"
    and "(k'', w) \<in> set m \<Longrightarrow> k \<le> k'' \<Longrightarrow> k' \<le> k''"
proof -
  show "k \<le> k'"
    using assms(2) unfolding map_lower_bound_def find_Some_iff by (metis fst_conv)
  show "map_of m k' = Some v"
    using assms by (auto simp: map_lower_bound_def find_Some_iff simp flip: map_ok_mem)
  show "k' \<le> k''" if "(k'', w) \<in> set m" and "k \<le> k''"
    using assms that unfolding map_lower_bound_def
    by (induction m) (auto split: if_splits dest: bspec intro: less_imp_le)
qed

section \<open>The interface the components use\<close>

text \<open>
  A keyed store: what a lookup returns after an insertion or a removal. The clients are the
  loops that insert a list of entries, whose effect on lookups is proved once here.
\<close>

locale key_store =
  fixes lookup :: "'m \<Rightarrow> 'k \<Rightarrow> 'v option"
    and put :: "'k \<Rightarrow> 'v \<Rightarrow> 'm \<Rightarrow> 'm"
    and erase :: "'k \<Rightarrow> 'm \<Rightarrow> 'm"
    and store_ok :: "'m \<Rightarrow> bool"
  assumes lookup_put: "store_ok m \<Longrightarrow> lookup (put k v m) k' = (if k' = k then Some v else lookup m k')"
    and lookup_erase: "store_ok m \<Longrightarrow> lookup (erase k m) k' = (if k' = k then None else lookup m k')"
    and store_ok_put: "store_ok m \<Longrightarrow> store_ok (put k v m)"
    and store_ok_erase: "store_ok m \<Longrightarrow> store_ok (erase k m)"
begin

lemma put_all_ok: "store_ok m \<Longrightarrow> store_ok (fold (\<lambda>(k, v). put k v) es m)"
  by (induction es arbitrary: m) (auto simp: store_ok_put)

lemma lookup_put_all:
  "store_ok m \<Longrightarrow> lookup (fold (\<lambda>(k, v). put k v) es m) k =
     (case map_of (rev es) k of None \<Rightarrow> lookup m k | Some v \<Rightarrow> Some v)"
  by (induction es arbitrary: m)
    (auto simp: store_ok_put lookup_put map_add_def split: option.splits)

lemma erase_all_ok: "store_ok m \<Longrightarrow> store_ok (fold erase ks m)"
  by (induction ks arbitrary: m) (auto simp: store_ok_erase)

lemma lookup_erase_all:
  "store_ok m \<Longrightarrow> lookup (fold erase ks m) k = (if k \<in> set ks then None else lookup m k)"
  by (induction ks arbitrary: m) (auto simp: store_ok_erase lookup_erase)

end

interpretation std_map: key_store map_of map_put map_erase map_ok
  by unfold_locales auto

end
