(* ===== verification/Ndn_Library.thy ===== *)
theory Ndn_Library
  imports Std_Map
begin

text \<open>
  The interface to ndn-cxx, which is not part of the repository: names, TLV blocks, packets
  and their parsing are the fields of the record \<open>ndn\<close>, an argument of every definition that
  uses them. What the code relies on is stated by the predicates \<open>tlv_laws\<close>, \<open>name_laws\<close> and
  \<open>packet_laws\<close>, hypotheses of the properties that need them; \<^verbatim>\<open>Ndn_Instance\<close> satisfies them
  with the NDN packet format. The only code of the repository modelled here is the table of
  TLV numbers of \<^verbatim>\<open>ndn-svs/tlv.hpp\<close>.

  Types: \<open>'n\<close> is \<^verbatim>\<open>ndn::Name\<close>, \<open>'c\<close> a name component, \<open>'b\<close> \<^verbatim>\<open>ndn::Block\<close>,
  \<open>'d\<close> \<^verbatim>\<open>ndn::Data\<close> and \<open>'i\<close> \<^verbatim>\<open>ndn::Interest\<close>.
\<close>

section \<open>TLV numbers\<close>

text \<open>\<^verbatim>\<open>ndn-svs/tlv.hpp\<close>\<close>

definition tlv_StateVector :: u32 where [svs_simps]: "tlv_StateVector = 201"
definition tlv_StateVectorEntry :: u32 where [svs_simps]: "tlv_StateVectorEntry = 202"
definition tlv_SeqNoV2 :: u32 where [svs_simps]: "tlv_SeqNoV2 = 204"
definition tlv_MappingData :: u32 where [svs_simps]: "tlv_MappingData = 205"
definition tlv_MappingEntry :: u32 where [svs_simps]: "tlv_MappingEntry = 206"
definition tlv_SeqNoEntry :: u32 where [svs_simps]: "tlv_SeqNoEntry = 210"
definition tlv_LzmaBlock :: u32 where [svs_simps]: "tlv_LzmaBlock = 211"
definition tlv_BootstrapTime :: u32 where [svs_simps]: "tlv_BootstrapTime = 212"
definition tlv_SeqNo :: u32 where [svs_simps]: "tlv_SeqNo = 214"
definition tlv_RepairData :: u32 where [svs_simps]: "tlv_RepairData = 216"
definition tlv_RepairEntry :: u32 where [svs_simps]: "tlv_RepairEntry = 217"

text \<open>Numbers of the NDN packet format the code names: \<^verbatim>\<open>ndn::tlv::Data\<close>, \<^verbatim>\<open>Name\<close>,
  \<^verbatim>\<open>Content\<close> and \<^verbatim>\<open>ApplicationParameters\<close>.\<close>

definition tlv_Data :: u32 where [svs_simps]: "tlv_Data = 6"
definition tlv_Name :: u32 where [svs_simps]: "tlv_Name = 7"
definition tlv_Content :: u32 where [svs_simps]: "tlv_Content = 21"
definition tlv_ApplicationParameters :: u32 where [svs_simps]: "tlv_ApplicationParameters = 36"

section \<open>The library as a record of operations\<close>

text \<open>
  What the code sets on a \<^verbatim>\<open>Data\<close> before it signs it: \<^verbatim>\<open>setContent\<close> takes a block (kept
  when it is a Content block, else wrapped in one) or bytes.
\<close>

datatype 'b data_payload = PayloadBlock 'b | PayloadBytes bytes

record ('n, 'c, 'b) data_args =
  da_name :: 'n
  da_content :: "'b data_payload"
  da_freshness :: int
  da_content_type :: "u32 option"
  da_final_block :: "'c option"

record ('n, 'c, 'b, 'd, 'i) ndn =
  \<comment> \<open>names\<close>
  nm_comps :: "'n \<Rightarrow> 'c list"
  nm_empty :: 'n
  nm_append :: "'n \<Rightarrow> 'n \<Rightarrow> 'n"
  nm_push :: "'n \<Rightarrow> 'c \<Rightarrow> 'n"
  nm_size :: "'n \<Rightarrow> nat"
  nm_prefix :: "'n \<Rightarrow> int \<Rightarrow> 'n"
  nm_at :: "'n \<Rightarrow> int \<Rightarrow> 'c option"
  nm_is_prefix :: "'n \<Rightarrow> 'n \<Rightarrow> bool"
  \<comment> \<open>name components\<close>
  comp_of_string :: "string \<Rightarrow> 'c"
  comp_version :: "u64 \<Rightarrow> 'c"
  comp_is_version :: "'c \<Rightarrow> bool"
  comp_segment :: "u64 \<Rightarrow> 'c"
  comp_segment_of :: "'c \<Rightarrow> u64 option"
  comp_seq :: "u64 \<Rightarrow> 'c"
  comp_seq_of :: "'c \<Rightarrow> u64 option"
  comp_number :: "u64 \<Rightarrow> 'c"
  comp_number_of :: "'c \<Rightarrow> u64 option"
  comp_timestamp :: "u64 \<Rightarrow> 'c"
  comp_timestamp_of :: "'c \<Rightarrow> u64 option"
  comp_is_digest :: "'c \<Rightarrow> bool"
  comp_block :: "'c \<Rightarrow> 'b"
  comp_of_block :: "'b \<Rightarrow> 'c option"
  \<comment> \<open>TLV blocks\<close>
  var_num :: "nat \<Rightarrow> bytes"
  nni_value :: "u64 \<Rightarrow> bytes"
  block_of :: "bytes \<Rightarrow> 'b option"
  block_from_buffer :: "bytes \<Rightarrow> 'b option"
  block_type :: "'b \<Rightarrow> u32"
  block_wire :: "'b \<Rightarrow> bytes"
  block_elems :: "'b \<Rightarrow> 'b list option"
  block_nni :: "'b \<Rightarrow> u64 option"
  block_nested :: "u32 \<Rightarrow> 'b list \<Rightarrow> 'b"
  name_wire :: "'n \<Rightarrow> 'b"
  name_of_block :: "'b \<Rightarrow> 'n option"
  \<comment> \<open>packets\<close>
  data_new :: "('n, 'c, 'b) data_args \<Rightarrow> 'd"
  data_name :: "'d \<Rightarrow> 'n"
  data_content :: "'d \<Rightarrow> 'b"
  data_content_type :: "'d \<Rightarrow> u32"
  data_freshness :: "'d \<Rightarrow> int"
  data_final_block :: "'d \<Rightarrow> 'c option"
  data_full_name :: "'d \<Rightarrow> 'n"
  data_signed :: "'d \<Rightarrow> bool"
  data_wire :: "'d \<Rightarrow> 'b"
  data_of_block :: "'b \<Rightarrow> 'd option"
  interest_new :: "'n \<Rightarrow> 'b option \<Rightarrow> int \<Rightarrow> 'i"
  interest_name :: "'i \<Rightarrow> 'n"
  interest_digest_ok :: "'i \<Rightarrow> bool"
  interest_params :: "'i \<Rightarrow> 'b option"
  \<comment> \<open>compression\<close>
  lzma_compress :: "bytes \<Rightarrow> bytes"
  lzma_decompress :: "bytes \<Rightarrow> bytes option"
  block_with_value :: "u32 \<Rightarrow> bytes \<Rightarrow> 'b"
  block_value :: "'b \<Rightarrow> bytes"

text \<open>The wire form of a TLV element: type, length, value.\<close>

definition tlv_bytes :: "('n, 'c, 'b, 'd, 'i) ndn \<Rightarrow> u32 \<Rightarrow> bytes \<Rightarrow> bytes" where
  "tlv_bytes N t v = var_num N (unat t) @ var_num N (length v) @ v"

section \<open>What the code relies on\<close>

text \<open>
  TLV: a block keeps the bytes it was parsed from; a well-formed element parses to a block with its type and its wire form; a block whose
  value is a sequence of wire forms parses into that sequence of sub-elements; integers and
  names read back as they were written. \<open>block_of\<close> parses a buffer that holds one element, as
  \<^verbatim>\<open>EncodingBuffer::block\<close> does, \<open>block_from_buffer\<close> the first element of a buffer. Lengths must fit the 64 bits of a length field.
\<close>

definition fits :: "bytes \<Rightarrow> bool" where
  "fits bs \<longleftrightarrow> length bs < 2 ^ 64"

definition tlv_laws :: "('n, 'c, 'b, 'd, 'i) ndn \<Rightarrow> bool" where
  "tlv_laws N \<longleftrightarrow>
     (\<forall>t v. fits (tlv_bytes N t v) \<longrightarrow>
        block_of N (tlv_bytes N t v) \<noteq> None \<and>
        block_from_buffer N (tlv_bytes N t v) = block_of N (tlv_bytes N t v)) \<and>
     (\<forall>bs b. block_of N bs = Some b \<longrightarrow> block_wire N b = bs) \<and>
     (\<forall>t v b. block_of N (tlv_bytes N t v) = Some b \<longrightarrow> block_type N b = t) \<and>
     (\<forall>t bs b. fits (tlv_bytes N t (concat (map (block_wire N) bs))) \<longrightarrow>
        block_of N (tlv_bytes N t (concat (map (block_wire N) bs))) = Some b \<longrightarrow>
        block_elems N b = Some bs) \<and>
     (\<forall>t x b. block_of N (tlv_bytes N t (nni_value N x)) = Some b \<longrightarrow> block_nni N b = Some x) \<and>
     (\<forall>n. block_type N (name_wire N n) = tlv_Name \<and>
        (fits (block_wire N (name_wire N n)) \<longrightarrow> name_of_block N (name_wire N n) = Some n))"

lemma tlv_law_block:
  assumes "tlv_laws N" and "fits (tlv_bytes N t v)"
  obtains b where "block_of N (tlv_bytes N t v) = Some b" and "block_type N b = t"
    and "block_wire N b = tlv_bytes N t v"
proof -
  have n: "block_of N (tlv_bytes N t v) \<noteq> None"
    using assms unfolding tlv_laws_def by blast
  then obtain b where b: "block_of N (tlv_bytes N t v) = Some b"
    by blast
  show thesis
  proof (rule that [OF b])
    have "\<forall>t v b. block_of N (tlv_bytes N t v) = Some b \<longrightarrow> block_type N b = t"
      using assms(1) unfolding tlv_laws_def by blast
    then show "block_type N b = t" using b by blast
    have "\<forall>bs b. block_of N bs = Some b \<longrightarrow> block_wire N b = bs"
      using assms(1) unfolding tlv_laws_def by blast
    then show "block_wire N b = tlv_bytes N t v" using b by blast
  qed
qed

lemma tlv_law_wire: "tlv_laws N \<Longrightarrow> block_of N bs = Some b \<Longrightarrow> block_wire N b = bs"
  unfolding tlv_laws_def by blast

lemma tlv_law_from_buffer:
  "tlv_laws N \<Longrightarrow> fits (tlv_bytes N t v) \<Longrightarrow>
    block_from_buffer N (tlv_bytes N t v) = block_of N (tlv_bytes N t v)"
  unfolding tlv_laws_def by blast

lemma tlv_law_elems:
  assumes "tlv_laws N" and "fits (tlv_bytes N t (concat (map (block_wire N) bs)))"
    and "block_of N (tlv_bytes N t (concat (map (block_wire N) bs))) = Some b"
  shows "block_elems N b = Some bs"
  using assms unfolding tlv_laws_def by blast

lemma tlv_law_nni:
  assumes "tlv_laws N" and "block_of N (tlv_bytes N t (nni_value N x)) = Some b"
  shows "block_nni N b = Some x"
  using assms unfolding tlv_laws_def by blast

text \<open>The block a well-formed element parses to.\<close>

definition tlv_blk :: "('n, 'c, 'b, 'd, 'i) ndn \<Rightarrow> u32 \<Rightarrow> bytes \<Rightarrow> 'b" where
  "tlv_blk N t v = the (block_of N (tlv_bytes N t v))"

lemma tlv_blk:
  assumes "tlv_laws N" and "fits (tlv_bytes N t v)"
  shows "block_of N (tlv_bytes N t v) = Some (tlv_blk N t v)"
    and "block_type N (tlv_blk N t v) = t"
    and "block_wire N (tlv_blk N t v) = tlv_bytes N t v"
proof -
  obtain b where "block_of N (tlv_bytes N t v) = Some b" and "block_type N b = t"
    and "block_wire N b = tlv_bytes N t v"
    using tlv_law_block [OF assms] .
  then show "block_of N (tlv_bytes N t v) = Some (tlv_blk N t v)"
    and "block_type N (tlv_blk N t v) = t"
    and "block_wire N (tlv_blk N t v) = tlv_bytes N t v"
    by (simp_all add: tlv_blk_def)
qed

lemma tlv_blk_elems:
  assumes "tlv_laws N" and "fits (tlv_bytes N t v)" and "v = concat (map (block_wire N) bs)"
  shows "block_elems N (tlv_blk N t v) = Some bs"
  using assms tlv_law_elems [of N t bs] tlv_blk(1) [OF assms(1,2)] by blast

lemma tlv_blk_nni:
  assumes "tlv_laws N" and "fits (tlv_bytes N t (nni_value N x))"
  shows "block_nni N (tlv_blk N t (nni_value N x)) = Some x"
  using tlv_law_nni [OF assms(1) tlv_blk(1) [OF assms]] .

lemma tlv_law_name_type: "tlv_laws N \<Longrightarrow> block_type N (name_wire N n) = tlv_Name"
  unfolding tlv_laws_def by blast

lemma tlv_law_name:
  "tlv_laws N \<Longrightarrow> fits (block_wire N (name_wire N n)) \<Longrightarrow> name_of_block N (name_wire N n) = Some n"
  unfolding tlv_laws_def by blast

lemma fits_append: "fits (xs @ ys) \<Longrightarrow> fits xs \<and> fits ys"
  by (simp add: fits_def)

lemma fits_tlv_value: "fits (tlv_bytes N t v) \<Longrightarrow> fits v"
  by (simp add: fits_def tlv_bytes_def)

lemma fits_concat: "fits (concat xss) \<Longrightarrow> xs \<in> set xss \<Longrightarrow> fits xs"
  by (induction xss) (auto simp: fits_def)

text \<open>
  Names: a name is determined by its sequence of components; the operations act on that
  sequence, a negative index or prefix length counts from the end, and typed components read
  back as the number they carry. Timestamps are given in seconds, and are read back when they
  fit the signed 64-bit nanosecond count of a time point.
\<close>

definition max_timestamp :: nat where
  "max_timestamp = 9223372036"

definition name_laws :: "('n, 'c, 'b, 'd, 'i) ndn \<Rightarrow> bool" where
  "name_laws N \<longleftrightarrow>
     inj (nm_comps N) \<and>
     nm_comps N (nm_empty N) = [] \<and>
     (\<forall>m n. nm_comps N (nm_append N m n) = nm_comps N m @ nm_comps N n) \<and>
     (\<forall>n c. nm_comps N (nm_push N n c) = nm_comps N n @ [c]) \<and>
     (\<forall>n. nm_size N n = length (nm_comps N n)) \<and>
     (\<forall>n k. nm_comps N (nm_prefix N n (int k)) = take k (nm_comps N n)) \<and>
     (\<forall>n k. 0 < k \<longrightarrow>
        nm_comps N (nm_prefix N n (- int k)) = take (length (nm_comps N n) - k) (nm_comps N n)) \<and>
     (\<forall>n k. 0 < k \<longrightarrow> k \<le> length (nm_comps N n) \<longrightarrow>
        nm_at N n (- int k) = Some (nm_comps N n ! (length (nm_comps N n) - k))) \<and>
     (\<forall>m n. nm_is_prefix N m n \<longleftrightarrow> take (length (nm_comps N m)) (nm_comps N n) = nm_comps N m) \<and>
     (\<forall>x. comp_segment_of N (comp_segment N x) = Some x) \<and>
     (\<forall>x. comp_seq_of N (comp_seq N x) = Some x) \<and>
     (\<forall>x. comp_number_of N (comp_number N x) = Some x) \<and>
     (\<forall>x. comp_is_version N (comp_version N x)) \<and>
     inj (comp_version N) \<and>
     (\<forall>x. unat x \<le> max_timestamp \<longrightarrow> comp_timestamp_of N (comp_timestamp N x) = Some x)"

lemma name_law_inj: "name_laws N \<Longrightarrow> nm_comps N m = nm_comps N n \<longleftrightarrow> m = n"
  unfolding name_laws_def by (auto dest: injD)

lemma name_law_comps:
  assumes "name_laws N"
  shows "nm_comps N (nm_empty N) = []"
    and "nm_comps N (nm_append N m n) = nm_comps N m @ nm_comps N n"
    and "nm_comps N (nm_push N n c) = nm_comps N n @ [c]"
    and "nm_size N n = length (nm_comps N n)"
    and "nm_comps N (nm_prefix N n (int k)) = take k (nm_comps N n)"
  using assms by (simp_all add: name_laws_def)

lemma name_law_back:
  assumes "name_laws N" and "0 < k"
  shows "nm_comps N (nm_prefix N n (- int k)) = take (length (nm_comps N n) - k) (nm_comps N n)"
    and "k \<le> length (nm_comps N n) \<Longrightarrow>
      nm_at N n (- int k) = Some (nm_comps N n ! (length (nm_comps N n) - k))"
  using assms by (simp_all add: name_laws_def)

lemma name_law_codecs:
  assumes "name_laws N"
  shows "comp_segment_of N (comp_segment N x) = Some x"
    and "comp_seq_of N (comp_seq N x) = Some x"
    and "comp_number_of N (comp_number N x) = Some x"
    and "comp_is_version N (comp_version N x)"
    and "unat x \<le> max_timestamp \<Longrightarrow> comp_timestamp_of N (comp_timestamp N x) = Some x"
    and "comp_version N x = comp_version N y \<longleftrightarrow> x = y"
    and "nm_is_prefix N m n \<longleftrightarrow> take (length (nm_comps N m)) (nm_comps N n) = nm_comps N m"
  using assms by (auto simp: name_laws_def dest: injD)

text \<open>
  Packets: a nested block is the TLV element of its sub-elements; a \<^verbatim>\<open>Data\<close> parses back from its
  wire form, which contains its content, and reports the name, the content, the content type (0
  when none was set) and the final block it was given; a content that is not a Content block is
  wrapped in one, whose value it is; a block parses back from its wire form, which contains its
  value, and one whose value is a sequence of wire forms parses into it; an Interest built with parameters reports them (wrapped when they are not an
  ApplicationParameters element already), has a valid digest and carries the digest as one more
  component of its name; decompression inverts compression.
\<close>

definition block_laws :: "('n, 'c, 'b, 'd, 'i) ndn \<Rightarrow> bool" where
  "block_laws N \<longleftrightarrow>
     (\<forall>t bs. block_type N (block_nested N t bs) = t \<and>
        block_wire N (block_nested N t bs) = tlv_bytes N t (concat (map (block_wire N) bs)) \<and>
        (fits (block_wire N (block_nested N t bs)) \<longrightarrow>
          block_elems N (block_nested N t bs) = Some bs)) \<and>
     (\<forall>t bs. block_type N (block_with_value N t bs) = t \<and>
        block_value N (block_with_value N t bs) = bs) \<and>
     (\<forall>t bs. fits (concat (map (block_wire N) bs)) \<longrightarrow>
        block_elems N (block_with_value N t (concat (map (block_wire N) bs))) = Some bs) \<and>
     (\<forall>b. fits (block_wire N b) \<longrightarrow> block_of N (block_wire N b) = Some b) \<and>
     (\<forall>b. length (block_value N b) \<le> length (block_wire N b)) \<and>
     (\<forall>c. comp_of_block N (comp_block N c) = Some c) \<and>
     (\<forall>bs. lzma_decompress N (lzma_compress N bs) = Some bs)"

definition data_laws :: "('n, 'c, 'b, 'd, 'i) ndn \<Rightarrow> bool" where
  "data_laws N \<longleftrightarrow>
     (\<forall>d. block_type N (data_wire N d) = tlv_Data \<and>
        length (block_wire N (data_content N d)) \<le> length (block_wire N (data_wire N d)) \<and>
        (fits (block_wire N (data_wire N d)) \<longrightarrow> data_of_block N (data_wire N d) = Some d)) \<and>
     (\<forall>a. data_name N (data_new N a) = da_name a \<and>
        data_content_type N (data_new N a) = (case da_content_type a of None \<Rightarrow> 0 | Some t \<Rightarrow> t) \<and>
        data_final_block N (data_new N a) = da_final_block a) \<and>
     (\<forall>a b. da_content a = PayloadBlock b \<longrightarrow>
        (if block_type N b = tlv_Content then data_content N (data_new N a) = b
         else block_value N (data_content N (data_new N a)) = block_wire N b)) \<and>
     (\<forall>a bs. da_content a = PayloadBytes bs \<longrightarrow>
        block_value N (data_content N (data_new N a)) = bs)"

definition interest_laws :: "('n, 'c, 'b, 'd, 'i) ndn \<Rightarrow> bool" where
  "interest_laws N \<longleftrightarrow>
     (\<forall>n p l. interest_digest_ok N (interest_new N n (Some p) l) \<and>
        (\<exists>c. comp_is_digest N c \<and>
           nm_comps N (interest_name N (interest_new N n (Some p) l)) = nm_comps N n @ [c]) \<and>
        (if block_type N p = tlv_ApplicationParameters
         then interest_params N (interest_new N n (Some p) l) = Some p
         else \<exists>q. interest_params N (interest_new N n (Some p) l) = Some q \<and>
                (fits (block_wire N p) \<longrightarrow> block_elems N q = Some [p])))"

definition packet_laws :: "('n, 'c, 'b, 'd, 'i) ndn \<Rightarrow> bool" where
  "packet_laws N \<longleftrightarrow> block_laws N \<and> data_laws N \<and> interest_laws N"

lemma packet_law_nested:
  assumes "packet_laws N"
  shows "block_type N (block_nested N t bs) = t"
    and "block_wire N (block_nested N t bs) = tlv_bytes N t (concat (map (block_wire N) bs))"
    and "fits (block_wire N (block_nested N t bs)) \<Longrightarrow> block_elems N (block_nested N t bs) = Some bs"
  using assms by (simp_all add: packet_laws_def block_laws_def)

lemma packet_law_data:
  assumes "packet_laws N"
  shows "block_type N (data_wire N d) = tlv_Data"
    and "fits (block_wire N (data_wire N d)) \<Longrightarrow> data_of_block N (data_wire N d) = Some d"
    and "length (block_wire N (data_content N d)) \<le> length (block_wire N (data_wire N d))"
    and "data_name N (data_new N a) = da_name a"
    and "da_content a = PayloadBlock b \<Longrightarrow> block_type N b = tlv_Content \<Longrightarrow>
      data_content N (data_new N a) = b"
  using assms by (simp_all add: packet_laws_def data_laws_def)

lemma packet_law_content_fits:
  "packet_laws N \<Longrightarrow> fits (block_wire N (data_wire N d)) \<Longrightarrow> fits (block_wire N (data_content N d))"
  using packet_law_data(3) [of N d] unfolding fits_def by (meson le_less_trans)

lemma packet_law_interest:
  assumes "packet_laws N"
  shows "interest_digest_ok N (interest_new N n (Some p) l)"
    and "\<exists>c. comp_is_digest N c \<and>
      nm_comps N (interest_name N (interest_new N n (Some p) l)) = nm_comps N n @ [c]"
    and "block_type N p = tlv_ApplicationParameters \<Longrightarrow>
      interest_params N (interest_new N n (Some p) l) = Some p"
    and "block_type N p \<noteq> tlv_ApplicationParameters \<Longrightarrow>
      \<exists>q. interest_params N (interest_new N n (Some p) l) = Some q \<and>
        (fits (block_wire N p) \<longrightarrow> block_elems N q = Some [p])"
  using assms unfolding packet_laws_def interest_laws_def by presburger+

lemma packet_law_lzma:
  assumes "packet_laws N"
  shows "lzma_decompress N (lzma_compress N bs) = Some bs"
    and "block_type N (block_with_value N t bs) = t"
    and "block_value N (block_with_value N t bs) = bs"
  using assms by (simp_all add: packet_laws_def block_laws_def)

lemma packet_law_content:
  assumes "packet_laws N"
  shows "da_content a = PayloadBlock b \<Longrightarrow> block_type N b \<noteq> tlv_Content \<Longrightarrow>
      block_value N (data_content N (data_new N a)) = block_wire N b"
    and "da_content a = PayloadBytes bs \<Longrightarrow> block_value N (data_content N (data_new N a)) = bs"
    and "data_content_type N (data_new N a) = (case da_content_type a of None \<Rightarrow> 0 | Some t \<Rightarrow> t)"
    and "data_final_block N (data_new N a) = da_final_block a"
  using assms by (simp_all add: packet_laws_def data_laws_def)

lemma packet_law_block:
  assumes "packet_laws N"
  shows "fits (block_wire N b) \<Longrightarrow> block_of N (block_wire N b) = Some b"
    and "comp_of_block N (comp_block N c) = Some c"
    and "length (block_value N b) \<le> length (block_wire N b)"
    and "fits (concat (map (block_wire N) bs)) \<Longrightarrow>
      block_elems N (block_with_value N t (concat (map (block_wire N) bs))) = Some bs"
  using assms by (simp_all add: packet_laws_def block_laws_def)

text \<open>
  A signer leaves the name, the content and the metadata of the packet it is given, and the
  packet is signed afterwards.
\<close>

definition signer_laws :: "('n, 'c, 'b, 'd, 'i) ndn \<Rightarrow> ('d \<Rightarrow> 'd result) \<Rightarrow> bool" where
  "signer_laws N sign \<longleftrightarrow>
     (\<forall>d d'. sign d = Inr d' \<longrightarrow>
        data_name N d' = data_name N d \<and> data_content N d' = data_content N d \<and>
        data_content_type N d' = data_content_type N d \<and>
        data_final_block N d' = data_final_block N d \<and> data_signed N d')"

lemma signer_law:
  assumes "signer_laws N sign" and "sign d = Inr d'"
  shows "data_name N d' = data_name N d" and "data_content N d' = data_content N d"
    and "data_content_type N d' = data_content_type N d"
    and "data_final_block N d' = data_final_block N d"
  using assms unfolding signer_laws_def by blast+

text \<open>\<^verbatim>\<open>data.getContent().value_bytes()\<close> and \<^verbatim>\<open>data.getContent().blockFromValue()\<close>\<close>

definition data_value :: "('n, 'c, 'b, 'd, 'i) ndn \<Rightarrow> 'd \<Rightarrow> bytes" where
  "data_value N d = block_value N (data_content N d)"

definition block_from_value :: "('n, 'c, 'b, 'd, 'i) ndn \<Rightarrow> 'd \<Rightarrow> 'b result" where
  "block_from_value N d = res_of_option (TlvError ''blockFromValue'') (block_of N (data_value N d))"

text \<open>What is left in a signed Data that was given a block as its content.\<close>

lemma block_from_value_signed:
  assumes "packet_laws N" and "signer_laws N sign" and "sign (data_new N a) = Inr d"
    and "da_content a = PayloadBlock b" and "block_type N b \<noteq> tlv_Content"
    and "fits (block_wire N b)"
  shows "block_from_value N d = Inr b"
  using assms(4,5,6) packet_law_content(1) [OF assms(1)] packet_law_block(1) [OF assms(1)]
    signer_law(2) [OF assms(2,3)]
  by (simp add: block_from_value_def data_value_def)

section \<open>The encoding buffer\<close>

text \<open>
  \<^verbatim>\<open>ndn::encoding::EncodingBuffer\<close> is filled from its end: every \<^verbatim>\<open>prepend\<close> puts its bytes in
  front and returns how many it wrote. The buffer is the list of its bytes.
\<close>

definition prepend_var_number ::
    "('n, 'c, 'b, 'd, 'i) ndn \<Rightarrow> nat \<Rightarrow> bytes \<Rightarrow> bytes \<times> nat" where
  "prepend_var_number N n enc = (var_num N n @ enc, length (var_num N n))"

definition prepend_nni_block ::
    "('n, 'c, 'b, 'd, 'i) ndn \<Rightarrow> u32 \<Rightarrow> u64 \<Rightarrow> bytes \<Rightarrow> bytes \<times> nat" where
  "prepend_nni_block N t x enc =
     (tlv_bytes N t (nni_value N x) @ enc, length (tlv_bytes N t (nni_value N x)))"

definition prepend_block ::
    "('n, 'c, 'b, 'd, 'i) ndn \<Rightarrow> 'b \<Rightarrow> bytes \<Rightarrow> bytes \<times> nat" where
  "prepend_block N b enc = (block_wire N b @ enc, length (block_wire N b))"

text \<open>
  The idiom of every encoder of the library: prepend the length and the type of an element
  whose \<open>len\<close> value bytes are already in the buffer, and account for them.
\<close>

definition prepend_header ::
    "('n, 'c, 'b, 'd, 'i) ndn \<Rightarrow> u32 \<Rightarrow> nat \<Rightarrow> bytes \<Rightarrow> bytes \<times> nat" where
  "prepend_header N t len enc =
     (let (enc, k1) = prepend_var_number N len enc;
          (enc, k2) = prepend_var_number N (unat t) enc
      in (enc, k1 + k2 + len))"

lemma prepend_header_value:
  "prepend_header N t (length v) (v @ enc) = (tlv_bytes N t v @ enc, length (tlv_bytes N t v))"
  by (simp add: prepend_header_def prepend_var_number_def tlv_bytes_def)

lemmas prepend_simps = prepend_nni_block_def prepend_block_def prepend_header_value

end
