(* ===== verification/Version_Vector.thy ===== *)
theory Version_Vector
  imports Ndn_Library
begin

text \<open>
  \<^verbatim>\<open>ndn::svs::VersionVector\<close> (\<^verbatim>\<open>version-vector.hpp\<close>, \<^verbatim>\<open>version-vector.cpp\<close>): the map from a
  node and one of its bootstrap times (an epoch of the node) to the last sequence number known
  of it, the cached per-node maximum, and the time of the last change per node. First the data
  and its operations, then the well-formedness invariant and the laws of the operations, then
  the two wire formats.
\<close>

section \<open>State and operations\<close>

text \<open>A \<^verbatim>\<open>time::system_clock::time_point\<close> is its signed 64-bit tick count.\<close>

type_synonym time_point = int

definition time_point_min :: time_point where
  "time_point_min = - (2 ^ 63)"

type_synonym bootstrap_seq_map = "(bootstrap_time, seq_no) std_map"

record 'n version_vector =
  m_entries :: "('n, bootstrap_seq_map) std_map"
  m_latestMap :: "('n, seq_no) std_map"
  m_lastUpdate :: "('n, time_point) std_map"

definition vv_empty :: "'n version_vector" where
  "vv_empty = \<lparr>m_entries = [], m_latestMap = [], m_lastUpdate = []\<rparr>"

definition refreshLatest :: "'n :: linorder \<Rightarrow> 'n version_vector \<Rightarrow> 'n version_vector" where
  "refreshLatest nid v =
     (case map_of (m_entries v) nid of
        None \<Rightarrow> v\<lparr>m_latestMap := map_erase nid (m_latestMap v)\<rparr>
      | Some es \<Rightarrow>
          if es = [] then v\<lparr>m_latestMap := map_erase nid (m_latestMap v)\<rparr>
          else v\<lparr>m_latestMap :=
                  map_put nid (fold (\<lambda>(_, seqNo) latest. max latest seqNo) es 0)
                    (m_latestMap v)\<rparr>)"

text \<open>\<^verbatim>\<open>m_entries[nid]\<close>: a missing node gets an empty map.\<close>

definition vv_entry_map :: "'n \<Rightarrow> 'n version_vector \<Rightarrow> bootstrap_seq_map" where
  "vv_entry_map nid v = (case map_of (m_entries v) nid of None \<Rightarrow> [] | Some es \<Rightarrow> es)"

definition vv_set ::
    "time_point \<Rightarrow> 'n :: linorder \<Rightarrow> bootstrap_time \<Rightarrow> seq_no \<Rightarrow> 'n version_vector
      \<Rightarrow> 'n version_vector result" where
  "vv_set now nid bootstrapTime seqNo v =
     (if seqNo = 0 then Inl (InvalidArgument ''SVS sequence number must be positive'')
      else
        let v = v\<lparr>m_entries := map_put nid (map_put bootstrapTime seqNo (vv_entry_map nid v))
                     (m_entries v)\<rparr>;
            v = refreshLatest nid v
        in Inr (v\<lparr>m_lastUpdate := map_put nid now (m_lastUpdate v)\<rparr>))"

definition vv_getLatest :: "'n \<Rightarrow> 'n version_vector \<Rightarrow> seq_no" where
  "vv_getLatest nid v = (case map_of (m_latestMap v) nid of None \<Rightarrow> 0 | Some s \<Rightarrow> s)"

definition vv_get :: "'n \<Rightarrow> bootstrap_time \<Rightarrow> 'n version_vector \<Rightarrow> seq_no" where
  "vv_get nid bootstrapTime v =
     (case map_of (m_entries v) nid of
        None \<Rightarrow> 0
      | Some es \<Rightarrow> (case map_of es bootstrapTime of None \<Rightarrow> 0 | Some s \<Rightarrow> s))"

definition vv_getEntries :: "'n \<Rightarrow> 'n version_vector \<Rightarrow> bootstrap_seq_map" where
  "vv_getEntries nid v = (case map_of (m_entries v) nid of None \<Rightarrow> [] | Some es \<Rightarrow> es)"

definition vv_getBootstrapTime :: "'n \<Rightarrow> 'n version_vector \<Rightarrow> bootstrap_time" where
  "vv_getBootstrapTime nid v =
     (case map_of (m_entries v) nid of
        None \<Rightarrow> 0
      | Some es \<Rightarrow> (case map_rbegin es of None \<Rightarrow> 0 | Some e \<Rightarrow> fst e))"

definition vv_getLastUpdate :: "'n \<Rightarrow> 'n version_vector \<Rightarrow> time_point" where
  "vv_getLastUpdate nid v =
     (case map_of (m_lastUpdate v) nid of None \<Rightarrow> time_point_min | Some t \<Rightarrow> t)"

definition vv_has :: "'n \<Rightarrow> 'n version_vector \<Rightarrow> bool" where
  "vv_has nid v \<longleftrightarrow> map_of (m_entries v) nid \<noteq> None"

text \<open>
  The two nested loops over \<^verbatim>\<open>getAllEntries()\<close>, flattened: every (node, epoch, number) in map
  order.
\<close>

definition vv_all :: "'n version_vector \<Rightarrow> ('n \<times> bootstrap_time \<times> seq_no) list" where
  "vv_all v = concat (map (\<lambda>(nid, es). map (\<lambda>(b, s). (nid, b, s)) es) (m_entries v))"

section \<open>Well-formedness\<close>

definition max_seq :: "bootstrap_seq_map \<Rightarrow> seq_no" where
  "max_seq es = fold max (map snd es) 0"

text \<open>
  The invariant of the class: the maps are maps, no node is kept without an epoch, every
  number is positive, and the cache holds exactly the maximum of every node.
\<close>

definition epochs_ok :: "bootstrap_seq_map \<Rightarrow> bool" where
  "epochs_ok es \<longleftrightarrow> map_ok es \<and> es \<noteq> [] \<and> (\<forall>(b, s) \<in> set es. s \<noteq> 0)"

definition vv_ok :: "'n :: linorder version_vector \<Rightarrow> bool" where
  "vv_ok v \<longleftrightarrow>
     map_ok (m_entries v) \<and> (\<forall>(nid, es) \<in> set (m_entries v). epochs_ok es) \<and>
     m_latestMap v = map (\<lambda>(nid, es). (nid, max_seq es)) (m_entries v) \<and>
     map_ok (m_lastUpdate v) \<and> fst ` set (m_lastUpdate v) = fst ` set (m_entries v)"

lemma vv_ok_empty [simp]: "vv_ok vv_empty"
  by (simp add: vv_ok_def vv_empty_def)

lemma max_seq_fold:
  "fold (\<lambda>(b, s) m. max m s) (es :: bootstrap_seq_map) a = fold max (map snd es) a"
proof -
  have "(\<lambda>(b, s) m. max m s) = max \<circ> (snd :: bootstrap_time \<times> seq_no \<Rightarrow> seq_no)"
    by (auto simp: fun_eq_iff max.commute)
  then show ?thesis
    by (simp add: fold_map)
qed

lemma map_put_map_values:
  "map_put k (f k v) (map (\<lambda>(k, v). (k, f k v)) m) = map (\<lambda>(k, v). (k, f k v)) (map_put k v m)"
  by (induction k v m rule: map_put.induct) auto

lemma epochs_ok_put:
  assumes "es = [] \<or> epochs_ok es" and "s \<noteq> 0"
  shows "epochs_ok (map_put b s es)"
proof -
  have "map_ok es" and "\<forall>e \<in> set es. snd e \<noteq> 0"
    using assms(1) by (auto simp: epochs_ok_def)
  moreover have "set (map_put b s es) \<subseteq> insert (b, s) (set es)"
    by (induction b s es rule: map_put.induct) auto
  ultimately show ?thesis
    using assms(2) by (fastforce simp: epochs_ok_def)
qed

lemma vv_entry_map_ok: "vv_ok v \<Longrightarrow> vv_entry_map nid v = [] \<or> epochs_ok (vv_entry_map nid v)"
  by (auto simp: vv_entry_map_def vv_ok_def dest!: map_of_SomeD split: option.splits)

lemma set_map_put_subset: "set (map_put k v m) \<subseteq> insert (k, v) (set m)"
  by (induction k v m rule: map_put.induct) auto

text \<open>What a successful \<^verbatim>\<open>set\<close> stores, in closed form.\<close>

definition vv_put ::
    "time_point \<Rightarrow> 'n :: linorder \<Rightarrow> bootstrap_time \<Rightarrow> seq_no \<Rightarrow> 'n version_vector
      \<Rightarrow> 'n version_vector" where
  "vv_put now nid b s v =
     \<lparr>m_entries = map_put nid (map_put b s (vv_entry_map nid v)) (m_entries v),
      m_latestMap = map_put nid (max_seq (map_put b s (vv_entry_map nid v))) (m_latestMap v),
      m_lastUpdate = map_put nid now (m_lastUpdate v)\<rparr>"

lemma vv_set_eq:
  "vv_set now nid b s v =
     (if s = 0 then Inl (InvalidArgument ''SVS sequence number must be positive'')
      else Inr (vv_put now nid b s v))"
  by (simp add: vv_set_def vv_put_def refreshLatest_def max_seq_fold max_seq_def Let_def)

lemma vv_ok_put: "vv_ok v \<Longrightarrow> s \<noteq> 0 \<Longrightarrow> vv_ok (vv_put now nid b s v)"
  using vv_entry_map_ok [of v nid] epochs_ok_put [of "vv_entry_map nid v" s b]
    set_map_put_subset [of nid "map_put b s (vv_entry_map nid v)" "m_entries v"]
    map_put_map_values [of nid "\<lambda>_. max_seq" "map_put b s (vv_entry_map nid v)" "m_entries v"]
  by (fastforce simp: vv_ok_def vv_put_def)

lemma vv_get_put:
  "vv_get n' b' (vv_put now nid b s v) = (if n' = nid \<and> b' = b then s else vv_get n' b' v)"
  by (auto simp: vv_get_def vv_put_def vv_entry_map_def split: option.splits)

section \<open>The interface the sync core uses\<close>

text \<open>
  What the core relies on: a register per key that reads back what was last put, with a least
  value for absent keys. The core's two loops over a received vector (merging it, recording
  it) only ever raise a register that is lower than the received number; their effect on every
  register is proved once here.
\<close>

locale seq_register =
  fixes get :: "'k \<Rightarrow> 'v \<Rightarrow> 's :: linorder"
    and put :: "'k \<Rightarrow> 's \<Rightarrow> 'v \<Rightarrow> 'v"
    and good :: "'v \<Rightarrow> bool"
    and bottom :: 's
  assumes get_put: "get k' (put k s v) = (if k' = k then s else get k' v)"
    and good_put: "good v \<Longrightarrow> s \<noteq> bottom \<Longrightarrow> good (put k s v)"
    and bottom_least: "bottom \<le> s"
begin

lemma get_put_all:
  "get k (fold (\<lambda>(k, s). put k s) es v) =
     (case map_of (rev es) k of None \<Rightarrow> get k v | Some s \<Rightarrow> s)"
  by (induction es arbitrary: v) (auto simp: get_put map_add_def split: option.splits)

lemma good_put_all:
  "good v \<Longrightarrow> \<forall>(k, s) \<in> set es. s \<noteq> bottom \<Longrightarrow> good (fold (\<lambda>(k, s). put k s) es v)"
  by (induction es arbitrary: v) (auto simp: good_put)

lemma get_raise_all:
  "get k (fold (\<lambda>(k, s) v. if get k v < s then put k s v else v) es v) =
     fold max (map snd (filter (\<lambda>e. fst e = k) es)) (get k v)"
  by (induction es arbitrary: v) (auto simp: get_put max_def)

lemma get_raise_all_ge:
  "get k v \<le> get k (fold (\<lambda>(k, s) v. if get k v < s then put k s v else v) es v)"
  unfolding get_raise_all by (rule fold_max_ge) simp

lemma good_raise_all:
  "good v \<Longrightarrow> good (fold (\<lambda>(k, s) v. if get k v < s then put k s v else v) es v)"
proof (induction es arbitrary: v)
  case Nil
  then show ?case by simp
next
  case (Cons e es)
  obtain k s where e: "e = (k, s)" by (cases e)
  have "good (if get k v < s then put k s v else v)"
    using Cons.prems good_put bottom_least [of "get k v"] by (auto simp: leD)
  then show ?case
    using Cons.IH by (simp add: e)
qed

text \<open>With one entry per key, raising is the pointwise maximum.\<close>

lemma get_raise_all_distinct:
  assumes "distinct (map fst es)"
  shows "get k (fold (\<lambda>(k, s) v. if get k v < s then put k s v else v) es v) =
     (case map_of es k of None \<Rightarrow> get k v | Some s \<Rightarrow> max (get k v) s)"
proof -
  have "map snd (filter (\<lambda>e. fst e = k) es) =
      (case map_of es k of None \<Rightarrow> [] | Some s \<Rightarrow> [s])"
    using assms
  proof (induction es)
    case Nil
    then show ?case by simp
  next
    case (Cons e es)
    moreover have "filter (\<lambda>e. fst e = k) es = []" if "fst e = k"
    proof -
      have "k \<notin> fst ` set es"
        using Cons.prems that by auto
      then show ?thesis
        by (auto simp: filter_empty_conv)
    qed
    ultimately show ?case
      by (cases e) auto
  qed
  then show ?thesis
    unfolding get_raise_all by (auto simp: max.commute split: option.splits)
qed

end

interpretation vv: seq_register
    "\<lambda>k. vv_get (fst k) (snd k)" "\<lambda>k s. vv_put now (fst k) (snd k) s" vv_ok 0
  for now :: time_point
  by unfold_locales (auto simp: vv_get_put vv_ok_put)

section \<open>Vectors as functions\<close>

lemma vv_get_empty [simp]: "vv_get n b vv_empty = 0"
  by (simp add: vv_get_def vv_empty_def)

lemma vv_ok_entries:
  assumes "vv_ok v"
  shows "map_ok (m_entries v)"
    and "map_of (m_entries v) n = Some es \<Longrightarrow> epochs_ok es"
  using assms by (auto simp: vv_ok_def dest!: map_of_SomeD)

lemma vv_get_nonzero:
  assumes "vv_ok v"
  shows "vv_get n b v \<noteq> 0 \<longleftrightarrow>
    (\<exists>es. map_of (m_entries v) n = Some es \<and> map_of es b = Some (vv_get n b v))"
proof -
  have "s \<noteq> 0" if "map_of (m_entries v) n = Some es" "map_of es b = Some s" for es s
    using vv_ok_entries(2) [OF assms that(1)] that(2)
    by (auto simp: epochs_ok_def dest!: map_of_SomeD)
  then show ?thesis
    by (auto simp: vv_get_def split: option.splits)
qed

lemma map_of_epochs_get:
  assumes "vv_ok v" and "map_of (m_entries v) n = Some es"
  shows "map_of es b = (if vv_get n b v = 0 then None else Some (vv_get n b v))"
  using assms vv_get_nonzero [OF assms(1), of n b]
  by (auto simp: vv_get_def split: option.splits)

lemma vv_has_iff: "vv_ok v \<Longrightarrow> map_of (m_entries v) n = None \<longleftrightarrow> (\<forall>b. vv_get n b v = 0)"
proof (cases "map_of (m_entries v) n")
  case None
  then show ?thesis by (simp add: vv_get_def)
next
  case (Some es)
  assume ok: "vv_ok v"
  obtain b s where "(b, s) \<in> set es"
    using vv_ok_entries(2) [OF ok Some] by (cases es) (auto simp: epochs_ok_def)
  then have "map_of es b = Some s"
    using vv_ok_entries(2) [OF ok Some] by (simp add: epochs_ok_def map_ok_mem)
  then have "vv_get n b v \<noteq> 0"
    using map_of_epochs_get [OF ok Some, of b] by (auto split: if_splits)
  with Some show ?thesis by auto
qed

text \<open>A well-formed vector is determined by its lookups, up to the update times.\<close>

lemma vv_ext:
  assumes v: "vv_ok v" and w: "vv_ok w" and eq: "\<And>n b. vv_get n b v = vv_get n b w"
  shows "m_entries v = m_entries w" and "m_latestMap v = m_latestMap w"
proof -
  have "map_of (m_entries v) n = map_of (m_entries w) n" for n
  proof (cases "map_of (m_entries v) n")
    case None
    then have "map_of (m_entries w) n = None"
      using eq vv_has_iff [OF v] vv_has_iff [OF w] by metis
    with None show ?thesis by simp
  next
    case (Some es)
    then obtain es' where es': "map_of (m_entries w) n = Some es'"
      using eq vv_has_iff [OF v] vv_has_iff [OF w] by (metis option.exhaust option.distinct(1))
    have "map_of es = map_of es'"
      using map_of_epochs_get [OF v Some] map_of_epochs_get [OF w es'] eq by (simp add: fun_eq_iff)
    then have "es = es'"
      using vv_ok_entries(2) [OF v Some] vv_ok_entries(2) [OF w es']
      by (auto simp: epochs_ok_def intro: map_ok_ext)
    with Some es' show ?thesis by simp
  qed
  then show "m_entries v = m_entries w"
    using v w by (auto simp: vv_ok_def intro: map_ok_ext)
  then show "m_latestMap v = m_latestMap w"
    using v w by (simp add: vv_ok_def)
qed

lemma vv_all_mem:
  assumes "vv_ok v"
  shows "(n, b, s) \<in> set (vv_all v) \<longleftrightarrow> s \<noteq> 0 \<and> vv_get n b v = s"
proof -
  have "(n, b, s) \<in> set (vv_all v) \<longleftrightarrow> (\<exists>es. (n, es) \<in> set (m_entries v) \<and> (b, s) \<in> set es)"
    by (force simp: vv_all_def)
  also have "\<dots> \<longleftrightarrow> (\<exists>es. map_of (m_entries v) n = Some es \<and> map_of es b = Some s)"
    using vv_ok_entries [OF assms] by (auto simp: map_ok_mem epochs_ok_def)
  also have "\<dots> \<longleftrightarrow> s \<noteq> 0 \<and> vv_get n b v = s"
    using vv_get_nonzero [OF assms, of n b] map_of_epochs_get [OF assms, of n _ b]
    by (fastforce split: if_splits)
  finally show ?thesis .
qed

text \<open>The entries keyed by node and epoch, as the merge loops see them.\<close>

definition vv_keyed :: "'n version_vector \<Rightarrow> (('n \<times> bootstrap_time) \<times> seq_no) list" where
  "vv_keyed v = map (\<lambda>(n, b, s). ((n, b), s)) (vv_all v)"

lemma nested_keys:
  "map fst (map (\<lambda>(n, b, s). ((n, b), s)) (concat (map (\<lambda>(n, es). map (\<lambda>(b, s). (n, b, s)) es) m)))
     = concat (map (\<lambda>(n, es). map (Pair n) (map fst es)) m)"
  by (induction m) (auto simp: comp_def split_def)

lemma distinct_nested_keys:
  assumes "distinct (map fst m)" and "\<forall>(n, es) \<in> set m. distinct (map fst es)"
  shows "distinct (concat (map (\<lambda>(n, es). map (Pair n) (map fst es)) m))"
  using assms
proof (induction m)
  case Nil
  then show ?case by simp
next
  case (Cons e m)
  obtain n es where e: "e = (n, es)" by (cases e)
  have "distinct (map (Pair n) (map fst es))"
    using Cons.prems(2) by (simp add: e distinct_map inj_on_def)
  moreover have "set (map (Pair n) (map fst es)) \<inter>
      set (concat (map (\<lambda>(n, es). map (Pair n) (map fst es)) m)) = {}"
    using Cons.prems(1) by (force simp: e)
  ultimately show ?case
    using Cons by (simp add: e)
qed

lemma vv_keyed_distinct: "vv_ok v \<Longrightarrow> distinct (map fst (vv_keyed v))"
  unfolding vv_keyed_def vv_all_def nested_keys
  by (rule distinct_nested_keys) (auto simp: vv_ok_def epochs_ok_def map_ok_distinct)

lemma map_of_vv_keyed:
  assumes "vv_ok v"
  shows "map_of (vv_keyed v) (n, b) = (if vv_get n b v = 0 then None else Some (vv_get n b v))"
proof -
  have mem: "((n, b), s) \<in> set (vv_keyed v) \<longleftrightarrow> s \<noteq> 0 \<and> vv_get n b v = s" for s
    using vv_all_mem [OF assms, of n b s] by (force simp: vv_keyed_def)
  show ?thesis
    using mem map_of_eq_Some_iff [OF vv_keyed_distinct [OF assms]]
    by (cases "map_of (vv_keyed v) (n, b)") (auto simp: map_of_eq_None_iff)
qed

section \<open>Properties\<close>

lemma vv_latest_max_seq:
  "vv_ok v \<Longrightarrow> vv_getLatest n v = (case map_of (m_entries v) n of None \<Rightarrow> 0 | Some es \<Rightarrow> max_seq es)"
proof -
  assume "vv_ok v"
  then have "m_latestMap v = map (\<lambda>(nid, es). (nid, max_seq es)) (m_entries v)"
    by (simp add: vv_ok_def)
  moreover have "map_of (map (\<lambda>(nid, es). (nid, max_seq es)) m) n = map_option max_seq (map_of m n)"
    for m :: "('a \<times> bootstrap_seq_map) list"
    by (induction m) auto
  ultimately show ?thesis
    by (auto simp: vv_getLatest_def split: option.splits)
qed

lemma max_seq_ge: "(b, s) \<in> set es \<Longrightarrow> s \<le> max_seq es"
  unfolding max_seq_def by (rule fold_max_ge) force

lemma vv_get_le_latest: "vv_ok v \<Longrightarrow> vv_get n b v \<le> vv_getLatest n v"
  by (auto simp: vv_latest_max_seq vv_get_def split: option.splits dest: map_of_SomeD intro: max_seq_ge)

lemma vv_latest_attained:
  assumes "vv_ok v"
  shows "\<exists>b. vv_get n b v = vv_getLatest n v"
proof (cases "map_of (m_entries v) n")
  case None
  then show ?thesis
    by (simp add: vv_latest_max_seq [OF assms] vv_get_def)
next
  case (Some es)
  have ok: "epochs_ok es" by (rule vv_ok_entries(2) [OF assms Some])
  have "max_seq es \<in> insert 0 (snd ` set es)"
    unfolding max_seq_def using fold_max_mem [of "map snd es" 0] by simp
  then consider b where "(b, max_seq es) \<in> set es" | "max_seq es = 0"
    by auto
  then show ?thesis
  proof cases
    case 1
    then have "map_of es b = Some (max_seq es)"
      using ok by (simp add: epochs_ok_def map_ok_mem)
    then have "vv_get n b v = vv_getLatest n v"
      using Some by (simp add: vv_latest_max_seq [OF assms] vv_get_def)
    then show ?thesis ..
  next
    case 2
    obtain b s where "(b, s) \<in> set es"
      using ok by (cases es) (auto simp: epochs_ok_def)
    then have "s \<le> max_seq es"
      by (rule max_seq_ge)
    moreover have "map_of es b = Some s" "s \<noteq> 0"
      using ok \<open>(b, s) \<in> set es\<close> by (auto simp: epochs_ok_def map_ok_mem)
    ultimately show ?thesis
      using 2 by simp
  qed
qed

lemma vv_lastUpdate_put:
  "vv_getLastUpdate n' (vv_put now nid b s v) = (if n' = nid then now else vv_getLastUpdate n' v)"
  by (simp add: vv_put_def vv_getLastUpdate_def)

lemma vv_has_put: "vv_has n' (vv_put now nid b s v) \<longleftrightarrow> n' = nid \<or> vv_has n' v"
  by (simp add: vv_put_def vv_has_def)

lemma vv_latest_put:
  "vv_getLatest n (vv_put now n b s v) = max_seq (map_put b s (vv_entry_map n v))"
  by (simp add: vv_getLatest_def vv_put_def)

text \<open>
  \<^verbatim>\<open>VersionVector::set\<close> refuses the number 0 and leaves the vector as it is; otherwise it
  keeps the class invariant, changes exactly the register of the given node and epoch, and
  stamps that node with the time of the call.
\<close>

theorem set_correct:
  assumes "vv_ok v"
  shows "if s = 0 then vv_set now nid b s v = Inl (InvalidArgument ''SVS sequence number must be positive'')
    else \<exists>w. vv_set now nid b s v = Inr w \<and> vv_ok w \<and>
      (\<forall>n' b'. vv_get n' b' w = (if n' = nid \<and> b' = b then s else vv_get n' b' v)) \<and>
      (\<forall>n'. vv_getLastUpdate n' w = (if n' = nid then now else vv_getLastUpdate n' v)) \<and>
      (\<forall>n'. vv_has n' w \<longleftrightarrow> n' = nid \<or> vv_has n' v)"
  using vv_ok_put [OF assms, of s now nid b]
  by (auto simp: vv_set_eq vv_get_put vv_lastUpdate_put vv_has_put)

theorem set_correct_witness:
  "\<exists>w. vv_set 5 (1 :: nat) 100 7 vv_empty = Inr w \<and> vv_ok w \<and>
    (\<forall>n' b'. vv_get n' b' w = (if n' = 1 \<and> b' = 100 then 7 else vv_get n' b' vv_empty)) \<and>
    (\<forall>n'. vv_getLastUpdate n' w = (if n' = 1 then 5 else vv_getLastUpdate n' vv_empty)) \<and>
    (\<forall>n'. vv_has n' w \<longleftrightarrow> n' = 1 \<or> vv_has n' vv_empty)"
  using set_correct [OF vv_ok_empty, where s = 7 and now = 5 and nid = "1 :: nat" and b = 100] by simp

text \<open>
  the cached maximum of \<^verbatim>\<open>getLatest\<close> is right in every well-formed vector: it bounds the
  number of every epoch of the node, one epoch attains it, and it is 0 exactly for a node the
  vector does not hold.
\<close>

theorem latest_correct:
  assumes "vv_ok v"
  shows "(\<forall>b. vv_get n b v \<le> vv_getLatest n v) \<and> (\<exists>b. vv_get n b v = vv_getLatest n v) \<and>
    (vv_getLatest n v = 0 \<longleftrightarrow> \<not> vv_has n v)"
  using vv_get_le_latest [OF assms] vv_latest_attained [OF assms, of n] vv_has_iff [OF assms, of n]
  by (metis vv_has_def word_le_0_iff)

theorem latest_correct_witness:
  "(\<forall>b. vv_get 1 b (vv_put 5 (1 :: nat) 100 7 vv_empty) \<le>
      vv_getLatest 1 (vv_put 5 (1 :: nat) 100 7 vv_empty)) \<and>
   (\<exists>b. vv_get 1 b (vv_put 5 (1 :: nat) 100 7 vv_empty) =
      vv_getLatest 1 (vv_put 5 (1 :: nat) 100 7 vv_empty)) \<and>
   (vv_getLatest 1 (vv_put 5 (1 :: nat) 100 7 vv_empty) = 0 \<longleftrightarrow>
      \<not> vv_has 1 (vv_put 5 (1 :: nat) 100 7 vv_empty))"
  by (rule latest_correct) (rule vv_ok_put [OF vv_ok_empty], simp)

end
