(* ===== verification/Ndn_Instance.thy ===== *)
theory Ndn_Instance
  imports Ndn_Library "HOL-Library.List_Lexorder" "HOL-Library.Product_Lexorder"
begin

text \<open>
  A concrete \<open>ndn\<close>, with the TLV encoding of the NDN packet format: variable-size numbers of
  1, 3, 5 or 9 bytes, non-negative integers of 1, 2, 4 or 8 bytes, names as sequences of
  components. It satisfies the laws of \<^verbatim>\<open>Ndn_Library\<close>, so that the hypotheses of the
  properties can hold, and the witnesses run on it. Packets keep what the code reads of them;
  the digest component and the compressor are placeholders, about which nothing but the laws is
  used.
\<close>

section \<open>Numbers as bytes\<close>

definition be_bytes :: "nat \<Rightarrow> nat \<Rightarrow> bytes" where
  "be_bytes k n = map (\<lambda>i. word_of_nat (n div 256 ^ i)) (rev [0..<k])"

definition be_value :: "bytes \<Rightarrow> nat" where
  "be_value bs = foldl (\<lambda>a b. a * 256 + unat b) 0 bs"

lemma length_be_bytes [simp]: "length (be_bytes k n) = k"
  by (simp add: be_bytes_def)

lemma be_bytes_Suc: "be_bytes (Suc k) n = be_bytes k (n div 256) @ [word_of_nat n]"
proof -
  have "[0..<Suc k] = 0 # map Suc [0..<k]"
    by (metis map_Suc_upt upt_rec zero_less_Suc)
  then show ?thesis
    by (simp add: be_bytes_def rev_map div_mult2_eq del: upt_Suc)
qed

lemma be_value_snoc [simp]: "be_value (bs @ [b]) = be_value bs * 256 + unat b"
  by (simp add: be_value_def)

lemma be_value_bytes: "n < 256 ^ k \<Longrightarrow> be_value (be_bytes k n) = n"
proof (induction k arbitrary: n)
  case 0
  then show ?case by (simp add: be_bytes_def be_value_def)
next
  case (Suc k)
  have "n div 256 < 256 ^ k"
    using Suc.prems by (simp add: less_mult_imp_div_less mult.commute)
  then have "be_value (be_bytes (Suc k) n) = n div 256 * 256 + n mod 256"
    using Suc.IH by (simp add: be_bytes_Suc unat_of_nat)
  then show ?case by simp
qed

definition i_var_num :: "nat \<Rightarrow> bytes" where
  "i_var_num n =
     (if n < 253 then be_bytes 1 n
      else if n < 2 ^ 16 then 253 # be_bytes 2 n
      else if n < 2 ^ 32 then 254 # be_bytes 4 n
      else 255 # be_bytes 8 n)"

definition i_read_num :: "nat \<Rightarrow> bytes \<Rightarrow> (nat \<times> bytes) option" where
  "i_read_num k bs = (if length bs < k then None else Some (be_value (take k bs), drop k bs))"

definition i_read_var :: "bytes \<Rightarrow> (nat \<times> bytes) option" where
  "i_read_var bs =
     (case bs of
        [] \<Rightarrow> None
      | b # r \<Rightarrow>
          if b = 253 then i_read_num 2 r
          else if b = 254 then i_read_num 4 r
          else if b = 255 then i_read_num 8 r
          else Some (unat b, r))"

lemma i_read_num: "n < 256 ^ k \<Longrightarrow> i_read_num k (be_bytes k n @ r) = Some (n, r)"
  by (simp add: i_read_num_def be_value_bytes)

lemma be_bytes_1: "be_bytes (Suc 0) n = [word_of_nat n]"
  by (simp add: be_bytes_def)

lemma i_read_var: "n < 2 ^ 64 \<Longrightarrow> i_read_var (i_var_num n @ r) = Some (n, r)"
proof -
  assume n: "n < 2 ^ 64"
  show ?thesis
  proof (cases "n < 253")
    case True
    then have "unat (word_of_nat n :: u8) = n"
      by (simp add: unat_of_nat)
    moreover from this have "(word_of_nat n :: u8) \<noteq> 253" "(word_of_nat n :: u8) \<noteq> 254"
      "(word_of_nat n :: u8) \<noteq> 255"
      using True by auto
    ultimately show ?thesis
      using True by (simp add: i_var_num_def be_bytes_1 i_read_var_def)
  next
    case False
    then show ?thesis
      using n by (simp add: i_var_num_def i_read_var_def i_read_num)
  qed
qed

lemma i_var_num_nonempty: "i_var_num n \<noteq> []"
  by (simp add: i_var_num_def be_bytes_1)

definition i_nni :: "u64 \<Rightarrow> bytes" where
  "i_nni x =
     (if unat x < 2 ^ 8 then be_bytes 1 (unat x)
      else if unat x < 2 ^ 16 then be_bytes 2 (unat x)
      else if unat x < 2 ^ 32 then be_bytes 4 (unat x)
      else be_bytes 8 (unat x))"

definition i_read_nni :: "bytes \<Rightarrow> u64 option" where
  "i_read_nni bs = (if length bs \<in> {1, 2, 4, 8} then Some (word_of_nat (be_value bs)) else None)"

lemma i_read_nni: "i_read_nni (i_nni x) = Some x"
proof -
  have x: "unat x < 256 ^ 8"
    using unsigned_less [of x, where ?'a = nat] by simp
  consider "unat x < 256 ^ 1" | "unat x < 256 ^ 2" "\<not> unat x < 256 ^ 1"
    | "unat x < 256 ^ 4" "\<not> unat x < 256 ^ 2" | "\<not> unat x < 256 ^ 4"
    by linarith
  then show ?thesis
    by cases (use x in \<open>simp_all add: i_nni_def i_read_nni_def be_value_bytes\<close>)
qed

section \<open>Blocks\<close>

type_synonym i_block = "u32 \<times> bytes"

definition i_wire :: "i_block \<Rightarrow> bytes" where
  "i_wire b = i_var_num (unat (fst b)) @ i_var_num (length (snd b)) @ snd b"

definition i_read_tlv :: "bytes \<Rightarrow> (i_block \<times> bytes) option" where
  "i_read_tlv bs =
     (case i_read_var bs of
        None \<Rightarrow> None
      | Some (t, bs) \<Rightarrow>
          (case i_read_var bs of
             None \<Rightarrow> None
           | Some (l, bs) \<Rightarrow>
               if 2 ^ 32 \<le> t \<or> length bs < l then None
               else Some ((word_of_nat t, take l bs), drop l bs)))"

lemma i_read_tlv: "length (snd b) < 2 ^ 64 \<Longrightarrow> i_read_tlv (i_wire b @ r) = Some (b, r)"
proof -
  assume l: "length (snd b) < 2 ^ 64"
  have t: "unat (fst b) < 2 ^ 32"
    using unsigned_less [of "fst b", where ?'a = nat] by simp
  then have "unat (fst b) < 2 ^ 64"
    by simp
  then show ?thesis
    using l t by (simp add: i_wire_def i_read_tlv_def i_read_var)
qed

fun i_parse_all :: "nat \<Rightarrow> bytes \<Rightarrow> i_block list option" where
  "i_parse_all fuel [] = Some []"
| "i_parse_all 0 bs = None"
| "i_parse_all (Suc fuel) bs =
     (case i_read_tlv bs of
        None \<Rightarrow> None
      | Some (b, r) \<Rightarrow> map_option (Cons b) (i_parse_all fuel r))"

definition i_elems :: "bytes \<Rightarrow> i_block list option" where
  "i_elems v = i_parse_all (length v) v"

lemma i_wire_nonempty: "i_wire b \<noteq> []"
  by (simp add: i_wire_def i_var_num_nonempty)

lemma i_parse_all:
  assumes "length (concat (map i_wire bs)) < 2 ^ 64" and "length bs \<le> fuel"
  shows "i_parse_all fuel (concat (map i_wire bs)) = Some bs"
  using assms
proof (induction bs arbitrary: fuel)
  case Nil
  then show ?case by simp
next
  case (Cons b bs)
  obtain f where fuel: "fuel = Suc f"
    using Cons.prems(2) by (cases fuel) auto
  have "length (snd b) < 2 ^ 64"
    using Cons.prems(1) by (simp add: i_wire_def)
  then have "i_read_tlv (i_wire b @ concat (map i_wire bs)) = Some (b, concat (map i_wire bs))"
    by (rule i_read_tlv)
  moreover have "i_parse_all f (concat (map i_wire bs)) = Some bs"
    using Cons by (simp add: fuel)
  moreover obtain x xs where "i_wire b @ concat (map i_wire bs) = x # xs"
    using i_wire_nonempty [of b] by (cases "i_wire b") auto
  ultimately show ?case
    by (simp add: fuel)
qed

lemma length_i_wires: "length bs \<le> length (concat (map i_wire bs))"
proof (induction bs)
  case Nil
  then show ?case by simp
next
  case (Cons b bs)
  obtain x xs where "i_wire b = x # xs"
    using i_wire_nonempty [of b] by (cases "i_wire b") auto
  then show ?case
    using Cons by simp
qed

lemma i_elems: "length (concat (map i_wire bs)) < 2 ^ 64 \<Longrightarrow> i_elems (concat (map i_wire bs)) = Some bs"
  unfolding i_elems_def by (rule i_parse_all) (auto simp: length_i_wires)

definition i_block_of :: "bytes \<Rightarrow> i_block option" where
  "i_block_of bs =
     (case i_read_tlv bs of
        Some (b, []) \<Rightarrow> if i_wire b = bs then Some b else None
      | _ \<Rightarrow> None)"

lemma i_block_of: "length (snd b) < 2 ^ 64 \<Longrightarrow> i_block_of (i_wire b) = Some b"
  using i_read_tlv [of b "[]"] by (simp add: i_block_of_def)

lemma i_block_of_wire: "i_block_of bs = Some b \<Longrightarrow> i_wire b = bs"
  by (auto simp: i_block_of_def split: option.splits prod.splits list.splits if_splits)

lemma i_read_tlv_type: "i_read_tlv (i_wire c @ r) = Some (b, r') \<Longrightarrow> fst b = fst c"
proof -
  assume b: "i_read_tlv (i_wire c @ r) = Some (b, r')"
  have "unat (fst c) < 2 ^ 64"
    using unsigned_less [of "fst c", where ?'a = nat] by simp
  then have "i_read_var (i_wire c @ r) = Some (unat (fst c), i_var_num (length (snd c)) @ snd c @ r)"
    by (simp add: i_wire_def i_read_var)
  then show "fst b = fst c"
    using b by (auto simp: i_read_tlv_def split: option.splits prod.splits if_splits)
qed

lemma i_block_of_type: "i_block_of (i_wire c) = Some b \<Longrightarrow> fst b = fst c"
  using i_read_tlv_type [of c "[]"]
  by (auto simp: i_block_of_def split: option.splits prod.splits list.splits if_splits)

section \<open>Names and packets\<close>

type_synonym i_comp = i_block
type_synonym i_name = "i_comp list"

definition i_typed :: "u32 \<Rightarrow> u64 \<Rightarrow> i_comp" where
  "i_typed t x = (t, i_nni x)"

definition i_typed_of :: "u32 \<Rightarrow> i_comp \<Rightarrow> u64 option" where
  "i_typed_of t c = (if fst c = t then i_read_nni (snd c) else None)"

lemma i_typed_of: "i_typed_of t (i_typed t x) = Some x"
  by (simp add: i_typed_def i_typed_of_def i_read_nni)

definition i_slice :: "i_name \<Rightarrow> int \<Rightarrow> i_name" where
  "i_slice n k = (if 0 \<le> k then take (nat k) n else take (length n - nat (- k)) n)"

definition i_at :: "i_name \<Rightarrow> int \<Rightarrow> i_comp option" where
  "i_at n k =
     (let i = (if 0 \<le> k then k else int (length n) + k)
      in if 0 \<le> i \<and> i < int (length n) then Some (n ! nat i) else None)"

definition i_name_wire :: "i_name \<Rightarrow> i_block" where
  "i_name_wire n = (tlv_Name, concat (map i_wire n))"

definition i_name_of :: "i_block \<Rightarrow> i_name option" where
  "i_name_of b = (if fst b = tlv_Name then i_elems (snd b) else None)"

text \<open>
  A Data: its name, its content block, whether it carries a signature, and the metadata: content
  type, freshness period and final block.
\<close>

type_synonym i_meta = "u32 \<times> u64 \<times> i_comp option"
type_synonym i_data = "i_name \<times> i_block \<times> bool \<times> i_meta"

definition i_meta_blocks :: "i_meta \<Rightarrow> i_block list" where
  "i_meta_blocks m =
     (case m of (ct, fr, fb) \<Rightarrow>
        [(24, i_nni (ucast ct)), (25, i_nni fr)] @
        (case fb of None \<Rightarrow> [] | Some c \<Rightarrow> [(26, i_wire c)]))"

definition i_meta_wire :: "i_meta \<Rightarrow> i_block" where
  "i_meta_wire m = (20, concat (map i_wire (i_meta_blocks m)))"

definition i_meta_of :: "i_block \<Rightarrow> i_meta option" where
  "i_meta_of b =
     (case i_elems (snd b) of
        Some [ct, fr] \<Rightarrow>
          (case (i_read_nni (snd ct), i_read_nni (snd fr)) of
             (Some ct, Some fr) \<Rightarrow> Some (ucast ct, fr, None)
           | _ \<Rightarrow> None)
      | Some [ct, fr, fb] \<Rightarrow>
          (case (i_read_nni (snd ct), i_read_nni (snd fr), i_block_of (snd fb)) of
             (Some ct, Some fr, Some c) \<Rightarrow> Some (ucast ct, fr, Some c)
           | _ \<Rightarrow> None)
      | _ \<Rightarrow> None)"

definition i_data_wire :: "i_data \<Rightarrow> i_block" where
  "i_data_wire d =
     (case d of (n, c, s, m) \<Rightarrow>
        (tlv_Data,
         concat (map i_wire [i_name_wire n, i_meta_wire m, c, (23, if s then [1] else [])])))"

definition i_data_of :: "i_block \<Rightarrow> i_data option" where
  "i_data_of b =
     (if fst b \<noteq> tlv_Data then None
      else
        (case i_elems (snd b) of
           Some [n, m, c, s] \<Rightarrow>
             (case (i_name_of n, i_meta_of m) of
                (Some n, Some m) \<Rightarrow> Some (n, c, snd s \<noteq> [], m)
              | _ \<Rightarrow> None)
         | _ \<Rightarrow> None))"

definition i_content :: "i_block data_payload \<Rightarrow> i_block" where
  "i_content p =
     (case p of
        PayloadBlock b \<Rightarrow> if fst b = tlv_Content then b else (tlv_Content, i_wire b)
      | PayloadBytes bs \<Rightarrow> (tlv_Content, bs))"

definition i_data_new :: "(i_name, i_comp, i_block) data_args \<Rightarrow> i_data" where
  "i_data_new a =
     (da_name a, i_content (da_content a), False,
      (case da_content_type a of None \<Rightarrow> 0 | Some t \<Rightarrow> t),
      word_of_int (da_freshness a), da_final_block a)"

type_synonym i_interest = "i_name \<times> i_block option"

definition i_interest_new :: "i_name \<Rightarrow> i_block option \<Rightarrow> i_interest" where
  "i_interest_new n p =
     (case p of
        None \<Rightarrow> (n, None)
      | Some b \<Rightarrow>
          (n @ [(2, [])],
           Some (if fst b = tlv_ApplicationParameters then b
                 else (tlv_ApplicationParameters, i_wire b))))"

definition i_ndn :: "(i_name, i_comp, i_block, i_data, i_interest) ndn" where
  "i_ndn =
     \<lparr>nm_comps = (\<lambda>n. n), nm_empty = [], nm_append = (@), nm_push = (\<lambda>n c. n @ [c]),
      nm_size = length, nm_prefix = i_slice, nm_at = i_at,
      nm_is_prefix = (\<lambda>m n. take (length m) n = m),
      comp_of_string = (\<lambda>s. (8, map of_char s)),
      comp_version = i_typed 54, comp_is_version = (\<lambda>c. i_typed_of 54 c \<noteq> None),
      comp_segment = i_typed 50, comp_segment_of = i_typed_of 50,
      comp_seq = i_typed 58, comp_seq_of = i_typed_of 58,
      comp_number = i_typed 8, comp_number_of = i_typed_of 8,
      comp_timestamp = i_typed 56, comp_timestamp_of = i_typed_of 56,
      comp_is_digest = (\<lambda>c. fst c = 2),
      comp_block = (\<lambda>c. c), comp_of_block = Some,
      var_num = i_var_num, nni_value = i_nni, block_of = i_block_of,
      block_from_buffer = (\<lambda>bs. map_option fst (i_read_tlv bs)), block_type = fst,
      block_wire = i_wire, block_elems = (\<lambda>b. i_elems (snd b)),
      block_nni = (\<lambda>b. i_read_nni (snd b)),
      block_nested = (\<lambda>t bs. (t, concat (map i_wire bs))),
      name_wire = i_name_wire, name_of_block = i_name_of,
      data_new = i_data_new,
      data_name = fst, data_content = (\<lambda>d. fst (snd d)),
      data_content_type = (\<lambda>d. fst (snd (snd (snd d)))),
      data_freshness = (\<lambda>d. uint (fst (snd (snd (snd (snd d)))))),
      data_final_block = (\<lambda>d. snd (snd (snd (snd (snd d))))),
      data_full_name = (\<lambda>d. fst d @ [(1, [])]),
      data_signed = (\<lambda>d. fst (snd (snd d))),
      data_wire = i_data_wire, data_of_block = i_data_of,
      interest_new = (\<lambda>n p _. i_interest_new n p),
      interest_name = fst, interest_digest_ok = (\<lambda>i. fst i \<noteq> [] \<and> fst (last (fst i)) = 2),
      interest_params = snd,
      lzma_compress = (\<lambda>bs. bs), lzma_decompress = Some,
      block_with_value = Pair, block_value = snd\<rparr>"

section \<open>The laws\<close>

lemma i_names:
  "nm_comps i_ndn = (\<lambda>n. n)" "nm_empty i_ndn = []" "nm_append i_ndn = (@)"
  "nm_push i_ndn = (\<lambda>n c. n @ [c])" "nm_size i_ndn = length" "nm_prefix i_ndn = i_slice"
  "nm_at i_ndn = i_at" "nm_is_prefix i_ndn = (\<lambda>m n. take (length m) n = m)"
  "comp_version i_ndn = i_typed 54" "comp_is_version i_ndn = (\<lambda>c. i_typed_of 54 c \<noteq> None)"
  "comp_segment i_ndn = i_typed 50" "comp_segment_of i_ndn = i_typed_of 50"
  "comp_seq i_ndn = i_typed 58" "comp_seq_of i_ndn = i_typed_of 58"
  "comp_number i_ndn = i_typed 8" "comp_number_of i_ndn = i_typed_of 8"
  "comp_timestamp i_ndn = i_typed 56" "comp_timestamp_of i_ndn = i_typed_of 56"
  "comp_is_digest i_ndn = (\<lambda>c. fst c = 2)"
  "comp_block i_ndn = (\<lambda>c. c)" "comp_of_block i_ndn = Some"
  by (simp_all add: i_ndn_def)

lemma i_blocks:
  "var_num i_ndn = i_var_num" "nni_value i_ndn = i_nni" "block_of i_ndn = i_block_of"
  "block_from_buffer i_ndn = (\<lambda>bs. map_option fst (i_read_tlv bs))"
  "block_type i_ndn = fst" "block_wire i_ndn = i_wire" "block_elems i_ndn = (\<lambda>b. i_elems (snd b))"
  "block_nni i_ndn = (\<lambda>b. i_read_nni (snd b))"
  "block_nested i_ndn = (\<lambda>t bs. (t, concat (map i_wire bs)))"
  "name_wire i_ndn = i_name_wire" "name_of_block i_ndn = i_name_of"
  by (simp_all add: i_ndn_def)

lemma i_packets:
  "data_new i_ndn = i_data_new"
  "data_content_type i_ndn = (\<lambda>d. fst (snd (snd (snd d))))"
  "data_freshness i_ndn = (\<lambda>d. uint (fst (snd (snd (snd (snd d))))))"
  "data_final_block i_ndn = (\<lambda>d. snd (snd (snd (snd (snd d)))))"
  "data_full_name i_ndn = (\<lambda>d. fst d @ [(1, [])])"
  "data_name i_ndn = fst" "data_content i_ndn = (\<lambda>d. fst (snd d))"
  "data_signed i_ndn = (\<lambda>d. fst (snd (snd d)))" "data_wire i_ndn = i_data_wire"
  "data_of_block i_ndn = i_data_of"
  "interest_new i_ndn = (\<lambda>n p _. i_interest_new n p)"
  "interest_name i_ndn = fst"
  "interest_digest_ok i_ndn = (\<lambda>i. fst i \<noteq> [] \<and> fst (last (fst i)) = 2)"
  "interest_params i_ndn = snd"
  "lzma_compress i_ndn = (\<lambda>bs. bs)" "lzma_decompress i_ndn = Some"
  "block_with_value i_ndn = Pair" "block_value i_ndn = snd"
  by (simp_all add: i_ndn_def)

lemma i_tlv_bytes: "tlv_bytes i_ndn t v = i_wire (t, v)"
  by (simp add: tlv_bytes_def i_blocks i_wire_def)

lemma i_fits: "fits (i_wire b) \<Longrightarrow> length (snd b) < 2 ^ 64"
  by (simp add: fits_def i_wire_def)

lemma i_value_length: "length (snd b) \<le> length (i_wire b)"
  by (simp add: i_wire_def)

lemma i_block_of_fits: "fits (i_wire b) \<Longrightarrow> i_block_of (i_wire b) = Some b"
  using i_block_of i_fits by blast

lemma i_block_of_nni: "i_block_of (i_wire (t, i_nni x)) = Some (t, i_nni x)"
  by (rule i_block_of) (simp add: i_nni_def)

lemma i_elems_fits: "fits (i_wire (t, concat (map i_wire bs))) \<Longrightarrow> i_elems (concat (map i_wire bs)) = Some bs"
  using i_elems i_fits by fastforce

lemma i_name_of_wire: "fits (i_wire (i_name_wire n)) \<Longrightarrow> i_name_of (i_name_wire n) = Some n"
  using i_elems_fits [of tlv_Name n] by (simp add: i_name_of_def i_name_wire_def)

lemma i_tlv_laws: "tlv_laws i_ndn"
  unfolding tlv_laws_def i_tlv_bytes i_blocks
proof (intro conjI allI impI)
  fix t :: u32 and v :: bytes
  assume f: "fits (i_wire (t, v))"
  then show "i_block_of (i_wire (t, v)) \<noteq> None"
    by (simp add: i_block_of_fits)
  show "map_option fst (i_read_tlv (i_wire (t, v))) = i_block_of (i_wire (t, v))"
    using i_block_of_fits [OF f] i_read_tlv [of "(t, v)" "[]"] i_fits [OF f] by simp
next
  fix bs b
  assume "i_block_of bs = Some b"
  then show "i_wire b = bs" by (rule i_block_of_wire)
next
  fix t :: u32 and v b
  assume "i_block_of (i_wire (t, v)) = Some b"
  then show "fst b = t" using i_block_of_type by fastforce
next
  fix t bs b
  assume "fits (i_wire (t, concat (map i_wire bs)))"
    and "i_block_of (i_wire (t, concat (map i_wire bs))) = Some b"
  then show "i_elems (snd b) = Some bs"
    using i_block_of_fits i_elems_fits [of t bs] by fastforce
next
  fix t x b
  assume "i_block_of (i_wire (t, i_nni x)) = Some b"
  then show "i_read_nni (snd b) = Some x"
    using i_block_of_nni i_read_nni by fastforce
next
  fix n
  show "fst (i_name_wire n) = tlv_Name"
    by (simp add: i_name_wire_def)
  show "i_name_of (i_name_wire n) = Some n" if "fits (i_wire (i_name_wire n))"
    using that by (rule i_name_of_wire)
qed

lemma i_at_back: "0 < k \<Longrightarrow> k \<le> length n \<Longrightarrow> i_at n (- int k) = Some (n ! (length n - k))"
proof -
  assume k: "0 < k" "k \<le> length n"
  then have "int (length n) + - int k = int (length n - k)"
    by simp
  moreover have "length n - k < length n"
    using k by simp
  ultimately show ?thesis
    using k(1) unfolding i_at_def Let_def by (simp del: of_nat_diff)
qed

lemma inj_i_typed: "inj (i_typed t)"
  by (rule injI) (metis i_typed_of option.inject)

lemma i_name_laws: "name_laws i_ndn"
  unfolding name_laws_def i_names
  by (intro conjI allI impI)
    (simp_all add: i_slice_def i_typed_of inj_i_typed i_at_back)

lemma i_meta_of_wire:
  assumes "fits (i_wire (i_meta_wire m))"
  shows "i_meta_of (i_meta_wire m) = Some m"
proof -
  obtain ct fr fb where m: "m = (ct, fr, fb)" by (cases m)
  have ct: "ucast (ucast ct :: u64) = ct"
    by (rule ucast_up_ucast_id) (simp add: is_up.rep_eq)
  have "fits (i_wire (20, concat (map i_wire (i_meta_blocks m))))"
    using assms by (simp add: i_meta_wire_def)
  then have e: "i_elems (concat (map i_wire (i_meta_blocks m))) = Some (i_meta_blocks m)"
    by (rule i_elems_fits)
  show ?thesis
  proof (cases fb)
    case None
    then show ?thesis
      using e ct by (simp add: m i_meta_wire_def i_meta_of_def i_meta_blocks_def i_read_nni)
  next
    case (Some c)
    have "fits (i_wire c)"
      using assms by (simp add: m Some i_meta_wire_def i_meta_blocks_def fits_def i_wire_def)
    then show ?thesis
      using e ct i_block_of_fits [of c]
      by (simp add: m Some i_meta_wire_def i_meta_of_def i_meta_blocks_def i_read_nni)
  qed
qed

lemma i_data_of_wire:
  assumes "fits (i_wire (i_data_wire d))"
  shows "i_data_of (i_data_wire d) = Some d"
proof -
  obtain n c s m where d: "d = (n, c, s, m)" by (cases d)
  let ?bs = "[i_name_wire n, i_meta_wire m, c, (23 :: u32, if s then [1 :: u8] else [])]"
  have f: "fits (i_wire (tlv_Data, concat (map i_wire ?bs)))"
    using assms by (simp add: d i_data_wire_def)
  then have "i_elems (concat (map i_wire ?bs)) = Some ?bs"
    by (rule i_elems_fits)
  moreover have "fits (i_wire (i_name_wire n))"
    using f by (simp add: fits_def i_wire_def)
  then have "i_name_of (i_name_wire n) = Some n"
    by (rule i_name_of_wire)
  moreover have "fits (i_wire (i_meta_wire m))"
    using f by (simp add: fits_def i_wire_def)
  then have "i_meta_of (i_meta_wire m) = Some m"
    by (rule i_meta_of_wire)
  ultimately show ?thesis
    by (simp add: d i_data_wire_def i_data_of_def)
qed

lemma i_data_content_length: "length (i_wire (fst (snd d))) \<le> length (i_wire (i_data_wire d))"
  by (cases d) (simp add: i_data_wire_def i_wire_def)

lemma i_wire_wrapped: "fits (i_wire b) \<Longrightarrow> i_elems (i_wire b) = Some [b]"
  using i_elems [of "[b]"] by (simp add: fits_def)

lemma i_block_laws: "block_laws i_ndn"
  unfolding block_laws_def i_tlv_bytes i_blocks i_packets i_names
proof (intro conjI allI impI)
  fix t bs
  assume "fits (i_wire (t, concat (map i_wire bs)))"
  then show "i_elems (snd (t, concat (map i_wire bs))) = Some bs"
    by (simp add: i_elems_fits [of t])
next
  fix t :: u32 and bs
  assume "fits (concat (map i_wire bs))"
  then show "i_elems (snd (t, concat (map i_wire bs))) = Some bs"
    unfolding snd_conv fits_def by (rule i_elems)
qed (simp_all add: i_block_of_fits i_value_length)

lemma i_data_laws: "data_laws i_ndn"
  unfolding data_laws_def i_blocks i_names i_packets
proof (intro conjI allI impI)
  fix d
  show "fst (i_data_wire d) = tlv_Data"
    by (cases d) (simp add: i_data_wire_def)
  show "length (i_wire (fst (snd d))) \<le> length (i_wire (i_data_wire d))"
    by (rule i_data_content_length)
  show "i_data_of (i_data_wire d) = Some d" if "fits (i_wire (i_data_wire d))"
    using that by (rule i_data_of_wire)
qed (simp_all add: i_content_def i_data_new_def)

lemma i_packet_laws: "packet_laws i_ndn"
  unfolding packet_laws_def interest_laws_def
proof (intro conjI allI i_block_laws i_data_laws)
  fix n p and l :: int
  show "if block_type i_ndn p = tlv_ApplicationParameters
    then interest_params i_ndn (interest_new i_ndn n (Some p) l) = Some p
    else \<exists>q. interest_params i_ndn (interest_new i_ndn n (Some p) l) = Some q \<and>
      (fits (block_wire i_ndn p) \<longrightarrow> block_elems i_ndn q = Some [p])"
    unfolding i_blocks i_packets by (simp add: i_interest_new_def i_wire_wrapped)
qed (simp_all add: i_names i_packets i_interest_new_def)

text \<open>A signer: it only marks the packet as signed.\<close>

definition i_sign :: "i_data \<Rightarrow> i_data result" where
  "i_sign d = Inr (fst d, fst (snd d), True, snd (snd (snd d)))"

lemma i_signer_laws: "signer_laws i_ndn i_sign"
  by (auto simp: signer_laws_def i_sign_def i_packets)

lemma i_sign_total: "\<forall>d. \<exists>d'. i_sign d = Inr d'"
  unfolding i_sign_def by blast

text \<open>The equations that evaluate the packet format on concrete input.\<close>

lemmas i_eval = i_blocks i_names i_packets i_name_wire_def i_wire_def i_var_num_def i_nni_def
  be_bytes_def upt_conv_Cons i_block_of_def i_read_tlv_def i_read_var_def i_read_num_def
  be_value_def i_typed_def i_data_wire_def i_data_new_def i_meta_wire_def i_meta_blocks_def
  i_content_def tlv_bytes_def prepend_header_def
  prepend_nni_block_def prepend_block_def prepend_var_number_def

end
