(* ===== verification/Version_Vector_Codec.thy ===== *)
theory Version_Vector_Codec
  imports Version_Vector Ndn_Instance
begin

text \<open>
  The wire formats of \<^verbatim>\<open>VersionVector\<close> (\<^verbatim>\<open>version-vector.cpp\<close>): \<open>vv_encode\<close> and \<open>vv_decode\<close> for
  SVS V3, \<open>vv_encodeV2\<close> and \<open>vv_decodeV2\<close> for the legacy layout. The encoders are the loops of
  the code over an encoding buffer; the lemmas give the bytes in closed form, and the round
  trips follow from the laws of the TLV library.
\<close>

section \<open>The clock of the epoch check\<close>

text \<open>
  One reading of \<^verbatim>\<open>time::system_clock\<close>: as a time point, for \<open>m_lastUpdate\<close>, and in seconds of
  Unix time, for the bound on bootstrap times.
\<close>

record sys_clock =
  clk_point :: time_point
  clk_seconds :: u64

definition isBootstrapTimeTooFarInFuture :: "sys_clock \<Rightarrow> bootstrap_time \<Rightarrow> bool" where
  "isBootstrapTimeTooFarInFuture clk bootstrapTime \<longleftrightarrow> bootstrapTime > clk_seconds clk + 86400"

section \<open>Decoding\<close>

text \<open>One \<^verbatim>\<open>SeqNoEntry\<close> of a node: the body of the inner loop of the constructor.\<close>

definition decode_seq_entry ::
    "('n :: linorder, 'c, 'b, 'd, 'i) ndn \<Rightarrow> sys_clock \<Rightarrow> 'n \<Rightarrow> 'b \<Rightarrow> 'n version_vector
      \<Rightarrow> 'n version_vector result" where
  "decode_seq_entry N clk nodeId e v =
     (if block_type N e = tlv_SeqNoEntry then
        (case block_elems N e of
           None \<Rightarrow> Inl (TlvError ''parse'')
         | Some [b0, b1] \<Rightarrow>
             if block_type N b0 \<noteq> tlv_BootstrapTime \<or> block_type N b1 \<noteq> tlv_SeqNo
             then Inl (TlvError ''SeqNoEntry'')
             else
               res_bind (res_of_option (TlvError ''NonNegativeInteger'') (block_nni N b0))
                 (\<lambda>bootstrapTime.
               if isBootstrapTimeTooFarInFuture clk bootstrapTime
               then Inl (VectorError ''State vector bootstrap time is too far in the future'')
               else
                 res_bind (res_of_option (TlvError ''NonNegativeInteger'') (block_nni N b1))
                   (\<lambda>seqNo.
                 if seqNo = 0
                 then Inl (VectorError ''State vector sequence number must be positive'')
                 else vv_set (clk_point clk) nodeId bootstrapTime seqNo v))
         | Some _ \<Rightarrow> Inl (TlvError ''SeqNoEntry''))
      else Inl (TlvError ''SeqNoEntry''))"

text \<open>One \<^verbatim>\<open>StateVectorEntry\<close>: a name and its sequence entries.\<close>

definition decode_entry ::
    "('n :: linorder, 'c, 'b, 'd, 'i) ndn \<Rightarrow> sys_clock \<Rightarrow> 'b \<Rightarrow> 'n version_vector
      \<Rightarrow> 'n version_vector result" where
  "decode_entry N clk e v =
     (if block_type N e \<noteq> tlv_StateVectorEntry then Inl (TlvError ''StateVectorEntry'')
      else
        (case block_elems N e of
           None \<Rightarrow> Inl (TlvError ''parse'')
         | Some [] \<Rightarrow> Inl (TlvError ''Name'')
         | Some (nameBlock # seqs) \<Rightarrow>
             if block_type N nameBlock \<noteq> tlv_Name then Inl (TlvError ''Name'')
             else
               res_bind (res_of_option (TlvError ''Name'') (name_of_block N nameBlock)) (\<lambda>nodeId.
               res_fold (decode_seq_entry N clk nodeId) seqs v)))"

text \<open>\<^verbatim>\<open>VersionVector::VersionVector(const Block&)\<close>\<close>

definition vv_decode ::
    "('n :: linorder, 'c, 'b, 'd, 'i) ndn \<Rightarrow> sys_clock \<Rightarrow> 'b \<Rightarrow> 'n version_vector result" where
  "vv_decode N clk block =
     (if block_type N block \<noteq> tlv_StateVector then Inl (TlvError ''StateVector'')
      else
        (case block_elems N block of
           None \<Rightarrow> Inl (TlvError ''parse'')
         | Some es \<Rightarrow> res_fold (decode_entry N clk) es vv_empty))"

definition decode_entryV2 ::
    "('n :: linorder, 'c, 'b, 'd, 'i) ndn \<Rightarrow> sys_clock \<Rightarrow> 'b \<Rightarrow> 'n version_vector
      \<Rightarrow> 'n version_vector result" where
  "decode_entryV2 N clk e v =
     (if block_type N e \<noteq> tlv_StateVectorEntry then Inl (TlvError ''StateVectorEntry'')
      else
        (case block_elems N e of
           None \<Rightarrow> Inl (TlvError ''parse'')
         | Some [b0, b1] \<Rightarrow>
             if block_type N b0 \<noteq> tlv_Name \<or> block_type N b1 \<noteq> tlv_SeqNoV2
             then Inl (TlvError ''SVS V2 StateVectorEntry'')
             else
               res_bind (res_of_option (TlvError ''NonNegativeInteger'') (block_nni N b1))
                 (\<lambda>seqNo.
               if seqNo = 0
               then Inl (VectorError ''State vector sequence number must be positive'')
               else
                 res_bind (res_of_option (TlvError ''Name'') (name_of_block N b0))
                   (\<lambda>nodeId. vv_set (clk_point clk) nodeId 0 seqNo v))
         | Some _ \<Rightarrow> Inl (TlvError ''SVS V2 StateVectorEntry'')))"

text \<open>\<^verbatim>\<open>VersionVector::decodeV2\<close>: epoch 0 stands for the missing epoch field.\<close>

definition vv_decodeV2 ::
    "('n :: linorder, 'c, 'b, 'd, 'i) ndn \<Rightarrow> sys_clock \<Rightarrow> 'b \<Rightarrow> 'n version_vector result" where
  "vv_decodeV2 N clk block =
     (if block_type N block \<noteq> tlv_StateVector then Inl (TlvError ''StateVector'')
      else
        (case block_elems N block of
           None \<Rightarrow> Inl (TlvError ''parse'')
         | Some es \<Rightarrow> res_fold (decode_entryV2 N clk) es vv_empty))"

section \<open>Encoding\<close>

text \<open>The inner loop, over the epochs of one node from the last to the first.\<close>

fun encode_seq_entries ::
    "('n, 'c, 'b, 'd, 'i) ndn \<Rightarrow> (bootstrap_time \<times> seq_no) list \<Rightarrow> bytes \<times> nat
      \<Rightarrow> bytes \<times> nat" where
  "encode_seq_entries N [] (enc, entryLength) = (enc, entryLength)"
| "encode_seq_entries N ((bootstrapTime, seqNo) # es) (enc, entryLength) =
     (let (enc, n1) = prepend_nni_block N tlv_SeqNo seqNo enc;
          (enc, n2) = prepend_nni_block N tlv_BootstrapTime bootstrapTime enc;
          (enc, n3) = prepend_header N tlv_SeqNoEntry (n1 + n2) enc
      in encode_seq_entries N es (enc, entryLength + n3))"

text \<open>The outer loop, over the nodes from the last to the first.\<close>

fun encode_entries ::
    "('n, 'c, 'b, 'd, 'i) ndn \<Rightarrow> ('n \<times> bootstrap_seq_map) list \<Rightarrow> bytes \<times> nat
      \<Rightarrow> bytes \<times> nat" where
  "encode_entries N [] (enc, totalLength) = (enc, totalLength)"
| "encode_entries N ((nid, es) # rest) (enc, totalLength) =
     (let (enc, entryLength) = encode_seq_entries N (rev es) (enc, 0);
          (enc, k) = prepend_block N (name_wire N nid) enc;
          (enc, n) = prepend_header N tlv_StateVectorEntry (entryLength + k) enc
      in encode_entries N rest (enc, totalLength + n))"

definition vv_encode_buffer :: "('n, 'c, 'b, 'd, 'i) ndn \<Rightarrow> 'n version_vector \<Rightarrow> bytes" where
  "vv_encode_buffer N v =
     (let (enc, totalLength) = encode_entries N (rev (m_entries v)) ([], 0);
          (enc, _) = prepend_header N tlv_StateVector totalLength enc
      in enc)"

text \<open>\<^verbatim>\<open>VersionVector::encode\<close>\<close>

definition vv_encode :: "('n, 'c, 'b, 'd, 'i) ndn \<Rightarrow> 'n version_vector \<Rightarrow> 'b result" where
  "vv_encode N v = res_of_option (TlvError ''block'') (block_of N (vv_encode_buffer N v))"

fun encode_entriesV2 ::
    "('n, 'c, 'b, 'd, 'i) ndn \<Rightarrow> ('n \<times> seq_no) list \<Rightarrow> bytes \<times> nat \<Rightarrow> bytes \<times> nat" where
  "encode_entriesV2 N [] (enc, totalLength) = (enc, totalLength)"
| "encode_entriesV2 N ((nid, seqNo) # rest) (enc, totalLength) =
     (let (enc, n1) = prepend_nni_block N tlv_SeqNoV2 seqNo enc;
          (enc, n2) = prepend_block N (name_wire N nid) enc;
          (enc, n) = prepend_header N tlv_StateVectorEntry (n1 + n2) enc
      in encode_entriesV2 N rest (enc, totalLength + n))"

definition vv_encodeV2_buffer :: "('n, 'c, 'b, 'd, 'i) ndn \<Rightarrow> 'n version_vector \<Rightarrow> bytes" where
  "vv_encodeV2_buffer N v =
     (let (enc, totalLength) = encode_entriesV2 N (rev (m_latestMap v)) ([], 0);
          (enc, _) = prepend_header N tlv_StateVector totalLength enc
      in enc)"

text \<open>\<^verbatim>\<open>VersionVector::encodeV2\<close>\<close>

definition vv_encodeV2 :: "('n, 'c, 'b, 'd, 'i) ndn \<Rightarrow> 'n version_vector \<Rightarrow> 'b result" where
  "vv_encodeV2 N v = res_of_option (TlvError ''block'') (block_of N (vv_encodeV2_buffer N v))"

section \<open>The bytes of an encoding\<close>

definition nni_bytes :: "('n, 'c, 'b, 'd, 'i) ndn \<Rightarrow> u32 \<Rightarrow> u64 \<Rightarrow> bytes" where
  "nni_bytes N t x = tlv_bytes N t (nni_value N x)"

definition seq_entry_bytes ::
    "('n, 'c, 'b, 'd, 'i) ndn \<Rightarrow> bootstrap_time \<times> seq_no \<Rightarrow> bytes" where
  "seq_entry_bytes N e =
     tlv_bytes N tlv_SeqNoEntry (nni_bytes N tlv_BootstrapTime (fst e) @ nni_bytes N tlv_SeqNo (snd e))"

definition entry_bytes ::
    "('n, 'c, 'b, 'd, 'i) ndn \<Rightarrow> 'n \<times> bootstrap_seq_map \<Rightarrow> bytes" where
  "entry_bytes N e =
     tlv_bytes N tlv_StateVectorEntry
       (block_wire N (name_wire N (fst e)) @ concat (map (seq_entry_bytes N) (snd e)))"

definition entryV2_bytes :: "('n, 'c, 'b, 'd, 'i) ndn \<Rightarrow> 'n \<times> seq_no \<Rightarrow> bytes" where
  "entryV2_bytes N e =
     tlv_bytes N tlv_StateVectorEntry
       (block_wire N (name_wire N (fst e)) @ nni_bytes N tlv_SeqNoV2 (snd e))"

lemma prepend_header_two:
  "prepend_header N t (length v + length w) (w @ v @ enc) =
     (tlv_bytes N t (w @ v) @ enc, length (tlv_bytes N t (w @ v)))"
  using prepend_header_value [of N t "w @ v" enc] by (simp add: add.commute)

lemma encode_seq_entries_bytes:
  "encode_seq_entries N es (enc, len) =
     (concat (map (seq_entry_bytes N) (rev es)) @ enc,
      len + length (concat (map (seq_entry_bytes N) (rev es))))"
  by (induction N es "(enc, len)" arbitrary: enc len rule: encode_seq_entries.induct)
    (simp_all add: prepend_nni_block_def prepend_header_two seq_entry_bytes_def nni_bytes_def Let_def)

lemma encode_entries_bytes:
  "encode_entries N es (enc, len) =
     (concat (map (entry_bytes N) (rev es)) @ enc,
      len + length (concat (map (entry_bytes N) (rev es))))"
  by (induction N es "(enc, len)" arbitrary: enc len rule: encode_entries.induct)
    (simp_all add: encode_seq_entries_bytes prepend_block_def prepend_header_two entry_bytes_def
      Let_def)

lemma encode_entriesV2_bytes:
  "encode_entriesV2 N es (enc, len) =
     (concat (map (entryV2_bytes N) (rev es)) @ enc,
      len + length (concat (map (entryV2_bytes N) (rev es))))"
  by (induction N es "(enc, len)" arbitrary: enc len rule: encode_entriesV2.induct)
    (simp_all add: prepend_nni_block_def prepend_block_def prepend_header_two entryV2_bytes_def
      nni_bytes_def Let_def)

lemma vv_encode_buffer_bytes:
  "vv_encode_buffer N v = tlv_bytes N tlv_StateVector (concat (map (entry_bytes N) (m_entries v)))"
  using prepend_header_value [of N tlv_StateVector "concat (map (entry_bytes N) (m_entries v))" "[]"]
  by (simp add: vv_encode_buffer_def encode_entries_bytes)

lemma vv_encodeV2_buffer_bytes:
  "vv_encodeV2_buffer N v =
     tlv_bytes N tlv_StateVector (concat (map (entryV2_bytes N) (m_latestMap v)))"
  using prepend_header_value [of N tlv_StateVector "concat (map (entryV2_bytes N) (m_latestMap v))" "[]"]
  by (simp add: vv_encodeV2_buffer_def encode_entriesV2_bytes)

section \<open>Decoding what was encoded\<close>

text \<open>The blocks of an encoding, and what the decoders make of each.\<close>

definition seq_entry_blk :: "('n, 'c, 'b, 'd, 'i) ndn \<Rightarrow> bootstrap_time \<times> seq_no \<Rightarrow> 'b" where
  "seq_entry_blk N e =
     tlv_blk N tlv_SeqNoEntry (nni_bytes N tlv_BootstrapTime (fst e) @ nni_bytes N tlv_SeqNo (snd e))"

definition entry_blk :: "('n, 'c, 'b, 'd, 'i) ndn \<Rightarrow> 'n \<times> bootstrap_seq_map \<Rightarrow> 'b" where
  "entry_blk N e =
     tlv_blk N tlv_StateVectorEntry
       (block_wire N (name_wire N (fst e)) @ concat (map (seq_entry_bytes N) (snd e)))"

definition entryV2_blk :: "('n, 'c, 'b, 'd, 'i) ndn \<Rightarrow> 'n \<times> seq_no \<Rightarrow> 'b" where
  "entryV2_blk N e =
     tlv_blk N tlv_StateVectorEntry
       (block_wire N (name_wire N (fst e)) @ nni_bytes N tlv_SeqNoV2 (snd e))"

definition epoch_accepted :: "sys_clock \<Rightarrow> bootstrap_time \<Rightarrow> bool" where
  "epoch_accepted clk b \<longleftrightarrow> \<not> isBootstrapTimeTooFarInFuture clk b"

lemma nni_blk:
  assumes "tlv_laws N" and "fits (nni_bytes N t x)"
  shows "block_type N (tlv_blk N t (nni_value N x)) = t"
    and "block_wire N (tlv_blk N t (nni_value N x)) = nni_bytes N t x"
    and "block_nni N (tlv_blk N t (nni_value N x)) = Some x"
  using assms tlv_blk [of N t "nni_value N x"] tlv_blk_nni [of N t x]
  by (simp_all add: nni_bytes_def)

lemma seq_entry_blk_parts:
  assumes laws: "tlv_laws N" and fits: "fits (seq_entry_bytes N (b, s))"
  obtains b0 b1 where "block_elems N (seq_entry_blk N (b, s)) = Some [b0, b1]"
    and "block_type N b0 = tlv_BootstrapTime" and "block_nni N b0 = Some b"
    and "block_type N b1 = tlv_SeqNo" and "block_nni N b1 = Some s"
    and "block_type N (seq_entry_blk N (b, s)) = tlv_SeqNoEntry"
    and "block_wire N (seq_entry_blk N (b, s)) = seq_entry_bytes N (b, s)"
proof -
  let ?v = "nni_bytes N tlv_BootstrapTime b @ nni_bytes N tlv_SeqNo s"
  have f: "fits (tlv_bytes N tlv_SeqNoEntry ?v)"
    using fits by (simp add: seq_entry_bytes_def)
  then have parts: "fits (nni_bytes N tlv_BootstrapTime b)" "fits (nni_bytes N tlv_SeqNo s)"
    using fits_append fits_tlv_value by blast+
  let ?b0 = "tlv_blk N tlv_BootstrapTime (nni_value N b)"
  let ?b1 = "tlv_blk N tlv_SeqNo (nni_value N s)"
  have e: "block_elems N (seq_entry_blk N (b, s)) = Some [?b0, ?b1]"
    unfolding seq_entry_blk_def fst_conv snd_conv
    by (rule tlv_blk_elems [OF laws f]) (simp add: nni_blk(2) [OF laws] parts)
  show thesis
    using tlv_blk(2,3) [OF laws f] nni_blk(1,3) [OF laws parts(1)] nni_blk(1,3) [OF laws parts(2)]
    by (intro that [OF e]) (simp_all add: seq_entry_blk_def seq_entry_bytes_def)
qed

lemma decode_seq_entry_blk:
  assumes laws: "tlv_laws N" and fits: "fits (seq_entry_bytes N (b, s))"
    and "epoch_accepted clk b" and "s \<noteq> 0"
  shows "decode_seq_entry N clk nid (seq_entry_blk N (b, s)) v =
    Inr (vv_put (clk_point clk) nid b s v)"
proof -
  obtain b0 b1 where "block_elems N (seq_entry_blk N (b, s)) = Some [b0, b1]"
    and "block_type N b0 = tlv_BootstrapTime" and "block_nni N b0 = Some b"
    and "block_type N b1 = tlv_SeqNo" and "block_nni N b1 = Some s"
    and "block_type N (seq_entry_blk N (b, s)) = tlv_SeqNoEntry"
    using seq_entry_blk_parts [OF laws fits] .
  then show ?thesis
    using assms(3,4) by (simp add: decode_seq_entry_def epoch_accepted_def vv_set_eq)
qed

lemma decode_seq_entries_blk:
  assumes "tlv_laws N" and "fits (concat (map (seq_entry_bytes N) es))"
    and "\<forall>(b, s) \<in> set es. epoch_accepted clk b \<and> s \<noteq> 0"
  shows "res_fold (decode_seq_entry N clk nid) (map (seq_entry_blk N) es) v =
    Inr (fold (\<lambda>(b, s). vv_put (clk_point clk) nid b s) es v)"
  using assms(2,3)
proof (induction es arbitrary: v)
  case Nil
  then show ?case by simp
next
  case (Cons e es)
  obtain b s where e: "e = (b, s)" by (cases e)
  have fits: "fits (seq_entry_bytes N (b, s))" "fits (concat (map (seq_entry_bytes N) es))"
    using Cons.prems(1)
      fits_append [of "seq_entry_bytes N e" "concat (map (seq_entry_bytes N) es)"]
    by (simp_all add: e)
  have "decode_seq_entry N clk nid (seq_entry_blk N (b, s)) v =
      Inr (vv_put (clk_point clk) nid b s v)"
    using Cons.prems(2) by (intro decode_seq_entry_blk [OF assms(1) fits(1)]) (auto simp: e)
  moreover have "\<forall>(b, s) \<in> set es. epoch_accepted clk b \<and> s \<noteq> 0"
    using Cons.prems(2) by simp
  ultimately show ?case
    using Cons.IH [OF fits(2)] by (simp add: e)
qed

lemma seq_entry_blk_wire:
  assumes "tlv_laws N" and "fits (concat (map (seq_entry_bytes N) es))"
  shows "concat (map (block_wire N) (map (seq_entry_blk N) es)) = concat (map (seq_entry_bytes N) es)"
proof -
  have "block_wire N (seq_entry_blk N e) = seq_entry_bytes N e" if "e \<in> set es" for e
  proof -
    have "fits (seq_entry_bytes N e)"
      using fits_concat [OF assms(2)] that by simp
    then show ?thesis
      using tlv_blk(3) [OF assms(1)] by (simp add: seq_entry_blk_def seq_entry_bytes_def)
  qed
  then show ?thesis
    by (induction es) auto
qed

lemma decode_entry_blk:
  assumes laws: "tlv_laws N" and fits: "fits (entry_bytes N (nid, es))"
    and ok: "\<forall>(b, s) \<in> set es. epoch_accepted clk b \<and> s \<noteq> 0"
  shows "decode_entry N clk (entry_blk N (nid, es)) v =
    Inr (fold (\<lambda>(b, s). vv_put (clk_point clk) nid b s) es v)"
proof -
  let ?v = "block_wire N (name_wire N nid) @ concat (map (seq_entry_bytes N) es)"
  have f: "fits (tlv_bytes N tlv_StateVectorEntry ?v)"
    using fits by (simp add: entry_bytes_def)
  then have parts: "fits (block_wire N (name_wire N nid))" "fits (concat (map (seq_entry_bytes N) es))"
    using fits_append fits_tlv_value by blast+
  have "block_elems N (entry_blk N (nid, es)) = Some (name_wire N nid # map (seq_entry_blk N) es)"
    unfolding entry_blk_def fst_conv snd_conv
    by (rule tlv_blk_elems [OF laws f]) (use seq_entry_blk_wire [OF laws parts(2)] in simp)
  moreover have "block_type N (entry_blk N (nid, es)) = tlv_StateVectorEntry"
    using tlv_blk(2) [OF laws f] by (simp add: entry_blk_def)
  ultimately show ?thesis
    using tlv_law_name_type [OF laws] tlv_law_name [OF laws parts(1)]
      decode_seq_entries_blk [OF laws parts(2) ok]
    by (simp add: decode_entry_def)
qed

lemma fold_concat_map:
  "fold (\<lambda>(n, es). fold (\<lambda>(b, s). f n b s) es) m v =
     fold (\<lambda>(n, b, s). f n b s) (concat (map (\<lambda>(n, es). map (\<lambda>(b, s). (n, b, s)) es) m)) v"
  by (induction m arbitrary: v) (auto simp: fold_map comp_def split_def)

lemma decode_entries_blk:
  assumes "tlv_laws N" and "fits (concat (map (entry_bytes N) m))"
    and "\<forall>(n, es) \<in> set m. \<forall>(b, s) \<in> set es. epoch_accepted clk b \<and> s \<noteq> 0"
  shows "res_fold (decode_entry N clk) (map (entry_blk N) m) v =
    Inr (fold (\<lambda>(n, es). fold (\<lambda>(b, s). vv_put (clk_point clk) n b s) es) m v)"
  using assms(2,3)
proof (induction m arbitrary: v)
  case Nil
  then show ?case by simp
next
  case (Cons e m)
  obtain n es where e: "e = (n, es)" by (cases e)
  have fits: "fits (entry_bytes N (n, es))" "fits (concat (map (entry_bytes N) m))"
    using Cons.prems(1) fits_append [of "entry_bytes N e" "concat (map (entry_bytes N) m)"]
    by (simp_all add: e)
  have "decode_entry N clk (entry_blk N (n, es)) v =
      Inr (fold (\<lambda>(b, s). vv_put (clk_point clk) n b s) es v)"
    using Cons.prems(2) by (intro decode_entry_blk [OF assms(1) fits(1)]) (simp add: e)
  moreover have "\<forall>(n, es) \<in> set m. \<forall>(b, s) \<in> set es. epoch_accepted clk b \<and> s \<noteq> 0"
    using Cons.prems(2) by simp
  ultimately show ?case
    using Cons.IH [OF fits(2)] by (simp add: e)
qed

lemma entry_blk_wire:
  assumes "tlv_laws N" and "fits (concat (map (entry_bytes N) m))"
  shows "concat (map (block_wire N) (map (entry_blk N) m)) = concat (map (entry_bytes N) m)"
proof -
  have "block_wire N (entry_blk N e) = entry_bytes N e" if "e \<in> set m" for e
  proof -
    have "fits (entry_bytes N e)"
      using fits_concat [OF assms(2)] that by simp
    then show ?thesis
      using tlv_blk(3) [OF assms(1)] by (simp add: entry_blk_def entry_bytes_def)
  qed
  then show ?thesis
    by (induction m) auto
qed

text \<open>Inserting every entry of a well-formed vector into the empty one rebuilds its maps.\<close>

lemma vv_rebuild:
  fixes t :: time_point
  assumes ok: "vv_ok v"
  defines "w \<equiv> fold (\<lambda>(n, b, s). vv_put t n b s) (vv_all v) vv_empty"
  shows "vv_ok w" and "vv_get n b w = vv_get n b v"
proof -
  have w: "w = fold (\<lambda>(k, s). vv_put t (fst k) (snd k) s) (vv_keyed v) vv_empty"
    unfolding w_def vv_keyed_def by (simp add: fold_map comp_def split_def)
  have nz: "\<forall>(k, s) \<in> set (vv_keyed v). s \<noteq> 0"
    using vv_all_mem [OF ok] by (auto simp: vv_keyed_def)
  show "vv_ok w"
    using vv.good_put_all [OF vv_ok_empty nz, of t] by (simp add: w)
  have "distinct (map fst (vv_keyed v))"
    by (rule vv_keyed_distinct [OF ok])
  then have rev: "map_of (rev (vv_keyed v)) = map_of (vv_keyed v)"
    by (simp add: map_of_rev_distinct)
  show "vv_get n b w = vv_get n b v"
    using vv.get_put_all [of "(n, b)" t "vv_keyed v" vv_empty] map_of_vv_keyed [OF ok, of n b]
    by (simp add: w rev)
qed

lemma vv_decode_encode:
  assumes laws: "tlv_laws N" and ok: "vv_ok v" and fits: "fits (vv_encode_buffer N v)"
    and epochs: "\<forall>(n, b, s) \<in> set (vv_all v). epoch_accepted clk b"
  shows "\<exists>block w. vv_encode N v = Inr block \<and> block_type N block = tlv_StateVector \<and>
    vv_decode N clk block = Inr w \<and> vv_ok w \<and> m_entries w = m_entries v \<and>
    m_latestMap w = m_latestMap v"
proof -
  let ?body = "concat (map (entry_bytes N) (m_entries v))"
  have f: "fits (tlv_bytes N tlv_StateVector ?body)"
    using fits by (simp add: vv_encode_buffer_bytes)
  then have fb: "fits ?body"
    by (rule fits_tlv_value)
  let ?b = "tlv_blk N tlv_StateVector ?body"
  have all: "\<forall>(n, es) \<in> set (m_entries v). \<forall>(b, s) \<in> set es. epoch_accepted clk b \<and> s \<noteq> 0"
    using epochs ok by (fastforce simp: vv_all_def vv_ok_def epochs_ok_def)
  have elems: "block_elems N ?b = Some (map (entry_blk N) (m_entries v))"
    by (rule tlv_blk_elems [OF laws f]) (use entry_blk_wire [OF laws fb] in simp)
  let ?w = "fold (\<lambda>(n, b, s). vv_put (clk_point clk) n b s) (vv_all v) vv_empty"
  have dec: "vv_decode N clk ?b = Inr ?w"
    using elems tlv_blk(2) [OF laws f] decode_entries_blk [OF laws fb all]
    by (simp add: vv_decode_def vv_all_def fold_concat_map)
  have enc: "vv_encode N v = Inr ?b"
    using tlv_blk(1) [OF laws f] by (simp add: vv_encode_def vv_encode_buffer_bytes)
  have "vv_ok ?w" and "\<And>n b. vv_get n b ?w = vv_get n b v"
    using vv_rebuild [OF ok] by auto
  then show ?thesis
    using enc dec tlv_blk(2) [OF laws f] vv_ext [OF _ ok] by blast
qed

section \<open>The legacy layout\<close>

lemma decode_entryV2_blk:
  assumes laws: "tlv_laws N" and fits: "fits (entryV2_bytes N (nid, s))" and "s \<noteq> 0"
  shows "decode_entryV2 N clk (entryV2_blk N (nid, s)) v = Inr (vv_put (clk_point clk) nid 0 s v)"
proof -
  let ?v = "block_wire N (name_wire N nid) @ nni_bytes N tlv_SeqNoV2 s"
  have f: "fits (tlv_bytes N tlv_StateVectorEntry ?v)"
    using fits by (simp add: entryV2_bytes_def)
  then have parts: "fits (block_wire N (name_wire N nid))" "fits (nni_bytes N tlv_SeqNoV2 s)"
    using fits_append fits_tlv_value by blast+
  have "block_elems N (entryV2_blk N (nid, s)) =
      Some [name_wire N nid, tlv_blk N tlv_SeqNoV2 (nni_value N s)]"
    unfolding entryV2_blk_def fst_conv snd_conv
    by (rule tlv_blk_elems [OF laws f]) (simp add: nni_blk(2) [OF laws parts(2)])
  moreover have "block_type N (entryV2_blk N (nid, s)) = tlv_StateVectorEntry"
    using tlv_blk(2) [OF laws f] by (simp add: entryV2_blk_def)
  ultimately show ?thesis
    using assms(3) tlv_law_name_type [OF laws] tlv_law_name [OF laws parts(1)]
      nni_blk [OF laws parts(2)]
    by (simp add: decode_entryV2_def vv_set_eq)
qed

lemma decode_entriesV2_blk:
  assumes "tlv_laws N" and "fits (concat (map (entryV2_bytes N) m))"
    and "\<forall>(n, s) \<in> set m. s \<noteq> 0"
  shows "res_fold (decode_entryV2 N clk) (map (entryV2_blk N) m) v =
    Inr (fold (\<lambda>(n, s). vv_put (clk_point clk) n 0 s) m v)"
  using assms(2,3)
proof (induction m arbitrary: v)
  case Nil
  then show ?case by simp
next
  case (Cons e m)
  obtain n s where e: "e = (n, s)" by (cases e)
  have fits: "fits (entryV2_bytes N (n, s))" "fits (concat (map (entryV2_bytes N) m))"
    using Cons.prems(1) fits_append [of "entryV2_bytes N e" "concat (map (entryV2_bytes N) m)"]
    by (simp_all add: e)
  then show ?case
    using Cons.IH [OF fits(2)] Cons.prems(2) decode_entryV2_blk [OF assms(1) fits(1)]
    by (simp add: e)
qed

lemma entryV2_blk_wire:
  assumes "tlv_laws N" and "fits (concat (map (entryV2_bytes N) m))"
  shows "concat (map (block_wire N) (map (entryV2_blk N) m)) = concat (map (entryV2_bytes N) m)"
proof -
  have "block_wire N (entryV2_blk N e) = entryV2_bytes N e" if "e \<in> set m" for e
  proof -
    have "fits (entryV2_bytes N e)"
      using fits_concat [OF assms(2)] that by simp
    then show ?thesis
      using tlv_blk(3) [OF assms(1)] by (simp add: entryV2_blk_def entryV2_bytes_def)
  qed
  then show ?thesis
    by (induction m) auto
qed

lemma max_seq_nonzero: "epochs_ok es \<Longrightarrow> max_seq es \<noteq> 0"
proof -
  assume ok: "epochs_ok es"
  then obtain b s where "(b, s) \<in> set es" and "s \<noteq> 0"
    by (cases es) (auto simp: epochs_ok_def)
  moreover from this have "s \<le> max_seq es"
    by (intro max_seq_ge)
  ultimately show "max_seq es \<noteq> 0"
    by auto
qed

lemma latest_entries:
  assumes "vv_ok v"
  shows "distinct (map fst (m_latestMap v))" and "\<forall>(n, s) \<in> set (m_latestMap v). s \<noteq> 0"
proof -
  have "map fst (m_latestMap v) = map fst (m_entries v)"
    using assms by (simp add: vv_ok_def comp_def split_def)
  then show "distinct (map fst (m_latestMap v))"
    using vv_ok_entries(1) [OF assms] by (simp add: map_ok_distinct)
  show "\<forall>(n, s) \<in> set (m_latestMap v). s \<noteq> 0"
    using assms max_seq_nonzero by (fastforce simp: vv_ok_def)
qed

lemma vv_rebuild_latest:
  fixes t :: time_point
  assumes ok: "vv_ok v"
  defines "w \<equiv> fold (\<lambda>(n, s). vv_put t n 0 s) (m_latestMap v) vv_empty"
  shows "vv_ok w" and "vv_get n b w = (if b = 0 then vv_getLatest n v else 0)"
proof -
  let ?es = "map (\<lambda>(n, s). ((n, 0 :: bootstrap_time), s)) (m_latestMap v)"
  have w: "w = fold (\<lambda>(k, s). vv_put t (fst k) (snd k) s) ?es vv_empty"
    unfolding w_def by (simp add: fold_map comp_def split_def)
  have nz: "\<forall>(k, s) \<in> set ?es. s \<noteq> 0"
    using latest_entries(2) [OF ok] by auto
  show "vv_ok w"
    using vv.good_put_all [OF vv_ok_empty nz, of t] by (simp add: w)
  have keys: "map fst ?es = map (\<lambda>n. (n, 0)) (map fst (m_latestMap v))"
    by (simp add: comp_def split_def)
  then have "distinct (map fst ?es)"
    using latest_entries(1) [OF ok] by (simp add: distinct_map inj_on_def)
  then have rev: "map_of (rev ?es) = map_of ?es"
    by (rule map_of_rev_distinct)
  have look: "map_of (map (\<lambda>(n, s). ((n, 0 :: bootstrap_time), s)) m) (n, b) =
      (if b = 0 then map_of m n else None)" for m :: "('a \<times> seq_no) list"
    by (induction m) auto
  show "vv_get n b w = (if b = 0 then vv_getLatest n v else 0)"
    using vv.get_put_all [of "(n, b)" t ?es vv_empty]
    by (auto simp: w rev look vv_getLatest_def split: option.splits)
qed

lemma vv_decodeV2_encodeV2:
  assumes laws: "tlv_laws N" and ok: "vv_ok v" and fits: "fits (vv_encodeV2_buffer N v)"
  shows "\<exists>block w. vv_encodeV2 N v = Inr block \<and> block_type N block = tlv_StateVector \<and>
    vv_decodeV2 N clk block = Inr w \<and> vv_ok w \<and>
    (\<forall>n b. vv_get n b w = (if b = 0 then vv_getLatest n v else 0))"
proof -
  let ?body = "concat (map (entryV2_bytes N) (m_latestMap v))"
  have f: "fits (tlv_bytes N tlv_StateVector ?body)"
    using fits by (simp add: vv_encodeV2_buffer_bytes)
  then have fb: "fits ?body"
    by (rule fits_tlv_value)
  let ?b = "tlv_blk N tlv_StateVector ?body"
  have elems: "block_elems N ?b = Some (map (entryV2_blk N) (m_latestMap v))"
    by (rule tlv_blk_elems [OF laws f]) (use entryV2_blk_wire [OF laws fb] in simp)
  let ?w = "fold (\<lambda>(n, s). vv_put (clk_point clk) n 0 s) (m_latestMap v) vv_empty"
  have dec: "vv_decodeV2 N clk ?b = Inr ?w"
    using elems tlv_blk(2) [OF laws f]
      decode_entriesV2_blk [OF laws fb latest_entries(2) [OF ok]]
    by (simp add: vv_decodeV2_def)
  have enc: "vv_encodeV2 N v = Inr ?b"
    using tlv_blk(1) [OF laws f] by (simp add: vv_encodeV2_def vv_encodeV2_buffer_bytes)
  then show ?thesis
    using dec tlv_blk(2) [OF laws f] vv_rebuild_latest [OF ok] by blast
qed

section \<open>What a decoder accepts\<close>

text \<open>
  Whatever block was received: a vector that decodes is well formed, all its epochs are within
  the accepted horizon, and its numbers are positive.
\<close>

definition vv_accepted :: "sys_clock \<Rightarrow> 'n :: linorder version_vector \<Rightarrow> bool" where
  "vv_accepted clk v \<longleftrightarrow> vv_ok v \<and> (\<forall>n b. vv_get n b v \<noteq> 0 \<longrightarrow> epoch_accepted clk b)"

lemma vv_accepted_empty [simp]: "vv_accepted clk vv_empty"
  by (simp add: vv_accepted_def)

lemma vv_accepted_put:
  "vv_accepted clk v \<Longrightarrow> epoch_accepted clk b \<Longrightarrow> s \<noteq> 0 \<Longrightarrow> vv_accepted clk (vv_put t n b s v)"
  by (auto simp: vv_accepted_def vv_ok_put vv_get_put)

lemma decode_seq_entry_accepted:
  assumes "decode_seq_entry N clk nid e v = Inr w" and "vv_accepted clk v"
  shows "vv_accepted clk w"
  using assms
  by (auto simp: decode_seq_entry_def vv_set_eq res_bind_eq_Inr epoch_accepted_def
      intro!: vv_accepted_put split: if_splits option.splits list.splits)

lemma decode_entry_accepted:
  assumes "decode_entry N clk e v = Inr w" and "vv_accepted clk v"
  shows "vv_accepted clk w"
  using assms
  by (auto simp: decode_entry_def res_bind_eq_Inr split: if_splits option.splits list.splits
      elim!: res_fold_invariant [where P = "vv_accepted clk"] intro: decode_seq_entry_accepted)

lemma vv_decode_accepted: "vv_decode N clk block = Inr v \<Longrightarrow> vv_accepted clk v"
  by (auto simp: vv_decode_def split: if_splits option.splits
      elim!: res_fold_invariant [where P = "vv_accepted clk"] intro: decode_entry_accepted)

lemma decode_entryV2_ok:
  assumes "decode_entryV2 N clk e v = Inr w" and "vv_ok v"
  shows "vv_ok w"
  using assms
  by (auto simp: decode_entryV2_def vv_set_eq res_bind_eq_Inr
      intro!: vv_ok_put split: if_splits option.splits list.splits)

lemma vv_decodeV2_ok: "vv_decodeV2 N clk block = Inr v \<Longrightarrow> vv_ok v"
  by (auto simp: vv_decodeV2_def split: if_splits option.splits
      elim!: res_fold_invariant [where P = vv_ok] intro: decode_entryV2_ok)

section \<open>A sample vector\<close>

definition sample_vector :: "i_name version_vector" where
  "sample_vector = vv_put 0 [(8, [65])] 100 3 vv_empty"

definition sample_clock :: sys_clock where
  "sample_clock = \<lparr>clk_point = 7, clk_seconds = 100\<rparr>"

lemma sample_vector_ok: "vv_ok sample_vector"
  unfolding sample_vector_def by (rule vv_ok_put) simp_all

lemma sample_vector_epochs: "\<forall>(n, b, s) \<in> set (vv_all sample_vector). epoch_accepted sample_clock b"
  by (simp add: sample_vector_def vv_put_def vv_entry_map_def vv_empty_def vv_all_def
      sample_clock_def epoch_accepted_def isBootstrapTimeTooFarInFuture_def)

lemmas sample_eval = i_eval svs_simps sample_vector_def vv_put_def vv_entry_map_def vv_empty_def
  Let_def

lemma sample_vector_bytes:
  "vv_encode_buffer i_ndn sample_vector =
     [201, 15, 202, 13, 7, 3, 8, 1, 65, 210, 6, 212, 1, 100, 214, 1, 3]"
  by (simp add: vv_encode_buffer_def sample_eval)

lemma sample_vector_bytesV2:
  "vv_encodeV2_buffer i_ndn sample_vector = [201, 10, 202, 8, 7, 3, 8, 1, 65, 204, 1, 3]"
  by (simp add: vv_encodeV2_buffer_def max_seq_def sample_eval)

section \<open>Properties\<close>

text \<open>
  the V3 wire format round-trips: a well-formed vector whose epochs the receiver's clock
  accepts encodes to a StateVector block, which decodes to a well-formed vector with the same
  entries and the same cached maxima.
\<close>

theorem codec_V3_roundtrip:
  assumes "tlv_laws N" and "vv_ok v" and "fits (vv_encode_buffer N v)"
    and "\<forall>(n, b, s) \<in> set (vv_all v). epoch_accepted clk b"
  shows "\<exists>block w. vv_encode N v = Inr block \<and> block_type N block = tlv_StateVector \<and>
    vv_decode N clk block = Inr w \<and> vv_ok w \<and> m_entries w = m_entries v \<and>
    m_latestMap w = m_latestMap v"
  using assms by (rule vv_decode_encode)

theorem codec_V3_roundtrip_witness:
  "\<exists>block w. vv_encode i_ndn sample_vector = Inr block \<and>
    block_type i_ndn block = tlv_StateVector \<and>
    vv_decode i_ndn sample_clock block = Inr w \<and> vv_ok w \<and>
    m_entries w = m_entries sample_vector \<and> m_latestMap w = m_latestMap sample_vector"
  by (rule codec_V3_roundtrip [OF i_tlv_laws sample_vector_ok _ sample_vector_epochs])
    (simp add: fits_def sample_vector_bytes)

text \<open>
  The legacy V2 format carries the latest number of every node: what decodes from the
  encoding of a well-formed vector is well formed, and holds exactly the latest numbers, under
  epoch 0.
\<close>

theorem codec_V2_projection:
  assumes "tlv_laws N" and "vv_ok v" and "fits (vv_encodeV2_buffer N v)"
  shows "\<exists>block w. vv_encodeV2 N v = Inr block \<and> block_type N block = tlv_StateVector \<and>
    vv_decodeV2 N clk block = Inr w \<and> vv_ok w \<and>
    (\<forall>n b. vv_get n b w = (if b = 0 then vv_getLatest n v else 0))"
  using assms by (rule vv_decodeV2_encodeV2)

theorem codec_V2_projection_witness:
  "\<exists>block w. vv_encodeV2 i_ndn sample_vector = Inr block \<and>
    block_type i_ndn block = tlv_StateVector \<and>
    vv_decodeV2 i_ndn sample_clock block = Inr w \<and> vv_ok w \<and>
    (\<forall>n b. vv_get n b w = (if b = 0 then vv_getLatest n sample_vector else 0))"
  by (rule codec_V2_projection [OF i_tlv_laws sample_vector_ok])
    (simp add: fits_def sample_vector_bytesV2)

end
