(* ===== verification/State_Merge.thy ===== *)
theory State_Merge
  imports Version_Vector_Codec
begin

text \<open>
  The state-vector algebra of \<^verbatim>\<open>SVSyncCore\<close> (\<^verbatim>\<open>core.cpp\<close>): \<open>computeMergeStateVector\<close>, which
  merges a received vector into the local one and lists what is missing locally, and
  \<open>record_merge\<close>, the loop of \<^verbatim>\<open>recordVector\<close>. The lemmas show that a merge never fails, is the
  pointwise maximum of the two vectors, reports exactly the missing numbers, and that merging is
  independent of order and repetition.
\<close>

section \<open>Definitions\<close>

text \<open>\<^verbatim>\<open>struct MissingDataInfo\<close> (\<^verbatim>\<open>common.hpp\<close>)\<close>

record 'n missing_data_info =
  md_nodeId :: 'n
  md_low :: seq_no
  md_high :: seq_no
  md_incomingFace :: u64
  md_bootstrapTime :: bootstrap_time

record 'n merge_computation =
  mc_myVectorNew :: bool
  mc_otherVectorNew :: bool
  mc_missingData :: "'n missing_data_info list"
  mc_mergedVector :: "'n version_vector"

text \<open>The body of the first pair of loops, for one entry of the remote vector.\<close>

definition merge_entry ::
    "time_point \<Rightarrow> 'n :: linorder \<times> bootstrap_time \<times> seq_no \<Rightarrow> 'n merge_computation
      \<Rightarrow> 'n merge_computation result" where
  "merge_entry now e result =
     (case e of (nidOther, bootstrapTime, seqOther) \<Rightarrow>
        let seqCurrent = vv_get nidOther bootstrapTime (mc_mergedVector result) in
        if seqCurrent < seqOther then
          res_bind (vv_set now nidOther bootstrapTime seqOther (mc_mergedVector result)) (\<lambda>v.
            Inr (result\<lparr>mc_otherVectorNew := True,
              mc_missingData := mc_missingData result @
                [\<lparr>md_nodeId = nidOther, md_low = seqCurrent + 1, md_high = seqOther,
                  md_incomingFace = 0, md_bootstrapTime = bootstrapTime\<rparr>],
              mc_mergedVector := v\<rparr>))
        else Inr result)"

text \<open>\<^verbatim>\<open>SVSyncCore::computeMergeStateVector\<close>\<close>

definition computeMergeStateVector ::
    "time_point \<Rightarrow> 'n :: linorder version_vector \<Rightarrow> 'n version_vector
      \<Rightarrow> 'n merge_computation result" where
  "computeMergeStateVector now localVector remoteVector =
     res_bind
       (res_fold (merge_entry now) (vv_all remoteVector)
          \<lparr>mc_myVectorNew = False, mc_otherVectorNew = False, mc_missingData = [],
           mc_mergedVector = localVector\<rparr>) (\<lambda>result.
     Inr (result\<lparr>mc_myVectorNew :=
       list_ex (\<lambda>(nid, bootstrapTime, s). vv_get nid bootstrapTime remoteVector < s)
         (vv_all (mc_mergedVector result))\<rparr>))"

text \<open>The loops of \<^verbatim>\<open>SVSyncCore::recordVector\<close>.\<close>

definition record_entry ::
    "time_point \<Rightarrow> 'n :: linorder \<times> bootstrap_time \<times> seq_no \<Rightarrow> 'n version_vector
      \<Rightarrow> 'n version_vector result" where
  "record_entry now e v =
     (case e of (nidOther, bootstrapTime, seqOther) \<Rightarrow>
        if vv_get nidOther bootstrapTime v < seqOther
        then vv_set now nidOther bootstrapTime seqOther v else Inr v)"

definition record_merge ::
    "time_point \<Rightarrow> 'n :: linorder version_vector \<Rightarrow> 'n version_vector
      \<Rightarrow> 'n version_vector result" where
  "record_merge now recorded vvOther = res_fold (record_entry now) (vv_all vvOther) recorded"

section \<open>The merged vector\<close>

text \<open>What both loops store, without the checks that cannot fail.\<close>

definition vv_raise ::
    "time_point \<Rightarrow> 'n :: linorder \<times> bootstrap_time \<times> seq_no \<Rightarrow> 'n version_vector
      \<Rightarrow> 'n version_vector" where
  "vv_raise now e v = (case e of (n, b, s) \<Rightarrow> if vv_get n b v < s then vv_put now n b s v else v)"

definition vv_join ::
    "time_point \<Rightarrow> 'n :: linorder version_vector \<Rightarrow> 'n version_vector \<Rightarrow> 'n version_vector" where
  "vv_join now l r = fold (vv_raise now) (vv_all r) l"

lemma vv_set_raise: "vv_get n b v < s \<Longrightarrow> vv_set now n b s v = Inr (vv_raise now (n, b, s) v)"
  using word_gt_0 [of s] by (auto simp: vv_set_eq vv_raise_def)

lemma record_entry_eq: "record_entry now e v = Inr (vv_raise now e v)"
  by (cases e) (simp add: record_entry_def vv_set_raise, simp add: vv_raise_def)

lemma record_merge_eq: "record_merge now v r = Inr (vv_join now v r)"
  unfolding record_merge_def vv_join_def by (rule res_fold_total) (rule record_entry_eq)

lemma vv_join_keyed:
  "vv_join now l r =
     fold (\<lambda>(k, s) v. if vv_get (fst k) (snd k) v < s then vv_put now (fst k) (snd k) s v else v)
       (vv_keyed r) l"
  unfolding vv_join_def vv_keyed_def
  by (simp add: fold_map comp_def split_def vv_raise_def [abs_def] cong: if_cong)

lemma vv_ok_join: "vv_ok l \<Longrightarrow> vv_ok (vv_join now l r)"
  unfolding vv_join_keyed by (rule vv.good_raise_all)

lemma vv_get_join:
  assumes "vv_ok r"
  shows "vv_get n b (vv_join now l r) = max (vv_get n b l) (vv_get n b r)"
  using vv.get_raise_all_distinct [OF vv_keyed_distinct [OF assms], of "(n, b)" now l]
    map_of_vv_keyed [OF assms, of n b]
  by (simp add: vv_join_keyed max_def word_le_0_iff split: if_splits)

text \<open>The order of vectors: every register is at most the other's.\<close>

definition vv_le :: "'n version_vector \<Rightarrow> 'n version_vector \<Rightarrow> bool" where
  "vv_le v w \<longleftrightarrow> (\<forall>n b. vv_get n b v \<le> vv_get n b w)"

lemma vv_le_refl [simp, intro]: "vv_le v v"
  by (simp add: vv_le_def)

lemma vv_le_trans: "vv_le u v \<Longrightarrow> vv_le v w \<Longrightarrow> vv_le u w"
  unfolding vv_le_def using order_trans by blast

lemma vv_le_empty [simp]: "vv_le vv_empty v"
  by (simp add: vv_le_def)

lemma vv_le_join:
  assumes "vv_ok r"
  shows "vv_le l (vv_join now l r)" and "vv_le r (vv_join now l r)"
    and "vv_le l w \<Longrightarrow> vv_le r w \<Longrightarrow> vv_le (vv_join now l r) w"
  by (simp_all add: vv_le_def vv_get_join [OF assms])

section \<open>What a merge reports\<close>

text \<open>The range reported for an entry above the local register, as a function of that register.\<close>

definition missing_of :: "'n version_vector \<Rightarrow> 'n \<times> bootstrap_time \<times> seq_no \<Rightarrow> 'n missing_data_info" where
  "missing_of v e =
     (case e of (n, b, s) \<Rightarrow>
        \<lparr>md_nodeId = n, md_low = vv_get n b v + 1, md_high = s, md_incomingFace = 0,
         md_bootstrapTime = b\<rparr>)"

definition is_newer :: "'n version_vector \<Rightarrow> 'n \<times> bootstrap_time \<times> seq_no \<Rightarrow> bool" where
  "is_newer v e \<longleftrightarrow> (case e of (n, b, s) \<Rightarrow> vv_get n b v < s)"

lemma merge_entry_eq:
  "merge_entry now e m =
     Inr (if is_newer (mc_mergedVector m) e
          then m\<lparr>mc_otherVectorNew := True,
                 mc_missingData := mc_missingData m @ [missing_of (mc_mergedVector m) e],
                 mc_mergedVector := vv_raise now e (mc_mergedVector m)\<rparr>
          else m)"
  by (cases e) (simp add: merge_entry_def is_newer_def vv_set_raise missing_of_def Let_def)

definition entry_key :: "'n \<times> bootstrap_time \<times> seq_no \<Rightarrow> 'n \<times> bootstrap_time" where
  "entry_key e = (fst e, fst (snd e))"

lemma missing_of_raise:
  "entry_key e' \<noteq> entry_key e \<Longrightarrow>
    missing_of (vv_raise now e v) e' = missing_of v e' \<and>
    is_newer (vv_raise now e v) e' = is_newer v e'"
  by (cases e; cases e') (auto simp: entry_key_def missing_of_def is_newer_def vv_raise_def vv_get_put)

text \<open>
  The loop in closed form, for entries with distinct keys: an earlier entry never changes what
  is reported for a later one.
\<close>

lemma merge_loop_eq:
  assumes "distinct (map entry_key es)"
  shows "res_fold (merge_entry now) es m =
    Inr (m\<lparr>mc_otherVectorNew := mc_otherVectorNew m \<or> list_ex (is_newer (mc_mergedVector m)) es,
           mc_missingData := mc_missingData m @
             map (missing_of (mc_mergedVector m)) (filter (is_newer (mc_mergedVector m)) es),
           mc_mergedVector := fold (vv_raise now) es (mc_mergedVector m)\<rparr>)"
  using assms
proof (induction es arbitrary: m)
  case Nil
  then show ?case by simp
next
  case (Cons e es)
  let ?v = "mc_mergedVector m"
  have other: "missing_of (vv_raise now e ?v) e' = missing_of ?v e'"
      "is_newer (vv_raise now e ?v) e' = is_newer ?v e'" if "e' \<in> set es" for e'
  proof -
    have "entry_key e \<notin> entry_key ` set es"
      using Cons.prems by simp
    then have "entry_key e' \<noteq> entry_key e"
      using that by (metis image_eqI)
    then show "missing_of (vv_raise now e ?v) e' = missing_of ?v e'"
      "is_newer (vv_raise now e ?v) e' = is_newer ?v e'"
      using missing_of_raise [of e' e now ?v] by simp_all
  qed
  have maps: "map (missing_of (vv_raise now e ?v)) (filter (is_newer (vv_raise now e ?v)) es) =
      map (missing_of ?v) (filter (is_newer ?v) es)"
    "list_ex (is_newer (vv_raise now e ?v)) es = list_ex (is_newer ?v) es"
    using other by (auto simp: list_ex_iff cong: filter_cong)
  have "vv_raise now e ?v = ?v" if "\<not> is_newer ?v e"
    using that by (cases e) (simp add: is_newer_def vv_raise_def)
  then show ?case
    using Cons maps by (cases "is_newer ?v e") (simp_all add: merge_entry_eq)
qed

lemma vv_all_distinct: "vv_ok v \<Longrightarrow> distinct (map entry_key (vv_all v))"
  using vv_keyed_distinct [of v] by (simp add: vv_keyed_def entry_key_def [abs_def] comp_def split_def)

lemma computeMerge_eq:
  assumes "vv_ok r"
  shows "computeMergeStateVector now l r =
    Inr \<lparr>mc_myVectorNew =
           list_ex (\<lambda>(n, b, s). vv_get n b r < s) (vv_all (vv_join now l r)),
         mc_otherVectorNew = list_ex (is_newer l) (vv_all r),
         mc_missingData = map (missing_of l) (filter (is_newer l) (vv_all r)),
         mc_mergedVector = vv_join now l r\<rparr>"
  unfolding computeMergeStateVector_def merge_loop_eq [OF vv_all_distinct [OF assms]]
  by (simp add: vv_join_def)

lemma other_new_iff:
  assumes "vv_ok r"
  shows "list_ex (is_newer l) (vv_all r) \<longleftrightarrow> \<not> vv_le r l"
proof -
  have "list_ex (is_newer l) (vv_all r) \<longleftrightarrow> (\<exists>n b. vv_get n b r \<noteq> 0 \<and> vv_get n b l < vv_get n b r)"
    using vv_all_mem [OF assms] by (fastforce simp: list_ex_iff is_newer_def)
  also have "\<dots> \<longleftrightarrow> \<not> vv_le r l"
    unfolding vv_le_def not_le [symmetric] by (metis word_le_0_iff le_less_linear word_zero_le)
  finally show ?thesis .
qed

lemma my_new_iff:
  assumes "vv_ok l" and "vv_ok r"
  shows "list_ex (\<lambda>(n, b, s). vv_get n b r < s) (vv_all (vv_join now l r)) \<longleftrightarrow> \<not> vv_le l r"
proof -
  note j = vv_ok_join [OF assms(1), of now r]
  have "list_ex (\<lambda>(n, b, s). vv_get n b r < s) (vv_all (vv_join now l r)) \<longleftrightarrow>
      (\<exists>n b. vv_get n b (vv_join now l r) \<noteq> 0 \<and> vv_get n b r < vv_get n b (vv_join now l r))"
    using vv_all_mem [OF j] by (fastforce simp: list_ex_iff)
  also have "\<dots> \<longleftrightarrow> (\<exists>n b. vv_get n b r < vv_get n b l)"
    unfolding vv_get_join [OF assms(2)]
    by (metis less_max_iff_disj less_irrefl u64_less_imp_nonzero)
  also have "\<dots> \<longleftrightarrow> \<not> vv_le l r"
    by (auto simp: vv_le_def not_le)
  finally show ?thesis .
qed

section \<open>Merging many vectors\<close>

text \<open>The entries a sequence of merges ends with are the maximum over all vectors involved.\<close>

lemma vv_ok_join_all: "vv_ok v \<Longrightarrow> vv_ok (fold (\<lambda>r v. vv_join now v r) rs v)"
  by (induction rs arbitrary: v) (simp_all add: vv_ok_join)

lemma vv_get_join_all:
  assumes "\<forall>r \<in> set rs. vv_ok r"
  shows "vv_get n b (fold (\<lambda>r v. vv_join now v r) rs v) = fold max (map (vv_get n b) rs) (vv_get n b v)"
  using assms by (induction rs arbitrary: v) (simp_all add: vv_get_join max.commute)

lemma fold_max_set:
  fixes xs ys :: "'a :: linorder list"
  assumes "set xs = set ys"
  shows "fold max xs a = fold max ys a"
proof -
  have le: "fold max xs a \<le> fold max ys a" if "set xs \<subseteq> set ys" for xs ys :: "'a list"
    using fold_max_mem [of xs a] fold_max_ge [of "fold max xs a" a ys] that by auto
  show ?thesis
    using le [of xs ys] le [of ys xs] assms by (simp add: antisym)
qed

text \<open>Merging as the core does it, one received vector after the other.\<close>

fun merge_all ::
    "time_point \<Rightarrow> 'n :: linorder version_vector \<Rightarrow> 'n version_vector list
      \<Rightarrow> 'n version_vector result" where
  "merge_all now v [] = Inr v"
| "merge_all now v (r # rs) =
     res_bind (computeMergeStateVector now v r) (\<lambda>m. merge_all now (mc_mergedVector m) rs)"

lemma merge_all_eq:
  "\<forall>r \<in> set rs. vv_ok r \<Longrightarrow> merge_all now v rs = Inr (fold (\<lambda>r v. vv_join now v r) rs v)"
  by (induction rs arbitrary: v) (simp_all add: computeMerge_eq)

section \<open>Properties\<close>

text \<open>
  C6: merging never fails, keeps the class invariant, and gives in every register the greater
  of the local and the received number; the caller learns that it has newer state exactly when
  some register is ahead of the received vector, and that the received vector is newer exactly
  when some register is behind it.
\<close>

theorem merge_is_join:
  assumes "vv_ok l" and "vv_ok r"
  shows "\<exists>m. computeMergeStateVector now l r = Inr m \<and> vv_ok (mc_mergedVector m) \<and>
    (\<forall>n b. vv_get n b (mc_mergedVector m) = max (vv_get n b l) (vv_get n b r)) \<and>
    (mc_myVectorNew m \<longleftrightarrow> (\<exists>n b. vv_get n b r < vv_get n b l)) \<and>
    (mc_otherVectorNew m \<longleftrightarrow> (\<exists>n b. vv_get n b l < vv_get n b r))"
  using my_new_iff [OF assms, of now] other_new_iff [OF assms(2), of l]
  by (simp add: computeMerge_eq [OF assms(2)] vv_ok_join [OF assms(1)] vv_get_join [OF assms(2)]
      vv_le_def not_le)

theorem merge_is_join_witness:
  "\<exists>m. computeMergeStateVector 3 vv_empty sample_vector = Inr m \<and> vv_ok (mc_mergedVector m) \<and>
    (\<forall>n b. vv_get n b (mc_mergedVector m) = max (vv_get n b vv_empty) (vv_get n b sample_vector)) \<and>
    (mc_myVectorNew m \<longleftrightarrow> (\<exists>n b. vv_get n b sample_vector < vv_get n b vv_empty)) \<and>
    (mc_otherVectorNew m \<longleftrightarrow> (\<exists>n b. vv_get n b vv_empty < vv_get n b sample_vector))"
  by (rule merge_is_join [OF vv_ok_empty sample_vector_ok])

lemma u64_succ_le_iff: "(a :: u64) < b \<Longrightarrow> a + 1 \<le> c \<longleftrightarrow> a < c"
  by (simp add: u64_succ_unat word_le_nat_alt word_less_nat_alt Suc_le_eq)

text \<open>
  C7: the missing-data report of a merge is exact: a number of an epoch of a node lies in a
  reported range if and only if it is above the local register and at most the received one;
  no range is empty or starts at 0, and no node and epoch is reported twice.
\<close>

theorem missing_data_exact:
  assumes "vv_ok l" and "vv_ok r" and "computeMergeStateVector now l r = Inr m"
  shows "(\<forall>n b s. (\<exists>i \<in> set (mc_missingData m). md_nodeId i = n \<and> md_bootstrapTime i = b \<and>
        md_low i \<le> s \<and> s \<le> md_high i) \<longleftrightarrow> vv_get n b l < s \<and> s \<le> vv_get n b r) \<and>
    (\<forall>i \<in> set (mc_missingData m). 0 < md_low i \<and> md_low i \<le> md_high i) \<and>
    distinct (map (\<lambda>i. (md_nodeId i, md_bootstrapTime i)) (mc_missingData m))"
proof (intro conjI allI ballI)
  have m: "mc_missingData m = map (missing_of l) (filter (is_newer l) (vv_all r))"
    using assms(3) by (auto simp: computeMerge_eq [OF assms(2)])
  have mem: "i \<in> set (mc_missingData m) \<longleftrightarrow>
      (\<exists>n b. vv_get n b l < vv_get n b r \<and> i = missing_of l (n, b, vv_get n b r))" for i
    using vv_all_mem [OF assms(2)] unfolding m
    by (force simp: is_newer_def dest: u64_less_imp_nonzero)
  show "(\<exists>i \<in> set (mc_missingData m). md_nodeId i = n \<and> md_bootstrapTime i = b \<and>
      md_low i \<le> s \<and> s \<le> md_high i) \<longleftrightarrow> vv_get n b l < s \<and> s \<le> vv_get n b r" for n b s
  proof
    assume "\<exists>i \<in> set (mc_missingData m). md_nodeId i = n \<and> md_bootstrapTime i = b \<and>
      md_low i \<le> s \<and> s \<le> md_high i"
    then show "vv_get n b l < s \<and> s \<le> vv_get n b r"
      by (auto simp: mem missing_of_def u64_succ_le_iff)
  next
    assume s: "vv_get n b l < s \<and> s \<le> vv_get n b r"
    then have lt: "vv_get n b l < vv_get n b r" by auto
    show "\<exists>i \<in> set (mc_missingData m). md_nodeId i = n \<and> md_bootstrapTime i = b \<and>
      md_low i \<le> s \<and> s \<le> md_high i"
    proof (rule bexI)
      show "missing_of l (n, b, vv_get n b r) \<in> set (mc_missingData m)"
        using lt by (auto simp: mem)
    qed (use s lt in \<open>simp add: missing_of_def u64_succ_le_iff\<close>)
  qed
  show "0 < md_low i" if "i \<in> set (mc_missingData m)" for i
    using that u64_succ_unat by (force simp: mem missing_of_def word_less_nat_alt)
  show "md_low i \<le> md_high i" if "i \<in> set (mc_missingData m)" for i
    using that by (auto simp: mem missing_of_def u64_succ_le)
  have "map (\<lambda>i. (md_nodeId i, md_bootstrapTime i)) (mc_missingData m) =
      map entry_key (filter (is_newer l) (vv_all r))"
    by (simp add: m missing_of_def entry_key_def split_def)
  then show "distinct (map (\<lambda>i. (md_nodeId i, md_bootstrapTime i)) (mc_missingData m))"
    using vv_all_distinct [OF assms(2)] by (simp add: distinct_map inj_on_def)
qed

theorem missing_data_exact_witness:
  "\<exists>m. computeMergeStateVector 3 vv_empty sample_vector = Inr m \<and>
    (\<forall>n b s. (\<exists>i \<in> set (mc_missingData m). md_nodeId i = n \<and> md_bootstrapTime i = b \<and>
        md_low i \<le> s \<and> s \<le> md_high i) \<longleftrightarrow> vv_get n b vv_empty < s \<and> s \<le> vv_get n b sample_vector) \<and>
    (\<forall>i \<in> set (mc_missingData m). 0 < md_low i \<and> md_low i \<le> md_high i) \<and>
    distinct (map (\<lambda>i. (md_nodeId i, md_bootstrapTime i)) (mc_missingData m))"
  using missing_data_exact [OF vv_ok_empty sample_vector_ok
      computeMerge_eq [OF sample_vector_ok, of 3 vv_empty]]
    computeMerge_eq [OF sample_vector_ok, of 3 vv_empty] by blast

text \<open>
  C8: replicas converge: whatever the order in which a participant merges a set of received
  vectors, and however often it merges each, it ends with the same entries and the same latest
  numbers.
\<close>

theorem merge_order_irrelevant:
  assumes "vv_ok v" and "\<forall>r \<in> set rs. vv_ok r" and "set rs = set rs'"
  shows "\<exists>w w'. merge_all now v rs = Inr w \<and> merge_all now' v rs' = Inr w' \<and>
    m_entries w = m_entries w' \<and> m_latestMap w = m_latestMap w'"
proof -
  have rs': "\<forall>r \<in> set rs'. vv_ok r"
    using assms(2,3) by simp
  note eqs = merge_all_eq [OF assms(2), of now v] merge_all_eq [OF rs', of now' v]
  have gets: "vv_get n b (fold (\<lambda>r v. vv_join now v r) rs v) =
      vv_get n b (fold (\<lambda>r v. vv_join now' v r) rs' v)" for n b
    unfolding vv_get_join_all [OF assms(2)] vv_get_join_all [OF rs']
    by (rule fold_max_set) (simp add: assms(3))
  show ?thesis
    using eqs vv_ext [OF vv_ok_join_all [OF assms(1)] vv_ok_join_all [OF assms(1)] gets] by simp
qed

theorem merge_order_irrelevant_witness:
  "\<exists>w w'. merge_all 3 vv_empty [sample_vector, vv_empty] = Inr w \<and>
    merge_all 5 vv_empty [vv_empty, sample_vector, sample_vector] = Inr w' \<and>
    m_entries w = m_entries w' \<and> m_latestMap w = m_latestMap w'"
  by (rule merge_order_irrelevant [OF vv_ok_empty]) (auto simp: sample_vector_ok)

end
