(* ===== verification/Sync_Protocol.thy ===== *)
theory Sync_Protocol
  imports Version_Vector_Codec Ndn_Instance
begin

text \<open>
  \<^verbatim>\<open>sync-protocol.hpp\<close> and \<^verbatim>\<open>sync-protocol.cpp\<close>: the protocol options and their validation, the
  name of a group's Sync Interests, and the codec of the Sync Interest for SVS V3 (a signed
  State Vector Data in the parameters) and SVS V2 (a bare state vector), with its extension
  blocks. The build flag \<^verbatim>\<open>NDN_SVS_COMPRESSION\<close> is the argument \<open>cmp\<close> of the codec, the function
  object that signs the Data is an optional function. The lemmas give the round trips of both
  versions and what a decoder accepts.
\<close>

section \<open>Versions and options\<close>

text \<open>\<open>VOther\<close> is a value of the enumeration's underlying type that is not an enumerator.\<close>

datatype svs_version = V2 | V3 | VOther u8

definition version_number :: "svs_version \<Rightarrow> u64" where
  "version_number v = (case v of V2 \<Rightarrow> 2 | V3 \<Rightarrow> 3 | VOther x \<Rightarrow> ucast x)"

text \<open>Durations are \<^verbatim>\<open>time::milliseconds\<close>.\<close>

record resolved_options =
  ro_version :: svs_version
  ro_bootstrapTime :: "bootstrap_time option"
  ro_syncInterestLifetime :: int
  ro_suppressionPeriod :: int
  ro_periodicTimeout :: int
  ro_periodicJitter :: real

record protocol_options =
  po_version :: svs_version
  po_bootstrapTime :: "bootstrap_time option"
  po_syncInterestLifetime :: "int option"
  po_suppressionPeriod :: "int option"
  po_periodicTimeout :: "int option"
  po_periodicJitter :: real

definition value_or :: "'a option \<Rightarrow> 'a \<Rightarrow> 'a" where
  "value_or x d = (case x of None \<Rightarrow> d | Some y \<Rightarrow> y)"

definition resolve_timers :: "protocol_options \<Rightarrow> (int \<times> int) result" where
  "resolve_timers opts =
     (case po_version opts of
        V2 \<Rightarrow> Inr (value_or (po_syncInterestLifetime opts) 1,
                 value_or (po_suppressionPeriod opts) 500)
      | V3 \<Rightarrow> Inr (value_or (po_syncInterestLifetime opts) 1000,
                 value_or (po_suppressionPeriod opts) 200)
      | VOther _ \<Rightarrow> Inl (InvalidArgument ''unsupported SVS protocol version''))"

definition resolve :: "sys_clock \<Rightarrow> protocol_options \<Rightarrow> resolved_options result" where
  "resolve clk opts =
     (if po_periodicJitter opts < 0 \<or> po_periodicJitter opts > 1
      then Inl (InvalidArgument ''SVS periodic jitter must be in [0,1]'')
      else
        res_bind (resolve_timers opts) (\<lambda>(lifetime, suppression).
          let periodic = value_or (po_periodicTimeout opts) 30000;
              resolved = \<lparr>ro_version = po_version opts, ro_bootstrapTime = po_bootstrapTime opts,
                ro_syncInterestLifetime = lifetime, ro_suppressionPeriod = suppression,
                ro_periodicTimeout = periodic, ro_periodicJitter = po_periodicJitter opts\<rparr>
          in if lifetime \<le> 0 \<or> suppression < 0 \<or> periodic \<le> 0
             then Inl (InvalidArgument ''SVS protocol timers are out of range'')
             else
               (case po_bootstrapTime opts of
                  None \<Rightarrow> Inr resolved
                | Some b \<Rightarrow>
                    if b > clk_seconds clk + 86400
                    then Inl (InvalidArgument ''SVS bootstrap time is too far in the future'')
                    else Inr resolved)))"

section \<open>Encoding a Sync Interest\<close>

definition MAX_EXTENSION_BLOCKS :: nat where
  "MAX_EXTENSION_BLOCKS = 16"

definition makeSyncName :: "('n, 'c, 'b, 'd, 'i) ndn \<Rightarrow> 'n \<Rightarrow> svs_version \<Rightarrow> 'n" where
  "makeSyncName N groupPrefix version = nm_push N groupPrefix (comp_version N (version_number version))"

definition is_core_type :: "u32 \<Rightarrow> bool" where
  "is_core_type t \<longleftrightarrow> t = tlv_StateVector \<or> t = tlv_Data"

definition is_known_type :: "u32 \<Rightarrow> bool" where
  "is_known_type t \<longleftrightarrow> t = tlv_MappingData \<or> t = tlv_RepairData"

text \<open>The check of the extension types; \<open>known\<close> is the set \<^verbatim>\<open>knownExtensionTypes\<close>.\<close>

fun check_extensions ::
    "('n, 'c, 'b, 'd, 'i) ndn \<Rightarrow> u32 list \<Rightarrow> 'b list \<Rightarrow> unit result" where
  "check_extensions N known [] = Inr ()"
| "check_extensions N known (e # es) =
     (let t = block_type N e in
      if is_known_type t \<and> t \<in> set known
      then Inl (CodecError ''duplicate known SVS extension'')
      else
        let known = (if is_known_type t then t # known else known) in
        if is_core_type t then Inl (CodecError ''extension collides with SVS core envelope'')
        else check_extensions N known es)"

fun prepend_blocks ::
    "('n, 'c, 'b, 'd, 'i) ndn \<Rightarrow> 'b list \<Rightarrow> bytes \<times> nat \<Rightarrow> bytes \<times> nat" where
  "prepend_blocks N [] (enc, len) = (enc, len)"
| "prepend_blocks N (b # bs) (enc, len) =
     (let (enc, k) = prepend_block N b enc in prepend_blocks N bs (enc, len + k))"

text \<open>The V3 branch: everything goes into one Data under the Sync name, which is signed.\<close>

definition encode_body_V3 ::
    "('n, 'c, 'b, 'd, 'i) ndn \<Rightarrow> 'n \<Rightarrow> 'n version_vector \<Rightarrow> 'b list \<Rightarrow> ('d \<Rightarrow> 'd result) option
      \<Rightarrow> (bytes \<times> nat) result" where
  "encode_body_V3 N syncName stateVector extensions signData =
     res_bind (vv_encode N stateVector) (\<lambda>sv.
       let content = block_nested N tlv_Content (sv # extensions);
           stateData = data_new N \<lparr>da_name = syncName, da_content = PayloadBlock content,
             da_freshness = 0, da_content_type = None, da_final_block = None\<rparr>
       in (case signData of
             None \<Rightarrow> Inl (InvalidArgument ''SVS V3 requires a Data signer'')
           | Some sign \<Rightarrow>
               res_bind (sign stateData) (\<lambda>stateData.
                 Inr (prepend_block N (data_wire N stateData) []))))"

definition encode_body_V2 ::
    "('n, 'c, 'b, 'd, 'i) ndn \<Rightarrow> 'n version_vector \<Rightarrow> 'b list \<Rightarrow> (bytes \<times> nat) result" where
  "encode_body_V2 N stateVector extensions =
     (let (enc, len) = prepend_blocks N (rev extensions) ([], 0)
      in res_bind (vv_encodeV2 N stateVector) (\<lambda>sv.
           let (enc, k) = prepend_block N sv enc in Inr (enc, len + k)))"

text \<open>The checks and the encoder's buffer, up to \<^verbatim>\<open>encoder.block()\<close>.\<close>

definition encode_parameters ::
    "('n, 'c, 'b, 'd, 'i) ndn \<Rightarrow> 'n \<Rightarrow> 'n version_vector \<Rightarrow> 'b list \<Rightarrow> resolved_options
      \<Rightarrow> ('d \<Rightarrow> 'd result) option \<Rightarrow> bytes result" where
  "encode_parameters N groupPrefix stateVector extensions options signData =
     (if length extensions > MAX_EXTENSION_BLOCKS
      then Inl (CodecError ''too many SVS extension blocks'')
      else
        res_bind (check_extensions N [] extensions) (\<lambda>_.
        res_bind
          (if ro_version options = V3
           then encode_body_V3 N (makeSyncName N groupPrefix (ro_version options)) stateVector
                  extensions signData
           else encode_body_V2 N stateVector extensions) (\<lambda>(enc, len).
        let (enc, _) = prepend_header N tlv_ApplicationParameters len enc in Inr enc)))"

text \<open>\<^verbatim>\<open>SyncProtocolCodec::encode\<close>\<close>

definition encode ::
    "('n, 'c, 'b, 'd, 'i) ndn \<Rightarrow> bool \<Rightarrow> 'n \<Rightarrow> 'n version_vector \<Rightarrow> 'b list \<Rightarrow> resolved_options
      \<Rightarrow> ('d \<Rightarrow> 'd result) option \<Rightarrow> 'i result" where
  "encode N cmp groupPrefix stateVector extensions options signData =
     res_bind (encode_parameters N groupPrefix stateVector extensions options signData) (\<lambda>enc.
     res_bind (res_of_option (TlvError ''block'') (block_of N enc)) (\<lambda>parameters.
     let parameters =
           (if cmp \<and> ro_version options = V2
            then block_with_value N tlv_LzmaBlock (lzma_compress N (block_wire N parameters))
            else parameters)
     in Inr (interest_new N (makeSyncName N groupPrefix (ro_version options)) (Some parameters)
               (ro_syncInterestLifetime options))))"

section \<open>Decoding a Sync Interest\<close>

record ('n, 'b, 'd) sync_envelope =
  env_stateVector :: "'n version_vector"
  env_stateVectorDecoded :: bool
  env_extensions :: "'b list"
  env_stateVectorData :: "'d option"

text \<open>
  The loop over extension blocks, the same in both versions; \<open>acc\<close> is \<^verbatim>\<open>decoded.extensions\<close>.
\<close>

fun scan_extensions ::
    "('n, 'c, 'b, 'd, 'i) ndn \<Rightarrow> u32 list \<Rightarrow> 'b list \<Rightarrow> 'b list \<Rightarrow> 'b list result" where
  "scan_extensions N known acc [] = Inr acc"
| "scan_extensions N known acc (e # es) =
     (let t = block_type N e in
      if length acc \<ge> MAX_EXTENSION_BLOCKS then Inl (CodecError ''too many SVS extension blocks'')
      else if is_core_type t then Inl (CodecError ''duplicate SVS core envelope'')
      else if is_known_type t \<and> t \<in> set known
      then Inl (CodecError ''duplicate known SVS extension'')
      else scan_extensions N (if is_known_type t then t # known else known) (acc @ [e]) es)"

text \<open>\<^verbatim>\<open>SyncProtocolCodec::decodeStateVector\<close>\<close>

definition decodeStateVector ::
    "('n :: linorder, 'c, 'b, 'd, 'i) ndn \<Rightarrow> sys_clock \<Rightarrow> ('n, 'b, 'd) sync_envelope
      \<Rightarrow> svs_version \<Rightarrow> 'n version_vector result" where
  "decodeStateVector N clk envelope version =
     (if version = V2 then
        (if \<not> env_stateVectorDecoded envelope
         then Inl (CodecError ''SVS V2 StateVector was not decoded'')
         else Inr (env_stateVector envelope))
      else
        (case env_stateVectorData envelope of
           None \<Rightarrow> Inl (CodecError ''missing SVS V3 State Vector Data'')
         | Some d \<Rightarrow>
             if version \<noteq> V3 then Inl (CodecError ''missing SVS V3 State Vector Data'')
             else
               (case block_elems N (data_content N d) of
                  None \<Rightarrow> Inl (TlvError ''parse'')
                | Some [] \<Rightarrow> Inl (CodecError ''empty SVS V3 State Vector Data content'')
                | Some (stateBlock # _) \<Rightarrow>
                    if block_type N stateBlock \<noteq> tlv_StateVector
                    then Inl (TlvError ''SVS V3 StateVector Content'')
                    else vv_decode N clk stateBlock)))"

text \<open>The V3 branch, for the first parameter block.\<close>

definition decode_V3 ::
    "('n :: linorder, 'c, 'b, 'd, 'i) ndn \<Rightarrow> sys_clock \<Rightarrow> 'n \<Rightarrow> bool \<Rightarrow> 'b
      \<Rightarrow> ('n, 'b, 'd) sync_envelope result" where
  "decode_V3 N clk expectedPrefix decodeSemanticState first =
     (if block_type N first \<noteq> tlv_Data then Inl (TlvError ''SVS V3 State Vector Data'')
      else
        res_bind (res_of_option (TlvError ''Data'') (data_of_block N first)) (\<lambda>stateData.
        if data_name N stateData \<noteq> expectedPrefix \<or> \<not> data_signed N stateData
        then Inl (TlvError ''invalid SVS V3 State Vector Data'')
        else
          (case block_elems N (data_content N stateData) of
             None \<Rightarrow> Inl (TlvError ''parse'')
           | Some [] \<Rightarrow> Inl (TlvError ''SVS V3 StateVector Content'')
           | Some (c # cs) \<Rightarrow>
               if block_type N c \<noteq> tlv_StateVector
               then Inl (TlvError ''SVS V3 StateVector Content'')
               else
                 res_bind (scan_extensions N [] [] cs) (\<lambda>exts.
                 let decoded = \<lparr>env_stateVector = vv_empty, env_stateVectorDecoded = False,
                       env_extensions = exts, env_stateVectorData = Some stateData\<rparr>
                 in if decodeSemanticState
                    then
                      res_bind (decodeStateVector N clk decoded V3) (\<lambda>v.
                      Inr (decoded\<lparr>env_stateVector := v, env_stateVectorDecoded := True\<rparr>))
                    else Inr decoded))))"

definition decode_V2 ::
    "('n :: linorder, 'c, 'b, 'd, 'i) ndn \<Rightarrow> sys_clock \<Rightarrow> 'b
      \<Rightarrow> ('n, 'b, 'd) sync_envelope result" where
  "decode_V2 N clk first =
     (if block_type N first \<noteq> tlv_StateVector then Inl (TlvError ''SVS V2 StateVector'')
      else
        res_bind (vv_decodeV2 N clk first) (\<lambda>v.
        Inr \<lparr>env_stateVector = v, env_stateVectorDecoded = True, env_extensions = [],
             env_stateVectorData = None\<rparr>))"

text \<open>The sub-elements of the parameters, after decompression where that applies.\<close>

definition decode_elements ::
    "('n, 'c, 'b, 'd, 'i) ndn \<Rightarrow> bool \<Rightarrow> svs_version \<Rightarrow> 'b \<Rightarrow> 'b list result" where
  "decode_elements N cmp version params =
     res_bind (res_of_option (TlvError ''parse'') (block_elems N params)) (\<lambda>elems.
     if cmp \<and> version = V2 then
       (case find (\<lambda>b. block_type N b = tlv_LzmaBlock) elems of
          None \<Rightarrow> Inr elems
        | Some compressed \<Rightarrow>
            res_bind (res_of_option (RuntimeError ''lzma'')
                (lzma_decompress N (block_value N compressed))) (\<lambda>bs.
            (case block_from_buffer N bs of
               None \<Rightarrow> Inl (CodecError ''invalid compressed SVS V2 parameters'')
             | Some decoded \<Rightarrow>
                 if block_type N decoded \<noteq> tlv_ApplicationParameters
                 then Inl (CodecError ''invalid compressed SVS V2 parameters'')
                 else res_of_option (TlvError ''parse'') (block_elems N decoded))))
     else Inr elems)"

text \<open>
  The guard on the Interest's name. The index \<open>-1\<close> is in range once the size has been checked.
\<close>

definition sync_name_ok ::
    "('n, 'c, 'b, 'd, 'i) ndn \<Rightarrow> 'n \<Rightarrow> 'i \<Rightarrow> bool" where
  "sync_name_ok N expectedPrefix i \<longleftrightarrow>
     nm_size N (interest_name N i) = nm_size N expectedPrefix + 1 \<and>
     nm_prefix N (interest_name N i) (int (nm_size N expectedPrefix)) = expectedPrefix \<and>
     (case nm_at N (interest_name N i) (- 1) of None \<Rightarrow> False | Some c \<Rightarrow> comp_is_digest N c) \<and>
     interest_digest_ok N i"

text \<open>\<^verbatim>\<open>SyncProtocolCodec::decode\<close>\<close>

definition decode ::
    "('n :: linorder, 'c, 'b, 'd, 'i) ndn \<Rightarrow> bool \<Rightarrow> sys_clock \<Rightarrow> 'i \<Rightarrow> 'n \<Rightarrow> svs_version \<Rightarrow> bool
      \<Rightarrow> ('n, 'b, 'd) sync_envelope result" where
  "decode N cmp clk i groupPrefix version decodeSemanticState =
     (let expectedPrefix = makeSyncName N groupPrefix version in
      if \<not> sync_name_ok N expectedPrefix i
      then Inl (TlvError ''SVS Sync Interest name or parameters digest'')
      else
        res_bind (res_of_option (TlvError ''missing SVS ApplicationParameters'')
            (interest_params N i)) (\<lambda>params.
        res_bind (decode_elements N cmp version params) (\<lambda>elems.
        (case elems of
           [] \<Rightarrow> Inl (TlvError ''empty SVS ApplicationParameters'')
         | first # rest \<Rightarrow>
             res_bind
               (if version = V3 then decode_V3 N clk expectedPrefix decodeSemanticState first
                else decode_V2 N clk first) (\<lambda>decoded.
             if version = V3 \<and> rest \<noteq> []
             then Inl (CodecError ''SVS V3 extensions must be inside signed State Vector Data'')
             else
               res_bind (scan_extensions N [] (env_extensions decoded) rest) (\<lambda>exts.
               Inr (decoded\<lparr>env_extensions := exts\<rparr>)))))))"

section \<open>Extension blocks\<close>

text \<open>What both sides demand of the extension blocks of one Interest.\<close>

definition known_types :: "('n, 'c, 'b, 'd, 'i) ndn \<Rightarrow> 'b list \<Rightarrow> u32 list" where
  "known_types N es = filter is_known_type (map (block_type N) es)"

definition extensions_ok :: "('n, 'c, 'b, 'd, 'i) ndn \<Rightarrow> 'b list \<Rightarrow> bool" where
  "extensions_ok N es \<longleftrightarrow>
     length es \<le> MAX_EXTENSION_BLOCKS \<and> (\<forall>e \<in> set es. \<not> is_core_type (block_type N e)) \<and>
     distinct (known_types N es)"

lemma known_types_simps [simp]:
  "known_types N [] = []"
  "known_types N (e # es) =
     (if is_known_type (block_type N e) then block_type N e # known_types N es
      else known_types N es)"
  by (simp_all add: known_types_def)

lemma check_extensions_iff:
  "check_extensions N known es = Inr () \<longleftrightarrow>
     (\<forall>e \<in> set es. \<not> is_core_type (block_type N e)) \<and> distinct (known_types N es) \<and>
     set (known_types N es) \<inter> set known = {}"
  by (induction N known es rule: check_extensions.induct) (auto simp: Let_def)

lemma scan_extensions_iff:
  "scan_extensions N known acc es = Inr r \<longleftrightarrow>
     r = acc @ es \<and> (es = [] \<or> length acc + length es \<le> MAX_EXTENSION_BLOCKS) \<and>
     (\<forall>e \<in> set es. \<not> is_core_type (block_type N e)) \<and> distinct (known_types N es) \<and>
     set (known_types N es) \<inter> set known = {}"
proof (induction N known acc es rule: scan_extensions.induct)
  case (1 N known acc)
  then show ?case by auto
next
  case (2 N known acc e es)
  then show ?case
    by (cases es) (auto simp: Let_def)
qed

lemma scan_extensions_start:
  "scan_extensions N [] [] es = Inr r \<longleftrightarrow> r = es \<and> extensions_ok N es"
  by (auto simp: scan_extensions_iff extensions_ok_def)

lemma encode_parameters_extensions:
  "encode_parameters N p v es opts sg = Inr enc \<Longrightarrow> extensions_ok N es"
  by (auto simp: encode_parameters_def res_bind_eq_Inr check_extensions_iff extensions_ok_def
      split: if_splits)

lemma encode_name:
  "encode N cmp p v es opts sg = Inr i \<Longrightarrow>
    \<exists>q. i = interest_new N (makeSyncName N p (ro_version opts)) (Some q)
          (ro_syncInterestLifetime opts)"
  by (auto simp: encode_def res_bind_eq_Inr Let_def)

section \<open>The name of a Sync Interest\<close>

lemma comps_makeSyncName:
  "name_laws N \<Longrightarrow>
    nm_comps N (makeSyncName N p version) = nm_comps N p @ [comp_version N (version_number version)]"
  by (simp add: makeSyncName_def name_law_comps)

lemma makeSyncName_eq:
  assumes "name_laws N"
  shows "makeSyncName N p a = makeSyncName N q b \<longleftrightarrow> p = q \<and> version_number a = version_number b"
  using name_law_inj [OF assms, of "makeSyncName N p a" "makeSyncName N q b"]
    name_law_inj [OF assms, of p q] name_law_codecs(6) [OF assms]
  by (simp add: comps_makeSyncName [OF assms])

lemma snoc_iff: "length n = Suc (length m) \<and> take (length m) n = m \<longleftrightarrow> (\<exists>c. n = m @ [c])"
  by (cases n rule: rev_cases) auto

lemma sync_name_ok_iff:
  assumes "name_laws N"
  shows "sync_name_ok N prefix i \<longleftrightarrow>
    (\<exists>c. nm_comps N (interest_name N i) = nm_comps N prefix @ [c] \<and> comp_is_digest N c) \<and>
    interest_digest_ok N i"
proof -
  let ?n = "nm_comps N (interest_name N i)"
  have at: "nm_at N (interest_name N i) (- 1) = Some (?n ! (length ?n - 1))" if "0 < length ?n"
    using name_law_back(2) [OF assms, of 1 "interest_name N i"] that by simp
  have pre: "nm_prefix N (interest_name N i) (int k) = prefix \<longleftrightarrow> take k ?n = nm_comps N prefix" for k
    using name_law_inj [OF assms, of "nm_prefix N (interest_name N i) (int k)" prefix]
    by (simp add: name_law_comps [OF assms])
  show ?thesis
    using snoc_iff [of ?n "nm_comps N prefix"] at pre
    by (auto simp: sync_name_ok_def name_law_comps [OF assms])
qed

section \<open>Round trip of SVS V3\<close>

definition state_data :: "('n, 'c, 'b, 'd, 'i) ndn \<Rightarrow> 'n \<Rightarrow> 'b \<Rightarrow> 'b list \<Rightarrow> 'd" where
  "state_data N syncName sv es =
     data_new N \<lparr>da_name = syncName, da_content = PayloadBlock (block_nested N tlv_Content (sv # es)),
       da_freshness = 0, da_content_type = None, da_final_block = None\<rparr>"

lemma encode_parameters_V3:
  assumes "ro_version opts = V3" and "encode_parameters N p v es opts sg = Inr enc"
  obtains sv sign d where "vv_encode N v = Inr sv" and "sg = Some sign"
    and "sign (state_data N (makeSyncName N p V3) sv es) = Inr d"
    and "enc = tlv_bytes N tlv_ApplicationParameters (block_wire N (data_wire N d))"
    and "extensions_ok N es"
  using assms encode_parameters_extensions [OF assms(2)]
    prepend_header_value [of N tlv_ApplicationParameters _ "[]"]
  by (auto simp: encode_parameters_def encode_body_V3_def res_bind_eq_Inr Let_def prepend_block_def
      state_data_def split: if_splits option.splits)

text \<open>The signed packet carries the name, and the blocks the sender put into it.\<close>

lemma state_data_signed:
  assumes laws: "packet_laws N" "signer_laws N sign"
    and sign: "sign (state_data N n sv es) = Inr d" and fits: "fits (block_wire N (data_wire N d))"
  shows "data_name N d = n" and "data_signed N d"
    and "block_elems N (data_content N d) = Some (sv # es)"
    and "fits (block_wire N sv)"
proof -
  have d: "data_name N d = data_name N (state_data N n sv es)"
    "data_content N d = data_content N (state_data N n sv es)" "data_signed N d"
    using laws(2) sign unfolding signer_laws_def by blast+
  then show "data_name N d = n" and "data_signed N d"
    by (simp_all add: state_data_def packet_law_data(4) [OF laws(1)])
  have c: "data_content N d = block_nested N tlv_Content (sv # es)"
    unfolding d(2) state_data_def
    by (rule packet_law_data(5) [OF laws(1)]) (simp_all add: packet_law_nested(1) [OF laws(1)])
  have f: "fits (block_wire N (block_nested N tlv_Content (sv # es)))"
    using packet_law_content_fits [OF laws(1) fits] by (simp add: c)
  then show "block_elems N (data_content N d) = Some (sv # es)"
    unfolding c by (rule packet_law_nested(3) [OF laws(1)])
  have "fits (concat (map (block_wire N) (sv # es)))"
    using f unfolding packet_law_nested(2) [OF laws(1)] by (rule fits_tlv_value)
  then show "fits (block_wire N sv)"
    by (simp add: fits_def)
qed

lemma vv_encode_wire:
  "tlv_laws N \<Longrightarrow> vv_encode N v = Inr sv \<Longrightarrow> block_wire N sv = vv_encode_buffer N v"
  using tlv_law_wire [of N "vv_encode_buffer N v" sv] by (simp add: vv_encode_def)

lemma vv_encodeV2_wire:
  "tlv_laws N \<Longrightarrow> vv_encodeV2 N v = Inr sv \<Longrightarrow> block_wire N sv = vv_encodeV2_buffer N v"
  using tlv_law_wire [of N "vv_encodeV2_buffer N v" sv] by (simp add: vv_encodeV2_def)

lemma sync_name_ok_interest:
  assumes "name_laws N" and "packet_laws N"
  shows "sync_name_ok N n (interest_new N n (Some q) l)"
  using packet_law_interest(1,2) [OF assms(2), of n q l]
  unfolding sync_name_ok_iff [OF assms(1)] by blast

lemma decode_encode_V3:
  assumes laws: "tlv_laws N" "name_laws N" "packet_laws N" "signer_laws N sign"
    and ok: "vv_ok v" and epochs: "\<forall>(n, b, s) \<in> set (vv_all v). epoch_accepted clk b"
    and v3: "ro_version opts = V3"
    and enc: "encode_parameters N p v es opts (Some sign) = Inr enc" and fits: "fits enc"
  shows "\<exists>i d w. encode N cmp p v es opts (Some sign) = Inr i \<and>
    decode N cmp' clk i p V3 semantic =
      Inr \<lparr>env_stateVector = (if semantic then w else vv_empty), env_stateVectorDecoded = semantic,
           env_extensions = es, env_stateVectorData = Some d\<rparr> \<and>
    data_signed N d \<and> data_name N d = makeSyncName N p V3 \<and>
    m_entries w = m_entries v \<and> m_latestMap w = m_latestMap v"
proof -
  obtain sv d where sv: "vv_encode N v = Inr sv"
    and d: "sign (state_data N (makeSyncName N p V3) sv es) = Inr d"
    and buf: "enc = tlv_bytes N tlv_ApplicationParameters (block_wire N (data_wire N d))"
    and es: "extensions_ok N es"
    using encode_parameters_V3 [OF v3 enc] by blast
  let ?p = "tlv_blk N tlv_ApplicationParameters (block_wire N (data_wire N d))"
  note f = fits [unfolded buf]
  have fd: "fits (block_wire N (data_wire N d))"
    using f by (rule fits_tlv_value)
  note data = state_data_signed [OF laws(3,4) d fd]
  have "fits (vv_encode_buffer N v)"
    using data(4) vv_encode_wire [OF laws(1) sv] by simp
  then obtain w where w: "vv_decode N clk sv = Inr w" "block_type N sv = tlv_StateVector"
    "m_entries w = m_entries v" "m_latestMap w = m_latestMap v"
    using vv_decode_encode [OF laws(1) ok _ epochs] sv by auto
  let ?i = "interest_new N (makeSyncName N p V3) (Some ?p) (ro_syncInterestLifetime opts)"
  have encoded: "encode N cmp p v es opts (Some sign) = Inr ?i"
    using enc tlv_blk(1) [OF laws(1) f] v3 by (simp add: encode_def buf)
  have params: "interest_params N ?i = Some ?p"
    by (rule packet_law_interest(3) [OF laws(3) tlv_blk(2) [OF laws(1) f]])
  have elems: "block_elems N ?p = Some [data_wire N d]"
    by (rule tlv_blk_elems [OF laws(1) f]) simp
  have "decode_elements N cmp' V3 ?p = Inr [data_wire N d]"
    by (simp add: decode_elements_def elems)
  moreover have "scan_extensions N [] [] es = Inr es"
    using es by (simp add: scan_extensions_start)
  then have "decode_V3 N clk (makeSyncName N p V3) semantic (data_wire N d) =
      Inr \<lparr>env_stateVector = (if semantic then w else vv_empty), env_stateVectorDecoded = semantic,
           env_extensions = es, env_stateVectorData = Some d\<rparr>"
    using packet_law_data(1,2) [OF laws(3)] fd data(1,2,3) w(1,2)
    by (simp add: decode_V3_def decodeStateVector_def)
  ultimately have "decode N cmp' clk ?i p V3 semantic =
      Inr \<lparr>env_stateVector = (if semantic then w else vv_empty), env_stateVectorDecoded = semantic,
           env_extensions = es, env_stateVectorData = Some d\<rparr>"
    using sync_name_ok_interest [OF laws(2,3)] params by (simp add: decode_def)
  then show ?thesis
    using encoded data(1,2) w(3,4) by blast
qed

section \<open>Round trip of SVS V2\<close>

lemma prepend_blocks_bytes:
  "prepend_blocks N bs (enc, len) =
     (concat (map (block_wire N) (rev bs)) @ enc,
      len + length (concat (map (block_wire N) (rev bs))))"
  by (induction N bs "(enc, len)" arbitrary: enc len rule: prepend_blocks.induct)
    (simp_all add: prepend_block_def Let_def)

lemma encode_parameters_V2:
  assumes "ro_version opts = V2" and "encode_parameters N p v es opts sg = Inr enc"
  obtains sv where "vv_encodeV2 N v = Inr sv"
    and "enc = tlv_bytes N tlv_ApplicationParameters (concat (map (block_wire N) (sv # es)))"
    and "extensions_ok N es"
proof -
  have header: "prepend_header N t (length ys + length xs) (xs @ ys) =
      (tlv_bytes N t (xs @ ys), length (tlv_bytes N t (xs @ ys)))" for t xs ys
    using prepend_header_value [of N t "xs @ ys" "[]"] by (simp add: add.commute)
  show thesis
    using assms encode_parameters_extensions [OF assms(2)] that
    by (auto simp: encode_parameters_def encode_body_V2_def res_bind_eq_Inr Let_def
        prepend_block_def prepend_blocks_bytes header split: if_splits)
qed

text \<open>
  The blocks the decoder finds: the sender's, when the receiver can decompress what the sender
  compressed, and no extension of an uncompressed Interest looks compressed.
\<close>

lemma decode_elements_V2:
  assumes laws: "tlv_laws N" "packet_laws N"
    and f: "fits (tlv_bytes N tlv_ApplicationParameters (concat (map (block_wire N) bs)))"
    and p: "p = tlv_blk N tlv_ApplicationParameters (concat (map (block_wire N) bs))"
  shows "\<forall>b \<in> set bs. block_type N b \<noteq> tlv_LzmaBlock \<Longrightarrow> decode_elements N cmp V2 p = Inr bs"
    and "block_elems N q = Some [block_with_value N tlv_LzmaBlock (lzma_compress N (block_wire N p))]
      \<Longrightarrow> decode_elements N True V2 q = Inr bs"
proof -
  have elems: "block_elems N p = Some bs"
    unfolding p by (rule tlv_blk_elems [OF laws(1) f]) simp
  have wire: "block_wire N p = tlv_bytes N tlv_ApplicationParameters (concat (map (block_wire N) bs))"
    unfolding p by (rule tlv_blk(3) [OF laws(1) f])
  have buf: "block_from_buffer N (block_wire N p) = Some p"
    unfolding wire tlv_law_from_buffer [OF laws(1) f] unfolding p by (rule tlv_blk(1) [OF laws(1) f])
  have type: "block_type N p = tlv_ApplicationParameters"
    unfolding p by (rule tlv_blk(2) [OF laws(1) f])
  show "decode_elements N cmp V2 p = Inr bs" if "\<forall>b \<in> set bs. block_type N b \<noteq> tlv_LzmaBlock"
    using that elems find_None_iff [of "\<lambda>b. block_type N b = tlv_LzmaBlock" bs]
    by (simp add: decode_elements_def)
  show "decode_elements N True V2 q = Inr bs"
    if "block_elems N q = Some [block_with_value N tlv_LzmaBlock (lzma_compress N (block_wire N p))]"
    using that packet_law_lzma [OF laws(2)] buf type elems by (simp add: decode_elements_def)
qed

lemma decode_encode_V2:
  assumes laws: "tlv_laws N" "name_laws N" "packet_laws N" and ok: "vv_ok v"
    and v2: "ro_version opts = V2"
    and enc: "encode_parameters N p v es opts sg = Inr enc" and fits: "fits enc"
    and lzma: "if cmp then fits (block_wire N (block_with_value N tlv_LzmaBlock (lzma_compress N enc)))
      else \<forall>e \<in> set es. block_type N e \<noteq> tlv_LzmaBlock"
    and cmp: "cmp \<longrightarrow> cmp'"
  shows "\<exists>i w. encode N cmp p v es opts sg = Inr i \<and>
    decode N cmp' clk i p V2 semantic =
      Inr \<lparr>env_stateVector = w, env_stateVectorDecoded = True, env_extensions = es,
           env_stateVectorData = None\<rparr> \<and>
    vv_ok w \<and> (\<forall>n b. vv_get n b w = (if b = 0 then vv_getLatest n v else 0))"
proof -
  obtain sv where sv: "vv_encodeV2 N v = Inr sv"
    and buf: "enc = tlv_bytes N tlv_ApplicationParameters (concat (map (block_wire N) (sv # es)))"
    and es: "extensions_ok N es"
    using encode_parameters_V2 [OF v2 enc] by blast
  note f = fits [unfolded buf]
  define q where "q = tlv_blk N tlv_ApplicationParameters (concat (map (block_wire N) (sv # es)))"
  have q: "block_of N enc = Some q" "block_type N q = tlv_ApplicationParameters" "block_wire N q = enc"
    using tlv_blk [OF laws(1) f] by (simp_all only: buf q_def)
  have "fits (concat (map (block_wire N) (sv # es)))"
    using f by (rule fits_tlv_value)
  then have "fits (vv_encodeV2_buffer N v)"
    using vv_encodeV2_wire [OF laws(1) sv] by (simp add: fits_def)
  then obtain w where w: "vv_decodeV2 N clk sv = Inr w" "block_type N sv = tlv_StateVector" "vv_ok w"
    "\<forall>n b. vv_get n b w = (if b = 0 then vv_getLatest n v else 0)"
    using vv_decodeV2_encodeV2 [OF laws(1) ok, where clk = clk] sv by auto
  let ?par = "if cmp then block_with_value N tlv_LzmaBlock (lzma_compress N (block_wire N q)) else q"
  let ?i = "interest_new N (makeSyncName N p V2) (Some ?par) (ro_syncInterestLifetime opts)"
  have encoded: "encode N cmp p v es opts sg = Inr ?i"
    using enc q(1) v2 by (simp add: encode_def)
  obtain r where r: "interest_params N ?i = Some r" "decode_elements N cmp' V2 r = Inr (sv # es)"
  proof (cases cmp)
    case True
    have "block_type N ?par \<noteq> tlv_ApplicationParameters"
      using True packet_law_lzma(2) [OF laws(3)] by (simp add: svs_simps)
    then obtain r where "interest_params N ?i = Some r"
      "fits (block_wire N ?par) \<longrightarrow> block_elems N r = Some [?par]"
      using packet_law_interest(4) [OF laws(3)] by blast
    then show thesis
      using decode_elements_V2(2) [OF laws(1,3) f q_def] lzma that True cmp q(3) by simp
  next
    case False
    then have "interest_params N ?i = Some q"
      using packet_law_interest(3) [OF laws(3)] q(2) by simp
    moreover have "\<forall>b \<in> set (sv # es). block_type N b \<noteq> tlv_LzmaBlock"
      using w(2) lzma False by (simp add: svs_simps)
    ultimately show thesis
      using decode_elements_V2(1) [OF laws(1,3) f q_def] that by blast
  qed
  have "scan_extensions N [] [] es = Inr es"
    using es by (simp add: scan_extensions_start)
  then have "decode N cmp' clk ?i p V2 semantic =
      Inr \<lparr>env_stateVector = w, env_stateVectorDecoded = True, env_extensions = es,
           env_stateVectorData = None\<rparr>"
    using sync_name_ok_interest [OF laws(2,3)] r w(1,2) by (simp add: decode_def decode_V2_def)
  then show ?thesis
    using encoded w(3,4) by blast
qed

section \<open>What a decoder accepts\<close>

text \<open>The guarantees a decoded envelope carries, whatever Interest was received.\<close>

definition envelope_ok ::
    "('n :: linorder, 'c, 'b, 'd, 'i) ndn \<Rightarrow> sys_clock \<Rightarrow> 'n \<Rightarrow> svs_version \<Rightarrow> bool
      \<Rightarrow> ('n, 'b, 'd) sync_envelope \<Rightarrow> bool" where
  "envelope_ok N clk syncName version semantic e \<longleftrightarrow>
     extensions_ok N (env_extensions e) \<and> vv_ok (env_stateVector e) \<and>
     (if version = V3
      then env_stateVectorDecoded e = semantic \<and> vv_accepted clk (env_stateVector e) \<and>
        (\<exists>d. env_stateVectorData e = Some d \<and> data_signed N d \<and> data_name N d = syncName)
      else env_stateVectorDecoded e \<and> env_stateVectorData e = None)"

lemma vv_accepted_ok: "vv_accepted clk v \<Longrightarrow> vv_ok v"
  by (simp add: vv_accepted_def)

lemma decodeStateVector_accepted:
  "decodeStateVector N clk e V3 = Inr v \<Longrightarrow> vv_accepted clk v"
  by (auto simp: decodeStateVector_def intro: vv_decode_accepted
      split: option.splits list.splits if_splits)

lemma decode_V3_ok:
  assumes "decode_V3 N clk n semantic first = Inr e"
  shows "envelope_ok N clk n V3 semantic e"
  using assms
  by (auto simp: decode_V3_def res_bind_eq_Inr Let_def envelope_ok_def scan_extensions_start
      intro: decodeStateVector_accepted vv_accepted_ok [OF decodeStateVector_accepted]
      split: if_splits option.splits list.splits)

lemma decode_V2_ok:
  assumes "decode_V2 N clk first = Inr e"
  shows "env_extensions e = []" and "vv_ok (env_stateVector e)" and "env_stateVectorDecoded e"
    and "env_stateVectorData e = None"
  using assms by (auto simp: decode_V2_def res_bind_eq_Inr dest: vv_decodeV2_ok split: if_splits)

lemma decode_ok:
  assumes "decode N cmp clk i p version semantic = Inr e"
  shows "sync_name_ok N (makeSyncName N p version) i"
    and "envelope_ok N clk (makeSyncName N p version) version semantic e"
proof -
  show name: "sync_name_ok N (makeSyncName N p version) i"
    using assms by (auto simp: decode_def Let_def split: if_splits)
  obtain first rest decoded exts where
    d: "(if version = V3 then decode_V3 N clk (makeSyncName N p version) semantic first
         else decode_V2 N clk first) = Inr decoded"
    and rest: "version = V3 \<longrightarrow> rest = []"
    and exts: "scan_extensions N [] (env_extensions decoded) rest = Inr exts"
    and e: "e = decoded\<lparr>env_extensions := exts\<rparr>"
  proof -
    obtain params elems where "decode_elements N cmp version params = Inr elems"
      and el: "(case elems of
           [] \<Rightarrow> Inl (TlvError ''empty SVS ApplicationParameters'')
         | first # rest \<Rightarrow>
             res_bind
               (if version = V3 then decode_V3 N clk (makeSyncName N p version) semantic first
                else decode_V2 N clk first) (\<lambda>decoded.
             if version = V3 \<and> rest \<noteq> []
             then Inl (CodecError ''SVS V3 extensions must be inside signed State Vector Data'')
             else
               res_bind (scan_extensions N [] (env_extensions decoded) rest) (\<lambda>exts.
               Inr (decoded\<lparr>env_extensions := exts\<rparr>)))) = Inr e"
      using assms name by (simp add: decode_def res_bind_eq_Inr) blast
    obtain first rest where elems: "elems = first # rest"
      using el by (cases elems) auto
    obtain decoded where d: "(if version = V3
          then decode_V3 N clk (makeSyncName N p version) semantic first
          else decode_V2 N clk first) = Inr decoded"
      and k: "(if version = V3 \<and> rest \<noteq> []
         then Inl (CodecError ''SVS V3 extensions must be inside signed State Vector Data'')
         else
           res_bind (scan_extensions N [] (env_extensions decoded) rest) (\<lambda>exts.
           Inr (decoded\<lparr>env_extensions := exts\<rparr>))) = Inr e"
      using el unfolding elems list.case res_bind_eq_Inr by blast
    have "version = V3 \<longrightarrow> rest = []"
      using k by (auto split: if_splits)
    moreover from this obtain exts where
      "scan_extensions N [] (env_extensions decoded) rest = Inr exts"
      "e = decoded\<lparr>env_extensions := exts\<rparr>"
      using k by (auto simp: res_bind_eq_Inr simp del: scan_extensions.simps split: if_splits)
    ultimately show thesis
      using d that by blast
  qed
  show "envelope_ok N clk (makeSyncName N p version) version semantic e"
  proof (cases "version = V3")
    case True
    then have "envelope_ok N clk (makeSyncName N p version) V3 semantic decoded"
      using d decode_V3_ok by fastforce
    then show ?thesis
      using rest exts e True by (auto simp: envelope_ok_def)
  next
    case False
    then have "decode_V2 N clk first = Inr decoded"
      using d by simp
    note ok = decode_V2_ok [OF this]
    have "extensions_ok N exts"
      using exts unfolding ok(1) scan_extensions_start by simp
    then show ?thesis
      using ok False by (simp add: envelope_ok_def e)
  qed
qed

text \<open>An Interest of another group or of another version is refused.\<close>

lemma decode_other_name:
  assumes laws: "name_laws N" "packet_laws N"
    and enc: "encode N cmp p v es opts sg = Inr i"
    and other: "q \<noteq> p \<or> version_number version \<noteq> version_number (ro_version opts)"
  shows "decode N cmp' clk i q version semantic =
    Inl (TlvError ''SVS Sync Interest name or parameters digest'')"
proof -
  obtain r where i: "i = interest_new N (makeSyncName N p (ro_version opts)) (Some r)
      (ro_syncInterestLifetime opts)"
    using encode_name [OF enc] by blast
  obtain c where c: "nm_comps N (interest_name N i) =
      nm_comps N (makeSyncName N p (ro_version opts)) @ [c]"
    using packet_law_interest(2) [OF laws(2)] unfolding i by blast
  have "makeSyncName N q version \<noteq> makeSyncName N p (ro_version opts)"
    using other by (simp add: makeSyncName_eq [OF laws(1)])
  then have "\<not> sync_name_ok N (makeSyncName N q version) i"
    unfolding sync_name_ok_iff [OF laws(1)] c using name_law_inj [OF laws(1)] by auto
  then show ?thesis
    by (simp add: decode_def)
qed

text \<open>Extension blocks that break the rules are refused before anything is built.\<close>

lemma encode_refused:
  assumes "\<not> extensions_ok N es"
  shows "\<exists>m. encode N cmp p v es opts sg = Inl (CodecError m)"
proof -
  have "\<exists>m. check_extensions N known es = Inl (CodecError m)"
    if "check_extensions N known es \<noteq> Inr ()" for known
    using that by (induction N known es rule: check_extensions.induct) (auto simp: Let_def)
  then have c: "check_extensions N [] es \<noteq> Inr () \<Longrightarrow> \<exists>m. check_extensions N [] es = Inl (CodecError m)"
    by blast
  show ?thesis
  proof (cases "length es > MAX_EXTENSION_BLOCKS")
    case True
    then show ?thesis by (simp add: encode_def encode_parameters_def)
  next
    case False
    then have "check_extensions N [] es \<noteq> Inr ()"
      using assms by (simp add: check_extensions_iff extensions_ok_def)
    then obtain m where "check_extensions N [] es = Inl (CodecError m)"
      using c by blast
    then show ?thesis
      using False by (simp add: encode_def encode_parameters_def)
  qed
qed

section \<open>Options\<close>

text \<open>Resolved options satisfy what the core assumes of its timers.\<close>

lemma resolve_ok:
  assumes "resolve clk opts = Inr r"
  shows "ro_version r \<in> {V2, V3}" and "0 < ro_syncInterestLifetime r"
    and "0 \<le> ro_suppressionPeriod r" and "0 < ro_periodicTimeout r"
    and "0 \<le> ro_periodicJitter r \<and> ro_periodicJitter r \<le> 1"
    and "ro_bootstrapTime r = Some b \<Longrightarrow> epoch_accepted clk b"
  using assms
  by (auto simp: resolve_def resolve_timers_def res_bind_eq_Inr Let_def epoch_accepted_def
      isBootstrapTimeTooFarInFuture_def not_less
      split: if_splits option.splits svs_version.splits)

section \<open>A sample Interest\<close>

definition sample_options :: "svs_version \<Rightarrow> resolved_options" where
  "sample_options version = \<lparr>ro_version = version, ro_bootstrapTime = None,
     ro_syncInterestLifetime = 1000, ro_suppressionPeriod = 200, ro_periodicTimeout = 30000,
     ro_periodicJitter = 1 / 10\<rparr>"

definition sample_group :: i_name where
  "sample_group = [(8, [71])]"

lemmas sample_encode = encode_parameters_def encode_body_V3_def encode_body_V2_def
  is_known_type_def is_core_type_def MAX_EXTENSION_BLOCKS_def makeSyncName_def
  version_number_def vv_encode_def vv_encodeV2_def sample_vector_bytes sample_vector_bytesV2
  i_sign_def sample_options_def sample_group_def

text \<open>The parameters of an Interest with the sample vector and an empty MappingData extension.\<close>

lemma sample_parameters_V3:
  "encode_parameters i_ndn sample_group sample_vector [(205, [])] (sample_options V3) (Some i_sign) =
     Inr [36, 42, 6, 40, 7, 6, 8, 1, 71, 54, 1, 3, 20, 6, 24, 1, 0, 25, 1, 0, 21, 19,
          201, 15, 202, 13, 7, 3, 8, 1, 65, 210, 6, 212, 1, 100, 214, 1, 3, 205, 0, 23, 1, 1]"
  by (simp add: sample_encode i_eval svs_simps)

lemma sample_parameters_V2:
  "encode_parameters i_ndn sample_group sample_vector [(205, [])] (sample_options V2) None =
     Inr [36, 14, 201, 10, 202, 8, 7, 3, 8, 1, 65, 204, 1, 3, 205, 0]"
  by (simp add: sample_encode i_eval svs_simps)

section \<open>Properties\<close>

text \<open>
  C20: the V3 Sync Interest round-trips: what \<^verbatim>\<open>encode\<close> builds from a well-formed vector and a
  list of extensions, \<^verbatim>\<open>decode\<close> accepts under the same group and version, and returns the same
  extensions, the signed packet under the group's Sync name and, if asked to, a vector with the
  same entries.
\<close>

theorem sync_interest_V3_roundtrip:
  assumes "tlv_laws N" and "name_laws N" and "packet_laws N" and "signer_laws N sign"
    and "vv_ok v" and "\<forall>(n, b, s) \<in> set (vv_all v). epoch_accepted clk b"
    and "ro_version opts = V3"
    and "encode_parameters N p v es opts (Some sign) = Inr enc" and "fits enc"
  shows "\<exists>i d w. encode N cmp p v es opts (Some sign) = Inr i \<and>
    decode N cmp' clk i p V3 semantic =
      Inr \<lparr>env_stateVector = (if semantic then w else vv_empty), env_stateVectorDecoded = semantic,
           env_extensions = es, env_stateVectorData = Some d\<rparr> \<and>
    data_signed N d \<and> data_name N d = makeSyncName N p V3 \<and>
    m_entries w = m_entries v \<and> m_latestMap w = m_latestMap v"
  using assms by (rule decode_encode_V3)

theorem sync_interest_V3_roundtrip_witness:
  "\<exists>i d w. encode i_ndn True sample_group sample_vector [(205, [])] (sample_options V3)
      (Some i_sign) = Inr i \<and>
    decode i_ndn True sample_clock i sample_group V3 True =
      Inr \<lparr>env_stateVector = (if True then w else vv_empty), env_stateVectorDecoded = True,
           env_extensions = [(205, [])], env_stateVectorData = Some d\<rparr> \<and>
    data_signed i_ndn d \<and> data_name i_ndn d = makeSyncName i_ndn sample_group V3 \<and>
    m_entries w = m_entries sample_vector \<and> m_latestMap w = m_latestMap sample_vector"
  by (rule sync_interest_V3_roundtrip [OF i_tlv_laws i_name_laws i_packet_laws i_signer_laws
      sample_vector_ok sample_vector_epochs _ sample_parameters_V3])
    (simp_all add: sample_options_def fits_def)

text \<open>
  C21: the V2 Sync Interest round-trips, compressed or not, as long as a receiver of compressed
  Interests was built with compression: the extensions come back unchanged and the vector holds
  the latest number of every node under epoch 0.
\<close>

theorem sync_interest_V2_roundtrip:
  assumes "tlv_laws N" and "name_laws N" and "packet_laws N" and "vv_ok v"
    and "ro_version opts = V2"
    and "encode_parameters N p v es opts sg = Inr enc" and "fits enc"
    and "if cmp then fits (block_wire N (block_with_value N tlv_LzmaBlock (lzma_compress N enc)))
      else \<forall>e \<in> set es. block_type N e \<noteq> tlv_LzmaBlock"
    and "cmp \<longrightarrow> cmp'"
  shows "\<exists>i w. encode N cmp p v es opts sg = Inr i \<and>
    decode N cmp' clk i p V2 semantic =
      Inr \<lparr>env_stateVector = w, env_stateVectorDecoded = True, env_extensions = es,
           env_stateVectorData = None\<rparr> \<and>
    vv_ok w \<and> (\<forall>n b. vv_get n b w = (if b = 0 then vv_getLatest n v else 0))"
  using assms by (rule decode_encode_V2)

theorem sync_interest_V2_roundtrip_witness:
  "\<exists>i w. encode i_ndn True sample_group sample_vector [(205, [])] (sample_options V2) None = Inr i \<and>
    decode i_ndn True sample_clock i sample_group V2 True =
      Inr \<lparr>env_stateVector = w, env_stateVectorDecoded = True, env_extensions = [(205, [])],
           env_stateVectorData = None\<rparr> \<and>
    vv_ok w \<and> (\<forall>n b. vv_get n b w = (if b = 0 then vv_getLatest n sample_vector else 0))"
  by (rule sync_interest_V2_roundtrip [OF i_tlv_laws i_name_laws i_packet_laws sample_vector_ok _
      sample_parameters_V2])
    (simp_all add: sample_options_def fits_def i_eval svs_simps)

text \<open>
  C22: whatever Interest arrives, an envelope that decodes came under the group's Sync name with
  a valid parameters digest, carries at most 16 extension blocks, none of a core type and each
  of the two known types at most once, and a well-formed vector; under V3 the packet is signed
  and named after the group, and a decoded vector has only epochs the clock accepts.
\<close>

theorem decode_accepts_only_sound:
  assumes "decode N cmp clk i p version semantic = Inr e"
  shows "sync_name_ok N (makeSyncName N p version) i \<and>
    envelope_ok N clk (makeSyncName N p version) version semantic e"
  using decode_ok [OF assms] by simp

lemma sample_decode:
  "\<exists>e. decode i_ndn False sample_clock
     (sample_group @ [i_typed 54 2, (2, [])], Some (36, [201, 0])) sample_group V2 True = Inr e"
  by (simp add: decode_def sync_name_ok_def makeSyncName_def version_number_def i_eval i_slice_def
      i_at_def sample_group_def decode_elements_def i_elems_def decode_V2_def vv_decodeV2_def
      svs_simps)

theorem decode_accepts_only_sound_witness:
  "\<exists>e. sync_name_ok i_ndn (makeSyncName i_ndn sample_group V2)
      (sample_group @ [i_typed 54 2, (2, [])], Some (36, [201, 0])) \<and>
    envelope_ok i_ndn sample_clock (makeSyncName i_ndn sample_group V2) V2 True e"
  by (rule exE [OF sample_decode], rule exI, rule decode_accepts_only_sound)

text \<open>
  Sync Interests are isolated: an Interest encoded for one group and version is refused by
  a decoder that expects another group or another version.
\<close>

theorem sync_interest_isolation:
  assumes "name_laws N" and "packet_laws N"
    and "encode N cmp p v es opts sg = Inr i"
    and "q \<noteq> p \<or> version_number version \<noteq> version_number (ro_version opts)"
  shows "decode N cmp' clk i q version semantic =
    Inl (TlvError ''SVS Sync Interest name or parameters digest'')"
  using assms by (rule decode_other_name)

lemma sample_encode_V2:
  "\<exists>i. encode i_ndn False sample_group sample_vector [(205, [])] (sample_options V2) None = Inr i"
  using sample_parameters_V2 by (simp add: encode_def i_eval)

theorem sync_interest_isolation_witness:
  "\<exists>i. decode i_ndn False sample_clock i sample_group V3 True =
    Inl (TlvError ''SVS Sync Interest name or parameters digest'')"
proof -
  obtain i where "encode i_ndn False sample_group sample_vector [(205, [])] (sample_options V2) None = Inr i"
    using sample_encode_V2 by blast
  then have "decode i_ndn False sample_clock i sample_group V3 True =
      Inl (TlvError ''SVS Sync Interest name or parameters digest'')"
    by (rule sync_interest_isolation [OF i_name_laws i_packet_laws])
      (simp add: version_number_def sample_options_def)
  then show ?thesis by (rule exI [of _ i])
qed

text \<open>
  The encoder refuses extension lists the decoder would not accept: more than 16 blocks, a
  core type, or a known type twice, always with a codec error.
\<close>

theorem encode_refuses_bad_extensions:
  assumes "\<not> extensions_ok N es"
  shows "\<exists>m. encode N cmp p v es opts sg = Inl (CodecError m)"
  using assms by (rule encode_refused)

theorem encode_refuses_bad_extensions_witness:
  "\<exists>m. encode i_ndn True sample_group sample_vector [(205, []), (205, [])] (sample_options V3)
     (Some i_sign) = Inl (CodecError m)"
  by (rule encode_refuses_bad_extensions)
    (simp add: extensions_ok_def i_eval is_known_type_def svs_simps)

text \<open>
  Options that resolve are the ones the core can run with: a supported version, a positive
  Interest lifetime and periodic timeout, a suppression period that is not negative, a jitter
  in the unit interval and a bootstrap time at most a day ahead of the clock.
\<close>

theorem resolve_valid:
  assumes "resolve clk opts = Inr r"
  shows "ro_version r \<in> {V2, V3} \<and> 0 < ro_syncInterestLifetime r \<and> 0 \<le> ro_suppressionPeriod r \<and>
    0 < ro_periodicTimeout r \<and> 0 \<le> ro_periodicJitter r \<and> ro_periodicJitter r \<le> 1 \<and>
    (\<forall>b. ro_bootstrapTime r = Some b \<longrightarrow> epoch_accepted clk b)"
  using resolve_ok [OF assms] by blast

theorem resolve_valid_witness:
  "ro_version (sample_options V3) \<in> {V2, V3} \<and> 0 < ro_syncInterestLifetime (sample_options V3) \<and>
    0 \<le> ro_suppressionPeriod (sample_options V3) \<and> 0 < ro_periodicTimeout (sample_options V3) \<and>
    0 \<le> ro_periodicJitter (sample_options V3) \<and> ro_periodicJitter (sample_options V3) \<le> 1 \<and>
    epoch_accepted sample_clock 100"
proof -
  have "resolve sample_clock \<lparr>po_version = V3, po_bootstrapTime = Some 100,
        po_syncInterestLifetime = None, po_suppressionPeriod = None, po_periodicTimeout = None,
        po_periodicJitter = 1 / 10\<rparr> = Inr ((sample_options V3)\<lparr>ro_bootstrapTime := Some 100\<rparr>)"
    by (simp add: resolve_def resolve_timers_def value_or_def sample_options_def sample_clock_def)
  from resolve_valid [OF this] show ?thesis
    by (simp add: sample_options_def)
qed

end
