(* ===== verification/Worker_Pool.thy ===== *)
theory Worker_Pool
  imports Prelude
begin

text \<open>
  \<^verbatim>\<open>SVSyncCore::SyncWorkerPool\<close> (\<^verbatim>\<open>core.cpp\<close>): a bounded queue of jobs that worker threads take
  in order. A step of the model is one critical section of the pool's mutex: \<open>pool_post\<close>,
  \<open>pool_take\<close> (one iteration of a worker's loop) and \<open>pool_shutdown\<close>. The locale
  \<open>bounded_queue\<close> states what the core relies on, and proves from it that any interleaving of
  posts and takes serves the accepted jobs in the order in which they were accepted and never
  holds more than the bound.
\<close>

section \<open>The pool\<close>

record 'j worker_pool =
  wp_maxQueueSize :: nat
  wp_workers :: nat
  wp_queue :: "'j list"
  wp_stopped :: bool

definition pool_new :: "nat \<Rightarrow> nat \<Rightarrow> 'j worker_pool" where
  "pool_new workerThreads maxQueueSize =
     \<lparr>wp_maxQueueSize = max 1 maxQueueSize, wp_workers = max 1 workerThreads,
      wp_queue = [], wp_stopped = False\<rparr>"

text \<open>\<^verbatim>\<open>post\<close>: whether the job was queued, the queue depth it reports, and the pool after.\<close>

definition pool_post :: "'j \<Rightarrow> 'j worker_pool \<Rightarrow> bool \<times> nat \<times> 'j worker_pool" where
  "pool_post job p =
     (if wp_stopped p \<or> length (wp_queue p) \<ge> wp_maxQueueSize p
      then (False, length (wp_queue p), p)
      else
        let p = p\<lparr>wp_queue := wp_queue p @ [job]\<rparr>
        in (True, length (wp_queue p), p))"

text \<open>
  One wake-up of a worker in \<^verbatim>\<open>run\<close>: it takes the first job, also from a stopped pool; with
  nothing to do it waits, or ends if the pool is stopped.
\<close>

definition pool_take :: "'j worker_pool \<Rightarrow> ('j \<times> 'j worker_pool) option" where
  "pool_take p = (case wp_queue p of [] \<Rightarrow> None | j # js \<Rightarrow> Some (j, p\<lparr>wp_queue := js\<rparr>))"

text \<open>
  \<^verbatim>\<open>shutdown\<close>: the workers finish the queue before they end and are joined. The jobs run by
  then, and the pool after; a second call does nothing.
\<close>

definition pool_shutdown :: "'j worker_pool \<Rightarrow> 'j list \<times> 'j worker_pool" where
  "pool_shutdown p =
     (if wp_stopped p then ([], p)
      else (wp_queue p, p\<lparr>wp_queue := [], wp_stopped := True, wp_workers := 0\<rparr>))"

section \<open>The interface\<close>

datatype 'j queue_step = Post 'j | Take

text \<open>A run: the jobs accepted and the jobs taken, in order, and the queue that is left.\<close>

fun queue_run ::
    "('j \<Rightarrow> 'q \<Rightarrow> bool \<times> nat \<times> 'q) \<Rightarrow> ('q \<Rightarrow> ('j \<times> 'q) option) \<Rightarrow> 'j queue_step list \<Rightarrow> 'q
      \<Rightarrow> 'j list \<times> 'j list \<times> 'q" where
  "queue_run post take_job [] q = ([], [], q)"
| "queue_run post take_job (Post j # ss) q =
     (case post j q of (ok, d, q') \<Rightarrow>
        case queue_run post take_job ss q' of (acc, out, q'') \<Rightarrow> (if ok then j # acc else acc, out, q''))"
| "queue_run post take_job (Take # ss) q =
     (case take_job q of
        None \<Rightarrow> queue_run post take_job ss q
      | Some (j, q') \<Rightarrow> (case queue_run post take_job ss q' of (acc, out, q'') \<Rightarrow> (acc, j # out, q'')))"

locale bounded_queue =
  fixes post :: "'j \<Rightarrow> 'q \<Rightarrow> bool \<times> nat \<times> 'q"
    and take_job :: "'q \<Rightarrow> ('j \<times> 'q) option"
    and content :: "'q \<Rightarrow> 'j list"
    and bound :: "'q \<Rightarrow> nat"
  assumes post_accept: "post j q = (True, d, q') \<Longrightarrow>
      content q' = content q @ [j] \<and> d = length (content q') \<and> length (content q) < bound q"
    and post_refuse: "post j q = (False, d, q') \<Longrightarrow> q' = q"
    and post_bound: "bound (snd (snd (post j q))) = bound q"
    and take_first: "take_job q = Some (j, q') \<Longrightarrow> content q = j # content q'"
    and take_none: "take_job q = None \<longleftrightarrow> content q = []"
    and take_bound: "take_job q = Some (j, q') \<Longrightarrow> bound q' = bound q"
begin

lemma fifo: "queue_run post take_job ss q = (acc, out, q') \<Longrightarrow> content q @ acc = out @ content q'"
proof (induction ss arbitrary: q acc out q')
  case Nil
  then show ?case by simp
next
  case (Cons s ss)
  show ?case
  proof (cases s)
    case (Post j)
    obtain ok d r where p: "post j q = (ok, d, r)" by (metis prod_cases3)
    obtain a t u where r: "queue_run post take_job ss r = (a, t, u)" by (metis prod_cases3)
    show ?thesis
      using Cons.IH [OF r] Cons.prems p r post_accept [of j q d r] post_refuse [of j q d r]
      by (cases ok) (auto simp: Post)
  next
    case Take
    show ?thesis
    proof (cases "take_job q")
      case None
      then show ?thesis using Cons.IH [of q acc out q'] Cons.prems by (simp add: Take)
    next
      case (Some x)
      obtain j r where x: "x = (j, r)" by (cases x)
      obtain a t u where r: "queue_run post take_job ss r = (a, t, u)" by (metis prod_cases3)
      show ?thesis
        using Cons.IH [OF r] Cons.prems Some x r take_first [of q j r] by (auto simp: Take)
    qed
  qed
qed

lemma within_bound:
  "length (content q) \<le> bound q \<Longrightarrow> queue_run post take_job ss q = (acc, out, q') \<Longrightarrow>
    length (content q') \<le> bound q' \<and> bound q' = bound q"
proof (induction ss arbitrary: q acc out q')
  case Nil
  then show ?case by simp
next
  case (Cons s ss)
  show ?case
  proof (cases s)
    case (Post j)
    obtain ok d r where p: "post j q = (ok, d, r)" by (metis prod_cases3)
    obtain a t u where r: "queue_run post take_job ss r = (a, t, u)" by (metis prod_cases3)
    have b: "bound r = bound q" using post_bound [of j q] p by simp
    have "length (content r) \<le> bound r"
      using Cons.prems(1) b p post_accept [of j q d r] post_refuse [of j q d r] by (cases ok) auto
    then have "length (content u) \<le> bound u \<and> bound u = bound r"
      using r by (rule Cons.IH)
    moreover have "q' = u"
      using Cons.prems(2) p r by (simp add: Post)
    ultimately show ?thesis using b by simp
  next
    case Take
    show ?thesis
    proof (cases "take_job q")
      case None
      then show ?thesis using Cons.IH [of q acc out q'] Cons.prems by (simp add: Take)
    next
      case (Some x)
      obtain j r where x: "x = (j, r)" by (cases x)
      obtain a t u where r: "queue_run post take_job ss r = (a, t, u)" by (metis prod_cases3)
      have b: "bound r = bound q" using take_bound [of q j r] Some x by simp
      have "length (content r) \<le> bound r"
        using Cons.prems(1) b take_first [of q j r] Some x by simp
      then have "length (content u) \<le> bound u \<and> bound u = bound r"
        using r by (rule Cons.IH)
      moreover have "q' = u"
        using Cons.prems(2) Some x r by (simp add: Take)
      ultimately show ?thesis using b by simp
    qed
  qed
qed

end

interpretation pool: bounded_queue pool_post pool_take wp_queue wp_maxQueueSize
proof unfold_locales
  show "wp_queue q' = wp_queue q @ [j] \<and> d = length (wp_queue q') \<and> length (wp_queue q) < wp_maxQueueSize q"
    if "pool_post j q = (True, d, q')" for j d and q q' :: "'a worker_pool"
    using that by (auto simp: pool_post_def Let_def split: if_splits)
qed (auto simp: pool_post_def pool_take_def Let_def split: if_splits list.splits)

section \<open>Properties\<close>

text \<open>
  whatever the interleaving of posts and workers, the pool serves the jobs it accepted in
  the order in which it accepted them, loses and duplicates none, and never holds more jobs
  than its bound.
\<close>

theorem pool_fifo_bounded:
  assumes "queue_run pool_post pool_take ss (pool_new workerThreads maxQueueSize) = (acc, out, p)"
  shows "acc = out @ wp_queue p \<and> length (wp_queue p) \<le> max 1 maxQueueSize"
  using pool.fifo [OF assms] pool.within_bound [OF _ assms] by (simp add: pool_new_def)

theorem pool_fifo_bounded_witness:
  "[1, 2 :: nat] = [1] @ wp_queue \<lparr>wp_maxQueueSize = 1, wp_workers = 1, wp_queue = [2 :: nat],
      wp_stopped = False\<rparr> \<and>
    length (wp_queue \<lparr>wp_maxQueueSize = 1, wp_workers = 1, wp_queue = [2 :: nat],
      wp_stopped = False\<rparr>) \<le> max 1 1"
  by (rule pool_fifo_bounded [of "[Post 1, Post 5, Take, Post 2]" 1 1])
    (simp add: pool_new_def pool_post_def pool_take_def)

end
