(* ===== verification/Sync_Core.thy ===== *)
theory Sync_Core
  imports State_Merge Sync_Protocol Worker_Pool
begin

text \<open>
  \<^verbatim>\<open>SVSyncCore\<close> (\<^verbatim>\<open>core.hpp\<close>, \<^verbatim>\<open>core.cpp\<close>): the state vector of a participant, the handling of
  received Sync Interests (serial and through the worker pool), suppression, the retransmission
  timer, and the Sync Interests triggered by local publications.

  The object is the record \<open>sync_core\<close>; a member function is a definition on it. What the code
  reads from outside during a call is the record \<open>core_env\<close>: the clocks, the draws of the two
  random distributions, the keys and the callbacks. What it does to the outside is appended to
  \<open>m_out\<close>: Interests expressed, update callbacks, extension callbacks, packets handed to the
  validator, in the order of the calls. Timers are the fields \<open>m_retxEvent\<close>,
  \<open>m_initialEvents\<close> and \<open>m_publicationSyncEvent\<close>; their firing is an operation of its own, as
  are the two callbacks of a validator and the two halves of a worker job. The mutexes of the
  code make each of these an atomic step. Callbacks to the application are assumed to return
  without calling back into the core; where the code catches what they throw, the environment
  says whether they do.
\<close>

section \<open>State\<close>

datatype validation_status = Never | Verified | StructuralUnverified | Rejected

text \<open>The cases of the switch on \<^verbatim>\<open>signingInfo.getSignerType()\<close>.\<close>

datatype signer_type = SignerNull | SignerHmac | SignerOther

text \<open>
  Which of the two mutually exclusive callbacks is installed, \<^verbatim>\<open>m_getExtraBlocks\<close> or
  \<^verbatim>\<open>m_getExtraBlock\<close>, and likewise for the receiving side.
\<close>

datatype extra_callback = NoCallback | OneBlock | BlockCollection

datatype ('n, 'b, 'd, 'i) core_event =
    Express 'i
  | OnUpdate "'n missing_data_info list"
  | RecvBlocks "'b list" "'n version_vector"
  | RecvBlock 'b "'n version_vector"
  | ValidateData 'd 'i
  | ValidateInterest 'i

record ('n, 'i) sync_job =
  sj_interest :: 'i
  sj_localVector :: "'n version_vector"
  sj_stateGeneration :: u64
  sj_incomingFace :: u64
  sj_alive :: nat

record ('n, 'b, 'i) sync_result =
  sr_job :: "('n, 'i) sync_job"
  sr_ok :: bool
  sr_decodeFailed :: bool
  sr_remoteVector :: "'n version_vector"
  sr_extensions :: "'b list"
  sr_merge :: "'n merge_computation"
  sr_myVectorNew :: bool
  sr_missingData :: "'n missing_data_info list"

record ('n, 'b) production_job =
  pj_localVector :: "'n version_vector"
  pj_extraBlocks :: "'b list"
  pj_stateGeneration :: u64
  pj_alive :: nat

text \<open>
  A default-constructed Interest has no parameters, an encoded one always has: the field
  \<^verbatim>\<open>interest\<close> is optional.
\<close>

record ('n, 'b, 'i) production_result =
  pr_job :: "('n, 'b) production_job"
  pr_ok :: bool
  pr_interest :: "'i option"
  pr_signedInWorker :: bool
  pr_extraBlockBuiltInWorker :: bool

record sync_stats =
  st_malformedEnvelope :: u64
  st_signaturePolicy :: u64
  st_vectorDecode :: u64
  st_syncJobsSubmitted :: u64
  st_syncJobsCompleted :: u64
  st_syncJobsDropped :: u64
  st_syncJobsStale :: u64
  st_syncWorkerQueueDepth :: nat
  st_syncMainThreadPublishMs :: u64
  st_syncInterestSerialHandlerMs :: u64
  st_syncInterestParallelTotalMs :: u64
  st_syncInterestMainThreadBlockingMs :: u64
  st_syncProductionJobsSubmitted :: u64
  st_syncProductionJobsCompleted :: u64
  st_syncProductionJobsDropped :: u64
  st_syncProductionJobsStale :: u64
  st_syncProductionWorkerQueueDepth :: nat
  st_syncProductionParallelTotalMs :: u64

record ('n, 'b, 'd, 'i) sync_core =
  m_syncPrefix :: 'n
  m_interestSigner :: signer_type
  m_dataSigner :: signer_type
  m_hasValidator :: bool
  m_protocolOptions :: resolved_options
  m_id :: 'n
  m_bootstrapTime :: bootstrap_time
  m_vv :: "'n version_vector"
  m_stateGeneration :: u64
  m_recordedVv :: "'n version_vector option"
  m_getExtra :: extra_callback
  m_recvExtra :: extra_callback
  m_maxSuppressionTime :: int
  m_periodicSyncTime :: int
  m_periodicSyncJitter :: real
  m_retxDist :: "int \<times> int"
  m_intrReplyDist :: "int \<times> int"
  m_retxEvent :: "u32 option"
  m_initialEvents :: nat
  m_publicationSyncEvent :: "int option"
  m_publicationSyncPending :: bool
  m_nextSyncInterest :: int
  m_initialized :: bool
  m_syncInterestBatching :: bool
  m_syncInterestBatchWindow :: int
  m_gateOpen :: bool
  m_lastToken :: nat
  m_deadTokens :: "nat list"
  m_parallelSyncProcessing :: bool
  m_syncProcessingAlive :: nat
  m_syncWorkerPool :: "('n, 'i) sync_job worker_pool option"
  m_runningJobs :: "('n, 'i) sync_job list"
  m_parallelSyncProduction :: bool
  m_parallelSyncProductionSigning :: bool
  m_parallelSyncProductionExtraBlock :: bool
  m_syncProductionAlive :: nat
  m_syncProductionWorkerPool :: "('n, 'b) production_job worker_pool option"
  m_runningProduction :: "('n, 'b) production_job list"
  m_lastValidationStatus :: validation_status
  m_stats :: sync_stats
  m_out :: "('n, 'b, 'd, 'i) core_event list"

text \<open>
  What a call reads from outside. \<open>ce_now\<close> and \<open>ce_schedNow\<close> are the two readings of
  \<^verbatim>\<open>getCurrentTime()\<close>, in microseconds, of the comparison with the timer and of its resetting;
  \<open>ce_elapsed\<close> is the handler time in milliseconds.
\<close>

record ('n, 'c, 'b, 'd, 'i) core_env =
  ce_ndn :: "('n, 'c, 'b, 'd, 'i) ndn"
  ce_compression :: bool
  ce_clk :: sys_clock
  ce_now :: int
  ce_schedNow :: int
  ce_elapsed :: u64
  ce_retxDraw :: "int \<times> int \<Rightarrow> int"
  ce_replyDraw :: "int \<times> int \<Rightarrow> int"
  ce_signSha256 :: "'d \<Rightarrow> 'd result"
  ce_signData :: "'d \<Rightarrow> 'd result"
  ce_signHmac :: "'i \<Rightarrow> 'i result"
  ce_signInterest :: "'i \<Rightarrow> 'i result"
  ce_verifyHmac :: "'i \<Rightarrow> bool"
  ce_getExtraBlocks :: "'n version_vector \<Rightarrow> 'b list result"
  ce_getExtraBlock :: "'n version_vector \<Rightarrow> 'b result"
  ce_recvThrows :: "'b \<Rightarrow> bool"

definition emit ::
    "('n, 'b, 'd, 'i) core_event \<Rightarrow> ('n, 'b, 'd, 'i) sync_core \<Rightarrow> ('n, 'b, 'd, 'i) sync_core" where
  "emit x c = c\<lparr>m_out := m_out c @ [x]\<rparr>"

text \<open>\<^verbatim>\<open>incrementStat\<close>: an update of one counter.\<close>

definition stat ::
    "(sync_stats \<Rightarrow> sync_stats) \<Rightarrow> ('n, 'b, 'd, 'i) sync_core \<Rightarrow> ('n, 'b, 'd, 'i) sync_core" where
  "stat f c = c\<lparr>m_stats := f (m_stats c)\<rparr>"

definition no_stats :: sync_stats where
  "no_stats = \<lparr>st_malformedEnvelope = 0, st_signaturePolicy = 0, st_vectorDecode = 0,
     st_syncJobsSubmitted = 0, st_syncJobsCompleted = 0, st_syncJobsDropped = 0,
     st_syncJobsStale = 0, st_syncWorkerQueueDepth = 0, st_syncMainThreadPublishMs = 0,
     st_syncInterestSerialHandlerMs = 0, st_syncInterestParallelTotalMs = 0,
     st_syncInterestMainThreadBlockingMs = 0, st_syncProductionJobsSubmitted = 0,
     st_syncProductionJobsCompleted = 0, st_syncProductionJobsDropped = 0,
     st_syncProductionJobsStale = 0, st_syncProductionWorkerQueueDepth = 0,
     st_syncProductionParallelTotalMs = 0\<rparr>"

section \<open>Construction and configuration\<close>

text \<open>Conversion of a floating-point number to an integer, towards zero, and \<^verbatim>\<open>std::llround\<close>.\<close>

definition trunc :: "real \<Rightarrow> int" where
  "trunc x = (if 0 \<le> x then \<lfloor>x\<rfloor> else \<lceil>x\<rceil>)"

definition llround :: "real \<Rightarrow> int" where
  "llround x = (if 0 \<le> x then \<lfloor>x + 1 / 2\<rfloor> else \<lceil>x - 1 / 2\<rceil>)"

text \<open>\<^verbatim>\<open>SVSyncCore::SVSyncCore\<close>\<close>

definition core_new ::
    "sys_clock \<Rightarrow> 'n \<Rightarrow> signer_type \<Rightarrow> signer_type \<Rightarrow> bool \<Rightarrow> 'n \<Rightarrow> protocol_options
      \<Rightarrow> ('n, 'b, 'd, 'i) sync_core result" where
  "core_new clk syncPrefix interestSigner dataSigner hasValidator nid protocolOptions =
     res_bind (resolve clk protocolOptions) (\<lambda>opts.
       let t = of_int (ro_periodicTimeout opts); j = ro_periodicJitter opts in
       Inr \<lparr>m_syncPrefix = syncPrefix, m_interestSigner = interestSigner,
         m_dataSigner = dataSigner, m_hasValidator = hasValidator, m_protocolOptions = opts, m_id = nid,
         m_bootstrapTime = (if ro_version opts = V2 then 0
           else value_or (ro_bootstrapTime opts) (clk_seconds clk)),
         m_vv = vv_empty, m_stateGeneration = 0, m_recordedVv = None,
         m_getExtra = NoCallback, m_recvExtra = NoCallback,
         m_maxSuppressionTime = ro_suppressionPeriod opts,
         m_periodicSyncTime = ro_periodicTimeout opts, m_periodicSyncJitter = j,
         m_retxDist = (trunc (t * (1 - j)), trunc (t * (1 + j))),
         m_intrReplyDist = (0, ro_suppressionPeriod opts),
         m_retxEvent = None, m_initialEvents = 0, m_publicationSyncEvent = None,
         m_publicationSyncPending = False, m_nextSyncInterest = 0, m_initialized = False,
         m_syncInterestBatching = False, m_syncInterestBatchWindow = 5, m_gateOpen = True,
         m_lastToken = 0, m_deadTokens = [0],
         m_parallelSyncProcessing = False, m_syncProcessingAlive = 0,
         m_syncWorkerPool = None, m_runningJobs = [], m_parallelSyncProduction = False,
         m_parallelSyncProductionSigning = False, m_parallelSyncProductionExtraBlock = False,
         m_syncProductionAlive = 0, m_syncProductionWorkerPool = None,
         m_runningProduction = [],
         m_lastValidationStatus = Never, m_stats = no_stats, m_out = []\<rparr>)"

text \<open>
  The shared flags \<^verbatim>\<open>m_syncProcessingAlive\<close> and \<^verbatim>\<open>m_syncProductionAlive\<close> are tokens: every enabling
  allocates a new one, disabling kills the current one, and a job carries the token that was
  current when it was posted; the token 0 is the null pointer. A second enabling keeps the pool
  that exists. Disabling joins the workers, which finish the queue first. A job taken by a
  worker is in \<open>m_runningJobs\<close> until its result is delivered, or dropped, by
  \<open>deliver_sync_result\<close> below.
\<close>

definition drain :: "'j worker_pool option \<Rightarrow> 'j list" where
  "drain p = (case p of None \<Rightarrow> [] | Some p \<Rightarrow> fst (pool_shutdown p))"

definition setParallelSyncProcessing ::
    "bool \<Rightarrow> nat \<Rightarrow> nat \<Rightarrow> ('n, 'b, 'd, 'i) sync_core \<Rightarrow> ('n, 'b, 'd, 'i) sync_core" where
  "setParallelSyncProcessing enabled workerThreads maxQueueSize c =
     (if \<not> enabled
      then c\<lparr>m_parallelSyncProcessing := False,
             m_deadTokens := m_syncProcessingAlive c # m_deadTokens c,
             m_runningJobs := m_runningJobs c @ drain (m_syncWorkerPool c), m_syncWorkerPool := None\<rparr>
      else
        c\<lparr>m_lastToken := m_lastToken c + 1, m_syncProcessingAlive := m_lastToken c + 1,
          m_syncWorkerPool := (case m_syncWorkerPool c of
              None \<Rightarrow> Some (pool_new workerThreads maxQueueSize) | Some p \<Rightarrow> Some p),
          m_parallelSyncProcessing := True\<rparr>)"

definition setParallelSyncProduction ::
    "bool \<Rightarrow> nat \<Rightarrow> nat \<Rightarrow> bool \<Rightarrow> bool \<Rightarrow> ('n, 'b, 'd, 'i) sync_core
      \<Rightarrow> ('n, 'b, 'd, 'i) sync_core" where
  "setParallelSyncProduction enabled workerThreads maxQueueSize signInWorker
       buildExtraBlockInWorker c =
     (if \<not> enabled
      then c\<lparr>m_parallelSyncProduction := False, m_parallelSyncProductionSigning := False,
             m_parallelSyncProductionExtraBlock := False,
             m_deadTokens := m_syncProductionAlive c # m_deadTokens c,
             m_runningProduction := m_runningProduction c @ drain (m_syncProductionWorkerPool c),
             m_syncProductionWorkerPool := None\<rparr>
      else
        c\<lparr>m_lastToken := m_lastToken c + 1, m_syncProductionAlive := m_lastToken c + 1,
          m_syncProductionWorkerPool := (case m_syncProductionWorkerPool c of
              None \<Rightarrow> Some (pool_new workerThreads maxQueueSize) | Some p \<Rightarrow> Some p),
          m_parallelSyncProductionSigning := signInWorker,
          m_parallelSyncProductionExtraBlock := buildExtraBlockInWorker,
          m_parallelSyncProduction := True\<rparr>)"

text \<open>\<^verbatim>\<open>~SVSyncCore\<close>: the gate of pending validations is closed first.\<close>

definition core_destroy :: "('n, 'b, 'd, 'i) sync_core \<Rightarrow> ('n, 'b, 'd, 'i) sync_core" where
  "core_destroy c =
     setParallelSyncProcessing False 1 1024
       (setParallelSyncProduction False 1 1024 False False (c\<lparr>m_gateOpen := False\<rparr>))"

definition setSyncInterestBatching ::
    "bool \<Rightarrow> int \<Rightarrow> ('n, 'b, 'd, 'i) sync_core \<Rightarrow> ('n, 'b, 'd, 'i) sync_core" where
  "setSyncInterestBatching enabled window c =
     (let c = c\<lparr>m_syncInterestBatching := enabled, m_syncInterestBatchWindow := window\<rparr>
      in if enabled then c
         else c\<lparr>m_publicationSyncPending := False, m_publicationSyncEvent := None\<rparr>)"

definition setMaxSuppressionTime ::
    "int \<Rightarrow> ('n, 'b, 'd, 'i) sync_core \<Rightarrow> ('n, 'b, 'd, 'i) sync_core" where
  "setMaxSuppressionTime delay c =
     (let delay = (if delay < 0 then 0 else delay)
      in c\<lparr>m_maxSuppressionTime := delay, m_intrReplyDist := (0, delay)\<rparr>)"

definition setPeriodicSyncTime ::
    "int \<Rightarrow> real \<Rightarrow> ('n, 'b, 'd, 'i) sync_core \<Rightarrow> ('n, 'b, 'd, 'i) sync_core" where
  "setPeriodicSyncTime interval jitter c =
     (let interval = (if interval < 1 then 1 else interval);
          jitter = (if jitter < 0 then 0 else jitter);
          jitter = (if jitter > 1 then 1 else jitter);
          lower = max 1 (llround (of_int interval * (1 - jitter)));
          upper = max lower (llround (of_int interval * (1 + jitter)))
      in c\<lparr>m_periodicSyncTime := interval, m_periodicSyncJitter := jitter,
           m_retxDist := (lower, upper)\<rparr>)"

text \<open>\<^verbatim>\<open>setGetExtraBlockCallback\<close> and its three siblings: installing one removes the other.\<close>

definition setGetExtra ::
    "extra_callback \<Rightarrow> ('n, 'b, 'd, 'i) sync_core \<Rightarrow> ('n, 'b, 'd, 'i) sync_core" where
  "setGetExtra cb c = c\<lparr>m_getExtra := cb\<rparr>"

definition setRecvExtra ::
    "extra_callback \<Rightarrow> ('n, 'b, 'd, 'i) sync_core \<Rightarrow> ('n, 'b, 'd, 'i) sync_core" where
  "setRecvExtra cb c = c\<lparr>m_recvExtra := cb\<rparr>"

section \<open>Merging and suppression\<close>

text \<open>\<^verbatim>\<open>mergeStateVector\<close>: the computation never throws, so that the result is a plain value.\<close>

definition mergeStateVector ::
    "time_point \<Rightarrow> 'n :: linorder version_vector \<Rightarrow> ('n, 'b, 'd, 'i) sync_core
      \<Rightarrow> 'n merge_computation result \<times> ('n, 'b, 'd, 'i) sync_core" where
  "mergeStateVector now vvOther c =
     (case computeMergeStateVector now (m_vv c) vvOther of
        Inl e \<Rightarrow> (Inl e, c)
      | Inr result \<Rightarrow>
          (Inr result, c\<lparr>m_vv := mc_mergedVector result,
             m_stateGeneration := (if mc_otherVectorNew result then m_stateGeneration c + 1
                                   else m_stateGeneration c)\<rparr>))"

definition recordVector ::
    "time_point \<Rightarrow> 'n :: linorder version_vector \<Rightarrow> ('n, 'b, 'd, 'i) sync_core
      \<Rightarrow> bool \<times> ('n, 'b, 'd, 'i) sync_core outcome" where
  "recordVector now vvOther c =
     (case m_recordedVv c of
        None \<Rightarrow> (False, c, None)
      | Some recorded \<Rightarrow>
          (case record_merge now recorded vvOther of
             Inl e \<Rightarrow> (True, c, Some e)
           | Inr v \<Rightarrow> (True, c\<lparr>m_recordedVv := Some v\<rparr>, None)))"

definition enterSuppressionState ::
    "'n version_vector \<Rightarrow> ('n, 'b, 'd, 'i) sync_core \<Rightarrow> ('n, 'b, 'd, 'i) sync_core" where
  "enterSuppressionState vvOther c =
     (case m_recordedVv c of
        None \<Rightarrow> c\<lparr>m_recordedVv := Some vvOther\<rparr>
      | Some _ \<Rightarrow> c)"

text \<open>
  \<^verbatim>\<open>suppressionCurve\<close>, over the reals instead of single-precision floats. With a constant
  factor 0 the code divides 0 by 0 and converts the result to an integer, which is undefined.
\<close>

definition suppressionCurve :: "int \<Rightarrow> int \<Rightarrow> int option" where
  "suppressionCurve constFactor val =
     (if constFactor = 0 then None
      else
        let c = of_int constFactor; v = of_int val; f = 10
        in Some (trunc (c * (1 - exp ((v - c) / (c / f))))))"

section \<open>Sending\<close>

definition data_signer ::
    "('n, 'c, 'b, 'd, 'i) core_env \<Rightarrow> ('n, 'b, 'd, 'i) sync_core \<Rightarrow> 'd \<Rightarrow> 'd result" where
  "data_signer E c d =
     (if m_dataSigner c = SignerNull then ce_signSha256 E d else ce_signData E d)"

definition signSyncInterest ::
    "('n, 'c, 'b, 'd, 'i) core_env \<Rightarrow> ('n, 'b, 'd, 'i) sync_core \<Rightarrow> 'i \<Rightarrow> 'i result" where
  "signSyncInterest E c i =
     (case m_interestSigner c of
        SignerNull \<Rightarrow> Inr i
      | SignerHmac \<Rightarrow> ce_signHmac E i
      | SignerOther \<Rightarrow> ce_signInterest E i)"

text \<open>The extension blocks the installed callback builds for a vector.\<close>

definition extra_blocks ::
    "('n, 'c, 'b, 'd, 'i) core_env \<Rightarrow> ('n, 'b, 'd, 'i) sync_core \<Rightarrow> 'n version_vector
      \<Rightarrow> 'b list result" where
  "extra_blocks E c v =
     (case m_getExtra c of
        NoCallback \<Rightarrow> Inr []
      | BlockCollection \<Rightarrow> ce_getExtraBlocks E v
      | OneBlock \<Rightarrow> res_bind (ce_getExtraBlock E v) (\<lambda>b. Inr [b]))"

definition encode_interest ::
    "('n, 'c, 'b, 'd, 'i) core_env \<Rightarrow> ('n, 'b, 'd, 'i) sync_core \<Rightarrow> 'n version_vector \<Rightarrow> 'b list
      \<Rightarrow> 'i result" where
  "encode_interest E c v extensions =
     encode (ce_ndn E) (ce_compression E) (m_syncPrefix c) v extensions (m_protocolOptions c)
       (Some (data_signer E c))"

text \<open>The Interest the serial path builds from the current state.\<close>

definition sync_interest ::
    "('n, 'c, 'b, 'd, 'i) core_env \<Rightarrow> ('n, 'b, 'd, 'i) sync_core \<Rightarrow> 'i result" where
  "sync_interest E c =
     res_bind (extra_blocks E c (m_vv c)) (\<lambda>extensions.
     res_bind (encode_interest E c (m_vv c) extensions) (\<lambda>i.
     if ro_version (m_protocolOptions c) = V2 then signSyncInterest E c i else Inr i))"

definition sendSyncInterestSerial ::
    "('n, 'c, 'b, 'd, 'i) core_env \<Rightarrow> ('n, 'b, 'd, 'i) sync_core
      \<Rightarrow> ('n, 'b, 'd, 'i) sync_core outcome" where
  "sendSyncInterestSerial E c =
     (if \<not> m_initialized c then (c, None)
      else
        (case sync_interest E c of
           Inl e \<Rightarrow> (c, Some e)
         | Inr i \<Rightarrow>
             (stat (\<lambda>s. s\<lparr>st_syncMainThreadPublishMs := st_syncMainThreadPublishMs s + ce_elapsed E\<rparr>)
                (emit (Express i) c), None)))"

definition sendSyncInterest ::
    "('n, 'c, 'b, 'd, 'i) core_env \<Rightarrow> ('n, 'b, 'd, 'i) sync_core
      \<Rightarrow> ('n, 'b, 'd, 'i) sync_core outcome" where
  "sendSyncInterest E c =
     (if \<not> m_initialized c then (c, None)
      else
        (case m_syncProductionWorkerPool c of
           None \<Rightarrow> sendSyncInterestSerial E c
         | Some pool \<Rightarrow>
             if \<not> m_parallelSyncProduction c then sendSyncInterestSerial E c
             else
               (case (if m_parallelSyncProductionExtraBlock c then Inr []
                      else extra_blocks E c (m_vv c)) of
                  Inl e \<Rightarrow> (c, Some e)
                | Inr blocks \<Rightarrow>
                    let job = \<lparr>pj_localVector = m_vv c, pj_extraBlocks = blocks,
                          pj_stateGeneration = m_stateGeneration c,
                          pj_alive = m_syncProductionAlive c\<rparr>;
                        (queued, queueDepth, pool) = pool_post job pool;
                        c = stat (\<lambda>s. s\<lparr>st_syncProductionWorkerQueueDepth := queueDepth\<rparr>)
                              (c\<lparr>m_syncProductionWorkerPool := Some pool\<rparr>)
                    in if \<not> queued
                       then
                         sendSyncInterestSerial E
                           (stat (\<lambda>s. s\<lparr>st_syncProductionJobsDropped :=
                                st_syncProductionJobsDropped s + 1\<rparr>) c)
                       else
                         (stat (\<lambda>s. s\<lparr>st_syncProductionJobsSubmitted :=
                               st_syncProductionJobsSubmitted s + 1,
                             st_syncInterestMainThreadBlockingMs :=
                               st_syncInterestMainThreadBlockingMs s + ce_elapsed E\<rparr>) c, None))))"

text \<open>
  \<^verbatim>\<open>retxSyncInterest\<close>; the delay is an \<^verbatim>\<open>unsigned int\<close>, so that \<open>1000 * delay\<close> wraps at
  32 bits. What \<^verbatim>\<open>sendSyncInterest\<close> throws leaves before the timer is set.
\<close>

definition retxSyncInterest ::
    "('n :: linorder, 'c, 'b, 'd, 'i) core_env \<Rightarrow> bool \<Rightarrow> u32 \<Rightarrow> ('n, 'b, 'd, 'i) sync_core
      \<Rightarrow> ('n, 'b, 'd, 'i) sync_core outcome" where
  "retxSyncInterest E send delay c =
     and_then
       (if \<not> send then (c, None)
        else
          and_then
            (case m_recordedVv c of
               None \<Rightarrow> sendSyncInterest E c
             | Some recorded \<Rightarrow>
                 (case mergeStateVector (clk_point (ce_clk E)) recorded c of
                    (Inl e, c) \<Rightarrow> (c, Some e)
                  | (Inr result, c) \<Rightarrow>
                      if mc_myVectorNew result then sendSyncInterest E c else (c, None)))
            (\<lambda>c. (c\<lparr>m_recordedVv := None\<rparr>, None)))
       (\<lambda>c.
         let delay = (if delay = 0 then word_of_int (ce_retxDraw E (m_retxDist c)) else delay)
         in (c\<lparr>m_nextSyncInterest := ce_schedNow E + uint (1000 * delay),
               m_retxEvent := Some delay\<rparr>, None))"

text \<open>\<^verbatim>\<open>sendLocalPublicationSyncInterest\<close>, whose body catches every exception.\<close>

definition sendLocalPublicationSyncInterest ::
    "('n, 'c, 'b, 'd, 'i) core_env \<Rightarrow> ('n, 'b, 'd, 'i) sync_core
      \<Rightarrow> ('n, 'b, 'd, 'i) sync_core outcome" where
  "sendLocalPublicationSyncInterest E c =
     caught
       (and_then (sendSyncInterest E (c\<lparr>m_recordedVv := None\<rparr>)) (\<lambda>c.
          let delay = word_of_int (ce_retxDraw E (m_retxDist c)) :: u32
          in (c\<lparr>m_nextSyncInterest := ce_schedNow E + uint (1000 * delay),
                m_retxEvent := Some delay\<rparr>, None)))"

definition schedulePublicationSync ::
    "('n, 'b, 'd, 'i) sync_core \<Rightarrow> ('n, 'b, 'd, 'i) sync_core" where
  "schedulePublicationSync c =
     (if m_publicationSyncPending c then c
      else c\<lparr>m_publicationSyncPending := True,
             m_publicationSyncEvent := Some (m_syncInterestBatchWindow c)\<rparr>)"

text \<open>
  The firing of the three timers. The one of \<^verbatim>\<open>sendInitialInterest\<close>, 100 ms after the prefix
  registration, is not kept in a member; \<open>m_initialEvents\<close> counts those pending.
\<close>

definition fire_publication_sync ::
    "('n, 'c, 'b, 'd, 'i) core_env \<Rightarrow> ('n, 'b, 'd, 'i) sync_core
      \<Rightarrow> ('n, 'b, 'd, 'i) sync_core outcome" where
  "fire_publication_sync E c =
     sendLocalPublicationSyncInterest E
       (c\<lparr>m_publicationSyncEvent := None, m_publicationSyncPending := False\<rparr>)"

definition fire_retx ::
    "('n :: linorder, 'c, 'b, 'd, 'i) core_env \<Rightarrow> ('n, 'b, 'd, 'i) sync_core
      \<Rightarrow> ('n, 'b, 'd, 'i) sync_core outcome" where
  "fire_retx E c = retxSyncInterest E True 0 (c\<lparr>m_retxEvent := None\<rparr>)"

definition sendInitialInterest :: "('n, 'b, 'd, 'i) sync_core \<Rightarrow> ('n, 'b, 'd, 'i) sync_core" where
  "sendInitialInterest c = c\<lparr>m_initialEvents := m_initialEvents c + 1\<rparr>"

definition fire_initial ::
    "('n :: linorder, 'c, 'b, 'd, 'i) core_env \<Rightarrow> ('n, 'b, 'd, 'i) sync_core
      \<Rightarrow> ('n, 'b, 'd, 'i) sync_core outcome" where
  "fire_initial E c =
     retxSyncInterest E True 0
       (c\<lparr>m_initialEvents := m_initialEvents c - 1, m_initialized := True\<rparr>)"

section \<open>Local state\<close>

definition own_or ::
    "('n, 'c, 'b, 'd, 'i) core_env \<Rightarrow> ('n, 'b, 'd, 'i) sync_core \<Rightarrow> 'n \<Rightarrow> 'n" where
  "own_or E c nid = (if nid = nm_empty (ce_ndn E) then m_id c else nid)"

definition getSeqNo ::
    "('n, 'c, 'b, 'd, 'i) core_env \<Rightarrow> 'n \<Rightarrow> ('n, 'b, 'd, 'i) sync_core \<Rightarrow> seq_no" where
  "getSeqNo E nid c =
     (let t_nid = own_or E c nid
      in if t_nid = m_id c then vv_get t_nid (m_bootstrapTime c) (m_vv c)
         else vv_getLatest t_nid (m_vv c))"

definition getNodeIds :: "('n, 'b, 'd, 'i) sync_core \<Rightarrow> 'n set" where
  "getNodeIds c = fst ` set (m_latestMap (m_vv c))"

text \<open>\<^verbatim>\<open>updateSeqNo(seq, bootstrapTime, nid)\<close>\<close>

definition updateSeqNoAt ::
    "('n :: linorder, 'c, 'b, 'd, 'i) core_env \<Rightarrow> seq_no \<Rightarrow> bootstrap_time \<Rightarrow> 'n
      \<Rightarrow> ('n, 'b, 'd, 'i) sync_core \<Rightarrow> ('n, 'b, 'd, 'i) sync_core outcome" where
  "updateSeqNoAt E seq bootstrapTime nid c =
     (let t_nid = own_or E c nid;
          prev = vv_get t_nid bootstrapTime (m_vv c)
      in case vv_set (clk_point (ce_clk E)) t_nid bootstrapTime seq (m_vv c) of
           Inl e \<Rightarrow> (c, Some e)
         | Inr v \<Rightarrow>
             let c = c\<lparr>m_vv := v,
                   m_stateGeneration := (if seq > prev then m_stateGeneration c + 1
                                         else m_stateGeneration c)\<rparr>
             in if seq > prev
                then caught
                  (if m_syncInterestBatching c then (schedulePublicationSync c, None)
                   else sendLocalPublicationSyncInterest E c)
                else (c, None))"

text \<open>\<^verbatim>\<open>updateSeqNo(seq, nid)\<close>\<close>

definition updateSeqNo ::
    "('n :: linorder, 'c, 'b, 'd, 'i) core_env \<Rightarrow> seq_no \<Rightarrow> 'n
      \<Rightarrow> ('n, 'b, 'd, 'i) sync_core \<Rightarrow> ('n, 'b, 'd, 'i) sync_core outcome" where
  "updateSeqNo E seq nid c = updateSeqNoAt E seq (m_bootstrapTime c) (own_or E c nid) c"

section \<open>Receiving\<close>

text \<open>
  The extension callbacks, called after the merge. The singular callback gets one block after
  the other until it throws; what it throws is caught.
\<close>

fun recv_each ::
    "('n, 'c, 'b, 'd, 'i) core_env \<Rightarrow> 'b list \<Rightarrow> 'n version_vector \<Rightarrow> ('n, 'b, 'd, 'i) sync_core
      \<Rightarrow> ('n, 'b, 'd, 'i) sync_core" where
  "recv_each E [] v c = c"
| "recv_each E (b # bs) v c =
     (let c = emit (RecvBlock b v) c in if ce_recvThrows E b then c else recv_each E bs v c)"

definition recv_extensions ::
    "('n, 'c, 'b, 'd, 'i) core_env \<Rightarrow> 'b list \<Rightarrow> 'n version_vector \<Rightarrow> ('n, 'b, 'd, 'i) sync_core
      \<Rightarrow> ('n, 'b, 'd, 'i) sync_core" where
  "recv_extensions E extensions vvOther c =
     (if extensions = [] then c
      else
        (case m_recvExtra c of
           NoCallback \<Rightarrow> c
         | BlockCollection \<Rightarrow> emit (RecvBlocks extensions vvOther) c
         | OneBlock \<Rightarrow> recv_each E extensions vvOther c))"

definition report_missing ::
    "u64 \<Rightarrow> 'n missing_data_info list \<Rightarrow> ('n, 'b, 'd, 'i) sync_core
      \<Rightarrow> ('n, 'b, 'd, 'i) sync_core" where
  "report_missing incomingFace missing c =
     (if missing = [] then c
      else emit (OnUpdate (map (\<lambda>e. e\<lparr>md_incomingFace := incomingFace\<rparr>) missing)) c)"

text \<open>
  The end of both handlers, after \<^verbatim>\<open>recordVector\<close> has returned false: an up-to-date sender
  resets the timer, an outdated one starts suppression. Without a value of the curve the
  behaviour is undefined, an error here.
\<close>

definition react ::
    "('n :: linorder, 'c, 'b, 'd, 'i) core_env \<Rightarrow> bool \<Rightarrow> 'n version_vector
      \<Rightarrow> ('n, 'b, 'd, 'i) sync_core \<Rightarrow> ('n, 'b, 'd, 'i) sync_core outcome" where
  "react E myVectorNew vvOther c =
     (if \<not> myVectorNew then retxSyncInterest E False 0 c
      else
        let c = enterSuppressionState vvOther c;
            delay = ce_replyDraw E (m_intrReplyDist c)
        in case suppressionCurve (m_maxSuppressionTime c) delay of
             None \<Rightarrow> (c, Some (RuntimeError ''undefined: division by zero''))
           | Some delay \<Rightarrow>
               if ce_now E + delay * 1000 < m_nextSyncInterest c
               then retxSyncInterest E False (word_of_int delay) c
               else (c, None))"

text \<open>
  What both handlers do after the extensions and the callback: record the vector if suppression
  is on, else react. \<open>atRecorded\<close> and \<open>atEnd\<close> are the statistics they keep at their two ends.
\<close>

definition conclude_sync ::
    "('n :: linorder, 'c, 'b, 'd, 'i) core_env \<Rightarrow> bool \<Rightarrow> 'n version_vector
      \<Rightarrow> (sync_stats \<Rightarrow> sync_stats) \<Rightarrow> (sync_stats \<Rightarrow> sync_stats)
      \<Rightarrow> ('n, 'b, 'd, 'i) sync_core \<Rightarrow> ('n, 'b, 'd, 'i) sync_core outcome" where
  "conclude_sync E myVectorNew vvOther atRecorded atEnd c =
     (case recordVector (clk_point (ce_clk E)) vvOther c of
        (True, r) \<Rightarrow> and_then r (\<lambda>c. (stat atRecorded c, None))
      | (False, r) \<Rightarrow>
          and_then (and_then r (react E myVectorNew vvOther)) (\<lambda>c. (stat atEnd c, None)))"

definition onSyncInterestValidatedSerial ::
    "('n :: linorder, 'c, 'b, 'd, 'i) core_env \<Rightarrow> 'i \<Rightarrow> u64 option \<Rightarrow> bool
      \<Rightarrow> ('n, 'b, 'd, 'i) sync_core \<Rightarrow> ('n, 'b, 'd, 'i) sync_core outcome" where
  "onSyncInterestValidatedSerial E i faceTag countSerialStats c =
     (case decode (ce_ndn E) (ce_compression E) (ce_clk E) i (m_syncPrefix c)
         (ro_version (m_protocolOptions c)) True of
        Inl e \<Rightarrow> (stat (\<lambda>s. s\<lparr>st_vectorDecode := st_vectorDecode s + 1\<rparr>) c, None)
      | Inr envelope \<Rightarrow>
          let vvOther = env_stateVector envelope in
          (case mergeStateVector (clk_point (ce_clk E)) vvOther c of
             (Inl e, c) \<Rightarrow> (c, Some e)
           | (Inr result, c) \<Rightarrow>
               let c = recv_extensions E (env_extensions envelope) vvOther c;
                   c = report_missing (value_or faceTag 0) (mc_missingData result) c
               in conclude_sync E (mc_myVectorNew result) vvOther id
                    (if countSerialStats
                     then (\<lambda>s. s\<lparr>st_syncInterestSerialHandlerMs :=
                              st_syncInterestSerialHandlerMs s + ce_elapsed E,
                            st_syncInterestMainThreadBlockingMs :=
                              st_syncInterestMainThreadBlockingMs s + ce_elapsed E\<rparr>)
                     else id) c))"

definition onSyncInterestValidated ::
    "('n :: linorder, 'c, 'b, 'd, 'i) core_env \<Rightarrow> 'i \<Rightarrow> u64 option
      \<Rightarrow> ('n, 'b, 'd, 'i) sync_core \<Rightarrow> ('n, 'b, 'd, 'i) sync_core outcome" where
  "onSyncInterestValidated E i faceTag c =
     (case m_syncWorkerPool c of
        None \<Rightarrow> onSyncInterestValidatedSerial E i faceTag True c
      | Some pool \<Rightarrow>
          if \<not> m_parallelSyncProcessing c then onSyncInterestValidatedSerial E i faceTag True c
          else
            let job = \<lparr>sj_interest = i, sj_localVector = m_vv c,
                  sj_stateGeneration = m_stateGeneration c,
                  sj_incomingFace = value_or faceTag 0, sj_alive = m_syncProcessingAlive c\<rparr>;
                (queued, queueDepth, pool) = pool_post job pool;
                c = stat (\<lambda>s. s\<lparr>st_syncWorkerQueueDepth := queueDepth\<rparr>)
                      (c\<lparr>m_syncWorkerPool := Some pool\<rparr>)
            in if \<not> queued
               then
                 onSyncInterestValidatedSerial E i faceTag True
                   (stat (\<lambda>s. s\<lparr>st_syncJobsDropped := st_syncJobsDropped s + 1\<rparr>) c)
               else
                 (stat (\<lambda>s. s\<lparr>st_syncJobsSubmitted := st_syncJobsSubmitted s + 1,
                     st_syncInterestMainThreadBlockingMs :=
                       st_syncInterestMainThreadBlockingMs s + ce_elapsed E\<rparr>) c, None))"

definition set_status ::
    "validation_status \<Rightarrow> ('n, 'b, 'd, 'i) sync_core \<Rightarrow> ('n, 'b, 'd, 'i) sync_core" where
  "set_status v c = c\<lparr>m_lastValidationStatus := v\<rparr>"

definition onSyncInterest ::
    "('n :: linorder, 'c, 'b, 'd, 'i) core_env \<Rightarrow> 'i \<Rightarrow> u64 option
      \<Rightarrow> ('n, 'b, 'd, 'i) sync_core \<Rightarrow> ('n, 'b, 'd, 'i) sync_core outcome" where
  "onSyncInterest E i faceTag c =
     (if ro_version (m_protocolOptions c) = V3 then
        (case decode (ce_ndn E) (ce_compression E) (ce_clk E) i (m_syncPrefix c) V3 False of
           Inl e \<Rightarrow>
             (stat (\<lambda>s. s\<lparr>st_malformedEnvelope := st_malformedEnvelope s + 1\<rparr>)
                (set_status Rejected c), None)
         | Inr envelope \<Rightarrow>
             (case env_stateVectorData envelope of
                None \<Rightarrow> (set_status Rejected c, None)
              | Some stateData \<Rightarrow>
                  if m_hasValidator c then (emit (ValidateData stateData i) c, None)
                  else onSyncInterestValidated E i faceTag (set_status StructuralUnverified c)))
      else
        (case m_interestSigner c of
           SignerNull \<Rightarrow> onSyncInterestValidated E i faceTag c
         | SignerHmac \<Rightarrow>
             if ce_verifyHmac E i then onSyncInterestValidated E i faceTag c else (c, None)
         | SignerOther \<Rightarrow>
             if m_hasValidator c then (emit (ValidateInterest i) c, None)
             else onSyncInterestValidated E i faceTag c))"

text \<open>
  The callbacks of the validator: for a V3 packet behind the gate that the destructor closes,
  for a V2 Interest directly.
\<close>

definition data_validated ::
    "('n :: linorder, 'c, 'b, 'd, 'i) core_env \<Rightarrow> 'i \<Rightarrow> u64 option
      \<Rightarrow> ('n, 'b, 'd, 'i) sync_core \<Rightarrow> ('n, 'b, 'd, 'i) sync_core outcome" where
  "data_validated E i faceTag c =
     (if \<not> m_gateOpen c then (c, None)
      else onSyncInterestValidated E i faceTag (set_status Verified c))"

definition data_rejected :: "('n, 'b, 'd, 'i) sync_core \<Rightarrow> ('n, 'b, 'd, 'i) sync_core" where
  "data_rejected c =
     (if \<not> m_gateOpen c then c
      else stat (\<lambda>s. s\<lparr>st_signaturePolicy := st_signaturePolicy s + 1\<rparr>) (set_status Rejected c))"

section \<open>The worker side\<close>

text \<open>The job of a processing worker.\<close>

definition process_sync_job ::
    "('n :: linorder, 'c, 'b, 'd, 'i) core_env \<Rightarrow> 'n \<Rightarrow> svs_version \<Rightarrow> ('n, 'i) sync_job
      \<Rightarrow> ('n, 'b, 'i) sync_result" where
  "process_sync_job E syncPrefix version job =
     (let result = \<lparr>sr_job = job, sr_ok = False, sr_decodeFailed = False,
            sr_remoteVector = vv_empty, sr_extensions = [],
            sr_merge = \<lparr>mc_myVectorNew = False, mc_otherVectorNew = False, mc_missingData = [],
              mc_mergedVector = vv_empty\<rparr>,
            sr_myVectorNew = False, sr_missingData = []\<rparr>
      in case
           res_bind (decode (ce_ndn E) (ce_compression E) (ce_clk E) (sj_interest job) syncPrefix
               version True) (\<lambda>envelope.
           res_bind (computeMergeStateVector (clk_point (ce_clk E)) (sj_localVector job)
               (env_stateVector envelope)) (\<lambda>m. Inr (envelope, m))) of
           Inl e \<Rightarrow> result\<lparr>sr_decodeFailed := True\<rparr>
         | Inr (envelope, m) \<Rightarrow>
             result\<lparr>sr_remoteVector := env_stateVector envelope,
               sr_extensions := env_extensions envelope, sr_merge := m,
               sr_myVectorNew := mc_myVectorNew m, sr_missingData := mc_missingData m,
               sr_ok := True\<rparr>)"

definition processSyncInterestResult ::
    "('n :: linorder, 'c, 'b, 'd, 'i) core_env \<Rightarrow> ('n, 'b, 'i) sync_result
      \<Rightarrow> ('n, 'b, 'd, 'i) sync_core \<Rightarrow> ('n, 'b, 'd, 'i) sync_core outcome" where
  "processSyncInterestResult E result c =
     (if \<not> sr_ok result \<or> sr_decodeFailed result
      then (stat (\<lambda>s. s\<lparr>st_vectorDecode := st_vectorDecode s + 1\<rparr>) c, None)
      else if m_stateGeneration c \<noteq> sj_stateGeneration (sr_job result)
      then
        onSyncInterestValidatedSerial E (sj_interest (sr_job result))
          (Some (sj_incomingFace (sr_job result))) False
          (stat (\<lambda>s. s\<lparr>st_syncJobsStale := st_syncJobsStale s + 1\<rparr>) c)
      else
        let c = c\<lparr>m_vv := mc_mergedVector (sr_merge result),
              m_stateGeneration := (if mc_otherVectorNew (sr_merge result)
                then m_stateGeneration c + 1 else m_stateGeneration c)\<rparr>;
            c = recv_extensions E (sr_extensions result) (sr_remoteVector result) c;
            c = report_missing (sj_incomingFace (sr_job result)) (sr_missingData result) c
        in conclude_sync E (sr_myVectorNew result) (sr_remoteVector result)
             (\<lambda>s. s\<lparr>st_syncJobsCompleted := st_syncJobsCompleted s + 1\<rparr>)
             (\<lambda>s. s\<lparr>st_syncJobsCompleted := st_syncJobsCompleted s + 1,
                st_syncInterestMainThreadBlockingMs :=
                  st_syncInterestMainThreadBlockingMs s + ce_elapsed E,
                st_syncInterestParallelTotalMs :=
                  st_syncInterestParallelTotalMs s + ce_elapsed E\<rparr>) c)"

text \<open>
  A worker takes a job; later the main thread runs the lambda the worker posted, unless the
  job's token is dead. \<open>W\<close> is what the worker read, \<open>E\<close> what the main thread reads.
\<close>

definition take_sync_job :: "('n, 'b, 'd, 'i) sync_core \<Rightarrow> ('n, 'b, 'd, 'i) sync_core" where
  "take_sync_job c =
     (case m_syncWorkerPool c of
        None \<Rightarrow> c
      | Some pool \<Rightarrow>
          (case pool_take pool of
             None \<Rightarrow> c
           | Some (job, pool) \<Rightarrow>
               c\<lparr>m_syncWorkerPool := Some pool, m_runningJobs := m_runningJobs c @ [job]\<rparr>))"

definition deliver_sync_result ::
    "('n :: linorder, 'c, 'b, 'd, 'i) core_env \<Rightarrow> ('n, 'c, 'b, 'd, 'i) core_env \<Rightarrow> ('n, 'i) sync_job
      \<Rightarrow> ('n, 'b, 'd, 'i) sync_core \<Rightarrow> ('n, 'b, 'd, 'i) sync_core outcome" where
  "deliver_sync_result W E job c =
     (if job \<notin> set (m_runningJobs c) then (c, None)
      else
        let c = c\<lparr>m_runningJobs := remove1 job (m_runningJobs c)\<rparr> in
        if sj_alive job \<in> set (m_deadTokens c) then (c, None)
        else
          processSyncInterestResult E
            (process_sync_job W (m_syncPrefix c) (ro_version (m_protocolOptions c)) job) c)"

text \<open>The job of a production worker; the core supplies its constant configuration.\<close>

definition process_production_job ::
    "('n, 'c, 'b, 'd, 'i) core_env \<Rightarrow> ('n, 'b, 'd, 'i) sync_core \<Rightarrow> ('n, 'b) production_job
      \<Rightarrow> ('n, 'b, 'i) production_result" where
  "process_production_job E c job =
     (let built = m_parallelSyncProductionExtraBlock c \<and> m_getExtra c \<noteq> NoCallback;
          version = ro_version (m_protocolOptions c);
          signs = m_parallelSyncProductionSigning c;
          result = \<lparr>pr_job = job, pr_ok = False, pr_interest = None, pr_signedInWorker = False,
            pr_extraBlockBuiltInWorker = built\<rparr>
      in case
           res_bind (if built then extra_blocks E c (pj_localVector job)
                     else Inr (pj_extraBlocks job)) (\<lambda>extensions.
           if version = V2 \<or> signs then
             res_bind (encode_interest E c (pj_localVector job) extensions) (\<lambda>i.
             if signs \<and> version = V2 then
               res_bind (signSyncInterest E c i) (\<lambda>i. Inr (Some i, True))
             else Inr (Some i, False))
           else Inr (None, False)) of
           Inl e \<Rightarrow> result
         | Inr (interest, isSigned) \<Rightarrow>
             result\<lparr>pr_ok := True, pr_interest := interest, pr_signedInWorker := isSigned\<rparr>)"

text \<open>
  An Interest deferred to the main thread is encoded from the job's extension blocks, also when
  the worker has built the extensions itself: its local variable is gone by then.
\<close>

definition processSyncProductionResult ::
    "('n, 'c, 'b, 'd, 'i) core_env \<Rightarrow> ('n, 'b, 'i) production_result
      \<Rightarrow> ('n, 'b, 'd, 'i) sync_core \<Rightarrow> ('n, 'b, 'd, 'i) sync_core outcome" where
  "processSyncProductionResult E result c =
     (let stale = m_stateGeneration c \<noteq> pj_stateGeneration (pr_job result) in
      if \<not> pr_ok result
      then (stat (\<lambda>s. s\<lparr>st_syncProductionJobsDropped := st_syncProductionJobsDropped s + 1\<rparr>) c, None)
      else if stale \<and> \<not> pr_extraBlockBuiltInWorker result
      then (stat (\<lambda>s. s\<lparr>st_syncProductionJobsStale := st_syncProductionJobsStale s + 1\<rparr>) c, None)
      else
        let c = (if stale
              then stat (\<lambda>s. s\<lparr>st_syncProductionJobsStale := st_syncProductionJobsStale s + 1\<rparr>) c
              else c)
        in case
             res_bind (case pr_interest result of
                 Some i \<Rightarrow> Inr i
               | None \<Rightarrow> encode_interest E c (pj_localVector (pr_job result))
                          (pj_extraBlocks (pr_job result))) (\<lambda>i.
             if \<not> pr_signedInWorker result \<and> ro_version (m_protocolOptions c) = V2
             then signSyncInterest E c i else Inr i) of
             Inl e \<Rightarrow> (c, Some e)
           | Inr i \<Rightarrow>
               (stat (\<lambda>s. s\<lparr>st_syncProductionJobsCompleted := st_syncProductionJobsCompleted s + 1,
                   st_syncProductionParallelTotalMs :=
                     st_syncProductionParallelTotalMs s + ce_elapsed E,
                   st_syncMainThreadPublishMs := st_syncMainThreadPublishMs s + ce_elapsed E,
                   st_syncInterestMainThreadBlockingMs :=
                     st_syncInterestMainThreadBlockingMs s + ce_elapsed E\<rparr>)
                  (emit (Express i) c), None))"

definition take_production_job :: "('n, 'b, 'd, 'i) sync_core \<Rightarrow> ('n, 'b, 'd, 'i) sync_core" where
  "take_production_job c =
     (case m_syncProductionWorkerPool c of
        None \<Rightarrow> c
      | Some pool \<Rightarrow>
          (case pool_take pool of
             None \<Rightarrow> c
           | Some (job, pool) \<Rightarrow>
               c\<lparr>m_syncProductionWorkerPool := Some pool,
                 m_runningProduction := m_runningProduction c @ [job]\<rparr>))"

definition deliver_production_result ::
    "('n, 'c, 'b, 'd, 'i) core_env \<Rightarrow> ('n, 'c, 'b, 'd, 'i) core_env \<Rightarrow> ('n, 'b) production_job
      \<Rightarrow> ('n, 'b, 'd, 'i) sync_core \<Rightarrow> ('n, 'b, 'd, 'i) sync_core outcome" where
  "deliver_production_result W E job c =
     (if job \<notin> set (m_runningProduction c) then (c, None)
      else
        let c' = c\<lparr>m_runningProduction := remove1 job (m_runningProduction c)\<rparr> in
        if pj_alive job \<in> set (m_deadTokens c) then (c', None)
        else processSyncProductionResult E (process_production_job W c job) c')"

end
