(* ===== verification/Core_Refinement.thy ===== *)
theory Core_Refinement
  imports Sync_Core
begin

text \<open>
  What a participant of the group is, independent of timers, workers and packets, and the proof
  that \<^verbatim>\<open>SVSyncCore\<close> implements it. A participant has a vector, a count of its changes, the
  vector it records while its reply is suppressed, and the snapshots that worker jobs were
  given; it moves by merging a vector, applying a worker's result, publishing, recording. Every
  operation of the model of the core is a sequence of such moves (\<open>step_simulated\<close>), at most one
  of which changes the vector. The invariants are proved on the participant, once per move, and
  transferred to every reachable state of the core.
\<close>


section \<open>The abstract participant\<close>

record 'n participant =
  a_vector :: "'n version_vector"
  a_changes :: nat
  a_recorded :: "'n version_vector option"
  a_snapshots :: "('n version_vector \<times> nat) set"

definition same_entries :: "'n version_vector \<Rightarrow> 'n version_vector \<Rightarrow> bool" where
  "same_entries v w \<longleftrightarrow> vv_le v w \<and> vv_le w v"

definition bump :: "bool \<Rightarrow> nat \<Rightarrow> nat" where
  "bump newer k = (if newer then k + 1 else k)"

lemma bump_ge [simp]: "k \<le> bump newer k"
  by (simp add: bump_def)

inductive move :: "bool \<Rightarrow> 'n :: linorder participant \<Rightarrow> 'n participant \<Rightarrow> bool"
  for lowering :: bool
where
  absorb: "vv_ok r \<Longrightarrow>
    move lowering a (a\<lparr>a_vector := vv_join t (a_vector a) r,
      a_changes := bump (\<not> vv_le r (a_vector a)) (a_changes a)\<rparr>)"
| apply_snapshot: "vv_ok r \<Longrightarrow> (v, k) \<in> a_snapshots a \<Longrightarrow>
    (word_of_nat k :: u64) = word_of_nat (a_changes a) \<Longrightarrow>
    move lowering a (a\<lparr>a_vector := vv_join t v r,
      a_changes := bump (\<not> vv_le r v) (a_changes a)\<rparr>)"
| publish: "s \<noteq> 0 \<Longrightarrow> lowering \<or> vv_get n b (a_vector a) \<le> s \<Longrightarrow>
    move lowering a (a\<lparr>a_vector := vv_put t n b s (a_vector a),
      a_changes := bump (vv_get n b (a_vector a) < s) (a_changes a)\<rparr>)"
| suppress: "vv_ok r \<Longrightarrow> vv_le r (a_vector a) \<Longrightarrow> a_recorded a = None \<Longrightarrow>
    move lowering a (a\<lparr>a_recorded := Some r\<rparr>)"
| record_more: "vv_ok r \<Longrightarrow> vv_le r (a_vector a) \<Longrightarrow> a_recorded a = Some p \<Longrightarrow>
    move lowering a (a\<lparr>a_recorded := Some (vv_join t p r)\<rparr>)"
| steady: "move lowering a (a\<lparr>a_recorded := None\<rparr>)"
| snapshot: "move lowering a (a\<lparr>a_snapshots := insert (a_vector a, a_changes a) (a_snapshots a)\<rparr>)"

definition participant_wf :: "'n :: linorder participant \<Rightarrow> bool" where
  "participant_wf a \<longleftrightarrow>
     vv_ok (a_vector a) \<and> (\<forall>r. a_recorded a = Some r \<longrightarrow> vv_ok r) \<and>
     (\<forall>(v, k) \<in> a_snapshots a. vv_ok v)"

definition participant_inv :: "'n participant \<Rightarrow> bool" where
  "participant_inv a \<longleftrightarrow>
     (\<forall>r. a_recorded a = Some r \<longrightarrow> vv_le r (a_vector a)) \<and>
     (\<forall>(v, k) \<in> a_snapshots a.
        vv_le v (a_vector a) \<and> k \<le> a_changes a \<and>
        (k = a_changes a \<longrightarrow> same_entries v (a_vector a)))"

lemma move_wf: "move l a a' \<Longrightarrow> participant_wf a \<Longrightarrow> participant_wf a'"
  by (induction rule: move.induct) (auto simp: participant_wf_def vv_ok_join vv_ok_put)

lemma vv_le_put: "vv_get n b v \<le> s \<Longrightarrow> vv_le v (vv_put t n b s v)"
  by (simp add: vv_le_def vv_get_put)

text \<open>A vector that only grows keeps the invariant, if every real growth counts as a change.\<close>

lemma participant_inv_grow:
  assumes inv: "participant_inv a" and le: "vv_le (a_vector a) w"
    and same: "\<not> newer \<Longrightarrow> vv_le w (a_vector a)"
  shows "participant_inv (a\<lparr>a_vector := w, a_changes := bump newer (a_changes a)\<rparr>)"
proof -
  have "vv_le r w" if "a_recorded a = Some r" for r
    using inv that le vv_le_trans unfolding participant_inv_def by blast
  moreover have "vv_le v w \<and> k \<le> bump newer (a_changes a) \<and>
      (k = bump newer (a_changes a) \<longrightarrow> same_entries v w)" if "(v, k) \<in> a_snapshots a" for v k
  proof -
    have s: "vv_le v (a_vector a)" "k \<le> a_changes a" "k = a_changes a \<longrightarrow> same_entries v (a_vector a)"
      using inv that unfolding participant_inv_def by blast+
    show ?thesis
    proof (cases newer)
      case True
      then show ?thesis using s(1,2) vv_le_trans [OF s(1) le] by (simp add: bump_def)
    next
      case False
      then show ?thesis
        using s vv_le_trans [OF s(1) le] same vv_le_trans by (auto simp: bump_def same_entries_def)
    qed
  qed
  ultimately show ?thesis
    by (auto simp: participant_inv_def)
qed

lemma vv_le_join_id: "vv_ok r \<Longrightarrow> vv_le r v \<Longrightarrow> vv_le (vv_join t v r) v"
  using vv_le_join(3) [of r v v t] by simp

lemma move_inv:
  assumes "move False a a'" and "participant_inv a" and "a_changes a < 2 ^ 64"
  shows "participant_inv a' \<and> vv_le (a_vector a) (a_vector a') \<and> a_changes a \<le> a_changes a'"
  using assms
proof (induction rule: move.induct)
  case (absorb r a t)
  have "vv_le (vv_join t (a_vector a) r) (a_vector a)" if "\<not> \<not> vv_le r (a_vector a)"
    using that vv_le_join_id [OF absorb(1)] by simp
  then show ?case
    using participant_inv_grow [OF absorb(2) vv_le_join(1) [OF absorb(1)],
        of "\<not> vv_le r (a_vector a)" t] vv_le_join(1) [OF absorb(1)] by simp
next
  case (apply_snapshot r v k a t)
  have v: "vv_le v (a_vector a)" "k \<le> a_changes a" "k = a_changes a \<longrightarrow> same_entries v (a_vector a)"
    using apply_snapshot.prems(1) apply_snapshot.hyps(2) unfolding participant_inv_def by blast+
  have "unat (word_of_nat k :: u64) = k" "unat (word_of_nat (a_changes a) :: u64) = a_changes a"
    using v(2) apply_snapshot.prems(2) by (simp_all add: unat_of_nat)
  then have "k = a_changes a"
    using apply_snapshot.hyps(3) by metis
  then have av: "vv_le (a_vector a) v"
    using v(3) by (simp add: same_entries_def)
  have le: "vv_le (a_vector a) (vv_join t v r)"
    using vv_le_trans [OF av vv_le_join(1) [OF apply_snapshot.hyps(1)]] .
  have "vv_le (vv_join t v r) (a_vector a)" if "\<not> \<not> vv_le r v"
    using that vv_le_join_id [OF apply_snapshot.hyps(1)] vv_le_trans [OF _ v(1)] by blast
  then show ?case
    using participant_inv_grow [OF apply_snapshot.prems(1) le, of "\<not> vv_le r v"] le
    by simp
next
  case (publish s n b a t)
  have le: "vv_le (a_vector a) (vv_put t n b s (a_vector a))"
    using publish(2) by (intro vv_le_put) simp
  have "vv_le (vv_put t n b s (a_vector a)) (a_vector a)" if "\<not> vv_get n b (a_vector a) < s"
    using that by (simp add: vv_le_def vv_get_put)
  then show ?case
    using participant_inv_grow [OF publish(3) le, of "vv_get n b (a_vector a) < s"] le by simp
next
  case (suppress r a)
  then show ?case by (auto simp: participant_inv_def)
next
  case (record_more r a p t)
  then show ?case
    using vv_le_join(3) [OF record_more(1), of p "a_vector a"] by (auto simp: participant_inv_def)
next
  case (steady a)
  then show ?case by (auto simp: participant_inv_def)
next
  case (snapshot a)
  then show ?case by (auto simp: participant_inv_def same_entries_def)
qed


section \<open>Runs\<close>

abbreviation moves :: "bool \<Rightarrow> 'n :: linorder participant \<Rightarrow> 'n participant \<Rightarrow> bool" where
  "moves l \<equiv> (move l)\<^sup>*\<^sup>*"

lemma moves_wf: "moves l a a' \<Longrightarrow> participant_wf a \<Longrightarrow> participant_wf a'"
  by (induction rule: rtranclp_induct) (auto intro: move_wf)

lemma move_changes: "move l a a' \<Longrightarrow> a_changes a \<le> a_changes a'"
  by (induction rule: move.induct) simp_all

lemma moves_changes: "moves l a a' \<Longrightarrow> a_changes a \<le> a_changes a'"
  by (induction rule: rtranclp_induct) (auto dest: move_changes)

lemma moves_inv:
  assumes "moves False a a'" and "participant_inv a" and "a_changes a' < 2 ^ 64"
  shows "participant_inv a' \<and> vv_le (a_vector a) (a_vector a')"
  using assms
proof (induction rule: rtranclp_induct)
  case base
  then show ?case by simp
next
  case (step b c)
  have "a_changes b < 2 ^ 64"
    using move_changes [OF step(2)] step.prems(2) by simp
  then show ?case
    using step.IH step.prems(1) move_inv [OF step(2)] vv_le_trans by blast
qed

section \<open>The core refines the participant\<close>

definition pending_jobs :: "('n, 'b, 'd, 'i) sync_core \<Rightarrow> ('n, 'i) sync_job set" where
  "pending_jobs c =
     set (m_runningJobs c) \<union>
     (case m_syncWorkerPool c of None \<Rightarrow> {} | Some p \<Rightarrow> set (wp_queue p))"

definition refines :: "('n, 'b, 'd, 'i) sync_core \<Rightarrow> 'n participant \<Rightarrow> bool" where
  "refines c a \<longleftrightarrow>
     a_vector a = m_vv c \<and> word_of_nat (a_changes a) = m_stateGeneration c \<and>
     a_recorded a = m_recordedVv c \<and>
     (\<forall>j \<in> pending_jobs c. \<exists>k. (sj_localVector j, k) \<in> a_snapshots a \<and>
        word_of_nat k = sj_stateGeneration j)"

definition simulated ::
    "bool \<Rightarrow> nat \<Rightarrow> ('n :: linorder, 'b, 'd, 'i) sync_core \<Rightarrow> ('n, 'b, 'd, 'i) sync_core \<Rightarrow> bool" where
  "simulated l n c c' \<longleftrightarrow>
     (\<forall>a. refines c a \<longrightarrow> participant_wf a \<longrightarrow>
        (\<exists>a'. moves l a a' \<and> refines c' a' \<and> a_changes a' \<le> a_changes a + n))"

lemma simulatedI:
  assumes "\<And>a. refines c a \<Longrightarrow> participant_wf a \<Longrightarrow>
    \<exists>a'. moves l a a' \<and> refines c' a' \<and> a_changes a' \<le> a_changes a + n"
  shows "simulated l n c c'"
  using assms by (simp add: simulated_def)

lemma simulatedD:
  assumes "simulated l n c c'" and "refines c a" and "participant_wf a"
  obtains a' where "moves l a a'" and "refines c' a'" and "a_changes a' \<le> a_changes a + n"
  using assms by (auto simp: simulated_def)

lemma simulated_trans:
  assumes "simulated l n c c'" and "simulated l m c' c''"
  shows "simulated l (n + m) c c''"
proof (rule simulatedI)
  fix a
  assume a: "refines c a" "participant_wf a"
  obtain a1 where a1: "moves l a a1" "refines c' a1" "a_changes a1 \<le> a_changes a + n"
    using simulatedD [OF assms(1) a] .
  obtain a2 where a2: "moves l a1 a2" "refines c'' a2" "a_changes a2 \<le> a_changes a1 + m"
    using simulatedD [OF assms(2) a1(2) moves_wf [OF a1(1) a(2)]] .
  have "moves l a a2"
    using a1(1) a2(1) by (rule rtranclp_trans)
  moreover have "a_changes a2 \<le> a_changes a + (n + m)"
    using a1(3) a2(3) by simp
  ultimately show "\<exists>a'. moves l a a' \<and> refines c'' a' \<and> a_changes a' \<le> a_changes a + (n + m)"
    using a2(2) by blast
qed

lemma simulated_before: "simulated l 0 c c' \<Longrightarrow> simulated l n c' c'' \<Longrightarrow> simulated l n c c''"
  using simulated_trans [of l 0 c c' n c''] by simp

lemma simulated_after: "simulated l n c c' \<Longrightarrow> simulated l 0 c' c'' \<Longrightarrow> simulated l n c c''"
  using simulated_trans [of l n c c' 0 c''] by simp

text \<open>What an operation must leave alone to be invisible to the participant.\<close>

definition quiet :: "('n, 'b, 'd, 'i) sync_core \<Rightarrow> ('n, 'b, 'd, 'i) sync_core \<Rightarrow> bool" where
  "quiet c c' \<longleftrightarrow>
     m_vv c' = m_vv c \<and> m_stateGeneration c' = m_stateGeneration c \<and>
     m_recordedVv c' = m_recordedVv c \<and> pending_jobs c' \<subseteq> pending_jobs c"

lemma one_move:
  "move l a a' \<Longrightarrow> refines c a' \<Longrightarrow> a_changes a' \<le> a_changes a + n \<Longrightarrow>
    \<exists>a'. moves l a a' \<and> refines c a' \<and> a_changes a' \<le> a_changes a + n"
  by blast

lemma quiet_refines: "quiet c c' \<Longrightarrow> refines c a \<Longrightarrow> refines c' a"
  by (auto simp: quiet_def refines_def)

lemma quiet_simulated: "quiet c c' \<Longrightarrow> simulated l n c c'"
  unfolding simulated_def using quiet_refines le_add1 rtranclp.rtrancl_refl by metis

lemma quiet_refl [simp, intro]: "quiet c c"
  by (simp add: quiet_def)

lemma quiet_trans: "quiet c c' \<Longrightarrow> quiet c' c'' \<Longrightarrow> quiet c c''"
  unfolding quiet_def by auto

lemma simulated_refl [simp, intro]: "simulated l steps c c"
  by (rule quiet_simulated) simp

text \<open>The state is left alone by the bookkeeping and by sending.\<close>

named_theorems quiet_intros \<open>operations the participant does not see\<close>

lemma quiet_emit [quiet_intros]: "quiet c (emit x c)"
  by (simp add: quiet_def emit_def pending_jobs_def)

lemma quiet_stat [quiet_intros]: "quiet c (stat f c)"
  by (simp add: quiet_def stat_def pending_jobs_def)

lemma quiet_status [quiet_intros]: "quiet c (set_status v c)"
  by (simp add: quiet_def set_status_def pending_jobs_def)

lemma quiet_sendSerial [quiet_intros]: "quiet c (fst (sendSyncInterestSerial E c))"
  unfolding sendSyncInterestSerial_def
  by (auto split: sum.splits intro: quiet_trans [OF quiet_emit quiet_stat])

lemma quiet_production_pool [quiet_intros]: "quiet c (c\<lparr>m_syncProductionWorkerPool := p\<rparr>)"
  by (simp add: quiet_def pending_jobs_def)

lemma quiet_send [quiet_intros]: "quiet c (fst (sendSyncInterest E c))"
proof (cases "m_syncProductionWorkerPool c")
  case None
  then show ?thesis
    by (simp add: sendSyncInterest_def quiet_sendSerial)
next
  case (Some pool)
  have q2: "quiet c (stat f (stat g (c\<lparr>m_syncProductionWorkerPool := p\<rparr>)))" for f g p
    by (rule quiet_trans [OF quiet_production_pool quiet_trans [OF quiet_stat quiet_stat]])
  have q1: "quiet c (fst (sendSyncInterestSerial E (stat f (stat g (c\<lparr>m_syncProductionWorkerPool := p\<rparr>)))))"
    for f g p
    by (rule quiet_trans [OF q2 quiet_sendSerial])
  let ?blocks = "if m_parallelSyncProductionExtraBlock c then Inr [] else extra_blocks E c (m_vv c)"
  show ?thesis
  proof (cases "m_initialized c \<and> m_parallelSyncProduction c")
    case False
    then show ?thesis
      by (auto simp: sendSyncInterest_def Some quiet_sendSerial)
  next
    case True
    show ?thesis
    proof (cases ?blocks)
      case (Inl e)
      then show ?thesis
        using True by (simp add: sendSyncInterest_def Some)
    next
      case (Inr bs)
      obtain queued d p where post: "pool_post \<lparr>pj_localVector = m_vv c, pj_extraBlocks = bs,
          pj_stateGeneration = m_stateGeneration c, pj_alive = m_syncProductionAlive c\<rparr> pool = (queued, d, p)"
        by (metis prod_cases3)
      show ?thesis
        using True q1 q2 by (cases queued) (simp_all add: sendSyncInterest_def Some Inr post)
    qed
  qed
qed

lemma quiet_recv_each: "quiet c (recv_each E bs v c)"
proof (induction E bs v c rule: recv_each.induct)
  case (1 E v c)
  then show ?case by simp
next
  case (2 E b bs v c)
  then show ?case
    using quiet_trans [OF quiet_emit] by (auto simp: Let_def quiet_emit)
qed

lemma quiet_recv_extensions [quiet_intros]: "quiet c (recv_extensions E es v c)"
  by (simp add: recv_extensions_def quiet_emit quiet_recv_each split: extra_callback.split)

lemma quiet_report [quiet_intros]: "quiet c (report_missing f ms c)"
  by (simp add: report_missing_def quiet_emit)

text \<open>The operations the participant sees.\<close>

lemma refinesI:
  assumes "a_vector a = m_vv c" and "word_of_nat (a_changes a) = m_stateGeneration c"
    and "a_recorded a = m_recordedVv c"
    and "\<And>j. j \<in> pending_jobs c \<Longrightarrow>
      \<exists>k. (sj_localVector j, k) \<in> a_snapshots a \<and> word_of_nat k = sj_stateGeneration j"
  shows "refines c a"
  using assms by (simp add: refines_def)

lemma word_of_bump: "(word_of_nat (bump newer k) :: u64) = (if newer then word_of_nat k + 1 else word_of_nat k)"
  by (simp add: bump_def)

lemma mergeStateVector_eq:
  assumes "vv_ok r"
  shows "mergeStateVector t r c =
    (computeMergeStateVector t (m_vv c) r,
     c\<lparr>m_vv := vv_join t (m_vv c) r,
       m_stateGeneration := (if \<not> vv_le r (m_vv c) then m_stateGeneration c + 1
                             else m_stateGeneration c)\<rparr>)"
  unfolding mergeStateVector_def computeMerge_eq [OF assms] other_new_iff [OF assms] by simp

lemma simulated_merge:
  assumes "vv_ok r"
  shows "simulated l (Suc steps) c (snd (mergeStateVector t r c))"
proof (rule simulatedI)
  fix a
  assume "refines c a"
  let ?a = "a\<lparr>a_vector := vv_join t (a_vector a) r,
      a_changes := bump (\<not> vv_le r (a_vector a)) (a_changes a)\<rparr>"
  have "refines (snd (mergeStateVector t r c)) ?a"
    using \<open>refines c a\<close> unfolding mergeStateVector_eq [OF assms]
    by (auto simp: refines_def word_of_bump pending_jobs_def)
  moreover have "a_changes ?a \<le> a_changes a + Suc steps"
    by (simp add: bump_def)
  ultimately show "\<exists>a'. moves l a a' \<and> refines (snd (mergeStateVector t r c)) a' \<and>
      a_changes a' \<le> a_changes a + Suc steps"
    using move.absorb [OF assms, of l a t] by blast
qed

lemma simulated_record:
  assumes "vv_ok r" and "vv_le r (m_vv c)"
  shows "simulated l steps c (fst (snd (recordVector t r c)))"
proof (cases "m_recordedVv c")
  case None
  then show ?thesis by (simp add: recordVector_def)
next
  case (Some p)
  have "\<exists>a'. moves l a a' \<and> refines (fst (snd (recordVector t r c))) a' \<and>
      a_changes a' \<le> a_changes a + steps" if "refines c a" for a
  proof -
    have "move l a (a\<lparr>a_recorded := Some (vv_join t p r)\<rparr>)"
      using that assms Some by (intro move.record_more) (simp_all add: refines_def)
    moreover have "refines (fst (snd (recordVector t r c))) (a\<lparr>a_recorded := Some (vv_join t p r)\<rparr>)"
      using that Some by (simp add: recordVector_def record_merge_eq refines_def pending_jobs_def)
    ultimately show ?thesis by (rule one_move) simp
  qed
  then show ?thesis by (simp add: simulated_def)
qed

lemma simulated_suppress:
  assumes "vv_ok r" and "vv_le r (m_vv c)"
  shows "simulated l steps c (enterSuppressionState r c)"
proof (cases "m_recordedVv c")
  case None
  have "\<exists>a'. moves l a a' \<and> refines (enterSuppressionState r c) a' \<and>
      a_changes a' \<le> a_changes a + steps" if "refines c a" for a
  proof -
    have "move l a (a\<lparr>a_recorded := Some r\<rparr>)"
      using that assms None by (intro move.suppress) (simp_all add: refines_def)
    moreover have "refines (enterSuppressionState r c) (a\<lparr>a_recorded := Some r\<rparr>)"
      using that None by (simp add: enterSuppressionState_def refines_def pending_jobs_def)
    ultimately show ?thesis by (rule one_move) simp
  qed
  then show ?thesis by (simp add: simulated_def)
next
  case (Some p)
  then show ?thesis by (simp add: enterSuppressionState_def)
qed

lemma simulated_steady: "simulated l steps c (c\<lparr>m_recordedVv := None\<rparr>)"
proof -
  have "\<exists>a'. moves l a a' \<and> refines (c\<lparr>m_recordedVv := None\<rparr>) a' \<and>
      a_changes a' \<le> a_changes a + steps" if "refines c a" for a
  proof -
    have "refines (c\<lparr>m_recordedVv := None\<rparr>) (a\<lparr>a_recorded := None\<rparr>)"
      using that by (simp add: refines_def pending_jobs_def)
    with move.steady show ?thesis by (rule one_move) simp
  qed
  then show ?thesis by (simp add: simulated_def)
qed

lemma simulated_and_then:
  assumes "simulated l steps c (fst r)"
    and "\<And>c'. snd r = None \<Longrightarrow> c' = fst r \<Longrightarrow> simulated l 0 c' (fst (f c'))"
  shows "simulated l steps c (fst (and_then r f))"
proof (cases r)
  case (Pair c' e)
  then show ?thesis
    using assms simulated_after [of l steps c c'] by (cases e) auto
qed

lemma quiet_timer [quiet_intros]: "quiet c (c\<lparr>m_nextSyncInterest := x, m_retxEvent := y\<rparr>)"
  by (simp add: quiet_def pending_jobs_def)


text \<open>A core that refines a well-formed participant has well-formed vectors.\<close>

definition core_wf :: "('n :: linorder, 'b, 'd, 'i) sync_core \<Rightarrow> bool" where
  "core_wf c \<longleftrightarrow> vv_ok (m_vv c) \<and> (\<forall>r. m_recordedVv c = Some r \<longrightarrow> vv_ok r)"

lemma simulated_wf: "(core_wf c \<Longrightarrow> simulated l steps c c') \<Longrightarrow> simulated l steps c c'"
proof -
  assume a: "core_wf c \<Longrightarrow> simulated l steps c c'"
  have "core_wf c" if "refines c a" "participant_wf a" for a
    using that by (auto simp: core_wf_def refines_def participant_wf_def)
  then show "simulated l steps c c'"
    using a unfolding simulated_def by blast
qed

lemma retx_quiet: "quiet c (fst (retxSyncInterest E False delay c))"
  by (simp add: retxSyncInterest_def Let_def quiet_timer)

lemma simulated_retx_send: "simulated l (Suc steps) c (fst (retxSyncInterest E True delay c))"
proof (rule simulated_wf)
  assume wf: "core_wf c"
  let ?t = "clk_point (ce_clk E)"
  have "simulated l (Suc steps) c (fst (case m_recordedVv c of
      None \<Rightarrow> sendSyncInterest E c
    | Some recorded \<Rightarrow>
       (case mergeStateVector ?t recorded c of
          (Inl e, c) \<Rightarrow> (c, Some e)
        | (Inr result, c) \<Rightarrow>
            if mc_myVectorNew result then sendSyncInterest E c else (c, None))))"
  proof (cases "m_recordedVv c")
    case None
    then show ?thesis by (simp add: quiet_simulated [OF quiet_send])
  next
    case (Some r)
    then have r: "vv_ok r" using wf by (simp add: core_wf_def)
    obtain m c' where m: "mergeStateVector ?t r c = (m, c')" by (cases "mergeStateVector ?t r c")
    have s: "simulated l (Suc steps) c c'"
      using simulated_merge [OF r, of l steps c ?t] by (simp add: m)
    then show ?thesis
      using simulated_after [OF s quiet_simulated [OF quiet_send [of c' E]]]
      by (simp add: Some m split: sum.split)
  qed
  then show "simulated l (Suc steps) c (fst (retxSyncInterest E True delay c))"
    unfolding retxSyncInterest_def
    by (auto intro!: simulated_and_then simulated_steady quiet_simulated [OF quiet_timer] simp: Let_def)
qed

lemma simulated_react:
  assumes "vv_ok r" and "vv_le r (m_vv c)"
  shows "simulated l steps c (fst (react E new r c))"
proof -
  have s: "simulated l steps c (enterSuppressionState r c)"
    using assms by (rule simulated_suppress)
  have t: "simulated l steps c (fst (retxSyncInterest E False d (enterSuppressionState r c)))" for d
    by (rule simulated_after [OF s quiet_simulated [OF retx_quiet]])
  show ?thesis
    using s t quiet_simulated [OF retx_quiet [of c E 0]] by (simp add: react_def Let_def split: option.split)
qed

text \<open>The common tail of both handlers, after the merge.\<close>

lemma simulated_conclude:
  assumes r: "vv_ok r" "vv_le r (m_vv c)"
  shows "simulated l steps c (fst (conclude_sync E new r f g c))"
proof -
  let ?t = "clk_point (ce_clk E)"
  obtain rec c' e where rec: "recordVector ?t r c = (rec, c', e)" by (metis prod_cases3)
  have s: "simulated l steps c c'"
    using simulated_record [OF r, of l steps ?t] by (simp add: rec)
  have le: "vv_le r (m_vv c')"
    using r(2) rec by (auto simp: recordVector_def split: option.splits sum.splits)
  show ?thesis
  proof (cases rec)
    case True
    then show ?thesis
      using s by (auto simp: conclude_sync_def rec intro!: simulated_and_then quiet_simulated [OF quiet_stat])
  next
    case False
    have "simulated l steps c (fst (and_then (and_then (c', e) (react E new r)) (\<lambda>c. (stat g c, None))))"
      by (intro simulated_and_then)
        (auto simp: s intro: simulated_react [OF r(1)] le quiet_simulated [OF quiet_stat])
    then show ?thesis
      using False by (simp add: conclude_sync_def rec)
  qed
qed

lemma decode_vector_ok:
  "decode N cmp clk i p version semantic = Inr e \<Longrightarrow> vv_ok (env_stateVector e)"
  using decode_ok(2) by (fastforce simp: envelope_ok_def)

text \<open>The merge of a well-formed vector, as the handlers see it.\<close>

definition merge_report ::
    "time_point \<Rightarrow> 'n :: linorder version_vector \<Rightarrow> 'n version_vector \<Rightarrow> 'n merge_computation" where
  "merge_report t l r =
     \<lparr>mc_myVectorNew = list_ex (\<lambda>(n, b, s). vv_get n b r < s) (vv_all (vv_join t l r)),
      mc_otherVectorNew = list_ex (is_newer l) (vv_all r),
      mc_missingData = map (missing_of l) (filter (is_newer l) (vv_all r)),
      mc_mergedVector = vv_join t l r\<rparr>"

definition after_merge ::
    "time_point \<Rightarrow> 'n :: linorder version_vector \<Rightarrow> ('n, 'b, 'd, 'i) sync_core
      \<Rightarrow> ('n, 'b, 'd, 'i) sync_core" where
  "after_merge t r c =
     c\<lparr>m_vv := vv_join t (m_vv c) r,
       m_stateGeneration := (if \<not> vv_le r (m_vv c) then m_stateGeneration c + 1
                             else m_stateGeneration c)\<rparr>"

lemma merge_report_eq:
  "vv_ok r \<Longrightarrow> computeMergeStateVector t l r = Inr (merge_report t l r)"
  by (simp add: computeMerge_eq merge_report_def)

lemma mergeStateVector_report:
  "vv_ok r \<Longrightarrow> mergeStateVector t r c = (Inr (merge_report t (m_vv c) r), after_merge t r c)"
  by (simp add: mergeStateVector_eq merge_report_eq after_merge_def)

lemma simulated_after_merge: "vv_ok r \<Longrightarrow> simulated l (Suc steps) c (after_merge t r c)"
  using simulated_merge [of r l steps c t] by (simp add: mergeStateVector_report)

lemma serial_eq:
  assumes "decode (ce_ndn E) (ce_compression E) (ce_clk E) i (m_syncPrefix c)
    (ro_version (m_protocolOptions c)) True = Inr e"
  shows "\<exists>g. onSyncInterestValidatedSerial E i f count c =
    conclude_sync E (mc_myVectorNew (merge_report (clk_point (ce_clk E)) (m_vv c) (env_stateVector e)))
      (env_stateVector e) id g
      (report_missing (value_or f 0)
        (mc_missingData (merge_report (clk_point (ce_clk E)) (m_vv c) (env_stateVector e)))
        (recv_extensions E (env_extensions e) (env_stateVector e)
          (after_merge (clk_point (ce_clk E)) (env_stateVector e) c)))"
  unfolding onSyncInterestValidatedSerial_def assms sum.case Let_def
    mergeStateVector_report [OF decode_vector_ok [OF assms]] prod.case by (rule exI) (rule refl)

text \<open>From the state after the merge, the rest of both handlers.\<close>

lemma simulated_rest:
  assumes r: "vv_ok r" and le: "vv_le r (m_vv c)"
  shows "simulated l steps c (fst (conclude_sync E new r f g (report_missing face ms (recv_extensions E es r c))))"
proof -
  have q: "quiet c (report_missing face ms (recv_extensions E es r c))"
    by (rule quiet_trans [OF quiet_recv_extensions quiet_report])
  then have "vv_le r (m_vv (report_missing face ms (recv_extensions E es r c)))"
    using le by (simp add: quiet_def)
  then show ?thesis
    using simulated_before [OF quiet_simulated [OF q] simulated_conclude [OF r]] by blast
qed

lemma vv_le_after_merge: "vv_ok r \<Longrightarrow> vv_le r (m_vv (after_merge t r c))"
  by (simp add: after_merge_def vv_le_join)

lemma simulated_serial: "simulated l (Suc steps) c (fst (onSyncInterestValidatedSerial E i f count c))"
proof (cases "decode (ce_ndn E) (ce_compression E) (ce_clk E) i (m_syncPrefix c)
    (ro_version (m_protocolOptions c)) True")
  case (Inl e)
  then show ?thesis
    by (simp add: onSyncInterestValidatedSerial_def quiet_simulated [OF quiet_stat])
next
  case (Inr e)
  note r = decode_vector_ok [OF Inr]
  obtain g where "onSyncInterestValidatedSerial E i f count c =
    conclude_sync E (mc_myVectorNew (merge_report (clk_point (ce_clk E)) (m_vv c) (env_stateVector e)))
      (env_stateVector e) id g
      (report_missing (value_or f 0)
        (mc_missingData (merge_report (clk_point (ce_clk E)) (m_vv c) (env_stateVector e)))
        (recv_extensions E (env_extensions e) (env_stateVector e)
          (after_merge (clk_point (ce_clk E)) (env_stateVector e) c)))"
    using serial_eq [OF Inr] by blast
  then show ?thesis
    using simulated_after [OF simulated_after_merge [OF r] simulated_rest [OF r vv_le_after_merge [OF r]]]
    by simp
qed

section \<open>Jobs\<close>

text \<open>A job that is posted is a snapshot of the vector and the change counter.\<close>

lemma snapshot_refines:
  assumes "refines c a" and "m_vv c' = m_vv c" and "m_stateGeneration c' = m_stateGeneration c"
    and "m_recordedVv c' = m_recordedVv c"
    and "\<And>j. j \<in> pending_jobs c' \<Longrightarrow> j \<in> pending_jobs c \<or>
      sj_localVector j = m_vv c \<and> sj_stateGeneration j = m_stateGeneration c"
  shows "refines c' (a\<lparr>a_snapshots := insert (a_vector a, a_changes a) (a_snapshots a)\<rparr>)"
proof (rule refinesI)
  fix j
  assume "j \<in> pending_jobs c'"
  then consider "j \<in> pending_jobs c" |
      "sj_localVector j = m_vv c \<and> sj_stateGeneration j = m_stateGeneration c"
    using assms(5) by blast
  then show "\<exists>k. (sj_localVector j, k) \<in>
      a_snapshots (a\<lparr>a_snapshots := insert (a_vector a, a_changes a) (a_snapshots a)\<rparr>) \<and>
      word_of_nat k = sj_stateGeneration j"
    using assms(1) by cases (auto simp: refines_def)
qed (use assms in \<open>simp_all add: refines_def\<close>)

lemma simulated_post:
  assumes "m_syncWorkerPool c = Some pool" and "pool_post job pool = (queued, d, pool')"
    and "sj_localVector job = m_vv c" and "sj_stateGeneration job = m_stateGeneration c"
  shows "simulated l steps c (c\<lparr>m_syncWorkerPool := Some pool'\<rparr>)"
proof -
  have jobs: "j \<in> pending_jobs c \<or> sj_localVector j = m_vv c \<and> sj_stateGeneration j = m_stateGeneration c"
    if "j \<in> pending_jobs (c\<lparr>m_syncWorkerPool := Some pool'\<rparr>)" for j
    using that assms by (auto simp: pending_jobs_def pool_post_def Let_def split: if_splits)
  have "\<exists>a'. moves l a a' \<and> refines (c\<lparr>m_syncWorkerPool := Some pool'\<rparr>) a' \<and>
      a_changes a' \<le> a_changes a + steps" if "refines c a" for a
  proof -
    have "refines (c\<lparr>m_syncWorkerPool := Some pool'\<rparr>)
        (a\<lparr>a_snapshots := insert (a_vector a, a_changes a) (a_snapshots a)\<rparr>)"
      by (rule snapshot_refines [OF that]) (use jobs in auto)
    then show ?thesis
      by (rule one_move [OF move.snapshot]) simp
  qed
  then show ?thesis by (simp add: simulated_def)
qed

lemma simulated_validated: "simulated l (Suc steps) c (fst (onSyncInterestValidated E i f c))"
proof (cases "m_syncWorkerPool c")
  case None
  then show ?thesis
    by (simp add: onSyncInterestValidated_def simulated_serial)
next
  case (Some pool)
  let ?job = "\<lparr>sj_interest = i, sj_localVector = m_vv c,
      sj_stateGeneration = m_stateGeneration c, sj_incomingFace = value_or f 0,
      sj_alive = m_syncProcessingAlive c\<rparr>"
  obtain queued d pool' where post: "pool_post ?job pool = (queued, d, pool')"
    by (metis prod_cases3)
  have s: "simulated l 0 c (c\<lparr>m_syncWorkerPool := Some pool'\<rparr>)"
    by (rule simulated_post [OF Some post]) simp_all
  have q: "simulated l 0 c (stat g (stat h (c\<lparr>m_syncWorkerPool := Some pool'\<rparr>)))" for g h
    by (rule simulated_after [OF s quiet_simulated [OF quiet_trans [OF quiet_stat quiet_stat]]])
  have q': "simulated l (Suc steps) c (stat g (stat h (c\<lparr>m_syncWorkerPool := Some pool'\<rparr>)))" for g h
    by (rule simulated_after [OF simulated_refl q])
  show ?thesis
    using q' simulated_before [OF q simulated_serial [of l steps _ E i f True]]
      simulated_serial [of l steps c E i f True]
    by (cases queued) (simp_all add: onSyncInterestValidated_def Some post)
qed

lemma simulated_received: "simulated l (Suc steps) c (fst (onSyncInterest E i f c))"
proof -
  have v: "simulated l (Suc steps) c (fst (onSyncInterestValidated E i f (set_status s c)))" for s
    by (rule simulated_before [OF quiet_simulated [OF quiet_status] simulated_validated])
  have q: "simulated l (Suc steps) c (stat g (set_status s c))" "simulated l (Suc steps) c (set_status s c)"
    "simulated l (Suc steps) c (emit x c)" for g s x
    by (rule quiet_simulated, rule quiet_trans [OF quiet_status quiet_stat],
        rule quiet_simulated [OF quiet_status], rule quiet_simulated [OF quiet_emit])
  show ?thesis
    using v q simulated_validated [of l steps c E i f]
    by (simp add: onSyncInterest_def split: sum.split option.split signer_type.split)
qed

lemma simulated_data_validated: "simulated l (Suc steps) c (fst (data_validated E i f c))"
  using simulated_before [OF quiet_simulated [OF quiet_status] simulated_validated [of l steps _ E i f]]
  by (simp add: data_validated_def)

lemma simulated_data_rejected: "simulated l steps c (data_rejected c)"
  by (auto simp: data_rejected_def intro: quiet_simulated quiet_trans [OF quiet_status quiet_stat])

lemma quiet_take_job: "quiet c (take_sync_job c)"
  by (auto simp: take_sync_job_def pool_take_def quiet_def pending_jobs_def
      split: option.splits list.splits)

lemma quiet_take_production: "quiet c (take_production_job c)"
  by (auto simp: take_production_job_def quiet_def pending_jobs_def split: option.splits)

text \<open>
  A result that is applied is the join of the snapshot with the received vector; a stale one is
  the serial handler; the snapshot of a delivered job stays known to the participant.
\<close>

lemma process_sync_job_ok:
  assumes "sr_ok (process_sync_job W p version job)"
  obtains e where "decode (ce_ndn W) (ce_compression W) (ce_clk W) (sj_interest job) p version True = Inr e"
    and "process_sync_job W p version job =
      \<lparr>sr_job = job, sr_ok = True, sr_decodeFailed = False, sr_remoteVector = env_stateVector e,
       sr_extensions = env_extensions e,
       sr_merge = merge_report (clk_point (ce_clk W)) (sj_localVector job) (env_stateVector e),
       sr_myVectorNew = mc_myVectorNew
         (merge_report (clk_point (ce_clk W)) (sj_localVector job) (env_stateVector e)),
       sr_missingData = mc_missingData
         (merge_report (clk_point (ce_clk W)) (sj_localVector job) (env_stateVector e))\<rparr>"
proof (cases "decode (ce_ndn W) (ce_compression W) (ce_clk W) (sj_interest job) p version True")
  case (Inl e)
  then show thesis
    using assms by (simp add: process_sync_job_def)
next
  case (Inr e)
  show thesis
    by (rule that [OF Inr])
      (simp add: process_sync_job_def Inr merge_report_eq [OF decode_vector_ok [OF Inr]])
qed

lemma sr_job_process [simp]: "sr_job (process_sync_job W p version job) = job"
  by (simp add: process_sync_job_def Let_def split: sum.split prod.split)

lemma simulated_apply:
  assumes r: "vv_ok r" and gen: "sj_stateGeneration job = m_stateGeneration c"
    and refines: "refines c a" and snap: "\<exists>k. (sj_localVector job, k) \<in> a_snapshots a \<and>
      word_of_nat k = sj_stateGeneration job"
  shows "\<exists>a'. moves l a a' \<and> refines (c\<lparr>m_vv := vv_join t (sj_localVector job) r,
      m_stateGeneration := (if \<not> vv_le r (sj_localVector job) then m_stateGeneration c + 1
        else m_stateGeneration c)\<rparr>) a' \<and> a_changes a' \<le> a_changes a + 1"
proof -
  obtain k where k: "(sj_localVector job, k) \<in> a_snapshots a"
    "(word_of_nat k :: u64) = word_of_nat (a_changes a)"
    using snap gen refines by (auto simp: refines_def)
  have "refines (c\<lparr>m_vv := vv_join t (sj_localVector job) r,
      m_stateGeneration := (if \<not> vv_le r (sj_localVector job) then m_stateGeneration c + 1
        else m_stateGeneration c)\<rparr>)
    (a\<lparr>a_vector := vv_join t (sj_localVector job) r,
      a_changes := bump (\<not> vv_le r (sj_localVector job)) (a_changes a)\<rparr>)"
    using refines by (auto simp: refines_def word_of_bump pending_jobs_def)
  then show ?thesis
    by (rule one_move [OF move.apply_snapshot [OF r k]]) (simp add: bump_def)
qed

lemma simulated_result:
  fixes c :: "('n :: linorder, 'b, 'd, 'i) sync_core"
  assumes refines: "refines c a" and wf: "participant_wf a"
    and snap: "\<exists>k. (sj_localVector job, k) \<in> a_snapshots a \<and> word_of_nat k = sj_stateGeneration job"
  shows "\<exists>a'. moves l a a' \<and>
    refines (fst (processSyncInterestResult E (process_sync_job W p version job) c)) a' \<and>
    a_changes a' \<le> a_changes a + Suc steps"
proof -
  let ?res = "process_sync_job W p version job"
  have sim: "\<exists>a'. moves l a a' \<and> refines c' a' \<and> a_changes a' \<le> a_changes a + Suc steps" if "simulated l (Suc steps) c c'" for c'
    using that refines wf by (simp add: simulated_def)
  consider "\<not> sr_ok ?res \<or> sr_decodeFailed ?res"
    | "sr_ok ?res" "\<not> sr_decodeFailed ?res" "m_stateGeneration c \<noteq> sj_stateGeneration job"
    | "sr_ok ?res" "\<not> sr_decodeFailed ?res" "sj_stateGeneration job = m_stateGeneration c"
    by argo
  then show ?thesis
  proof cases
    case 1
    then show ?thesis
      using sim [OF quiet_simulated [OF quiet_stat]] by (simp add: processSyncInterestResult_def)
  next
    case 2
    then show ?thesis
      using sim [OF simulated_before [OF quiet_simulated [OF quiet_stat] simulated_serial]]
      by (simp add: processSyncInterestResult_def)
  next
    case 3
    obtain e where e: "decode (ce_ndn W) (ce_compression W) (ce_clk W) (sj_interest job) p version True = Inr e"
      and res: "?res = \<lparr>sr_job = job, sr_ok = True, sr_decodeFailed = False,
        sr_remoteVector = env_stateVector e, sr_extensions = env_extensions e,
        sr_merge = merge_report (clk_point (ce_clk W)) (sj_localVector job) (env_stateVector e),
        sr_myVectorNew = mc_myVectorNew
          (merge_report (clk_point (ce_clk W)) (sj_localVector job) (env_stateVector e)),
        sr_missingData = mc_missingData
          (merge_report (clk_point (ce_clk W)) (sj_localVector job) (env_stateVector e))\<rparr>"
      using process_sync_job_ok [OF 3(1)] .
    note r = decode_vector_ok [OF e]
    let ?t = "clk_point (ce_clk W)" and ?r = "env_stateVector e"
    let ?c = "c\<lparr>m_vv := vv_join ?t (sj_localVector job) ?r,
      m_stateGeneration := (if \<not> vv_le ?r (sj_localVector job) then m_stateGeneration c + 1
        else m_stateGeneration c)\<rparr>"
    obtain a1 where a1: "moves l a a1" "refines ?c a1" "a_changes a1 \<le> a_changes a + 1"
      using simulated_apply [OF r 3(3) refines snap, of l ?t] by blast
    have le: "vv_le ?r (m_vv ?c)"
      using vv_le_join(2) [OF r] by simp
    let ?m = "merge_report ?t (sj_localVector job) ?r"
    let ?c' = "fst (conclude_sync E (mc_myVectorNew ?m) ?r
        (\<lambda>s. s\<lparr>st_syncJobsCompleted := st_syncJobsCompleted s + 1\<rparr>)
        (\<lambda>s. s\<lparr>st_syncJobsCompleted := st_syncJobsCompleted s + 1,
           st_syncInterestMainThreadBlockingMs := st_syncInterestMainThreadBlockingMs s + ce_elapsed E,
           st_syncInterestParallelTotalMs := st_syncInterestParallelTotalMs s + ce_elapsed E\<rparr>)
        (report_missing (sj_incomingFace job) (mc_missingData ?m)
          (recv_extensions E (env_extensions e) ?r ?c)))"
    have "simulated l 0 ?c ?c'"
      by (rule simulated_rest [OF r le])
    then obtain a2 where a2: "moves l a1 a2" "refines ?c' a2" "a_changes a2 \<le> a_changes a1 + 0"
      using simulatedD [OF _ a1(2) moves_wf [OF a1(1) wf]] by blast
    have "moves l a a2"
      using a1(1) a2(1) by (rule rtranclp_trans)
    moreover have "a_changes a2 \<le> a_changes a + Suc steps"
      using a1(3) a2(3) by simp
    moreover have "fst (processSyncInterestResult E ?res c) = ?c'"
      unfolding processSyncInterestResult_def res
      using 3(3) by (simp add: Let_def merge_report_def other_new_iff [OF r])
    ultimately show ?thesis
      using a2(2) by metis
  qed
qed

lemma simulated_deliver: "simulated l (Suc steps) c (fst (deliver_sync_result W E job c))"
proof (rule simulatedI)
  fix a
  assume refines: "refines c a" and wf: "participant_wf a"
  let ?c = "c\<lparr>m_runningJobs := remove1 job (m_runningJobs c)\<rparr>"
  have "quiet c ?c"
    using set_remove1_subset [of job "m_runningJobs c"] by (auto simp: quiet_def pending_jobs_def)
  then have r: "refines ?c a"
    using refines by (rule quiet_refines)
  show "\<exists>a'. moves l a a' \<and> refines (fst (deliver_sync_result W E job c)) a' \<and>
      a_changes a' \<le> a_changes a + Suc steps"
  proof (cases "job \<in> set (m_runningJobs c) \<and> sj_alive job \<notin> set (m_deadTokens c)")
    case True
    then have "\<exists>k. (sj_localVector job, k) \<in> a_snapshots a \<and> word_of_nat k = sj_stateGeneration job"
      using refines by (auto simp: refines_def pending_jobs_def)
    from simulated_result [OF r wf this, of l E W _ _ steps] True show ?thesis
      by (simp add: deliver_sync_result_def)
  next
    case False
    then show ?thesis
      using r refines by (auto simp: deliver_sync_result_def)
  qed
qed

lemma quiet_production_result: "quiet c (fst (processSyncProductionResult E res c))"
proof -
  have q: "quiet c (stat f (emit x (stat g c)))" "quiet c (stat f (emit x c))" for f g x
    by (rule quiet_trans [OF quiet_stat quiet_trans [OF quiet_emit quiet_stat]],
        rule quiet_trans [OF quiet_emit quiet_stat])
  show ?thesis
    by (simp add: processSyncProductionResult_def Let_def quiet_stat q split: sum.split)
qed

lemma quiet_deliver_production: "quiet c (fst (deliver_production_result W E job c))"
proof -
  let ?c = "c\<lparr>m_runningProduction := remove1 job (m_runningProduction c)\<rparr>"
  have q: "quiet c ?c"
    by (simp add: quiet_def pending_jobs_def)
  show ?thesis
    using q quiet_trans [OF q quiet_production_result [of ?c E]]
    by (simp add: deliver_production_result_def Let_def)
qed

section \<open>Publications, timers and configuration\<close>

lemma quiet_configuration [quiet_intros]:
  "quiet c (setParallelSyncProduction b n m s x c)"
  "quiet c (setSyncInterestBatching b w c)"
  "quiet c (setMaxSuppressionTime d c)"
  "quiet c (setPeriodicSyncTime d j c)"
  "quiet c (setGetExtra cb c)"
  "quiet c (setRecvExtra cb c)"
  "quiet c (sendInitialInterest c)"
  "quiet c (schedulePublicationSync c)"
  by (simp_all add: quiet_def pending_jobs_def setParallelSyncProduction_def
      setSyncInterestBatching_def setMaxSuppressionTime_def setPeriodicSyncTime_def setGetExtra_def
      setRecvExtra_def sendInitialInterest_def schedulePublicationSync_def Let_def)

lemma quiet_setParallelSyncProcessing [quiet_intros]:
  "quiet c (setParallelSyncProcessing b n m c)"
  by (auto simp: quiet_def pending_jobs_def setParallelSyncProcessing_def drain_def
      pool_shutdown_def pool_new_def split: option.splits)

lemma quiet_destroy [quiet_intros]: "quiet c (core_destroy c)"
proof -
  have "quiet c (c\<lparr>m_gateOpen := False\<rparr>)"
    by (simp add: quiet_def pending_jobs_def)
  then show ?thesis
    unfolding core_destroy_def
    by (rule quiet_trans [OF _ quiet_trans [OF quiet_configuration(1) quiet_setParallelSyncProcessing]])
qed

lemma simulated_local_sync: "simulated l steps c (fst (sendLocalPublicationSyncInterest E c))"
proof -
  let ?c = "c\<lparr>m_recordedVv := None\<rparr>"
  have "simulated l steps ?c (fst (and_then (sendSyncInterest E ?c) (\<lambda>c.
      let delay = word_of_int (ce_retxDraw E (m_retxDist c)) :: u32
      in (c\<lparr>m_nextSyncInterest := ce_schedNow E + uint (1000 * delay),
            m_retxEvent := Some delay\<rparr>, None))))"
    by (intro simulated_and_then quiet_simulated [OF quiet_send])
      (auto simp: Let_def intro: quiet_simulated [OF quiet_timer])
  then show ?thesis
    unfolding sendLocalPublicationSyncInterest_def caught_simps
    by (rule simulated_before [OF simulated_steady])
qed

lemma simulated_fire_publication: "simulated l steps c (fst (fire_publication_sync E c))"
proof -
  have "quiet c (c\<lparr>m_publicationSyncEvent := None, m_publicationSyncPending := False\<rparr>)"
    by (simp add: quiet_def pending_jobs_def)
  then show ?thesis
    unfolding fire_publication_sync_def
    using simulated_before [OF quiet_simulated simulated_local_sync] by blast
qed

lemma simulated_fire_retx: "simulated l (Suc steps) c (fst (fire_retx E c))"
proof -
  have "quiet c (c\<lparr>m_retxEvent := None\<rparr>)"
    by (simp add: quiet_def pending_jobs_def)
  then show ?thesis
    unfolding fire_retx_def using simulated_before [OF quiet_simulated simulated_retx_send] by blast
qed

lemma simulated_fire_initial: "simulated l (Suc steps) c (fst (fire_initial E c))"
proof -
  have "quiet c (c\<lparr>m_initialEvents := m_initialEvents c - 1, m_initialized := True\<rparr>)"
    by (simp add: quiet_def pending_jobs_def)
  then show ?thesis
    unfolding fire_initial_def using simulated_before [OF quiet_simulated simulated_retx_send] by blast
qed

lemma simulated_put:
  assumes "s \<noteq> 0" and "l \<or> vv_get n b (m_vv c) \<le> s"
  shows "simulated l (Suc steps) c (c\<lparr>m_vv := vv_put t n b s (m_vv c),
    m_stateGeneration := (if s > vv_get n b (m_vv c) then m_stateGeneration c + 1
      else m_stateGeneration c)\<rparr>)"
proof (rule simulatedI)
  fix a
  assume r: "refines c a"
  let ?a = "a\<lparr>a_vector := vv_put t n b s (a_vector a),
      a_changes := bump (vv_get n b (a_vector a) < s) (a_changes a)\<rparr>"
  have "move l a ?a"
    using assms r by (intro move.publish) (simp_all add: refines_def)
  moreover have "refines (c\<lparr>m_vv := vv_put t n b s (m_vv c),
      m_stateGeneration := (if s > vv_get n b (m_vv c) then m_stateGeneration c + 1
        else m_stateGeneration c)\<rparr>) ?a"
    using r by (auto simp: refines_def word_of_bump pending_jobs_def)
  ultimately show "\<exists>a'. moves l a a' \<and> refines (c\<lparr>m_vv := vv_put t n b s (m_vv c),
      m_stateGeneration := (if s > vv_get n b (m_vv c) then m_stateGeneration c + 1
        else m_stateGeneration c)\<rparr>) a' \<and> a_changes a' \<le> a_changes a + Suc steps"
    by (rule one_move) (simp add: bump_def)
qed

lemma simulated_update:
  assumes "l \<or> vv_get (own_or E c nid) b (m_vv c) \<le> s"
  shows "simulated l (Suc steps) c (fst (updateSeqNoAt E s b nid c))"
proof (cases "s = 0")
  case True
  then show ?thesis by (simp add: updateSeqNoAt_def vv_set_eq)
next
  case False
  let ?c = "c\<lparr>m_vv := vv_put (clk_point (ce_clk E)) (own_or E c nid) b s (m_vv c),
    m_stateGeneration := (if s > vv_get (own_or E c nid) b (m_vv c) then m_stateGeneration c + 1
      else m_stateGeneration c)\<rparr>"
  have s: "simulated l (Suc steps) c ?c"
    using False assms by (rule simulated_put)
  have q: "simulated l (Suc steps) c (schedulePublicationSync ?c)"
    by (rule simulated_after [OF s quiet_simulated [OF quiet_configuration(8)]])
  have p: "simulated l (Suc steps) c (fst (sendLocalPublicationSyncInterest E ?c))"
    by (rule simulated_after [OF s simulated_local_sync])
  show ?thesis
    using False s q p unfolding updateSeqNoAt_def vv_set_eq Let_def
    by (cases "s > vv_get (own_or E c nid) b (m_vv c)"; cases "m_syncInterestBatching c") simp_all
qed

section \<open>Executions\<close>

text \<open>
  The transitions of a core: what its environment, with a fixed network library \<open>N\<close>, can make
  it do. An exception that leaves an
  operation leaves the state it had reached. \<open>lowering\<close> says whether the application may set
  a sequence number to less than it was.
\<close>

inductive core_step ::
    "('n :: linorder, 'c, 'b, 'd, 'i) ndn \<Rightarrow> bool \<Rightarrow> ('n, 'b, 'd, 'i) sync_core
      \<Rightarrow> ('n, 'b, 'd, 'i) sync_core \<Rightarrow> bool"
  for N :: "('n, 'c, 'b, 'd, 'i) ndn" and lowering :: bool
where
  receive: "ce_ndn E = N \<Longrightarrow> core_step N lowering c (fst (onSyncInterest E i f c))"
| interest_validated: "ce_ndn E = N \<Longrightarrow> core_step N lowering c (fst (onSyncInterestValidated E i f c))"
| data_validated: "ce_ndn E = N \<Longrightarrow> core_step N lowering c (fst (data_validated E i f c))"
| data_rejected: "core_step N lowering c (data_rejected c)"
| take_job: "core_step N lowering c (take_sync_job c)"
| deliver: "ce_ndn W = N \<Longrightarrow> ce_ndn E = N \<Longrightarrow> core_step N lowering c (fst (deliver_sync_result W E job c))"
| take_production: "core_step N lowering c (take_production_job c)"
| deliver_production: "ce_ndn W = N \<Longrightarrow> ce_ndn E = N \<Longrightarrow> core_step N lowering c (fst (deliver_production_result W E pjob c))"
| retx: "ce_ndn E = N \<Longrightarrow> m_retxEvent c \<noteq> None \<Longrightarrow> core_step N lowering c (fst (fire_retx E c))"
| registered: "core_step N lowering c (sendInitialInterest c)"
| initial: "ce_ndn E = N \<Longrightarrow> 0 < m_initialEvents c \<Longrightarrow> core_step N lowering c (fst (fire_initial E c))"
| publication_timer:
    "ce_ndn E = N \<Longrightarrow> m_publicationSyncEvent c \<noteq> None \<Longrightarrow> core_step N lowering c (fst (fire_publication_sync E c))"
| update: "ce_ndn E = N \<Longrightarrow> lowering \<or> vv_get (own_or E c nid) b (m_vv c) \<le> s \<Longrightarrow>
    core_step N lowering c (fst (updateSeqNoAt E s b nid c))"
| parallel: "core_step N lowering c (setParallelSyncProcessing on n m c)"
| production: "core_step N lowering c (setParallelSyncProduction on n m sw bw c)"
| batching: "core_step N lowering c (setSyncInterestBatching on w c)"
| suppression: "core_step N lowering c (setMaxSuppressionTime d c)"
| periodic: "core_step N lowering c (setPeriodicSyncTime d jitter c)"
| get_extra: "core_step N lowering c (setGetExtra cb c)"
| recv_extra: "core_step N lowering c (setRecvExtra cb c)"
| destroy: "core_step N lowering c (core_destroy c)"

lemma step_simulated: "core_step N l c c' \<Longrightarrow> simulated l (Suc steps) c c'"
proof (induction rule: core_step.induct)
  case (update E c nid b s)
  then show ?case by (intro simulated_update)
qed (simp_all add: simulated_received simulated_validated simulated_data_validated
    simulated_data_rejected simulated_deliver simulated_fire_retx simulated_fire_initial
    simulated_fire_publication quiet_simulated quiet_intros quiet_take_job quiet_take_production
    quiet_deliver_production)

abbreviation core_steps ::
    "('n :: linorder, 'c, 'b, 'd, 'i) ndn \<Rightarrow> bool \<Rightarrow> nat \<Rightarrow> ('n, 'b, 'd, 'i) sync_core
      \<Rightarrow> ('n, 'b, 'd, 'i) sync_core \<Rightarrow> bool" where
  "core_steps N l n \<equiv> (core_step N l) ^^ n"

lemma steps_simulated: "core_steps N l n c c' \<Longrightarrow> simulated l n c c'"
proof (induction n arbitrary: c')
  case 0
  then show ?case by simp
next
  case (Suc n)
  then obtain d where "core_steps N l n c d" "core_step N l d c'"
    by auto
  then show ?case
    using simulated_trans [OF Suc.IH step_simulated, of d N c' 0] by simp
qed

text \<open>The participant a new core refines.\<close>

definition participant_new :: "'n participant" where
  "participant_new =
     \<lparr>a_vector = vv_empty, a_changes = 0, a_recorded = None, a_snapshots = {}\<rparr>"

lemma participant_new_ok: "participant_wf participant_new" "participant_inv participant_new"
  by (simp_all add: participant_new_def participant_wf_def participant_inv_def)

lemma core_new_refines:
  "core_new clk p s d v nid opts = Inr c \<Longrightarrow> refines c participant_new"
  by (auto simp: core_new_def res_bind_eq_Inr refines_def participant_new_def pending_jobs_def Let_def)

lemma participant_new_changes [simp]: "a_changes participant_new = 0"
  by (simp add: participant_new_def)

lemma reachable_participant:
  assumes "core_new clk p s d v nid opts = Inr c0" and "core_steps N l n c0 c"
  obtains a where "moves l participant_new a" and "refines c a" and "participant_wf a"
    and "a_changes a \<le> n"
proof (rule simulatedD [OF steps_simulated [OF assms(2)] core_new_refines [OF assms(1)]
      participant_new_ok(1)])
  fix a
  assume "moves l participant_new a" and "refines c a"
    and "a_changes a \<le> a_changes (participant_new :: 'a participant) + n"
  then show thesis
    using that [of a] moves_wf [OF _ participant_new_ok(1), of l a] by simp
qed


end
