(* ===== verification/Core_Properties.thy ===== *)
theory Core_Properties
  imports Core_Refinement
begin

text \<open>
  Properties of \<^verbatim>\<open>SVSyncCore\<close>: invariants of all reachable states, from the refinement of the
  abstract participant; the functional behaviour of the handlers, of the retransmission timer
  and of publications; the equivalence of parallel and serial processing; the ranges of the
  timers; and the defects the model exhibits. The sample objects at the start are the inputs of
  the witnesses.
\<close>


section \<open>Sample objects\<close>

text \<open>A V3 Interest with the sample vector and an empty MappingData block.\<close>

definition sample_interest :: i_interest where
  "sample_interest =
     (sample_group @ [i_typed 54 3, (2, [])],
      Some (36, [6, 40, 7, 6, 8, 1, 71, 54, 1, 3, 20, 6, 24, 1, 0, 25, 1, 0, 21, 19,
        201, 15, 202, 13, 7, 3, 8, 1, 65, 210, 6, 212, 1, 100, 214, 1, 3, 205, 0, 23, 1, 1]))"

lemma sample_interest_encoded:
  "encode i_ndn False sample_group sample_vector [(205, [])] (sample_options V3) (Some i_sign) =
     Inr sample_interest"
  unfolding encode_def sample_parameters_V3
  by (simp add: sample_interest_def i_eval i_interest_new_def svs_simps makeSyncName_def
      sample_options_def version_number_def)

lemma sample_interest_decoded:
  "\<exists>e. decode i_ndn False sample_clock sample_interest sample_group V3 True = Inr e \<and>
     env_extensions e = [(205, [])] \<and>
     m_entries (env_stateVector e) = m_entries sample_vector"
proof -
  have "fits [36, 42, 6, 40, 7, 6, 8, 1, 71, 54, 1, 3, 20, 6, 24, 1, 0, 25, 1, 0, 21, 19,
          201, 15, 202, 13, 7, 3, 8, 1, 65, 210, 6, 212, 1, 100, 214, 1, 3, 205, 0, 23, 1, 1]"
    by (simp add: fits_def)
  from decode_encode_V3 [OF i_tlv_laws i_name_laws i_packet_laws i_signer_laws sample_vector_ok
      sample_vector_epochs _ sample_parameters_V3 this, of False False True]
  show ?thesis
    using sample_interest_encoded by (auto simp: sample_options_def)
qed

definition sample_env :: "(i_name, i_comp, i_block, i_data, i_interest) core_env" where
  "sample_env =
     \<lparr>ce_ndn = i_ndn, ce_compression = False, ce_clk = sample_clock, ce_now = 0, ce_schedNow = 0,
      ce_elapsed = 0, ce_retxDraw = fst, ce_replyDraw = snd, ce_signSha256 = i_sign,
      ce_signData = i_sign, ce_signHmac = Inr, ce_signInterest = Inr, ce_verifyHmac = (\<lambda>_. True),
      ce_getExtraBlocks = (\<lambda>_. Inr []), ce_getExtraBlock = (\<lambda>_. Inr (205, [])),
      ce_recvThrows = (\<lambda>_. False)\<rparr>"

definition sample_core :: "(i_name, i_block, i_data, i_interest) sync_core" where
  "sample_core =
     \<lparr>m_syncPrefix = sample_group, m_interestSigner = SignerNull, m_dataSigner = SignerNull,
      m_hasValidator = False, m_protocolOptions = sample_options V3, m_id = [(8, [66])],
      m_bootstrapTime = 100, m_vv = vv_empty, m_stateGeneration = 0, m_recordedVv = None,
      m_getExtra = NoCallback, m_recvExtra = NoCallback, m_maxSuppressionTime = 200,
      m_periodicSyncTime = 30000, m_periodicSyncJitter = 1 / 10, m_retxDist = (27000, 33000),
      m_intrReplyDist = (0, 200), m_retxEvent = None, m_initialEvents = 0,
      m_publicationSyncEvent = None, m_publicationSyncPending = False, m_nextSyncInterest = 0,
      m_initialized = False, m_syncInterestBatching = False, m_syncInterestBatchWindow = 5,
      m_gateOpen = True, m_lastToken = 0, m_deadTokens = [0], m_parallelSyncProcessing = False,
      m_syncProcessingAlive = 0, m_syncWorkerPool = None, m_runningJobs = [],
      m_parallelSyncProduction = False, m_parallelSyncProductionSigning = False,
      m_parallelSyncProductionExtraBlock = False, m_syncProductionAlive = 0,
      m_syncProductionWorkerPool = None, m_runningProduction = [],
      m_lastValidationStatus = Never, m_stats = no_stats, m_out = []\<rparr>"

lemma sample_core_new:
  "core_new sample_clock sample_group SignerNull SignerNull False [(8, [66])]
     \<lparr>po_version = V3, po_bootstrapTime = None, po_syncInterestLifetime = None,
      po_suppressionPeriod = None, po_periodicTimeout = None, po_periodicJitter = 1 / 10\<rparr>
   = Inr sample_core"
  by (simp add: core_new_def resolve_def resolve_timers_def value_or_def sample_core_def
      sample_options_def trunc_def sample_clock_def Let_def)

text \<open>The sample core after its first publication, and a run that leads there.\<close>

definition sample_published :: "(i_name, i_block, i_data, i_interest) sync_core" where
  "sample_published = fst (updateSeqNoAt sample_env 1 100 [(8, [66])] sample_core)"

lemma sample_run: "core_steps i_ndn l (Suc 0) sample_core sample_published"
proof -
  have "core_step i_ndn l sample_core sample_published"
    unfolding sample_published_def
    by (rule core_step.update) (simp_all add: sample_env_def sample_core_def)
  then show ?thesis by auto
qed

section \<open>Properties\<close>

lemma job_snapshot:
  assumes "refines c a" and "j \<in> pending_jobs c"
  obtains k where "(sj_localVector j, k) \<in> a_snapshots a" and "word_of_nat k = sj_stateGeneration j"
  using assms unfolding refines_def by blast

text \<open>
  C39: in every state a core can reach, whatever Interests, jobs, timers, publications and
  reconfigurations occur in whatever order, the state vector, the recorded vector and the
  vectors captured by worker jobs are well formed.
\<close>

theorem core_state_wf:
  assumes "core_new clk p si sd v nid opts = Inr c0" and "core_steps N True n c0 c"
  shows "vv_ok (m_vv c) \<and> (\<forall>r. m_recordedVv c = Some r \<longrightarrow> vv_ok r) \<and>
    (\<forall>j \<in> pending_jobs c. vv_ok (sj_localVector j))"
proof -
  obtain a where "refines c a" and wf: "participant_wf a"
    using reachable_participant [OF assms] .
  moreover have "vv_ok (sj_localVector j)" if j: "j \<in> pending_jobs c" for j
  proof -
    obtain k where "(sj_localVector j, k) \<in> a_snapshots a"
      using job_snapshot [OF \<open>refines c a\<close> j] .
    then show ?thesis using wf by (auto simp: participant_wf_def)
  qed
  ultimately show ?thesis
    by (simp add: participant_wf_def refines_def)
qed

theorem core_state_wf_witness:
  "vv_ok (m_vv sample_published) \<and>
    (\<exists>r. m_recordedVv sample_published = r)"
  using core_state_wf [OF sample_core_new sample_run] by simp

text \<open>
  C4: the core refines a participant of the group that has only a vector, a count of its changes,
  what it records while suppressed, and the snapshots given out. Whatever a core does after its
  construction, there are moves of the participant (merging a vector or a result for a current
  snapshot, publishing, recording, forgetting) that lead to a participant with the same vector,
  record and snapshots, and what the core does next is again a sequence of moves, with at most one
  change of the vector for every step.
\<close>

theorem core_refines_participant:
  assumes "core_new clk p si sd v nid opts = Inr c0" and "core_steps N l n c0 c"
    and "core_steps N l m c c'"
  shows "\<exists>a a'. moves l participant_new a \<and> refines c a \<and> a_changes a \<le> n \<and>
    moves l a a' \<and> refines c' a' \<and> a_changes a' \<le> a_changes a + m"
proof -
  obtain a where a: "moves l participant_new a" "refines c a" "participant_wf a" "a_changes a \<le> n"
    using reachable_participant [OF assms(1,2)] .
  then show ?thesis
    using simulatedD [OF steps_simulated [OF assms(3)] a(2,3)] by blast
qed

theorem core_refines_participant_witness:
  "\<exists>a a'. refines sample_core a \<and> moves False a a' \<and> refines sample_published a' \<and>
     a_changes a' \<le> a_changes a + 1"
  using core_refines_participant [OF sample_core_new _ sample_run, where n = 0 and l = False] by auto






section \<open>Handlers\<close>

text \<open>What the statistics do not show.\<close>

definition no_stats_view :: "('n, 'b, 'd, 'i) sync_core outcome \<Rightarrow> ('n, 'b, 'd, 'i) sync_core outcome" where
  "no_stats_view r = ((fst r)\<lparr>m_stats := no_stats\<rparr>, snd r)"

lemma no_stats_view_stat [simp]: "no_stats_view (stat f c, e) = no_stats_view (c, e)"
  by (simp add: no_stats_view_def stat_def)

lemma no_stats_view_then_stat [simp]:
  "no_stats_view (and_then r (\<lambda>c. (stat f c, None))) = no_stats_view r"
proof (cases r)
  case (Pair c e)
  then show ?thesis by (cases e) simp_all
qed

lemma conclude_stats:
  "no_stats_view (conclude_sync E new r f g c) = no_stats_view (conclude_sync E new r f' g' c)"
proof -
  obtain rec x where "recordVector (clk_point (ce_clk E)) r c = (rec, x)"
    by (cases "recordVector (clk_point (ce_clk E)) r c")
  then show ?thesis
    by (cases rec) (simp_all add: conclude_sync_def)
qed

text \<open>
  C9: parallel processing is equivalent to serial processing: a job that captured the current
  vector and generation, when its result is applied to a core that is still in that generation,
  leaves the same state, timers, callbacks and errors as the serial handler; only the statistics
  differ.
\<close>

theorem parallel_equals_serial:
  assumes "sj_localVector job = m_vv c" and "sj_stateGeneration job = m_stateGeneration c"
  shows "no_stats_view (processSyncInterestResult E
      (process_sync_job E (m_syncPrefix c) (ro_version (m_protocolOptions c)) job) c) =
    no_stats_view (onSyncInterestValidatedSerial E (sj_interest job)
      (Some (sj_incomingFace job)) count c)"
proof (cases "decode (ce_ndn E) (ce_compression E) (ce_clk E) (sj_interest job) (m_syncPrefix c)
    (ro_version (m_protocolOptions c)) True")
  case (Inl e)
  then show ?thesis
    by (simp add: processSyncInterestResult_def process_sync_job_def onSyncInterestValidatedSerial_def)
next
  case (Inr e)
  note r = decode_vector_ok [OF Inr]
  let ?t = "clk_point (ce_clk E)" and ?r = "env_stateVector e"
  let ?m = "merge_report ?t (m_vv c) ?r"
  let ?c = "report_missing (sj_incomingFace job) (mc_missingData ?m)
      (recv_extensions E (env_extensions e) ?r (after_merge ?t ?r c))"
  obtain g where serial: "onSyncInterestValidatedSerial E (sj_interest job) (Some (sj_incomingFace job)) count c =
      conclude_sync E (mc_myVectorNew ?m) ?r id g ?c"
    using serial_eq [OF Inr, of "Some (sj_incomingFace job)" count] by (auto simp: value_or_def)
  have upd: "c\<lparr>m_vv := mc_mergedVector ?m,
      m_stateGeneration := (if mc_otherVectorNew ?m then m_stateGeneration c + 1 else m_stateGeneration c)\<rparr> =
      after_merge ?t ?r c"
    by (simp add: after_merge_def merge_report_def other_new_iff [OF r])
  have "\<exists>f h. processSyncInterestResult E
      (process_sync_job E (m_syncPrefix c) (ro_version (m_protocolOptions c)) job) c =
      conclude_sync E (mc_myVectorNew ?m) ?r f h ?c"
    unfolding processSyncInterestResult_def process_sync_job_def Inr Let_def
    using assms upd by (simp add: merge_report_eq [OF r]) blast
  then obtain f h where "processSyncInterestResult E
      (process_sync_job E (m_syncPrefix c) (ro_version (m_protocolOptions c)) job) c =
      conclude_sync E (mc_myVectorNew ?m) ?r f h ?c"
    by blast
  then show ?thesis
    unfolding serial by (simp add: conclude_stats [of E _ _ f h _ id g])
qed

theorem parallel_equals_serial_witness:
  "no_stats_view (processSyncInterestResult sample_env
      (process_sync_job sample_env (m_syncPrefix sample_published)
        (ro_version (m_protocolOptions sample_published))
        \<lparr>sj_interest = sample_interest, sj_localVector = m_vv sample_published,
         sj_stateGeneration = m_stateGeneration sample_published, sj_incomingFace = 7, sj_alive = 1\<rparr>)
      sample_published) =
    no_stats_view (onSyncInterestValidatedSerial sample_env sample_interest (Some 7) False
      sample_published)"
  using parallel_equals_serial [where E = sample_env and c = sample_published and count = False
      and job = "\<lparr>sj_interest = sample_interest, sj_localVector = m_vv sample_published,
         sj_stateGeneration = m_stateGeneration sample_published, sj_incomingFace = 7, sj_alive = 1\<rparr>"]
  by simp


text \<open>What the environment has seen of a core: Interests sent and updates reported.\<close>

fun is_express :: "('n, 'b, 'd, 'i) core_event \<Rightarrow> bool" where
  "is_express (Express i) = True"
| "is_express _ = False"

fun updates_of :: "('n, 'b, 'd, 'i) core_event list \<Rightarrow> 'n missing_data_info list list" where
  "updates_of [] = []"
| "updates_of (OnUpdate ms # es) = ms # updates_of es"
| "updates_of (_ # es) = updates_of es"

lemma updates_of_append [simp]: "updates_of (xs @ ys) = updates_of xs @ updates_of ys"
  by (induction xs rule: updates_of.induct) simp_all

text \<open>Operations that leave the log and the vector alone.\<close>

definition same_log :: "('n, 'b, 'd, 'i) sync_core \<Rightarrow> ('n, 'b, 'd, 'i) sync_core \<Rightarrow> bool" where
  "same_log c c' \<longleftrightarrow> m_out c' = m_out c \<and> m_vv c' = m_vv c"

lemma same_log_trans: "same_log c c' \<Longrightarrow> same_log c' c'' \<Longrightarrow> same_log c c''"
  by (simp add: same_log_def)

lemma same_log_refl: "same_log c c"
  by (simp add: same_log_def)

lemma same_log_retx: "same_log c (fst (retxSyncInterest E False d c))"
  by (simp add: retxSyncInterest_def same_log_def Let_def)

lemma same_log_suppress: "same_log c (enterSuppressionState r c)"
  by (simp add: same_log_def enterSuppressionState_def split: option.split)

lemma same_log_react: "same_log c (fst (react E new r c))"
  using same_log_retx [of c E 0] same_log_suppress [of c r]
    same_log_trans [OF same_log_suppress [of c r] same_log_retx [of _ E]]
  by (simp add: react_def Let_def split: option.split)

lemma same_log_then:
  assumes "same_log c (fst r)" and "\<And>c'. same_log c' (fst (f c'))"
  shows "same_log c (fst (and_then r f))"
proof (cases r)
  case (Pair c' e)
  then show ?thesis
    using assms same_log_trans by (cases e) auto
qed

lemma same_log_stat: "same_log c (stat f c)"
  by (simp add: same_log_def stat_def)

lemma same_log_conclude: "same_log c (fst (conclude_sync E new r f g c))"
proof (cases "m_recordedVv c")
  case None
  have "same_log c (fst (and_then (and_then (c, None) (react E new r)) (\<lambda>c. (stat g c, None))))"
    by (intro same_log_then) (simp_all add: same_log_react same_log_stat same_log_refl)
  then show ?thesis
    by (simp add: conclude_sync_def recordVector_def None)
next
  case (Some p)
  then show ?thesis
    by (simp add: conclude_sync_def recordVector_def record_merge_eq same_log_def stat_def)
qed

text \<open>The log of the extension callbacks and of the report.\<close>

lemma recv_each_log:
  "\<exists>xs. m_out (recv_each E bs v c) = m_out c @ xs \<and> updates_of xs = [] \<and> \<not> list_ex is_express xs"
proof (induction E bs v c rule: recv_each.induct)
  case (1 E v c)
  then show ?case by simp
next
  case (2 E b bs v c)
  show ?case
  proof (cases "ce_recvThrows E b")
    case True
    then show ?thesis by (simp add: Let_def emit_def)
  next
    case False
    then obtain xs where "m_out (recv_each E bs v (emit (RecvBlock b v) c)) =
        m_out (emit (RecvBlock b v) c) @ xs" "updates_of xs = []" "\<not> list_ex is_express xs"
      using 2 by blast
    then show ?thesis
      using False by (intro exI [of _ "RecvBlock b v # xs"]) (simp add: Let_def emit_def)
  qed
qed

lemma recv_extensions_log:
  "\<exists>xs. m_out (recv_extensions E bs v c) = m_out c @ xs \<and> updates_of xs = [] \<and>
    \<not> list_ex is_express xs"
  using recv_each_log [of E bs v c]
  by (auto simp: recv_extensions_def emit_def split: extra_callback.split)

lemma report_missing_log:
  "m_out (report_missing face ms c) = m_out c @
     (if ms = [] then [] else [OnUpdate (map (\<lambda>e. e\<lparr>md_incomingFace := face\<rparr>) ms)])"
  by (simp add: report_missing_def emit_def)

text \<open>
  C10: the serial handler of a decoded Sync Interest raises every register to the received
  number, reports to the application exactly once, with the missing data of the merge stamped
  with the incoming face, or not at all if nothing is missing, and sends nothing itself.
\<close>

theorem receive_merges_and_reports:
  assumes "decode (ce_ndn E) (ce_compression E) (ce_clk E) i (m_syncPrefix c)
      (ro_version (m_protocolOptions c)) True = Inr e"
  shows "\<exists>m. computeMergeStateVector (clk_point (ce_clk E)) (m_vv c) (env_stateVector e) = Inr m \<and>
    m_vv (fst (onSyncInterestValidatedSerial E i f count c)) = mc_mergedVector m \<and>
    (\<exists>xs. m_out (fst (onSyncInterestValidatedSerial E i f count c)) = m_out c @ xs \<and>
      \<not> list_ex is_express xs \<and>
      updates_of xs = (if mc_missingData m = [] then []
        else [map (\<lambda>d. d\<lparr>md_incomingFace := value_or f 0\<rparr>) (mc_missingData m)]))"
proof -
  let ?t = "clk_point (ce_clk E)" and ?r = "env_stateVector e"
  note r = decode_vector_ok [OF assms]
  let ?m = "merge_report ?t (m_vv c) ?r"
  let ?c1 = "recv_extensions E (env_extensions e) ?r (after_merge ?t ?r c)"
  let ?c2 = "report_missing (value_or f 0) (mc_missingData ?m) ?c1"
  obtain g where s: "onSyncInterestValidatedSerial E i f count c =
      conclude_sync E (mc_myVectorNew ?m) ?r id g ?c2"
    using serial_eq [OF assms] by blast
  have log: "same_log ?c2 (fst (onSyncInterestValidatedSerial E i f count c))"
    unfolding s by (rule same_log_conclude)
  obtain xs where xs: "m_out ?c1 = m_out (after_merge ?t ?r c) @ xs" "updates_of xs = []"
    "\<not> list_ex is_express xs"
    using recv_extensions_log by blast
  have "quiet (after_merge ?t ?r c) ?c2"
    by (rule quiet_trans [OF quiet_recv_extensions quiet_report])
  then have "m_vv (fst (onSyncInterestValidatedSerial E i f count c)) = mc_mergedVector ?m"
    using log by (simp add: same_log_def quiet_def after_merge_def merge_report_def)
  moreover have "m_out (fst (onSyncInterestValidatedSerial E i f count c)) = m_out c @ xs @
      (if mc_missingData ?m = [] then []
       else [OnUpdate (map (\<lambda>d. d\<lparr>md_incomingFace := value_or f 0\<rparr>) (mc_missingData ?m))])"
    using log xs(1) by (simp add: same_log_def report_missing_log after_merge_def)
  ultimately show ?thesis
    using merge_report_eq [OF r] xs(2,3) by (intro exI conjI) (assumption+, simp_all)
qed

theorem receive_merges_and_reports_witness:
  "\<exists>m v. computeMergeStateVector 7 vv_empty v = Inr m \<and> m_entries v = m_entries sample_vector \<and>
    m_vv (fst (onSyncInterestValidatedSerial sample_env sample_interest (Some 3) True sample_core)) =
      mc_mergedVector m"
proof -
  obtain e where e: "decode i_ndn False sample_clock sample_interest sample_group V3 True = Inr e"
    "m_entries (env_stateVector e) = m_entries sample_vector"
    using sample_interest_decoded by blast
  have "decode (ce_ndn sample_env) (ce_compression sample_env) (ce_clk sample_env) sample_interest
      (m_syncPrefix sample_core) (ro_version (m_protocolOptions sample_core)) True = Inr e"
    using e(1) by (simp add: sample_env_def sample_core_def sample_options_def)
  from receive_merges_and_reports [OF this, of "Some 3" True] e(2) show ?thesis
    by (auto simp: sample_env_def sample_clock_def sample_core_def)
qed


section \<open>Suppression and timers\<close>

definition same_timers :: "('n, 'b, 'd, 'i) sync_core \<Rightarrow> ('n, 'b, 'd, 'i) sync_core \<Rightarrow> bool" where
  "same_timers c c' \<longleftrightarrow>
     m_nextSyncInterest c' = m_nextSyncInterest c \<and> m_retxEvent c' = m_retxEvent c \<and>
     m_retxDist c' = m_retxDist c \<and> m_recordedVv c' = m_recordedVv c \<and>
     m_maxSuppressionTime c' = m_maxSuppressionTime c \<and> m_intrReplyDist c' = m_intrReplyDist c"

lemma same_timers_simps [simp]:
  "same_timers c c"
  "same_timers c (stat f c)"
  "same_timers c (emit x c)"
  by (simp_all add: same_timers_def stat_def emit_def)

lemma same_timers_merge [simp]: "same_timers c (after_merge t r c)"
  by (simp add: same_timers_def after_merge_def)

lemma same_timers_trans: "same_timers c c' \<Longrightarrow> same_timers c' c'' \<Longrightarrow> same_timers c c''"
  by (simp add: same_timers_def)

lemma same_timers_recv_each: "same_timers c (recv_each E bs v c)"
proof (induction E bs v c rule: recv_each.induct)
  case (1 E v c)
  then show ?case by simp
next
  case (2 E b bs v c)
  then show ?case
    using same_timers_trans [OF same_timers_simps(3)] by (auto simp: Let_def)
qed

lemma same_timers_before:
  "same_timers c (report_missing f ms (recv_extensions E es v (after_merge t r c)))"
proof -
  let ?c1 = "after_merge t r c" and ?c2 = "recv_extensions E es v (after_merge t r c)"
  have "same_timers ?c1 ?c2"
    by (simp add: recv_extensions_def same_timers_recv_each split: extra_callback.split)
  moreover have "same_timers ?c2 (report_missing f ms ?c2)"
    by (simp add: report_missing_def)
  ultimately have "same_timers ?c1 (report_missing f ms ?c2)"
    by (rule same_timers_trans)
  with same_timers_merge show ?thesis
    by (rule same_timers_trans)
qed

lemma retx_no_send:
  "retxSyncInterest E False d c =
     (let d = (if d = 0 then word_of_int (ce_retxDraw E (m_retxDist c)) else d)
      in (c\<lparr>m_nextSyncInterest := ce_schedNow E + uint (1000 * d), m_retxEvent := Some d\<rparr>, None))"
  by (simp add: retxSyncInterest_def)




text \<open>Merging a vector that is covered changes nothing.\<close>

lemma vv_join_absorb: "vv_ok r \<Longrightarrow> vv_le r l \<Longrightarrow> vv_join t l r = l"
proof -
  assume r: "vv_ok r" and le: "vv_le r l"
  have "\<forall>e \<in> set (vv_all r). vv_raise t e l = l"
  proof
    fix e
    assume e: "e \<in> set (vv_all r)"
    obtain n b s where es: "e = (n, b, s)" by (cases e)
    then have "s \<le> vv_get n b l"
      using e vv_all_mem [OF r] le by (auto simp: vv_le_def)
    then show "vv_raise t e l = l"
      by (simp add: es vv_raise_def)
  qed
  then have "fold (vv_raise t) es l = l" if "set es \<subseteq> set (vv_all r)" for es
    using that by (induction es) auto
  then show ?thesis
    by (simp add: vv_join_def)
qed

lemma send_serial:
  assumes "m_initialized c" and "m_syncProductionWorkerPool c = None" and "sync_interest E c = Inr i"
  shows "\<exists>f. sendSyncInterest E c = (stat f (emit (Express i) c), None)"
  using assms by (simp add: sendSyncInterest_def sendSyncInterestSerial_def) blast

text \<open>
  C33: when the retransmission timer of an initialised core fires, a Sync Interest with the
  current state goes out exactly if no reply was being suppressed, or the state vector has an
  entry above what was recorded meanwhile; suppression ends, the vector is as before, and the
  timer is set to a fresh periodic draw.
\<close>

theorem retransmission:
  assumes "m_initialized c" and "m_syncProductionWorkerPool c = None" and "vv_ok (m_vv c)"
    and "\<forall>r. m_recordedVv c = Some r \<longrightarrow> vv_ok r \<and> vv_le r (m_vv c)"
    and "sync_interest E (c\<lparr>m_retxEvent := None\<rparr>) = Inr i"
    and "c' = fst (fire_retx E c)"
  shows "m_out c' = (case m_recordedVv c of
      None \<Rightarrow> m_out c @ [Express i]
    | Some r \<Rightarrow> if vv_le (m_vv c) r then m_out c else m_out c @ [Express i]) \<and>
    m_recordedVv c' = None \<and> m_vv c' = m_vv c \<and>
    m_retxEvent c' = Some (word_of_int (ce_retxDraw E (m_retxDist c)))"
proof -
  let ?c = "c\<lparr>m_retxEvent := None\<rparr>" and ?t = "clk_point (ce_clk E)"
  obtain f where send: "sendSyncInterest E ?c = (stat f (emit (Express i) ?c), None)"
    using send_serial [OF _ _ assms(5)] assms(1,2) by auto
  show ?thesis
  proof (cases "m_recordedVv c")
    case None
    then show ?thesis
      using assms(6) send
      by (simp add: fire_retx_def retxSyncInterest_def Let_def stat_def emit_def)
  next
    case (Some r)
    then have r: "vv_ok r" "vv_le r (m_vv c)"
      using assms(4) by simp_all
    have am: "after_merge ?t r ?c = ?c"
      using r by (simp add: after_merge_def vv_join_absorb)
    have new: "mc_myVectorNew (merge_report ?t (m_vv c) r) \<longleftrightarrow> \<not> vv_le (m_vv c) r"
      using my_new_iff [OF assms(3) r(1)] by (simp add: merge_report_def)
    have "mergeStateVector ?t r ?c = (Inr (merge_report ?t (m_vv c) r), ?c)"
      using mergeStateVector_report [OF r(1), of ?t ?c] am by simp
    then show ?thesis
      using Some assms(6) send new
      by (simp add: fire_retx_def retxSyncInterest_def Let_def stat_def emit_def)
  qed
qed

definition sample_ready :: "(i_name, i_block, i_data, i_interest) sync_core" where
  "sample_ready = sample_core\<lparr>m_vv := sample_vector, m_initialized := True, m_getExtra := OneBlock\<rparr>"

lemma sample_ready_interest:
  "sync_interest sample_env (sample_ready\<lparr>m_retxEvent := None\<rparr>) = Inr sample_interest"
proof -
  have "data_signer sample_env (sample_ready\<lparr>m_retxEvent := None\<rparr>) = i_sign"
    by (rule ext) (simp add: data_signer_def sample_env_def)
  then show ?thesis
    using sample_interest_encoded
    by (simp add: sync_interest_def extra_blocks_def encode_interest_def sample_ready_def
        sample_core_def sample_env_def sample_options_def)
qed

theorem retransmission_witness:
  "m_out (fst (fire_retx sample_env sample_ready)) = [Express sample_interest] \<and>
    m_vv (fst (fire_retx sample_env sample_ready)) = sample_vector \<and>
    m_retxEvent (fst (fire_retx sample_env sample_ready)) = Some 27000"
  using retransmission [OF _ _ _ _ sample_ready_interest refl] sample_vector_ok
  by (simp add: sample_ready_def sample_core_def sample_env_def)

text \<open>
  C34: setting a positive sequence number never throws, whatever the sending of the Interest
  does; it sets exactly that register. A number above the previous one ends suppression and,
  without batching, advertises the new state at once; any other number sends nothing.
\<close>

theorem publication:
  assumes "s \<noteq> 0" and "c' = fst (updateSeqNoAt E s b nid c)"
    and "c1 = c\<lparr>m_vv := vv_put (clk_point (ce_clk E)) (own_or E c nid) b s (m_vv c),
      m_stateGeneration := m_stateGeneration c + 1, m_recordedVv := None\<rparr>"
  shows "snd (updateSeqNoAt E s b nid c) = None \<and>
    (\<forall>n' b'. vv_get n' b' (m_vv c') =
      (if n' = own_or E c nid \<and> b' = b then s else vv_get n' b' (m_vv c))) \<and>
    (s \<le> vv_get (own_or E c nid) b (m_vv c) \<longrightarrow> m_out c' = m_out c) \<and>
    (vv_get (own_or E c nid) b (m_vv c) < s \<longrightarrow> m_syncInterestBatching c \<longrightarrow>
      m_out c' = m_out c \<and> m_publicationSyncPending c') \<and>
    (\<forall>i. vv_get (own_or E c nid) b (m_vv c) < s \<longrightarrow> \<not> m_syncInterestBatching c \<longrightarrow>
      m_initialized c \<longrightarrow> m_syncProductionWorkerPool c = None \<longrightarrow> sync_interest E c1 = Inr i \<longrightarrow>
      m_out c' = m_out c @ [Express i] \<and> m_recordedVv c' = None)"
proof -
  let ?prev = "vv_get (own_or E c nid) b (m_vv c)"
  let ?c0 = "c\<lparr>m_vv := vv_put (clk_point (ce_clk E)) (own_or E c nid) b s (m_vv c),
      m_stateGeneration := (if s > ?prev then m_stateGeneration c + 1 else m_stateGeneration c)\<rparr>"
  have u: "updateSeqNoAt E s b nid c = (if s > ?prev
      then caught (if m_syncInterestBatching c then (schedulePublicationSync ?c0, None)
        else sendLocalPublicationSyncInterest E ?c0)
      else (?c0, None))"
    using assms(1) by (simp add: updateSeqNoAt_def vv_set_eq Let_def)
  have vv: "m_vv (fst (sendLocalPublicationSyncInterest E d)) = m_vv d" for d
  proof -
    have "m_vv (fst (and_then (sendSyncInterest E d') f)) = m_vv d'"
      if "\<And>x. m_vv (fst (f x)) = m_vv x" for d' f
      using quiet_send [of d' E] that
      by (cases "sendSyncInterest E d'"; cases "snd (sendSyncInterest E d')")
        (auto simp: quiet_def)
    then show ?thesis
      by (simp add: sendLocalPublicationSyncInterest_def Let_def)
  qed
  have "snd (updateSeqNoAt E s b nid c) = None"
    using u by simp
  moreover have "m_vv c' = m_vv ?c0"
    using u assms(2) by (simp add: schedulePublicationSync_def vv)
  then have "\<forall>n' b'. vv_get n' b' (m_vv c') =
      (if n' = own_or E c nid \<and> b' = b then s else vv_get n' b' (m_vv c))"
    by (simp add: vv_get_put)
  moreover have "m_out c' = m_out c" if "s \<le> ?prev"
    using u leD [OF that] assms(2) by simp
  moreover have "m_out c' = m_out c \<and> m_publicationSyncPending c'" if "?prev < s" "m_syncInterestBatching c"
    using u that assms(2) by (simp add: schedulePublicationSync_def)
  moreover have "m_out c' = m_out c @ [Express i] \<and> m_recordedVv c' = None"
    if h: "?prev < s" "\<not> m_syncInterestBatching c" "m_initialized c"
      "m_syncProductionWorkerPool c = None" "sync_interest E c1 = Inr i" for i
  proof -
    obtain f where "sendSyncInterest E c1 = (stat f (emit (Express i) c1), None)"
      using send_serial [OF _ _ h(5)] h(3,4) assms(3) by auto
    moreover have "?c0\<lparr>m_recordedVv := None\<rparr> = c1"
      using h(1) assms(3) by simp
    ultimately show ?thesis
      using u h(1,2) assms(2,3)
      by (simp add: sendLocalPublicationSyncInterest_def Let_def stat_def emit_def)
  qed
  ultimately show ?thesis
    by blast
qed

theorem publication_witness:
  "snd (updateSeqNoAt sample_env 2 100 [(8, [66])] sample_published) = None \<and>
    vv_get [(8, [66])] 100 (m_vv (fst (updateSeqNoAt sample_env 2 100 [(8, [66])] sample_published))) = 2"
  using publication [of 2 _ sample_env 100 "[(8, [66])]" sample_published, OF _ refl refl]
  by (simp add: own_or_def sample_env_def i_names)


text \<open>
  C35: with a validator, a V3 Sync Interest that has merely been received changes nothing the
  protocol state consists of: the only effect, beyond status and counters, is that the signed
  packet under the group's Sync name is handed to the validator; and a rejection by it changes
  only status and counters.
\<close>

theorem unverified_interest_inert:
  assumes "ro_version (m_protocolOptions c) = V3" and "m_hasValidator c"
    and "c' = fst (onSyncInterest E i f c)"
  shows "m_vv c' = m_vv c \<and> m_stateGeneration c' = m_stateGeneration c \<and> same_timers c c' \<and>
    pending_jobs c' = pending_jobs c \<and>
    (m_out c' = m_out c \<or>
     (\<exists>d. m_out c' = m_out c @ [ValidateData d i] \<and> data_signed (ce_ndn E) d \<and>
        data_name (ce_ndn E) d = makeSyncName (ce_ndn E) (m_syncPrefix c) V3)) \<and>
    quiet c (data_rejected c) \<and> m_out (data_rejected c) = m_out c"
proof -
  have "quiet c (data_rejected c)" "m_out (data_rejected c) = m_out c"
    by (auto simp: data_rejected_def stat_def set_status_def quiet_def pending_jobs_def)
  moreover have "m_vv c' = m_vv c \<and> m_stateGeneration c' = m_stateGeneration c \<and> same_timers c c' \<and>
    pending_jobs c' = pending_jobs c \<and>
    (m_out c' = m_out c \<or>
     (\<exists>d. m_out c' = m_out c @ [ValidateData d i] \<and> data_signed (ce_ndn E) d \<and>
        data_name (ce_ndn E) d = makeSyncName (ce_ndn E) (m_syncPrefix c) V3))"
  proof (cases "decode (ce_ndn E) (ce_compression E) (ce_clk E) i (m_syncPrefix c) V3 False")
    case (Inl e)
    then show ?thesis
      using assms by (simp add: onSyncInterest_def stat_def set_status_def same_timers_def pending_jobs_def)
  next
    case (Inr e)
    obtain d where "env_stateVectorData e = Some d" "data_signed (ce_ndn E) d"
      "data_name (ce_ndn E) d = makeSyncName (ce_ndn E) (m_syncPrefix c) V3"
      using decode_ok(2) [OF Inr] by (auto simp: envelope_ok_def)
    then show ?thesis
      using assms Inr by (simp add: onSyncInterest_def emit_def same_timers_def pending_jobs_def)
  qed
  ultimately show ?thesis by blast
qed

theorem unverified_interest_inert_witness:
  "m_vv (fst (onSyncInterest sample_env sample_interest None (sample_ready\<lparr>m_hasValidator := True\<rparr>))) =
     sample_vector"
  using unverified_interest_inert [of "sample_ready\<lparr>m_hasValidator := True\<rparr>", OF _ _ refl,
      of sample_env sample_interest None]
  by (simp add: sample_ready_def sample_core_def sample_options_def)

section \<open>The suppression curve and the timer ranges\<close>

lemma curve_real:
  assumes "0 < c" and "0 \<le> v" and "v \<le> c"
  shows "0 \<le> real_of_int c * (1 - exp ((of_int v - of_int c) / (of_int c / 10)))"
    and "real_of_int c * (1 - exp ((of_int v - of_int c) / (of_int c / 10))) \<le> of_int c"
proof -
  let ?x = "exp ((real_of_int v - of_int c) / (of_int c / 10))"
  have "?x \<le> 1"
    using assms by (simp add: divide_le_0_iff)
  then show "0 \<le> real_of_int c * (1 - ?x)" and "real_of_int c * (1 - ?x) \<le> of_int c"
    using assms(1) by (simp_all add: mult_left_le)
qed

text \<open>
  For a positive maximum the suppression curve maps every delay of the reply distribution
  to a delay of the same range, a longer draw never to a longer delay, and the longest draw to
  no delay at all.
\<close>

theorem suppression_curve_range:
  assumes "0 < c" and "0 \<le> v" and "v \<le> w" and "w \<le> c"
  shows "\<exists>x y. suppressionCurve c v = Some x \<and> suppressionCurve c w = Some y \<and>
    0 \<le> y \<and> y \<le> x \<and> x \<le> c \<and> suppressionCurve c c = Some 0"
proof -
  let ?f = "\<lambda>u. real_of_int c * (1 - exp ((of_int u - of_int c) / (of_int c / 10)))"
  have curve: "suppressionCurve c u = Some \<lfloor>?f u\<rfloor>" if "0 \<le> u" "u \<le> c" for u
    using curve_real(1) [OF assms(1) that] assms(1) by (simp add: suppressionCurve_def trunc_def Let_def)
  have "(of_int v - of_int c) / (real_of_int c / 10) \<le> (of_int w - of_int c) / (of_int c / 10)"
    using assms by (intro divide_right_mono) simp_all
  then have "?f w \<le> ?f v"
    using assms(1) by (intro mult_left_mono) simp_all
  then have "\<lfloor>?f w\<rfloor> \<le> \<lfloor>?f v\<rfloor>"
    by (rule floor_mono)
  moreover have "0 \<le> \<lfloor>?f w\<rfloor>"
    using curve_real(1) [of c w] assms by (simp add: le_floor_iff)
  moreover have "\<lfloor>?f v\<rfloor> \<le> c"
  proof -
    have "?f v \<le> of_int c"
      using curve_real(2) [of c v] assms by simp
    then have "\<lfloor>?f v\<rfloor> \<le> \<lfloor>real_of_int c\<rfloor>"
      by (rule floor_mono)
    then show ?thesis by simp
  qed
  moreover have "suppressionCurve c c = Some 0"
    using assms(1) by (simp add: suppressionCurve_def trunc_def Let_def)
  ultimately show ?thesis
    using curve [of v] curve [of w] assms by auto
qed

theorem suppression_curve_range_witness:
  "\<exists>x y. suppressionCurve 200 50 = Some x \<and> suppressionCurve 200 100 = Some y \<and>
    0 \<le> y \<and> y \<le> x \<and> x \<le> 200 \<and> suppressionCurve 200 200 = Some 0"
  by (rule suppression_curve_range) simp_all

text \<open>
  Whatever interval and jitter are configured, the retransmission distribution is a valid
  range of positive delays, and the suppression distribution a valid range from 0.
\<close>

theorem timer_ranges_valid:
  "1 \<le> fst (m_retxDist (setPeriodicSyncTime interval jitter c)) \<and>
   fst (m_retxDist (setPeriodicSyncTime interval jitter c)) \<le>
     snd (m_retxDist (setPeriodicSyncTime interval jitter c)) \<and>
   0 < m_periodicSyncTime (setPeriodicSyncTime interval jitter c) \<and>
   m_intrReplyDist (setMaxSuppressionTime delay c) =
     (0, m_maxSuppressionTime (setMaxSuppressionTime delay c)) \<and>
   0 \<le> m_maxSuppressionTime (setMaxSuppressionTime delay c)"
  by (simp add: setPeriodicSyncTime_def setMaxSuppressionTime_def Let_def)

section \<open>Defects the model exhibits\<close>

text \<open>
  A maximum suppression time of 0, which \<^verbatim>\<open>setMaxSuppressionTime\<close> and the options accept,
  makes the handler divide by zero as soon as a sender that is behind is heard: the reply delay
  is undefined.
\<close>

lemma zero_suppression_undefined:
  assumes "decode (ce_ndn E) (ce_compression E) (ce_clk E) i (m_syncPrefix c)
      (ro_version (m_protocolOptions c)) True = Inr e"
    and "vv_ok (m_vv c)" and "m_recordedVv c = None" and "\<not> vv_le (m_vv c) (env_stateVector e)"
  shows "snd (onSyncInterestValidatedSerial E i f count (setMaxSuppressionTime 0 c)) =
    Some (RuntimeError ''undefined: division by zero'')"
proof -
  let ?t = "clk_point (ce_clk E)" and ?r = "env_stateVector e" and ?c = "setMaxSuppressionTime 0 c"
  have same: "m_vv ?c = m_vv c" "m_recordedVv ?c = None" "m_maxSuppressionTime ?c = 0"
    "m_syncPrefix ?c = m_syncPrefix c" "m_protocolOptions ?c = m_protocolOptions c"
    using assms(3) by (simp_all add: setMaxSuppressionTime_def)
  have dec: "decode (ce_ndn E) (ce_compression E) (ce_clk E) i (m_syncPrefix ?c)
      (ro_version (m_protocolOptions ?c)) True = Inr e"
    using assms(1) same by simp
  note r = decode_vector_ok [OF dec]
  let ?m = "merge_report ?t (m_vv ?c) ?r"
  let ?c2 = "report_missing (value_or f 0) (mc_missingData ?m)
      (recv_extensions E (env_extensions e) ?r (after_merge ?t ?r ?c))"
  obtain g where s: "onSyncInterestValidatedSerial E i f count ?c =
      conclude_sync E (mc_myVectorNew ?m) ?r id g ?c2"
    using serial_eq [OF dec] by blast
  have t: "same_timers ?c ?c2"
    by (rule same_timers_before)
  have new: "mc_myVectorNew ?m"
    using my_new_iff [OF assms(2) r] assms(4) same by (simp add: merge_report_def)
  show ?thesis
    unfolding s using t same new
    by (simp add: conclude_sync_def recordVector_def same_timers_def react_def Let_def
        enterSuppressionState_def suppressionCurve_def)
qed

text \<open>
  A reply delay of 0, which the curve gives for the longest draws, is taken by
  \<^verbatim>\<open>retxSyncInterest\<close> for its default: instead of replying at once, the core waits for a full
  periodic interval.
\<close>

lemma zero_delay_is_periodic:
  assumes "0 < m_maxSuppressionTime c" and "m_recordedVv c = None"
    and "ce_replyDraw E (m_intrReplyDist c) = m_maxSuppressionTime c"
    and "ce_now E < m_nextSyncInterest c"
  shows "m_retxEvent (fst (react E True r c)) = Some (word_of_int (ce_retxDraw E (m_retxDist c)))"
proof -
  have "suppressionCurve (m_maxSuppressionTime c) (m_maxSuppressionTime c) = Some 0"
    using assms(1) by (simp add: suppressionCurve_def trunc_def Let_def)
  then show ?thesis
    using assms(2-4) by (simp add: react_def enterSuppressionState_def retx_no_send Let_def)
qed

text \<open>
  With the extension blocks built in the worker but the signing left to the main thread, a V3
  Interest is encoded from the job, which has no blocks: what the callback built is lost.
\<close>

lemma deferred_extensions_lost:
  assumes "ro_version (m_protocolOptions c) = V3" and "m_parallelSyncProductionExtraBlock c"
    and "\<not> m_parallelSyncProductionSigning c" and "m_getExtra c = BlockCollection"
    and "job \<in> set (m_runningProduction c)" and "pj_alive job \<notin> set (m_deadTokens c)"
    and "pj_extraBlocks job = []" and "ce_getExtraBlocks W (pj_localVector job) = Inr blocks"
    and "encode_interest E (c\<lparr>m_runningProduction := remove1 job (m_runningProduction c)\<rparr>)
      (pj_localVector job) [] = Inr i"
    and "pj_stateGeneration job = m_stateGeneration c"
  shows "m_out (fst (deliver_production_result W E job c)) = m_out c @ [Express i]"
  using assms
  by (simp add: deliver_production_result_def process_production_job_def extra_blocks_def
      processSyncProductionResult_def Let_def emit_def stat_def)

text \<open>
  Enabling parallel processing twice leaves the first token alive for ever: a job posted before
  the second call is delivered even to a core that has been destroyed.
\<close>

lemma result_after_destruction:
  assumes "job \<in> set (m_runningJobs c)" and "sj_alive job = m_syncProcessingAlive c"
    and "sj_alive job \<le> m_lastToken c" and "sj_alive job \<notin> set (m_deadTokens c)"
    and "m_syncProductionAlive c \<noteq> sj_alive job"
    and "d = core_destroy (setParallelSyncProcessing True threads depth c)"
  shows "deliver_sync_result W E job d =
    processSyncInterestResult E
      (process_sync_job W (m_syncPrefix d) (ro_version (m_protocolOptions d)) job)
      (d\<lparr>m_runningJobs := remove1 job (m_runningJobs d)\<rparr>)"
proof -
  have "job \<in> set (m_runningJobs d)" and "sj_alive job \<notin> set (m_deadTokens d)"
    using assms(1-5) unfolding assms(6)
    by (auto simp: core_destroy_def setParallelSyncProcessing_def setParallelSyncProduction_def)
  then show ?thesis
    by (simp add: deliver_sync_result_def Let_def)
qed

end
