(* ===== verification/Fetcher.thy ===== *)
theory Fetcher
  imports Std_Map "HOL-Library.Multiset"
begin

text \<open>
  \<^verbatim>\<open>Fetcher\<close> (\<^verbatim>\<open>fetcher.hpp/.cpp\<close>): a queue of Interests, a window of pending ones, retries on
  timeout and on validation failure. The face, the validator and the scheduler are the
  environment: a pending Interest may be answered, nacked or time out, a packet under validation
  may be accepted or refused, a scheduled retry may fire, in any order; each is a step. The
  callbacks are opaque tokens; calling one is an output. The lemmas show that the window is
  respected and never idle, that no request is lost or answered twice, and that retries end.
\<close>

section \<open>State\<close>

text \<open>
  What the code sets in an Interest it expresses or looks up.
\<close>

record 'n data_query =
  dq_name :: 'n
  dq_canBePrefix :: bool
  dq_mustBeFresh :: bool
  dq_lifetime :: int

text \<open>
  \<^verbatim>\<open>QueuedInterest\<close>: the token \<open>qi_callbacks\<close> stands for its four callbacks, of which
  \<^verbatim>\<open>afterValidationFailed\<close> may be null.
\<close>

record ('i, 'k) queued_interest =
  qi_id :: u64
  qi_interest :: 'i
  qi_callbacks :: 'k
  qi_nRetries :: int
  qi_nRetriesOnValidationFail :: int
  qi_hasValidationFailed :: bool

text \<open>
  The members of \<^verbatim>\<open>Fetcher\<close>, and what the lambdas in flight hold: the packets given to the
  validator and the retries given to the scheduler.
\<close>

record ('i, 'd, 'k) fetcher =
  f_hasValidator :: bool
  f_nRetriesOnValidationFail :: int
  f_alive :: bool
  f_interestIdCounter :: u64
  f_windowSize :: u16
  f_pendingInterests :: "(u64, ('i, 'k) queued_interest) std_map"
  f_interestQueue :: "('i, 'k) queued_interest list"
  f_validating :: "(('i, 'k) queued_interest \<times> 'd) list"
  f_scheduled :: "('i, 'k) queued_interest list"

datatype ('i, 'd, 'k) fetch_output =
    Expressed 'i
  | Satisfied 'k 'd
  | Nacked 'k
  | TimedOut 'k
  | ValidationFailed 'k 'd

type_synonym ('i, 'd, 'k) fetch_result = "('i, 'd, 'k) fetcher \<times> ('i, 'd, 'k) fetch_output list"

section \<open>Operations\<close>

definition fetcher_new :: "bool \<Rightarrow> int \<Rightarrow> ('i, 'd, 'k) fetcher" where
  "fetcher_new hasValidator nRetriesOnValidationFail =
     \<lparr>f_hasValidator = hasValidator, f_nRetriesOnValidationFail = nRetriesOnValidationFail,
      f_alive = True, f_interestIdCounter = 0, f_windowSize = 10, f_pendingInterests = [],
      f_interestQueue = [], f_validating = [], f_scheduled = []\<rparr>"

definition fetcher_destroy :: "('i, 'd, 'k) fetcher \<Rightarrow> ('i, 'd, 'k) fetcher" where
  "fetcher_destroy f =
     f\<lparr>f_alive := False, f_scheduled := [], f_pendingInterests := [], f_interestQueue := []\<rparr>"

text \<open>The loop of \<^verbatim>\<open>processQueue\<close>: what stays queued, what is pending, what is sent.\<close>

fun drain ::
    "nat \<Rightarrow> ('i, 'k) queued_interest list \<Rightarrow> (u64, ('i, 'k) queued_interest) std_map
      \<Rightarrow> ('i, 'k) queued_interest list \<times> (u64, ('i, 'k) queued_interest) std_map \<times>
         ('i, 'k) queued_interest list" where
  "drain w [] p = ([], p, [])"
| "drain w (i # q) p =
     (if length p < w then
        (let (q', p', sent) = drain w q (map_put (qi_id i) i p) in (q', p', i # sent))
      else (i # q, p, []))"

definition processQueue :: "('i, 'd, 'k) fetcher \<Rightarrow> ('i, 'd, 'k) fetch_result" where
  "processQueue f =
     (let (q, p, sent) = drain (unat (f_windowSize f)) (f_interestQueue f) (f_pendingInterests f)
      in (f\<lparr>f_interestQueue := q, f_pendingInterests := p\<rparr>,
          map (\<lambda>i. Expressed (qi_interest i)) sent))"

definition f_setWindowSize :: "u16 \<Rightarrow> ('i, 'd, 'k) fetcher \<Rightarrow> ('i, 'd, 'k) fetch_result" where
  "f_setWindowSize windowSize f = processQueue (f\<lparr>f_windowSize := max 1 windowSize\<rparr>)"

text \<open>\<^verbatim>\<open>m_interestQueue.push\<close> with the next identifier, then \<^verbatim>\<open>processQueue\<close>.\<close>

definition push_interest ::
    "('i, 'k) queued_interest \<Rightarrow> ('i, 'd, 'k) fetcher \<Rightarrow> ('i, 'd, 'k) fetch_result" where
  "push_interest qi f =
     (let i = f_interestIdCounter f + 1 in
      processQueue (f\<lparr>f_interestIdCounter := i,
        f_interestQueue := f_interestQueue f @ [qi\<lparr>qi_id := i\<rparr>]\<rparr>))"

text \<open>The public \<^verbatim>\<open>expressInterest\<close>: Interest, callbacks, whether a validation-failure callback is
  given, and the retries.\<close>

record ('i, 'k) fetch_request =
  fr_interest :: 'i
  fr_callbacks :: 'k
  fr_nRetries :: int
  fr_hasValidationFailed :: bool

definition f_expressInterest ::
    "('i, 'k) fetch_request \<Rightarrow> ('i, 'd, 'k) fetcher \<Rightarrow> ('i, 'd, 'k) fetch_result" where
  "f_expressInterest r f =
     push_interest
       \<lparr>qi_id = 0, qi_interest = fr_interest r, qi_callbacks = fr_callbacks r,
        qi_nRetries = fr_nRetries r,
        qi_nRetriesOnValidationFail = f_nRetriesOnValidationFail f,
        qi_hasValidationFailed = fr_hasValidationFailed r\<rparr> f"

text \<open>The private one: the same entry, with a fresh nonce.\<close>

definition f_reexpress ::
    "('i \<Rightarrow> 'i) \<Rightarrow> ('i, 'k) queued_interest \<Rightarrow> ('i, 'd, 'k) fetcher
      \<Rightarrow> ('i, 'd, 'k) fetch_result" where
  "f_reexpress refreshNonce qi f =
     push_interest (qi\<lparr>qi_interest := refreshNonce (qi_interest qi)\<rparr>) f"

definition f_erase :: "('i, 'k) queued_interest \<Rightarrow> ('i, 'd, 'k) fetcher \<Rightarrow> ('i, 'd, 'k) fetcher" where
  "f_erase qi f = f\<lparr>f_pendingInterests := map_erase (qi_id qi) (f_pendingInterests f)\<rparr>"

definition f_onData ::
    "'d \<Rightarrow> ('i, 'k) queued_interest \<Rightarrow> ('i, 'd, 'k) fetcher \<Rightarrow> ('i, 'd, 'k) fetch_result" where
  "f_onData data qi f =
     (let (f, out) = processQueue (f_erase qi f) in
      if \<not> f_hasValidator f then (f, out @ [Satisfied (qi_callbacks qi) data])
      else (f\<lparr>f_validating := f_validating f @ [(qi, data)]\<rparr>, out))"

text \<open>The two lambdas given to the validator. A failure schedules a retry while there are any
  left.\<close>

definition f_onDataValidated ::
    "('i, 'k) queued_interest \<Rightarrow> 'd \<Rightarrow> ('i, 'd, 'k) fetcher \<Rightarrow> ('i, 'd, 'k) fetch_result" where
  "f_onDataValidated qi data f =
     (f\<lparr>f_validating := remove1 (qi, data) (f_validating f)\<rparr>,
      if f_alive f then [Satisfied (qi_callbacks qi) data] else [])"

definition f_onValidationFailed ::
    "('i, 'k) queued_interest \<Rightarrow> 'd \<Rightarrow> ('i, 'd, 'k) fetcher \<Rightarrow> ('i, 'd, 'k) fetch_result" where
  "f_onValidationFailed qi data f =
     (let f = f\<lparr>f_validating := remove1 (qi, data) (f_validating f)\<rparr> in
      if \<not> f_alive f then (f, [])
      else if qi_nRetriesOnValidationFail qi > 0
      then (f\<lparr>f_scheduled := f_scheduled f @ [qi]\<rparr>, [])
      else if qi_hasValidationFailed qi then (f, [ValidationFailed (qi_callbacks qi) data])
      else (f, []))"

definition f_retry ::
    "('i \<Rightarrow> 'i) \<Rightarrow> ('i, 'k) queued_interest \<Rightarrow> ('i, 'd, 'k) fetcher
      \<Rightarrow> ('i, 'd, 'k) fetch_result" where
  "f_retry refreshNonce qi f =
     (let f = f\<lparr>f_scheduled := remove1 qi (f_scheduled f)\<rparr> in
      if \<not> f_alive f then (f, [])
      else
        f_reexpress refreshNonce
          (qi\<lparr>qi_nRetriesOnValidationFail := qi_nRetriesOnValidationFail qi - 1\<rparr>) f)"

definition f_onNack ::
    "('i, 'k) queued_interest \<Rightarrow> ('i, 'd, 'k) fetcher \<Rightarrow> ('i, 'd, 'k) fetch_result" where
  "f_onNack qi f =
     (let (f, out) = processQueue (f_erase qi f) in (f, out @ [Nacked (qi_callbacks qi)]))"

definition f_onTimeout ::
    "('i \<Rightarrow> 'i) \<Rightarrow> ('i, 'k) queued_interest \<Rightarrow> ('i, 'd, 'k) fetcher
      \<Rightarrow> ('i, 'd, 'k) fetch_result" where
  "f_onTimeout refreshNonce qi f =
     (let f = f_erase qi f in
      if qi_nRetries qi = 0
      then (let (f, out) = processQueue f in (f, out @ [TimedOut (qi_callbacks qi)]))
      else f_reexpress refreshNonce (qi\<lparr>qi_nRetries := qi_nRetries qi - 1\<rparr>) f)"

section \<open>Steps\<close>

text \<open>
  The runs of one fetcher: the requests it was given, the outputs it made, the identifiers it
  handed out. The face calls a lambda only while the Interest is pending.
\<close>

inductive fetch_step ::
    "('i \<Rightarrow> 'i) \<Rightarrow> ('i, 'd, 'k) fetcher \<Rightarrow> ('i, 'k) fetch_request list
      \<Rightarrow> ('i, 'd, 'k) fetch_result \<Rightarrow> bool" for refreshNonce where
  step_express: "fetch_step refreshNonce f [r] (f_expressInterest r f)"
| step_window: "fetch_step refreshNonce f [] (f_setWindowSize w f)"
| step_data: "(qi_id qi, qi) \<in> set (f_pendingInterests f) \<Longrightarrow>
    fetch_step refreshNonce f [] (f_onData data qi f)"
| step_nack: "(qi_id qi, qi) \<in> set (f_pendingInterests f) \<Longrightarrow>
    fetch_step refreshNonce f [] (f_onNack qi f)"
| step_timeout: "(qi_id qi, qi) \<in> set (f_pendingInterests f) \<Longrightarrow>
    fetch_step refreshNonce f [] (f_onTimeout refreshNonce qi f)"
| step_validated: "(qi, data) \<in> set (f_validating f) \<Longrightarrow>
    fetch_step refreshNonce f [] (f_onDataValidated qi data f)"
| step_refused: "(qi, data) \<in> set (f_validating f) \<Longrightarrow>
    fetch_step refreshNonce f [] (f_onValidationFailed qi data f)"
| step_retry: "qi \<in> set (f_scheduled f) \<Longrightarrow>
    fetch_step refreshNonce f [] (f_retry refreshNonce qi f)"

text \<open>A run from a new fetcher, in \<open>n\<close> steps.\<close>

inductive fetch_run ::
    "('i \<Rightarrow> 'i) \<Rightarrow> bool \<Rightarrow> int \<Rightarrow> nat \<Rightarrow> ('i, 'k) fetch_request list \<Rightarrow> ('i, 'd, 'k) fetch_output list
      \<Rightarrow> ('i, 'd, 'k) fetcher \<Rightarrow> bool" for refreshNonce hasValidator vfRetries where
  run_new: "fetch_run refreshNonce hasValidator vfRetries 0 [] [] (fetcher_new hasValidator vfRetries)"
| run_step: "fetch_run refreshNonce hasValidator vfRetries n rs out f \<Longrightarrow>
    fetch_step refreshNonce f rs' (f', out') \<Longrightarrow>
    fetch_run refreshNonce hasValidator vfRetries (Suc n) (rs @ rs') (out @ out') f'"

section \<open>The queue\<close>

text \<open>What \<^verbatim>\<open>processQueue\<close> sends is a prefix of the queue; it stops when the window is full.\<close>

lemma drain_split:
  "drain w q p = (q', p', sent) \<Longrightarrow>
     q = sent @ q' \<and> p' = fold (\<lambda>i. map_put (qi_id i) i) sent p"
proof (induction q arbitrary: p q' p' sent)
  case Nil
  then show ?case by simp
next
  case (Cons i q)
  show ?case
  proof (cases "length p < w")
    case True
    obtain q1 p1 sent1 where d: "drain w q (map_put (qi_id i) i p) = (q1, p1, sent1)"
      using prod_cases3 by blast
    then show ?thesis
      using Cons.IH [OF d] Cons.prems True by auto
  next
    case False
    then show ?thesis
      using Cons.prems by simp
  qed
qed

lemma length_map_put: "length (map_put k v m) \<le> Suc (length m)"
  by (induction k v m rule: map_put.induct) auto

lemma length_map_erase: "length (map_erase k m) \<le> length m"
  by (induction k m rule: map_erase.induct) auto

lemma drain_window:
  "drain w q p = (q', p', sent) \<Longrightarrow>
     length p' \<le> max (length p) w \<and> (q' \<noteq> [] \<longrightarrow> w \<le> length p')"
proof (induction q arbitrary: p q' p' sent)
  case Nil
  then show ?case by simp
next
  case (Cons i q)
  show ?case
  proof (cases "length p < w")
    case True
    obtain q1 p1 sent1 where d: "drain w q (map_put (qi_id i) i p) = (q1, p1, sent1)"
      using prod_cases3 by blast
    then show ?thesis
      using Cons.IH [OF d] Cons.prems True length_map_put [of "qi_id i" i p] by auto
  next
    case False
    then show ?thesis
      using Cons.prems by auto
  qed
qed

section \<open>The books of a fetcher\<close>

definition waiting :: "('i, 'd, 'k) fetcher \<Rightarrow> ('i, 'k) queued_interest multiset" where
  "waiting f = mset (f_interestQueue f)"

definition under_way :: "('i, 'd, 'k) fetcher \<Rightarrow> ('i, 'k) queued_interest multiset" where
  "under_way f = image_mset snd (mset (f_pendingInterests f)) +
     image_mset fst (mset (f_validating f)) + mset (f_scheduled f)"

text \<open>The requests not yet concluded, by their callbacks.\<close>

definition open_requests :: "('i, 'd, 'k) fetcher \<Rightarrow> 'k multiset" where
  "open_requests f = image_mset qi_callbacks (waiting f + under_way f)"

text \<open>The callbacks that were called, and the Interests that were sent.\<close>

fun conclusion :: "('i, 'd, 'k) fetch_output \<Rightarrow> 'k multiset" where
  "conclusion (Expressed i) = {#}"
| "conclusion (Satisfied k d) = {#k#}"
| "conclusion (Nacked k) = {#k#}"
| "conclusion (TimedOut k) = {#k#}"
| "conclusion (ValidationFailed k d) = {#k#}"

fun sends :: "('i, 'd, 'k) fetch_output \<Rightarrow> nat" where
  "sends (Expressed i) = 1"
| "sends _ = 0"

definition concluded :: "('i, 'd, 'k) fetch_output list \<Rightarrow> 'k multiset" where
  "concluded out = (\<Sum>x\<leftarrow>out. conclusion x)"

definition sent_count :: "('i, 'd, 'k) fetch_output list \<Rightarrow> nat" where
  "sent_count out = (\<Sum>x\<leftarrow>out. sends x)"

text \<open>How often an entry may still be sent again, and the Interests a fetcher may still send.\<close>

definition retries_left :: "('i, 'k) queued_interest \<Rightarrow> nat" where
  "retries_left qi = nat (qi_nRetries qi) + nat (qi_nRetriesOnValidationFail qi)"

definition budget :: "('i, 'd, 'k) fetcher \<Rightarrow> nat" where
  "budget f = (\<Sum>qi\<in>#waiting f. Suc (retries_left qi)) + (\<Sum>qi\<in>#under_way f. retries_left qi)"

lemmas book_defs = open_requests_def waiting_def under_way_def budget_def

lemma concluded_simps [simp]:
  "concluded [] = {#}" "concluded (xs @ ys) = concluded xs + concluded ys"
  "concluded (x # xs) = conclusion x + concluded xs"
  by (simp_all add: concluded_def)

lemma sent_count_simps [simp]:
  "sent_count [] = 0" "sent_count (xs @ ys) = sent_count xs + sent_count ys"
  "sent_count (x # xs) = sends x + sent_count xs"
  by (simp_all add: sent_count_def)

lemma expressed_books [simp]:
  "concluded (map (\<lambda>i. Expressed (qi_interest i)) qs) = {#}"
  "sent_count (map (\<lambda>i. Expressed (qi_interest i)) qs) = length qs"
  by (induction qs) auto

section \<open>Invariant\<close>

definition ids_ok :: "('i, 'd, 'k) fetcher \<Rightarrow> bool" where
  "ids_ok f \<longleftrightarrow>
     map_ok (f_pendingInterests f) \<and>
     (\<forall>(k, qi) \<in> set (f_pendingInterests f). k = qi_id qi \<and> k \<le> f_interestIdCounter f) \<and>
     distinct (map qi_id (f_interestQueue f)) \<and>
     (\<forall>qi \<in> set (f_interestQueue f).
        qi_id qi \<le> f_interestIdCounter f \<and> qi_id qi \<notin> fst ` set (f_pendingInterests f)) \<and>
     1 \<le> f_windowSize f \<and> f_alive f"

definition window_used :: "('i, 'd, 'k) fetcher \<Rightarrow> bool" where
  "window_used f \<longleftrightarrow>
     f_interestQueue f = [] \<or> unat (f_windowSize f) \<le> length (f_pendingInterests f)"

lemma mset_map_put: "k \<notin> fst ` set m \<Longrightarrow> mset (map_put k v m) = add_mset (k, v) (mset m)"
  by (induction k v m rule: map_put.induct) (auto simp: add_mset_commute)

lemma mset_map_erase: "map_ok m \<Longrightarrow> (k, v) \<in> set m \<Longrightarrow> mset m = add_mset (k, v) (mset (map_erase k m))"
  by (induction k m rule: map_erase.induct) (force simp: add_mset_commute)+

lemma pending_after:
  assumes "map_ok p" and "\<forall>(k, qi) \<in> set p. k = qi_id qi \<and> k \<le> c"
    and "distinct (map qi_id sent)" and "\<forall>qi \<in> set sent. qi_id qi \<le> c \<and> qi_id qi \<notin> fst ` set p"
  shows "map_ok (fold (\<lambda>i. map_put (qi_id i) i) sent p) \<and>
    (\<forall>(k, qi) \<in> set (fold (\<lambda>i. map_put (qi_id i) i) sent p). k = qi_id qi \<and> k \<le> c) \<and>
    fst ` set (fold (\<lambda>i. map_put (qi_id i) i) sent p) = fst ` set p \<union> qi_id ` set sent \<and>
    mset (fold (\<lambda>i. map_put (qi_id i) i) sent p) = mset p + mset (map (\<lambda>i. (qi_id i, i)) sent)"
  using assms
proof (induction sent arbitrary: p)
  case Nil
  then show ?case by simp
next
  case (Cons i sent)
  let ?p = "map_put (qi_id i) i p"
  have m: "mset ?p = add_mset (qi_id i, i) (mset p)"
    using Cons.prems(4) by (intro mset_map_put) simp
  then have s: "set ?p = insert (qi_id i, i) (set p)"
    by (metis set_mset_add_mset_insert set_mset_mset)
  have "map_ok (fold (\<lambda>i. map_put (qi_id i) i) sent ?p) \<and>
    (\<forall>(k, qi) \<in> set (fold (\<lambda>i. map_put (qi_id i) i) sent ?p). k = qi_id qi \<and> k \<le> c) \<and>
    fst ` set (fold (\<lambda>i. map_put (qi_id i) i) sent ?p) = fst ` set ?p \<union> qi_id ` set sent \<and>
    mset (fold (\<lambda>i. map_put (qi_id i) i) sent ?p) = mset ?p + mset (map (\<lambda>i. (qi_id i, i)) sent)"
    using Cons.prems by (intro Cons.IH) (auto simp: s, metis imageI)
  then show ?case
    by (simp add: m s)
qed

lemma processQueue_books:
  assumes "ids_ok f" and "processQueue f = (f', out)"
  shows "ids_ok f' \<and> window_used f' \<and> open_requests f' = open_requests f \<and>
    budget f' + sent_count out = budget f \<and> concluded out = {#} \<and>
    set_mset (waiting f' + under_way f') = set_mset (waiting f + under_way f)"
proof -
  let ?w = "unat (f_windowSize f)" and ?q = "f_interestQueue f" and ?p = "f_pendingInterests f"
  obtain q p sent where d: "drain ?w ?q ?p = (q, p, sent)"
    using prod_cases3 by blast
  then have f': "f' = f\<lparr>f_interestQueue := q, f_pendingInterests := p\<rparr>"
    and out: "out = map (\<lambda>i. Expressed (qi_interest i)) sent"
    using assms(2) by (simp_all add: processQueue_def)
  have q: "?q = sent @ q" and p: "p = fold (\<lambda>i. map_put (qi_id i) i) sent ?p"
    using drain_split [OF d] by blast+
  have after: "map_ok p \<and> (\<forall>(k, qi) \<in> set p. k = qi_id qi \<and> k \<le> f_interestIdCounter f) \<and>
      fst ` set p = fst ` set ?p \<union> qi_id ` set sent \<and>
      mset p = mset ?p + mset (map (\<lambda>i. (qi_id i, i)) sent)"
    unfolding p using assms(1) by (intro pending_after) (auto simp: ids_ok_def q)
  have "window_used f'"
    using drain_window [OF d] by (auto simp: f' window_used_def)
  moreover have "ids_ok f'"
    using assms(1) after by (auto simp: ids_ok_def f' q)
  moreover have pend: "image_mset snd (mset p) = image_mset snd (mset ?p) + mset sent"
    using after by (simp add: image_mset.compositionality comp_def)
  have "open_requests f' = open_requests f"
    by (simp add: book_defs f' q pend)
  moreover have "(\<Sum>qi\<in>#mset sent. Suc (retries_left qi)) =
      length sent + (\<Sum>qi\<in>#mset sent. retries_left qi)"
    by (induction sent) auto
  then have "budget f' + sent_count out = budget f"
    by (simp add: book_defs f' q pend out)
  moreover have "waiting f' + under_way f' = waiting f + under_way f"
    by (simp add: book_defs f' q pend)
  ultimately show ?thesis
    by (simp add: out)
qed

text \<open>
  One step's entry in the books: the callbacks \<open>cs\<close> it opens, the Interests \<open>k\<close> it may send
  beyond those provided for.
\<close>

definition books_step ::
    "('i, 'd, 'k) fetcher \<Rightarrow> 'k multiset \<Rightarrow> nat \<Rightarrow> ('i, 'd, 'k) fetch_result \<Rightarrow> bool" where
  "books_step f cs k r \<longleftrightarrow>
     ids_ok (fst r) \<and> window_used (fst r) \<and>
     open_requests (fst r) + concluded (snd r) = open_requests f + cs \<and>
     budget (fst r) + sent_count (snd r) \<le> budget f + k"

lemma processQueue_step: "ids_ok f \<Longrightarrow> books_step f {#} 0 (processQueue f)"
  using processQueue_books [of f] by (cases "processQueue f") (simp add: books_step_def)

lemma ids_push:
  assumes "ids_ok f" and "f_interestIdCounter f \<noteq> - 1"
  shows "ids_ok (f\<lparr>f_interestIdCounter := f_interestIdCounter f + 1,
    f_interestQueue := f_interestQueue f @ [qi\<lparr>qi_id := f_interestIdCounter f + 1\<rparr>]\<rparr>)"
proof -
  have "f_interestIdCounter f < f_interestIdCounter f + 1"
    using assms(2) u64_succ_unat [of "f_interestIdCounter f" "- 1"]
    by (simp add: word_less_nat_alt word_order.not_eq_extremum)
  then show ?thesis
    using assms(1) by (force simp: ids_ok_def)
qed

lemma push_interest_step:
  assumes "ids_ok f" and "f_interestIdCounter f \<noteq> - 1"
  shows "books_step f {#qi_callbacks qi#} (Suc (retries_left qi)) (push_interest qi f)"
proof -
  let ?i = "f_interestIdCounter f + 1"
  let ?f = "f\<lparr>f_interestIdCounter := ?i,
      f_interestQueue := f_interestQueue f @ [qi\<lparr>qi_id := ?i\<rparr>]\<rparr>"
  have "ids_ok ?f"
    using assms(1,2) by (rule ids_push)
  from processQueue_step [OF this] have "books_step ?f {#} 0 (push_interest qi f)"
    by (simp add: push_interest_def Let_def)
  moreover have "open_requests ?f = open_requests f + {#qi_callbacks qi#}"
    and "budget ?f = budget f + Suc (retries_left qi)"
    by (simp_all add: book_defs retries_left_def)
  ultimately show ?thesis
    by (simp add: books_step_def)
qed

lemma erase_books:
  assumes "ids_ok f" and "(qi_id qi, qi) \<in> set (f_pendingInterests f)"
  shows "ids_ok (f_erase qi f)"
    and "open_requests f = open_requests (f_erase qi f) + {#qi_callbacks qi#}"
    and "budget f = budget (f_erase qi f) + retries_left qi"
proof -
  have "mset (f_pendingInterests f) =
      add_mset (qi_id qi, qi) (mset (map_erase (qi_id qi) (f_pendingInterests f)))"
    using assms by (intro mset_map_erase) (auto simp: ids_ok_def)
  then show "open_requests f = open_requests (f_erase qi f) + {#qi_callbacks qi#}"
    and "budget f = budget (f_erase qi f) + retries_left qi"
    by (simp_all add: book_defs f_erase_def)
  have "set (map_erase (qi_id qi) (f_pendingInterests f)) \<subseteq> set (f_pendingInterests f)"
    by (rule set_map_erase_subset)
  then show "ids_ok (f_erase qi f)"
    using assms(1) by (fastforce simp: ids_ok_def f_erase_def)
qed

text \<open>Entries whose requests gave both a non-negative number of retries and all callbacks.\<close>

definition entries_ok :: "('i, 'd, 'k) fetcher \<Rightarrow> bool" where
  "entries_ok f \<longleftrightarrow>
     (\<forall>qi \<in># waiting f + under_way f. 0 \<le> qi_nRetries qi \<and> qi_hasValidationFailed qi)"

definition request_ok :: "('i, 'k) fetch_request \<Rightarrow> bool" where
  "request_ok r \<longleftrightarrow> 0 \<le> fr_nRetries r \<and> fr_hasValidationFailed r"

lemma f_onNack_step:
  assumes "ids_ok f" and "(qi_id qi, qi) \<in> set (f_pendingInterests f)"
  shows "books_step f {#} 0 (f_onNack qi f)"
  using erase_books [OF assms] processQueue_step [OF erase_books(1) [OF assms]]
  by (auto simp: books_step_def f_onNack_def split_beta)

lemma f_onData_step:
  assumes "ids_ok f" and "(qi_id qi, qi) \<in> set (f_pendingInterests f)"
  shows "books_step f {#} 0 (f_onData data qi f)"
proof -
  obtain g out where g: "processQueue (f_erase qi f) = (g, out)"
    by fastforce
  have b: "books_step (f_erase qi f) {#} 0 (g, out)"
    using processQueue_step [OF erase_books(1) [OF assms]] by (simp add: g)
  let ?g = "g\<lparr>f_validating := f_validating g @ [(qi, data)]\<rparr>"
  have "open_requests ?g = open_requests g + {#qi_callbacks qi#}"
    "budget ?g = budget g + retries_left qi"
    by (simp_all add: book_defs)
  moreover have "ids_ok g \<Longrightarrow> ids_ok ?g" "window_used g \<Longrightarrow> window_used ?g"
    by (simp_all add: ids_ok_def window_used_def)
  ultimately show ?thesis
    using b erase_books(2,3) [OF assms] by (auto simp: books_step_def f_onData_def g)
qed

lemma f_onTimeout_step:
  assumes "ids_ok f" and pend: "(qi_id qi, qi) \<in> set (f_pendingInterests f)"
    and "f_interestIdCounter f \<noteq> - 1" and "entries_ok f"
  shows "books_step f {#} 0 (f_onTimeout refreshNonce qi f)"
proof -
  note e = erase_books [OF assms(1,2)]
  show ?thesis
  proof (cases "qi_nRetries qi = 0")
    case True
    then show ?thesis
      using e processQueue_step [OF e(1)] by (auto simp: books_step_def f_onTimeout_def split_beta Let_def)
  next
    case False
    have "qi \<in># under_way f"
      using pend by (force simp: under_way_def)
    then have "0 \<le> qi_nRetries qi"
      using assms(4) by (simp add: entries_ok_def)
    then have "0 < qi_nRetries qi"
      using False by simp
    then have "Suc (nat (qi_nRetries qi - 1)) = nat (qi_nRetries qi)"
      by simp
    moreover have "f_interestIdCounter (f_erase qi f) \<noteq> - 1"
      using assms(3) by (simp add: f_erase_def)
    note push_interest_step [OF e(1) this, of "qi\<lparr>qi_nRetries := qi_nRetries qi - 1,
        qi_interest := refreshNonce (qi_interest qi)\<rparr>"]
    ultimately show ?thesis
      using False e by (simp add: books_step_def f_onTimeout_def f_reexpress_def retries_left_def Let_def)
  qed
qed

lemma validation_books:
  assumes "ids_ok f" and "(qi, data) \<in> set (f_validating f)"
  defines "g \<equiv> f\<lparr>f_validating := remove1 (qi, data) (f_validating f)\<rparr>"
  shows "ids_ok g" and "open_requests f = open_requests g + {#qi_callbacks qi#}"
    and "budget f = budget g + retries_left qi" and "window_used f \<Longrightarrow> window_used g"
proof -
  obtain M where "mset (f_validating f) = add_mset (qi, data) M"
    using assms(2) by (metis multi_member_split set_mset_mset)
  then show "open_requests f = open_requests g + {#qi_callbacks qi#}"
    and "budget f = budget g + retries_left qi"
    by (simp_all add: book_defs g_def)
  show "ids_ok g" using assms(1) by (simp add: ids_ok_def g_def)
  show "window_used f \<Longrightarrow> window_used g" by (simp add: window_used_def g_def)
qed

lemma scheduled_books:
  assumes "ids_ok f" and "qi \<in> set (f_scheduled f)"
  defines "g \<equiv> f\<lparr>f_scheduled := remove1 qi (f_scheduled f)\<rparr>"
  shows "ids_ok g" and "open_requests f = open_requests g + {#qi_callbacks qi#}"
    and "budget f = budget g + retries_left qi"
proof -
  obtain M where "mset (f_scheduled f) = add_mset qi M"
    using assms(2) by (metis multi_member_split set_mset_mset)
  then show "open_requests f = open_requests g + {#qi_callbacks qi#}"
    and "budget f = budget g + retries_left qi"
    by (simp_all add: book_defs g_def)
  show "ids_ok g" using assms(1) by (simp add: ids_ok_def g_def)
qed

lemma f_onDataValidated_step:
  assumes "ids_ok f" and "window_used f" and "(qi, data) \<in> set (f_validating f)"
  shows "books_step f {#} 0 (f_onDataValidated qi data f)"
proof -
  have "f_alive f"
    using assms(1) by (simp add: ids_ok_def)
  then show ?thesis
    using validation_books [OF assms(1,3)] assms(2)
    by (simp add: books_step_def f_onDataValidated_def)
qed

lemma f_onValidationFailed_step:
  assumes "ids_ok f" and "window_used f" and mem: "(qi, data) \<in> set (f_validating f)"
    and "entries_ok f"
  shows "books_step f {#} 0 (f_onValidationFailed qi data f)"
proof -
  let ?g = "f\<lparr>f_validating := remove1 (qi, data) (f_validating f)\<rparr>"
  let ?h = "?g\<lparr>f_scheduled := f_scheduled ?g @ [qi]\<rparr>"
  have "f_alive f"
    using assms(1) by (simp add: ids_ok_def)
  moreover have "qi \<in># under_way f"
    using mem by (force simp: under_way_def)
  then have "qi_hasValidationFailed qi"
    using assms(4) by (simp add: entries_ok_def)
  moreover have "open_requests ?h = open_requests ?g + {#qi_callbacks qi#}"
    "budget ?h = budget ?g + retries_left qi"
    by (simp_all add: book_defs)
  moreover have "ids_ok ?g \<Longrightarrow> ids_ok ?h" "window_used ?g \<Longrightarrow> window_used ?h"
    by (simp_all add: ids_ok_def window_used_def)
  ultimately show ?thesis
    using validation_books [OF assms(1) mem] assms(2)
    by (simp add: books_step_def f_onValidationFailed_def Let_def)
qed

lemma f_retry_step:
  assumes "ids_ok f" and "f_interestIdCounter f \<noteq> - 1" and "qi \<in> set (f_scheduled f)"
    and "0 < qi_nRetriesOnValidationFail qi"
  shows "books_step f {#} 0 (f_retry refreshNonce qi f)"
proof -
  note s = scheduled_books [OF assms(1,3)]
  have "Suc (nat (qi_nRetriesOnValidationFail qi - 1)) = nat (qi_nRetriesOnValidationFail qi)"
    using assms(4) by simp
  moreover have "f_alive f"
    using assms(1) by (simp add: ids_ok_def)
  moreover have "f_interestIdCounter (f\<lparr>f_scheduled := remove1 qi (f_scheduled f)\<rparr>) \<noteq> - 1"
    using assms(2) by simp
  note push_interest_step [OF s(1) this, of "qi\<lparr>
      qi_nRetriesOnValidationFail := qi_nRetriesOnValidationFail qi - 1,
      qi_interest := refreshNonce (qi_interest qi)\<rparr>"]
  ultimately show ?thesis
    using s by (simp add: books_step_def f_retry_def f_reexpress_def retries_left_def Let_def)
qed

text \<open>A retry is scheduled only for an entry that has one left.\<close>

definition scheduled_ok :: "('i, 'd, 'k) fetcher \<Rightarrow> bool" where
  "scheduled_ok f \<longleftrightarrow> (\<forall>qi \<in> set (f_scheduled f). 0 < qi_nRetriesOnValidationFail qi)"

lemma processQueue_frame:
  "f_scheduled (fst (processQueue f)) = f_scheduled f"
  "f_validating (fst (processQueue f)) = f_validating f"
  "f_interestIdCounter (fst (processQueue f)) = f_interestIdCounter f"
  "f_windowSize (fst (processQueue f)) = f_windowSize f"
  "f_nRetriesOnValidationFail (fst (processQueue f)) = f_nRetriesOnValidationFail f"
  "f_hasValidator (fst (processQueue f)) = f_hasValidator f"
  by (simp_all add: processQueue_def split_beta Let_def)

lemma entries_processQueue:
  assumes "ids_ok f"
  shows "entries_ok (fst (processQueue f)) = entries_ok f"
  using processQueue_books [OF assms, of "fst (processQueue f)" "snd (processQueue f)"]
  by (simp add: entries_ok_def)

lemma entries_push:
  assumes "ids_ok f" and "f_interestIdCounter f \<noteq> - 1" and "entries_ok f"
    and "0 \<le> qi_nRetries qi" and "qi_hasValidationFailed qi"
  shows "entries_ok (fst (push_interest qi f))"
proof -
  let ?i = "f_interestIdCounter f + 1"
  let ?f = "f\<lparr>f_interestIdCounter := ?i,
      f_interestQueue := f_interestQueue f @ [qi\<lparr>qi_id := ?i\<rparr>]\<rparr>"
  have "ids_ok ?f"
    using assms(1,2) by (rule ids_push)
  moreover have "entries_ok ?f"
    using assms(3-) by (auto simp: entries_ok_def waiting_def under_way_def)
  ultimately show ?thesis
    using entries_processQueue [of ?f] by (simp add: push_interest_def Let_def)
qed

lemma entries_subset:
  "entries_ok f \<Longrightarrow> set_mset (waiting g + under_way g) \<subseteq> set_mset (waiting f + under_way f) \<Longrightarrow>
    entries_ok g"
  by (meson entries_ok_def subsetD)

lemma entries_erase: "entries_ok f \<Longrightarrow> entries_ok (f_erase qi f)"
proof (erule entries_subset)
  show "set_mset (waiting (f_erase qi f) + under_way (f_erase qi f)) \<subseteq>
      set_mset (waiting f + under_way f)"
    using image_mono [OF set_map_erase_subset [of "qi_id qi" "f_pendingInterests f"], of snd]
    by (auto simp: f_erase_def waiting_def under_way_def)
qed

lemma entries_drop_validating:
  "entries_ok f \<Longrightarrow> entries_ok (f\<lparr>f_validating := remove1 x (f_validating f)\<rparr>)"
proof (erule entries_subset)
  show "set_mset (waiting (f\<lparr>f_validating := remove1 x (f_validating f)\<rparr>) +
      under_way (f\<lparr>f_validating := remove1 x (f_validating f)\<rparr>)) \<subseteq>
      set_mset (waiting f + under_way f)"
    using image_mono [OF set_remove1_subset [of x "f_validating f"], of fst]
    by (auto simp: waiting_def under_way_def simp del: mset_remove1)
qed

lemma entries_drop_scheduled:
  "entries_ok f \<Longrightarrow> entries_ok (f\<lparr>f_scheduled := remove1 qi (f_scheduled f)\<rparr>)"
proof (erule entries_subset)
  show "set_mset (waiting (f\<lparr>f_scheduled := remove1 qi (f_scheduled f)\<rparr>) +
      under_way (f\<lparr>f_scheduled := remove1 qi (f_scheduled f)\<rparr>)) \<subseteq>
      set_mset (waiting f + under_way f)"
    using set_remove1_subset [of qi "f_scheduled f"]
    by (auto simp: waiting_def under_way_def simp del: mset_remove1)
qed

lemmas entries_drop = entries_drop_validating entries_drop_scheduled

section \<open>Runs\<close>

text \<open>What every state of a run satisfies.\<close>

definition fetcher_ok :: "int \<Rightarrow> ('i, 'd, 'k) fetcher \<Rightarrow> bool" where
  "fetcher_ok vfRetries f \<longleftrightarrow> ids_ok f \<and> window_used f \<and> entries_ok f \<and> scheduled_ok f \<and>
     f_nRetriesOnValidationFail f = vfRetries"

definition request_budget :: "int \<Rightarrow> ('i, 'k) fetch_request \<Rightarrow> nat" where
  "request_budget vfRetries r = Suc (nat (fr_nRetries r) + nat vfRetries)"

lemma fetch_step_frame:
  assumes "fetch_step refreshNonce f rs r" and "scheduled_ok f"
  shows "scheduled_ok (fst r) \<and>
    f_nRetriesOnValidationFail (fst r) = f_nRetriesOnValidationFail f \<and>
    (f_interestIdCounter (fst r) = f_interestIdCounter f \<or>
     f_interestIdCounter (fst r) = f_interestIdCounter f + 1)"
  using assms
  by cases
    (auto simp: f_expressInterest_def f_reexpress_def push_interest_def f_setWindowSize_def
      f_onData_def f_onNack_def f_onTimeout_def f_onDataValidated_def f_onValidationFailed_def
      f_retry_def f_erase_def scheduled_ok_def processQueue_frame split_beta Let_def
      dest: set_remove1_subset [THEN subsetD])

lemma fetch_step_books:
  assumes step: "fetch_step refreshNonce f rs r" and ok: "fetcher_ok vfRetries f"
    and wrap: "f_interestIdCounter f \<noteq> - 1"
  shows "books_step f (mset (map fr_callbacks rs)) (\<Sum>r\<leftarrow>rs. request_budget vfRetries r) r"
proof -
  have "ids_ok f" "window_used f" "entries_ok f" "scheduled_ok f"
    "f_nRetriesOnValidationFail f = vfRetries"
    using ok by (simp_all add: fetcher_ok_def)
  note ok = this
  show ?thesis
    using step
  proof cases
    case (step_express r)
    show ?thesis
      using push_interest_step [OF ok(1) wrap, of "\<lparr>qi_id = 0, qi_interest = fr_interest r,
          qi_callbacks = fr_callbacks r, qi_nRetries = fr_nRetries r,
          qi_nRetriesOnValidationFail = vfRetries,
          qi_hasValidationFailed = fr_hasValidationFailed r\<rparr>"] ok(5)
      by (simp add: step_express f_expressInterest_def request_budget_def retries_left_def)
  next
    case (step_window w)
    have "ids_ok (f\<lparr>f_windowSize := max 1 w\<rparr>)"
      using ok(1) by (simp add: ids_ok_def)
    from processQueue_step [OF this] show ?thesis
      by (simp add: step_window f_setWindowSize_def books_step_def book_defs)
  next
    case (step_data qi data)
    then show ?thesis
      using f_onData_step [OF ok(1) step_data(3)] by simp
  next
    case (step_nack qi)
    then show ?thesis
      using f_onNack_step [OF ok(1) step_nack(3)] by simp
  next
    case (step_timeout qi)
    then show ?thesis
      using f_onTimeout_step [OF ok(1) step_timeout(3) wrap ok(3)] by simp
  next
    case (step_validated qi data)
    then show ?thesis
      using f_onDataValidated_step [OF ok(1,2) step_validated(3)] by simp
  next
    case (step_refused qi data)
    then show ?thesis
      using f_onValidationFailed_step [OF ok(1,2) step_refused(3) ok(3)] by simp
  next
    case (step_retry qi)
    then have "0 < qi_nRetriesOnValidationFail qi"
      using ok(4) by (simp add: scheduled_ok_def)
    then show ?thesis
      using step_retry f_retry_step [OF ok(1) wrap step_retry(3)] by simp
  qed
qed

lemma entries_processQueue_erase:
  assumes "ids_ok f" and "(qi_id qi, qi) \<in> set (f_pendingInterests f)" and "entries_ok f"
  shows "entries_ok (fst (processQueue (f_erase qi f)))"
  using entries_processQueue [OF erase_books(1) [OF assms(1,2)]] entries_erase [OF assms(3)] by simp

lemma pending_entry:
  assumes "entries_ok f" and "(qi_id qi, qi) \<in> set (f_pendingInterests f)"
  shows "0 \<le> qi_nRetries qi" and "qi_hasValidationFailed qi"
proof -
  have "qi \<in># under_way f"
    using assms(2) by (force simp: under_way_def)
  then show "0 \<le> qi_nRetries qi" and "qi_hasValidationFailed qi"
    using assms(1) by (simp_all add: entries_ok_def)
qed

lemma entries_keep:
  assumes "entries_ok f" and "qi \<in># under_way f"
  shows "entries_ok (f\<lparr>f_validating := f_validating f @ [(qi, data)]\<rparr>)"
    and "entries_ok (f\<lparr>f_scheduled := f_scheduled f @ [qi]\<rparr>)"
  using assms by (auto simp: entries_ok_def waiting_def under_way_def)

lemma fetch_step_entries:
  assumes step: "fetch_step refreshNonce f rs r" and ok: "fetcher_ok vfRetries f"
    and wrap: "f_interestIdCounter f \<noteq> - 1" and rs: "\<forall>r \<in> set rs. request_ok r"
  shows "entries_ok (fst r)"
proof -
  have ok: "ids_ok f" "entries_ok f"
    using ok by (simp_all add: fetcher_ok_def)
  show ?thesis
    using step
  proof cases
    case (step_express r)
    then show ?thesis
      using entries_push [OF ok(1) wrap ok(2)] rs by (simp add: f_expressInterest_def request_ok_def)
  next
    case (step_window w)
    have w: "ids_ok (f\<lparr>f_windowSize := max 1 w\<rparr>)"
      using ok by (simp add: ids_ok_def)
    have "entries_ok (f\<lparr>f_windowSize := max 1 w\<rparr>)"
      using ok by (simp add: entries_ok_def waiting_def under_way_def)
    then show ?thesis
      using entries_processQueue [OF w] step_window by (simp add: f_setWindowSize_def)
  next
    case (step_data qi data)
    let ?g = "fst (processQueue (f_erase qi f))"
    have g: "entries_ok ?g"
      using entries_processQueue_erase [OF ok(1) step_data(3) ok(2)] .
    then have "entries_ok (?g\<lparr>f_validating := f_validating ?g @ [(qi, data)]\<rparr>)"
      using pending_entry [OF ok(2) step_data(3)]
      by (auto simp: entries_ok_def waiting_def under_way_def)
    then show ?thesis
      using g step_data by (simp add: f_onData_def split_beta Let_def)
  next
    case (step_nack qi)
    then show ?thesis
      using entries_processQueue_erase [OF ok(1) step_nack(3) ok(2)]
      by (simp add: f_onNack_def split_beta Let_def)
  next
    case (step_timeout qi)
    note e = erase_books(1) [OF ok(1) step_timeout(3)]
    have w: "f_interestIdCounter (f_erase qi f) \<noteq> - 1"
      using wrap by (simp add: f_erase_def)
    show ?thesis
      using entries_processQueue_erase [OF ok(1) step_timeout(3) ok(2)] step_timeout(2)
        pending_entry [OF ok(2) step_timeout(3)]
        entries_push [OF e w entries_erase [OF ok(2)], of "qi\<lparr>qi_nRetries := qi_nRetries qi - 1,
          qi_interest := refreshNonce (qi_interest qi)\<rparr>"]
      by (auto simp: f_onTimeout_def f_reexpress_def split_beta Let_def)
  next
    case (step_validated qi data)
    then show ?thesis
      using entries_drop(1) [OF ok(2)] by (simp add: f_onDataValidated_def)
  next
    case (step_refused qi data)
    have "qi \<in># under_way f"
      using step_refused(3) by (force simp: under_way_def)
    then have "0 \<le> qi_nRetries qi \<and> qi_hasValidationFailed qi"
      using ok(2) by (simp add: entries_ok_def)
    then have "entries_ok (f\<lparr>f_validating := remove1 (qi, data) (f_validating f),
        f_scheduled := f_scheduled f @ [qi]\<rparr>)"
      using entries_drop(1) [OF ok(2), of "(qi, data)"]
      by (auto simp: entries_ok_def waiting_def under_way_def simp del: mset_remove1)
    then show ?thesis
      using step_refused(2) entries_drop(1) [OF ok(2)]
      by (simp add: f_onValidationFailed_def Let_def)
  next
    case (step_retry qi)
    have "qi \<in># under_way f"
      using step_retry(3) by (simp add: under_way_def)
    then have "0 \<le> qi_nRetries qi \<and> qi_hasValidationFailed qi"
      using ok(2) by (simp add: entries_ok_def)
    moreover have w: "f_interestIdCounter (f\<lparr>f_scheduled := remove1 qi (f_scheduled f)\<rparr>) \<noteq> - 1"
      using wrap by simp
    ultimately show ?thesis
      using step_retry(2) entries_drop(2) [OF ok(2), of qi]
        entries_push [OF scheduled_books(1) [OF ok(1) step_retry(3)] w entries_drop(2) [OF ok(2)],
          of "qi\<lparr>qi_nRetriesOnValidationFail := qi_nRetriesOnValidationFail qi - 1,
            qi_interest := refreshNonce (qi_interest qi)\<rparr>"]
      by (simp add: f_retry_def f_reexpress_def Let_def)
  qed
qed

lemma fetch_run_books:
  assumes "fetch_run refreshNonce hasValidator vfRetries n rs out f" and "n < 2 ^ 64"
    and "\<forall>r \<in> set rs. request_ok r"
  shows "fetcher_ok vfRetries f \<and> unat (f_interestIdCounter f) \<le> n \<and>
    open_requests f + concluded out = mset (map fr_callbacks rs) \<and>
    budget f + sent_count out \<le> (\<Sum>r\<leftarrow>rs. request_budget vfRetries r)"
  using assms
proof (induction rule: fetch_run.induct)
  case run_new
  then show ?case
    by (simp add: fetcher_ok_def fetcher_new_def ids_ok_def window_used_def entries_ok_def
        scheduled_ok_def book_defs)
next
  case (run_step n rs out f rs' f' out')
  have IH: "fetcher_ok vfRetries f" "unat (f_interestIdCounter f) \<le> n"
    "open_requests f + concluded out = mset (map fr_callbacks rs)"
    "budget f + sent_count out \<le> (\<Sum>r\<leftarrow>rs. request_budget vfRetries r)"
    using run_step by auto
  have wrap: "f_interestIdCounter f \<noteq> - 1"
  proof
    assume "f_interestIdCounter f = - 1"
    then have "unat (f_interestIdCounter f) = 2 ^ 64 - 1"
      by (simp add: unsigned_minus_1_eq_mask mask_eq_exp_minus_1)
    then show False
      using IH(2) run_step.prems(1) by simp
  qed
  have b: "books_step f (mset (map fr_callbacks rs')) (\<Sum>r\<leftarrow>rs'. request_budget vfRetries r) (f', out')"
    by (rule fetch_step_books [OF run_step.hyps(2) IH(1) wrap])
  have e: "entries_ok f'"
    using fetch_step_entries [OF run_step.hyps(2) IH(1) wrap] run_step.prems(2) by simp
  have fr: "scheduled_ok f'" "f_nRetriesOnValidationFail f' = f_nRetriesOnValidationFail f"
    "f_interestIdCounter f' = f_interestIdCounter f \<or>
     f_interestIdCounter f' = f_interestIdCounter f + 1"
    using fetch_step_frame [OF run_step.hyps(2)] IH(1) by (simp_all add: fetcher_ok_def)
  have "unat (f_interestIdCounter f + 1) \<le> Suc (unat (f_interestIdCounter f))"
    by (metis Suc_eq_plus1 unat_1 unat_plus_if' le_add_diff_inverse2 diff_le_self nat_le_linear)
  then have "unat (f_interestIdCounter f') \<le> Suc n"
    using fr(3) IH(2) by auto
  moreover have "open_requests f' + concluded (out @ out') = mset (map fr_callbacks (rs @ rs'))"
  proof -
    have "open_requests f' + concluded (out @ out') =
        (open_requests f' + concluded out') + concluded out"
      by (simp add: ac_simps)
    also have "\<dots> = (open_requests f + concluded out) + mset (map fr_callbacks rs')"
      using b by (simp add: books_step_def ac_simps)
    finally show ?thesis
      by (simp only: IH(3) map_append mset_append)
  qed
  ultimately show ?case
    using b e fr IH by (auto simp: books_step_def fetcher_ok_def)
qed

text \<open>The Interests among the outputs, and what one step does to queue and window.\<close>

definition interests_sent :: "('i, 'd, 'k) fetch_output list \<Rightarrow> 'i list" where
  "interests_sent out = concat (map (\<lambda>x. case x of Expressed i \<Rightarrow> [i] | _ \<Rightarrow> []) out)"

lemma interests_sent_simps [simp]:
  "interests_sent [] = []" "interests_sent (xs @ ys) = interests_sent xs @ interests_sent ys"
  "interests_sent (Expressed i # xs) = i # interests_sent xs"
  "interests_sent [Satisfied k d] = []" "interests_sent [Nacked k] = []"
  "interests_sent [TimedOut k] = []" "interests_sent [ValidationFailed k d] = []"
  "interests_sent (map (\<lambda>i. Expressed (qi_interest i)) qs) = map qi_interest qs"
  by (simp_all add: interests_sent_def comp_def)

definition fifo_step ::
    "('i, 'd, 'k) fetcher \<Rightarrow> ('i, 'd, 'k) fetch_result \<Rightarrow> bool" where
  "fifo_step f r \<longleftrightarrow>
     (\<exists>sent new. f_interestQueue f @ new = sent @ f_interestQueue (fst r) \<and> length new \<le> 1 \<and>
        interests_sent (snd r) = map qi_interest sent) \<and>
     length (f_pendingInterests (fst r)) \<le>
       max (length (f_pendingInterests f)) (unat (f_windowSize (fst r)))"

lemma fifo_processQueue:
  assumes "f_interestQueue g = f_interestQueue f @ new" and "length new \<le> 1"
    and "length (f_pendingInterests g) \<le> length (f_pendingInterests f)"
  shows "fifo_step f (processQueue g)"
proof -
  obtain q p sent where d: "drain (unat (f_windowSize g)) (f_interestQueue g)
      (f_pendingInterests g) = (q, p, sent)"
    using prod_cases3 by blast
  then show ?thesis
    using drain_split [OF d] drain_window [OF d] assms
    by (auto simp: fifo_step_def processQueue_def)
qed

lemma fifo_idle:
  "f_interestQueue (fst r) = f_interestQueue f \<Longrightarrow> f_pendingInterests (fst r) = f_pendingInterests f \<Longrightarrow>
     interests_sent (snd r) = [] \<Longrightarrow> fifo_step f r"
  by (simp add: fifo_step_def)

lemma fifo_output:
  "fifo_step f (g, out) \<Longrightarrow> interests_sent out' = [] \<Longrightarrow> fifo_step f (g, out @ out')"
  by (simp add: fifo_step_def)

lemma fifo_validating:
  "fifo_step f (g, out) \<Longrightarrow> fifo_step f (g\<lparr>f_validating := xs\<rparr>, out)"
  by (simp add: fifo_step_def)

lemma fetch_step_fifo: "fetch_step refreshNonce f rs r \<Longrightarrow> fifo_step f r"
proof (induction rule: fetch_step.induct)
  case (step_express f r)
  show ?case
    unfolding f_expressInterest_def push_interest_def Let_def by (rule fifo_processQueue) auto
next
  case (step_window f w)
  show ?case
    unfolding f_setWindowSize_def by (rule fifo_processQueue [of _ _ "[]"]) auto
next
  case (step_data qi f data)
  have "fifo_step f (processQueue (f_erase qi f))"
    by (rule fifo_processQueue [of _ _ "[]"]) (auto simp: f_erase_def length_map_erase)
  then show ?case
    by (cases "processQueue (f_erase qi f)")
      (simp add: f_onData_def fifo_output fifo_validating)
next
  case (step_nack qi f)
  have "fifo_step f (processQueue (f_erase qi f))"
    by (rule fifo_processQueue [of _ _ "[]"]) (auto simp: f_erase_def length_map_erase)
  then show ?case
    by (cases "processQueue (f_erase qi f)") (simp add: f_onNack_def fifo_output)
next
  case (step_timeout qi f)
  show ?case
  proof (cases "qi_nRetries qi = 0")
    case True
    have "fifo_step f (processQueue (f_erase qi f))"
      by (rule fifo_processQueue [of _ _ "[]"]) (auto simp: f_erase_def length_map_erase)
    then show ?thesis
      using True by (cases "processQueue (f_erase qi f)") (simp add: f_onTimeout_def fifo_output)
  next
    case False
    have "fifo_step f (push_interest q (f_erase qi f))" for q
      unfolding push_interest_def Let_def
      by (rule fifo_processQueue) (auto simp: f_erase_def length_map_erase)
    then show ?thesis
      using False by (simp add: f_onTimeout_def f_reexpress_def)
  qed
next
  case (step_validated qi data f)
  show ?case
    by (rule fifo_idle) (simp_all add: f_onDataValidated_def)
next
  case (step_refused qi data f)
  show ?case
    by (rule fifo_idle) (simp_all add: f_onValidationFailed_def Let_def)
next
  case (step_retry qi f)
  have "fifo_step f (push_interest q (f\<lparr>f_scheduled := remove1 qi (f_scheduled f)\<rparr>))" for q
    unfolding push_interest_def Let_def by (rule fifo_processQueue) auto
  moreover have "fifo_step f (f\<lparr>f_scheduled := remove1 qi (f_scheduled f)\<rparr>, [])"
    by (rule fifo_idle) simp_all
  ultimately show ?case
    by (simp add: f_retry_def f_reexpress_def Let_def)
qed

text \<open>After the destructor, what is still under validation or scheduled calls and sends nothing.\<close>

lemma destroyed_silent:
  "snd (f_onDataValidated qi data (fetcher_destroy f)) = []"
  "snd (f_onValidationFailed qi data (fetcher_destroy f)) = []"
  "snd (f_retry refreshNonce qi (fetcher_destroy f)) = []"
  by (simp_all add: f_onDataValidated_def f_onValidationFailed_def f_retry_def fetcher_destroy_def
      Let_def)

section \<open>Sample input for the witnesses\<close>

text \<open>A request with one retry, sent, timed out and sent again.\<close>

definition sample_request :: "(nat, nat) fetch_request" where
  "sample_request = \<lparr>fr_interest = 7, fr_callbacks = 1, fr_nRetries = 1,
     fr_hasValidationFailed = True\<rparr>"

definition sample_entry :: "u64 \<Rightarrow> int \<Rightarrow> (nat, nat) queued_interest" where
  "sample_entry i retries = \<lparr>qi_id = i, qi_interest = 7, qi_callbacks = 1, qi_nRetries = retries,
     qi_nRetriesOnValidationFail = 0, qi_hasValidationFailed = True\<rparr>"

definition sample_fetcher :: "u64 \<Rightarrow> int \<Rightarrow> (nat, nat, nat) fetcher" where
  "sample_fetcher i retries = (fetcher_new False 0)\<lparr>f_interestIdCounter := i,
     f_pendingInterests := [(i, sample_entry i retries)]\<rparr>"

lemmas sample_fetch_eval = sample_request_def sample_entry_def sample_fetcher_def fetcher_new_def
  f_expressInterest_def f_onTimeout_def f_reexpress_def f_erase_def push_interest_def
  processQueue_def

lemma sample_fetch_steps:
  "f_expressInterest sample_request (fetcher_new False 0) = (sample_fetcher 1 1, [Expressed 7])"
  "f_onTimeout (\<lambda>i. i) (sample_entry 1 1) (sample_fetcher 1 1) = (sample_fetcher 2 0, [Expressed 7])"
  by (simp_all add: sample_fetch_eval Let_def)

lemma sample_express:
  "fetch_step (\<lambda>i. i) (fetcher_new False 0) [sample_request] (sample_fetcher 1 1, [Expressed 7])"
  using step_express [of "\<lambda>i. i" "fetcher_new False 0 :: (nat, nat, nat) fetcher" sample_request]
  by (simp add: sample_fetch_steps)

lemma sample_run_1: "fetch_run (\<lambda>i. i) False 0 1 [sample_request] [Expressed 7] (sample_fetcher 1 1)"
  using run_step [OF run_new sample_express] by simp

lemma sample_timeout: "fetch_step (\<lambda>i. i) (sample_fetcher 1 1) [] (sample_fetcher 2 0, [Expressed 7])"
  using step_timeout [of "sample_entry 1 1" "sample_fetcher 1 1" "\<lambda>i. i"]
  by (simp add: sample_fetch_steps) (simp add: sample_fetcher_def sample_entry_def)

lemma sample_run_2:
  "fetch_run (\<lambda>i. i) False 0 2 [sample_request] [Expressed 7, Expressed 7] (sample_fetcher 2 0)"
  using run_step [OF sample_run_1 sample_timeout] by (simp add: numeral_2_eq_2)

section \<open>Properties\<close>

text \<open>
  C36: no request is lost, answered twice or retried for ever. In every run, the callbacks of all
  requests are those of the requests still open (queued, pending, under validation or scheduled
  for a retry) and those called, each once; and the Interests sent never exceed one for every
  request and one for each of its retries, whatever the network and the validator do.
\<close>

theorem fetch_conservation:
  assumes "fetch_run refreshNonce hasValidator vfRetries n rs out f" and "n < 2 ^ 64"
    and "\<forall>r \<in> set rs. 0 \<le> fr_nRetries r \<and> fr_hasValidationFailed r"
  shows "mset (map fr_callbacks rs) = open_requests f + concluded out \<and>
    sent_count out \<le> (\<Sum>r\<leftarrow>rs. Suc (nat (fr_nRetries r) + nat vfRetries))"
  using fetch_run_books [OF assms(1,2)] assms(3)
  by (auto simp: request_ok_def request_budget_def [abs_def])

theorem fetch_conservation_witness:
  "open_requests (sample_fetcher 2 0) = {#1#} \<and>
   sent_count [Expressed (7 :: nat), Expressed 7 :: (nat, nat, nat) fetch_output] \<le> 2"
  using fetch_conservation [OF sample_run_2] by (simp add: sample_request_def)

text \<open>
  C37: the window is respected and never left idle, in the order of the queue. After every step of
  a run, Interests wait only while the window is full; the step sends a prefix of the queue, in
  its order, and lets the pending Interests exceed the window only as far as they did before.
\<close>

theorem fetch_window:
  assumes "fetch_run refreshNonce hasValidator vfRetries n rs out f" and "n < 2 ^ 64"
    and "\<forall>r \<in> set rs. 0 \<le> fr_nRetries r \<and> fr_hasValidationFailed r"
    and "fetch_step refreshNonce f rs' (f', out')"
  shows "(f_interestQueue f = [] \<or> unat (f_windowSize f) \<le> length (f_pendingInterests f)) \<and>
    1 \<le> f_windowSize f \<and>
    (\<exists>sent new. f_interestQueue f @ new = sent @ f_interestQueue f' \<and> length new \<le> 1 \<and>
       interests_sent out' = map qi_interest sent) \<and>
    length (f_pendingInterests f') \<le>
      max (length (f_pendingInterests f)) (unat (f_windowSize f'))"
  using fetch_run_books [OF assms(1,2)] assms(3) fetch_step_fifo [OF assms(4)]
  by (simp add: request_ok_def fetcher_ok_def window_used_def ids_ok_def fifo_step_def)

theorem fetch_window_witness:
  "length (f_pendingInterests (sample_fetcher 2 0)) \<le>
     max (length (f_pendingInterests (sample_fetcher 1 1))) 10"
  using fetch_window [OF sample_run_1 _ _ sample_timeout]
  by (simp add: sample_request_def sample_fetcher_def fetcher_new_def)

end
