(* ===== verification/Svsync_Base.thy ===== *)
theory Svsync_Base
  imports Core_Properties Fetcher
begin

text \<open>
  Publishing and serving data (\<^verbatim>\<open>svsync-base.hpp/.cpp\<close>, \<^verbatim>\<open>svsync.hpp\<close>, \<^verbatim>\<open>svsync-shared.hpp\<close>,
  \<^verbatim>\<open>store.hpp\<close>, \<^verbatim>\<open>store-memory.hpp\<close>): the data names, the store behind its virtual functions, the
  operations that sign and insert packets, one at a time or in a batch that is rolled back when
  it fails, and the serving and fetching of data.
\<close>

section \<open>The data store\<close>

text \<open>
  The virtual functions of \<^verbatim>\<open>DataStore\<close>, over a state \<open>'s\<close>. \<^verbatim>\<open>insert\<close> and \<^verbatim>\<open>erase\<close> of an
  application's store may throw.
\<close>

record ('s, 'n, 'd) data_store =
  ds_find :: "'n data_query \<Rightarrow> 's \<Rightarrow> 'd option"
  ds_insert :: "'d \<Rightarrow> 's \<Rightarrow> 's outcome"
  ds_supportsErase :: bool
  ds_erase :: "'n \<Rightarrow> 's \<Rightarrow> 's outcome"

text \<open>A store that overrides only the pure virtual functions.\<close>

definition data_store_base ::
    "('n data_query \<Rightarrow> 's \<Rightarrow> 'd option) \<Rightarrow> ('d \<Rightarrow> 's \<Rightarrow> 's outcome) \<Rightarrow> ('s, 'n, 'd) data_store" where
  "data_store_base find_op insert_op =
     \<lparr>ds_find = find_op, ds_insert = insert_op, ds_supportsErase = False,
      ds_erase = (\<lambda>_ s. (s, Some (LogicError ''DataStore exact-name erase is unsupported'')))\<rparr>"

text \<open>
  \<^verbatim>\<open>MemoryDataStore\<close> over ndn-cxx's \<^verbatim>\<open>InMemoryStoragePersistent\<close>, whose \<^verbatim>\<open>find\<close>, \<^verbatim>\<open>insert\<close> and
  \<^verbatim>\<open>erase(name, isPrefix)\<close> are parameters.
\<close>

definition memory_data_store ::
    "('n data_query \<Rightarrow> 's \<Rightarrow> 'd option) \<Rightarrow> ('d \<Rightarrow> 's \<Rightarrow> 's) \<Rightarrow> ('n \<Rightarrow> bool \<Rightarrow> 's \<Rightarrow> 's)
      \<Rightarrow> ('s, 'n, 'd) data_store" where
  "memory_data_store ims_find ims_insert ims_erase =
     \<lparr>ds_find = ims_find, ds_insert = (\<lambda>d s. (ims_insert d s, None)), ds_supportsErase = True,
      ds_erase = (\<lambda>n s. (ims_erase n False s, None))\<rparr>"

section \<open>State\<close>

text \<open>The two subclasses: \<^verbatim>\<open>SVSync\<close>, and \<^verbatim>\<open>SVSyncShared\<close> with its \<^verbatim>\<open>m_cacheAll\<close>.\<close>

datatype svsync_class = DedicatedPrefix | SharedPrefix bool

text \<open>
  The members of \<^verbatim>\<open>SVSyncBase\<close>; \<open>sb_put\<close> is the sequence of packets put on the face, \<open>'k\<close> the
  callbacks of a fetch.
\<close>

record ('n, 'b, 'd, 'i, 's, 'k) svsync =
  sb_class :: svsync_class
  sb_syncPrefix :: 'n
  sb_dataPrefix :: 'n
  sb_id :: 'n
  sb_dataStore :: 's
  sb_fetchInterestLifetime :: int
  sb_fetcher :: "('n data_query, 'd, 'k) fetcher"
  sb_core :: "('n, 'b, 'd, 'i) sync_core"
  sb_put :: "'d list"

text \<open>What the operations use from outside: the core's environment, the store, the signer, and
  whether the face refuses a packet.\<close>

record ('n, 'c, 'b, 'd, 'i, 's) base_env =
  be_core :: "('n, 'c, 'b, 'd, 'i) core_env"
  be_store :: "('s, 'n, 'd) data_store"
  be_sign :: "'d \<Rightarrow> 'd result"
  be_put :: "'d \<Rightarrow> svs_error option"

abbreviation be_ndn :: "('n, 'c, 'b, 'd, 'i, 's) base_env \<Rightarrow> ('n, 'c, 'b, 'd, 'i) ndn" where
  "be_ndn B \<equiv> ce_ndn (be_core B)"

definition MAX_NDN_PACKET_SIZE :: nat where
  "MAX_NDN_PACKET_SIZE = 8800"

text \<open>The constructors: of \<^verbatim>\<open>SVSync\<close>, with the node prefix as identity, and of \<^verbatim>\<open>SVSyncShared\<close>.\<close>

definition svsync_base_new ::
    "svsync_class \<Rightarrow> 'n \<Rightarrow> 'n \<Rightarrow> 'n \<Rightarrow> 's \<Rightarrow> ('n data_query, 'd, 'k) fetcher
      \<Rightarrow> ('n, 'b, 'd, 'i) sync_core result \<Rightarrow> ('n, 'b, 'd, 'i, 's, 'k) svsync result" where
  "svsync_base_new cls syncPrefix dataPrefix nid store fetcher core =
     res_bind core (\<lambda>core.
       Inr \<lparr>sb_class = cls, sb_syncPrefix = syncPrefix, sb_dataPrefix = dataPrefix, sb_id = nid,
         sb_dataStore = store, sb_fetchInterestLifetime = 2000, sb_fetcher = fetcher,
         sb_core = core, sb_put = []\<rparr>)"

definition svsync_new ::
    "('n, 'c, 'b, 'd, 'i) ndn \<Rightarrow> sys_clock \<Rightarrow> 'n \<Rightarrow> 'n \<Rightarrow> signer_type \<Rightarrow> signer_type \<Rightarrow> bool \<Rightarrow> int
      \<Rightarrow> 's \<Rightarrow> protocol_options \<Rightarrow> ('n, 'b, 'd, 'i, 's, 'k) svsync result" where
  "svsync_new N clk syncPrefix nodePrefix interestSigner dataSigner hasValidator vfRetries store
      protocolOptions =
     svsync_base_new DedicatedPrefix syncPrefix (nm_append N nodePrefix syncPrefix) nodePrefix store
       (fetcher_new hasValidator vfRetries)
       (core_new clk syncPrefix interestSigner dataSigner hasValidator nodePrefix protocolOptions)"

definition svsync_shared_new ::
    "('n, 'c, 'b, 'd, 'i) ndn \<Rightarrow> sys_clock \<Rightarrow> 'n \<Rightarrow> 'n \<Rightarrow> signer_type \<Rightarrow> signer_type \<Rightarrow> bool \<Rightarrow> int
      \<Rightarrow> 's \<Rightarrow> protocol_options \<Rightarrow> ('n, 'b, 'd, 'i, 's, 'k) svsync result" where
  "svsync_shared_new N clk grpPrefix nid interestSigner dataSigner hasValidator vfRetries store
      protocolOptions =
     (let syncPrefix = nm_push N grpPrefix (comp_of_string N ''s'') in
      svsync_base_new (SharedPrefix False) syncPrefix (nm_push N grpPrefix (comp_of_string N ''d''))
        nid store (fetcher_new hasValidator vfRetries)
        (core_new clk syncPrefix interestSigner dataSigner hasValidator nid protocolOptions))"

definition setCacheAll ::
    "bool \<Rightarrow> ('n, 'b, 'd, 'i, 's, 'k) svsync \<Rightarrow> ('n, 'b, 'd, 'i, 's, 'k) svsync" where
  "setCacheAll val S = S\<lparr>sb_class := SharedPrefix val\<rparr>"

section \<open>Data names\<close>

text \<open>\<^verbatim>\<open>makeDataName\<close> of the two subclasses.\<close>

definition makeDataName ::
    "('n, 'c, 'b, 'd, 'i) ndn \<Rightarrow> 'n \<Rightarrow> bootstrap_time \<Rightarrow> seq_no
      \<Rightarrow> ('n, 'b, 'd, 'i, 's, 'k) svsync \<Rightarrow> 'n" where
  "makeDataName N nid bootstrapTime seqNo S =
     (let name = (case sb_class S of
            DedicatedPrefix \<Rightarrow> nm_append N nid (sb_syncPrefix S)
          | SharedPrefix _ \<Rightarrow> nm_append N (sb_dataPrefix S) nid);
          name = (if ro_version (m_protocolOptions (sb_core S)) = V3
            then nm_push N name (comp_timestamp N bootstrapTime) else name)
      in nm_push N name (comp_seq N seqNo))"

definition getDataName ::
    "('n, 'c, 'b, 'd, 'i) ndn \<Rightarrow> 'n \<Rightarrow> seq_no \<Rightarrow> ('n, 'b, 'd, 'i, 's, 'k) svsync \<Rightarrow> 'n" where
  "getDataName N nid seqNo S = makeDataName N nid (m_bootstrapTime (sb_core S)) seqNo S"

text \<open>\<^verbatim>\<open>.appendVersion(0).appendSegment(segNo)\<close>\<close>

definition segment_name :: "('n, 'c, 'b, 'd, 'i) ndn \<Rightarrow> 'n \<Rightarrow> u64 \<Rightarrow> 'n" where
  "segment_name N name segNo =
     nm_push N (nm_push N name (comp_version N 0)) (comp_segment N segNo)"

section \<open>Inserting data\<close>

definition with_core ::
    "(('n, 'b, 'd, 'i) sync_core \<Rightarrow> ('n, 'b, 'd, 'i) sync_core outcome)
      \<Rightarrow> ('n, 'b, 'd, 'i, 's, 'k) svsync \<Rightarrow> ('n, 'b, 'd, 'i, 's, 'k) svsync outcome" where
  "with_core f S = (let (c, e) = f (sb_core S) in (S\<lparr>sb_core := c\<rparr>, e))"

definition with_store ::
    "('s \<Rightarrow> 's outcome) \<Rightarrow> ('n, 'b, 'd, 'i, 's, 'k) svsync
      \<Rightarrow> ('n, 'b, 'd, 'i, 's, 'k) svsync outcome" where
  "with_store f S = (let (s, e) = f (sb_dataStore S) in (S\<lparr>sb_dataStore := s\<rparr>, e))"

definition face_put ::
    "('n, 'c, 'b, 'd, 'i, 's) base_env \<Rightarrow> 'd \<Rightarrow> ('n, 'b, 'd, 'i, 's, 'k) svsync
      \<Rightarrow> ('n, 'b, 'd, 'i, 's, 'k) svsync outcome" where
  "face_put B data S =
     (case be_put B data of
        Some e \<Rightarrow> (S, Some e)
      | None \<Rightarrow> (S\<lparr>sb_put := sb_put S @ [data]\<rparr>, None))"

definition or_self ::
    "('n, 'c, 'b, 'd, 'i, 's) base_env \<Rightarrow> 'n \<Rightarrow> ('n, 'b, 'd, 'i, 's, 'k) svsync \<Rightarrow> 'n" where
  "or_self B nid S = (if nid \<noteq> nm_empty (be_ndn B) then nid else sb_id S)"

definition insertDataAtSeq ::
    "('n, 'c, 'b, 'd, 'i, 's) base_env \<Rightarrow> 'b \<Rightarrow> int \<Rightarrow> 'n \<Rightarrow> seq_no \<Rightarrow> u32
      \<Rightarrow> ('n, 'b, 'd, 'i, 's, 'k) svsync \<Rightarrow> ('n, 'b, 'd, 'i, 's, 'k) svsync outcome" where
  "insertDataAtSeq B content freshness nid seq contentType S =
     (let pubId = or_self B nid S;
          dataName = getDataName (be_ndn B) pubId seq S
      in case be_sign B (data_new (be_ndn B) \<lparr>da_name = dataName, da_content = PayloadBlock content,
             da_freshness = freshness, da_content_type = Some contentType, da_final_block = None\<rparr>) of
           Inl e \<Rightarrow> (S, Some e)
         | Inr data \<Rightarrow>
             and_then (with_store (ds_insert (be_store B) data) S) (face_put B data))"

definition publishDataAtSeq ::
    "('n :: linorder, 'c, 'b, 'd, 'i, 's) base_env \<Rightarrow> 'b \<Rightarrow> int \<Rightarrow> 'n \<Rightarrow> seq_no \<Rightarrow> u32
      \<Rightarrow> ('n, 'b, 'd, 'i, 's, 'k) svsync \<Rightarrow> ('n, 'b, 'd, 'i, 's, 'k) svsync outcome" where
  "publishDataAtSeq B content freshness nid seq contentType S =
     (let pubId = or_self B nid S in
      and_then (insertDataAtSeq B content freshness pubId seq contentType S)
        (with_core (updateSeqNo (be_core B) seq pubId)))"

text \<open>\<^verbatim>\<open>publishData\<close>: the number it returns, when it does not throw.\<close>

definition publishData ::
    "('n :: linorder, 'c, 'b, 'd, 'i, 's) base_env \<Rightarrow> 'b \<Rightarrow> int \<Rightarrow> 'n \<Rightarrow> u32
      \<Rightarrow> ('n, 'b, 'd, 'i, 's, 'k) svsync
      \<Rightarrow> seq_no \<times> ('n, 'b, 'd, 'i, 's, 'k) svsync outcome" where
  "publishData B content freshness nid contentType S =
     (let pubId = or_self B nid S;
          newSeq = getSeqNo (be_core B) pubId (sb_core S) + 1
      in (newSeq, publishDataAtSeq B content freshness pubId newSeq contentType S))"

text \<open>The overload for bytes, with the default content type \<^verbatim>\<open>ndn::tlv::Content\<close>.\<close>

definition publishBytes ::
    "('n :: linorder, 'c, 'b, 'd, 'i, 's) base_env \<Rightarrow> bytes \<Rightarrow> int \<Rightarrow> 'n
      \<Rightarrow> ('n, 'b, 'd, 'i, 's, 'k) svsync
      \<Rightarrow> seq_no \<times> ('n, 'b, 'd, 'i, 's, 'k) svsync outcome" where
  "publishBytes B buf freshness nid S =
     publishData B (block_with_value (be_ndn B) tlv_Content buf) freshness nid tlv_Content S"

definition insertDataSegment ::
    "('n, 'c, 'b, 'd, 'i, 's) base_env \<Rightarrow> 'b \<Rightarrow> int \<Rightarrow> 'n \<Rightarrow> seq_no \<Rightarrow> u64 \<Rightarrow> 'c \<Rightarrow> u32
      \<Rightarrow> ('n, 'b, 'd, 'i, 's, 'k) svsync \<Rightarrow> ('n, 'b, 'd, 'i, 's, 'k) svsync outcome" where
  "insertDataSegment B content freshness nid seq segNo finalBlock contentType S =
     (let dataName = segment_name (be_ndn B) (getDataName (be_ndn B) nid seq S) segNo
      in case be_sign B (data_new (be_ndn B) \<lparr>da_name = dataName, da_content = PayloadBlock content,
             da_freshness = freshness, da_content_type = Some contentType,
             da_final_block = Some finalBlock\<rparr>) of
           Inl e \<Rightarrow> (S, Some e)
         | Inr data \<Rightarrow> with_store (ds_insert (be_store B) data) S)"

definition insertPreparedData ::
    "('n, 'c, 'b, 'd, 'i, 's) base_env \<Rightarrow> 'd \<Rightarrow> bool \<Rightarrow> ('n, 'b, 'd, 'i, 's, 'k) svsync
      \<Rightarrow> ('n, 'b, 'd, 'i, 's, 'k) svsync outcome" where
  "insertPreparedData B data putToFace S =
     and_then (with_store (ds_insert (be_store B) data) S)
       (\<lambda>S. if putToFace then face_put B data S else (S, None))"

section \<open>Batches\<close>

text \<open>The loop that inserts: the store it leaves, the names inserted, what was thrown.\<close>

fun insert_packets ::
    "('n, 'c, 'b, 'd, 'i) ndn \<Rightarrow> ('s, 'n, 'd) data_store \<Rightarrow> 'd list \<Rightarrow> 's \<Rightarrow> 'n list
      \<Rightarrow> 's \<times> 'n list \<times> svs_error option" where
  "insert_packets N D [] s inserted = (s, inserted, None)"
| "insert_packets N D (p # ps) s inserted =
     (case ds_insert D p s of
        (s, Some e) \<Rightarrow> (s, inserted, Some e)
      | (s, None) \<Rightarrow> insert_packets N D ps s (inserted @ [data_name N p]))"

text \<open>The loop that erases, of the rollback and of \<^verbatim>\<open>removePreparedDataBatch\<close>.\<close>

fun erase_names :: "('s, 'n, 'd) data_store \<Rightarrow> 'n list \<Rightarrow> 's \<Rightarrow> 's outcome" where
  "erase_names D [] s = (s, None)"
| "erase_names D (n # ns) s = and_then (ds_erase D n s) (erase_names D ns)"

definition insertPreparedDataBatch ::
    "('n, 'c, 'b, 'd, 'i) ndn \<Rightarrow> ('s, 'n, 'd) data_store \<Rightarrow> 'd list \<Rightarrow> 's \<Rightarrow> 's outcome" where
  "insertPreparedDataBatch N D packets s =
     (if packets \<noteq> [] \<and> \<not> ds_supportsErase D
      then (s, Some (LogicError ''DataStore does not support transactional rollback''))
      else if \<exists>p \<in> set packets. length (block_wire N (data_wire N p)) > MAX_NDN_PACKET_SIZE
      then (s, Some (LengthError ''prepared SVS Data exceeds MAX_NDN_PACKET_SIZE''))
      else
        (case insert_packets N D packets s [] of
           (s, inserted, None) \<Rightarrow> (s, None)
         | (s, inserted, Some insertionFailure) \<Rightarrow>
             (case erase_names D (rev inserted) s of
                (s, Some _) \<Rightarrow>
                  (s, Some (RuntimeError ''DataStore rollback failed after partial insertion''))
              | (s, None) \<Rightarrow> (s, Some insertionFailure))))"

text \<open>The store and the returned flag.\<close>

definition removePreparedDataBatch ::
    "('n, 'c, 'b, 'd, 'i) ndn \<Rightarrow> ('s, 'n, 'd) data_store \<Rightarrow> 'd list \<Rightarrow> 's \<Rightarrow> 's \<times> bool" where
  "removePreparedDataBatch N D packets s =
     (if packets \<noteq> [] \<and> \<not> ds_supportsErase D then (s, False)
      else
        (case erase_names D (rev (map (data_name N) packets)) s of
           (s, None) \<Rightarrow> (s, True)
         | (s, Some _) \<Rightarrow> (s, False)))"

section \<open>Serving and fetching\<close>

definition onDataInterest ::
    "('n, 'c, 'b, 'd, 'i, 's) base_env \<Rightarrow> 'n data_query \<Rightarrow> ('n, 'b, 'd, 'i, 's, 'k) svsync
      \<Rightarrow> ('n, 'b, 'd, 'i, 's, 'k) svsync outcome" where
  "onDataInterest B interest S =
     (case ds_find (be_store B) interest (sb_dataStore S) of
        None \<Rightarrow> (S, None)
      | Some data \<Rightarrow> face_put B data S)"

definition setFetchInterestLifetime ::
    "int \<Rightarrow> ('n, 'b, 'd, 'i, 's, 'k) svsync \<Rightarrow> ('n, 'b, 'd, 'i, 's, 'k) svsync" where
  "setFetchInterestLifetime lifetime S = S\<lparr>sb_fetchInterestLifetime := max 1 lifetime\<rparr>"

definition fetchData ::
    "('n, 'c, 'b, 'd, 'i) ndn \<Rightarrow> 'n \<Rightarrow> bootstrap_time \<Rightarrow> seq_no \<Rightarrow> 'k \<Rightarrow> int
      \<Rightarrow> ('n, 'b, 'd, 'i, 's, 'k) svsync
      \<Rightarrow> ('n, 'b, 'd, 'i, 's, 'k) svsync \<times> ('n data_query, 'd, 'k) fetch_output list" where
  "fetchData N nid bootstrapTime seqNo callbacks nRetries S =
     (let (f, out) = f_expressInterest
            \<lparr>fr_interest = \<lparr>dq_name = makeDataName N nid bootstrapTime seqNo S, dq_canBePrefix = True,
               dq_mustBeFresh = False, dq_lifetime = sb_fetchInterestLifetime S\<rparr>,
             fr_callbacks = callbacks, fr_nRetries = nRetries, fr_hasValidationFailed = True\<rparr>
            (sb_fetcher S)
      in (S\<lparr>sb_fetcher := f\<rparr>, out))"

text \<open>The overload for the current epoch of this node.\<close>

definition fetchData_current ::
    "('n, 'c, 'b, 'd, 'i) ndn \<Rightarrow> 'n \<Rightarrow> seq_no \<Rightarrow> 'k \<Rightarrow> int \<Rightarrow> ('n, 'b, 'd, 'i, 's, 'k) svsync
      \<Rightarrow> ('n, 'b, 'd, 'i, 's, 'k) svsync \<times> ('n data_query, 'd, 'k) fetch_output list" where
  "fetchData_current N nid seqNo callbacks nRetries S =
     fetchData N nid (m_bootstrapTime (sb_core S)) seqNo callbacks nRetries S"

definition shouldCache :: "('n, 'b, 'd, 'i, 's, 'k) svsync \<Rightarrow> bool" where
  "shouldCache S = (case sb_class S of DedicatedPrefix \<Rightarrow> False | SharedPrefix cacheAll \<Rightarrow> cacheAll)"

text \<open>\<^verbatim>\<open>onDataValidated\<close>, up to the call of the application's callback, which follows it when it
  does not throw.\<close>

definition sb_onDataValidated ::
    "('n, 'c, 'b, 'd, 'i, 's) base_env \<Rightarrow> 'd \<Rightarrow> ('n, 'b, 'd, 'i, 's, 'k) svsync
      \<Rightarrow> ('n, 'b, 'd, 'i, 's, 'k) svsync outcome" where
  "sb_onDataValidated B data S =
     (if shouldCache S then with_store (ds_insert (be_store B) data) S else (S, None))"

section \<open>The core as a register of sequence numbers\<close>

text \<open>
  What publishing relies on: a register per producer, which a write changes and nothing else, and
  an identity that writes keep. Interpreted on \<^verbatim>\<open>SVSyncCore::updateSeqNo\<close> below.
\<close>

locale seq_counter =
  fixes reg :: "'c \<Rightarrow> 'n \<Rightarrow> bootstrap_time \<Rightarrow> seq_no"
    and set_reg :: "seq_no \<Rightarrow> 'n \<Rightarrow> 'c \<Rightarrow> 'c"
    and epoch :: "'c \<Rightarrow> bootstrap_time"
    and no_node :: 'n
  assumes reg_set: "s \<noteq> 0 \<Longrightarrow> n \<noteq> no_node \<Longrightarrow>
      reg (set_reg s n c) n' b = (if n' = n \<and> b = epoch c then s else reg c n' b)"
    and epoch_set: "s \<noteq> 0 \<Longrightarrow> n \<noteq> no_node \<Longrightarrow> epoch (set_reg s n c) = epoch c"
begin

lemma epoch_sets:
  "0 \<notin> set ss \<Longrightarrow> n \<noteq> no_node \<Longrightarrow> epoch (fold (\<lambda>s. set_reg s n) ss c) = epoch c"
  by (induction ss arbitrary: c) (simp_all add: epoch_set)

text \<open>After a series of publications the register holds the last number.\<close>

lemma reg_sets:
  "0 \<notin> set ss \<Longrightarrow> n \<noteq> no_node \<Longrightarrow> reg (fold (\<lambda>s. set_reg s n) ss c) n' b =
     (if n' = n \<and> b = epoch c \<and> ss \<noteq> [] then last ss else reg c n' b)"
  by (induction ss arbitrary: c) (auto simp: reg_set epoch_set)

end

definition same_identity ::
    "('n, 'b, 'd, 'i) sync_core \<Rightarrow> ('n, 'b, 'd, 'i) sync_core \<Rightarrow> bool" where
  "same_identity c c' \<longleftrightarrow> m_id c' = m_id c \<and> m_bootstrapTime c' = m_bootstrapTime c \<and>
     m_protocolOptions c' = m_protocolOptions c"

lemma identity_serial: "same_identity c (fst (sendSyncInterestSerial E c))"
  unfolding sendSyncInterestSerial_def
  by (auto simp: same_identity_def emit_def stat_def split: sum.split)

lemma identity_serial_stats:
  "same_identity c (fst (sendSyncInterestSerial E (stat f (stat g (c\<lparr>m_syncProductionWorkerPool := p\<rparr>)))))"
  using identity_serial [of "stat f (stat g (c\<lparr>m_syncProductionWorkerPool := p\<rparr>))" E]
  by (simp add: same_identity_def stat_def)

lemma identity_send: "same_identity c (fst (sendSyncInterest E c))"
proof (cases "m_syncProductionWorkerPool c")
  case None
  then show ?thesis
    by (simp add: sendSyncInterest_def identity_serial) (simp add: same_identity_def)
next
  case (Some pool)
  show ?thesis
  proof (cases "m_initialized c \<and> m_parallelSyncProduction c")
    case False
    then show ?thesis
      by (auto simp: sendSyncInterest_def Some identity_serial) (simp_all add: same_identity_def)
  next
    case True
    show ?thesis
    proof (cases "if m_parallelSyncProductionExtraBlock c then Inr [] else extra_blocks E c (m_vv c)")
      case (Inl e)
      then show ?thesis
        using True by (simp add: sendSyncInterest_def Some same_identity_def)
    next
      case (Inr bs)
      obtain queued d p where post: "pool_post \<lparr>pj_localVector = m_vv c, pj_extraBlocks = bs,
          pj_stateGeneration = m_stateGeneration c, pj_alive = m_syncProductionAlive c\<rparr> pool = (queued, d, p)"
        by (metis prod_cases3)
      show ?thesis
        using True identity_serial_stats
        by (cases queued) (simp_all add: sendSyncInterest_def Some Inr post,
            simp add: same_identity_def stat_def)
    qed
  qed
qed

lemma local_sync_effect:
  "m_vv (fst (sendLocalPublicationSyncInterest E c)) = m_vv c \<and>
   same_identity c (fst (sendLocalPublicationSyncInterest E c))"
proof -
  let ?c = "c\<lparr>m_recordedVv := None\<rparr>"
  have "m_vv (fst (sendSyncInterest E ?c)) = m_vv ?c"
    using quiet_send [of ?c E] by (simp add: quiet_def)
  then show ?thesis
    using identity_send [of ?c E]
    by (cases "sendSyncInterest E ?c"; cases "snd (sendSyncInterest E ?c)")
      (auto simp: sendLocalPublicationSyncInterest_def Let_def same_identity_def)
qed

text \<open>What \<^verbatim>\<open>updateSeqNo\<close> does to the vector, whatever it sends.\<close>

lemma updateSeqNoAt_effect:
  assumes "s \<noteq> 0"
  shows "snd (updateSeqNoAt E s b nid c) = None"
    and "m_vv (fst (updateSeqNoAt E s b nid c)) =
      vv_put (clk_point (ce_clk E)) (own_or E c nid) b s (m_vv c)"
    and "same_identity c (fst (updateSeqNoAt E s b nid c))"
  using assms local_sync_effect [of E "c\<lparr>m_vv := vv_put (clk_point (ce_clk E)) (own_or E c nid) b s
      (m_vv c), m_stateGeneration := m_stateGeneration c + 1\<rparr>"]
  by (simp_all add: updateSeqNoAt_def vv_set_eq Let_def schedulePublicationSync_def same_identity_def)

lemma updateSeqNo_effect:
  assumes "s \<noteq> 0" and "nid \<noteq> nm_empty (ce_ndn E)"
  shows "snd (updateSeqNo E s nid c) = None"
    and "m_vv (fst (updateSeqNo E s nid c)) =
      vv_put (clk_point (ce_clk E)) nid (m_bootstrapTime c) s (m_vv c)"
    and "same_identity c (fst (updateSeqNo E s nid c))"
  using assms(2)
  by (simp_all add: updateSeqNo_def own_or_def updateSeqNoAt_effect [OF assms(1)])

lemma updateSeqNo_zero: "fst (updateSeqNo E 0 nid c) = c" "snd (updateSeqNo E 0 nid c) \<noteq> None"
  by (simp_all add: updateSeqNo_def updateSeqNoAt_def vv_set_def)

interpretation core_register:
  seq_counter "\<lambda>c n b. vv_get n b (m_vv c)" "\<lambda>s n c. fst (updateSeqNo E s n c)"
    m_bootstrapTime "nm_empty (ce_ndn E)" for E
  by unfold_locales (use updateSeqNo_effect(3) in \<open>auto simp: updateSeqNo_effect(2) vv_get_put
      same_identity_def\<close>)

section \<open>Data names\<close>

lemma data_name_comps:
  assumes "name_laws N"
  shows "nm_comps N (makeDataName N nid b s S) =
    (case sb_class S of
       DedicatedPrefix \<Rightarrow> nm_comps N nid @ nm_comps N (sb_syncPrefix S)
     | SharedPrefix _ \<Rightarrow> nm_comps N (sb_dataPrefix S) @ nm_comps N nid) @
    (if ro_version (m_protocolOptions (sb_core S)) = V3 then [comp_timestamp N b] else []) @
    [comp_seq N s]"
  by (simp add: makeDataName_def Let_def name_law_comps [OF assms] split: svsync_class.split)

lemma data_name_eq:
  assumes laws: "name_laws N" and "unat b \<le> max_timestamp" and "unat b' \<le> max_timestamp"
  shows "makeDataName N nid b s S = makeDataName N nid' b' s' S \<longleftrightarrow>
    nid = nid' \<and> s = s' \<and> (ro_version (m_protocolOptions (sb_core S)) = V3 \<longrightarrow> b = b')"
proof -
  have ts: "comp_timestamp N b = comp_timestamp N b' \<longleftrightarrow> b = b'"
    using name_law_codecs(5) [OF laws assms(2)] name_law_codecs(5) [OF laws assms(3)]
    by (metis option.inject)
  have seq: "comp_seq N s = comp_seq N s' \<longleftrightarrow> s = s'"
    using name_law_codecs(2) [OF laws] by (metis option.inject)
  have "makeDataName N nid b s S = makeDataName N nid' b' s' S \<longleftrightarrow>
      nm_comps N (makeDataName N nid b s S) = nm_comps N (makeDataName N nid' b' s' S)"
    using name_law_inj [OF laws] by blast
  also have "\<dots> \<longleftrightarrow> nm_comps N nid = nm_comps N nid' \<and> comp_seq N s = comp_seq N s' \<and>
      (ro_version (m_protocolOptions (sb_core S)) = V3 \<longrightarrow> comp_timestamp N b = comp_timestamp N b')"
    by (auto simp: data_name_comps [OF laws] split: svsync_class.split)
  finally show ?thesis
    by (simp add: ts seq name_law_inj [OF laws])
qed

section \<open>Batches\<close>

text \<open>
  The contract of a store, over what it holds under each exact name: an insertion that returns
  adds its packet and one that throws changes nothing, an erasure removes one name, a lookup
  without \<^verbatim>\<open>CanBePrefix\<close> is by exact name.
\<close>

definition store_laws ::
    "('n, 'c, 'b, 'd, 'i) ndn \<Rightarrow> ('s, 'n, 'd) data_store \<Rightarrow> ('s \<Rightarrow> 'n \<Rightarrow> 'd option) \<Rightarrow> bool" where
  "store_laws N D look \<longleftrightarrow>
     (\<forall>d s s'. ds_insert D d s = (s', None) \<longrightarrow> look s' = (look s)(data_name N d \<mapsto> d)) \<and>
     (\<forall>d s s' e. ds_insert D d s = (s', Some e) \<longrightarrow> look s' = look s) \<and>
     (\<forall>n s s'. ds_erase D n s = (s', None) \<longrightarrow> look s' = (look s)(n := None)) \<and>
     (\<forall>q s. \<not> dq_canBePrefix q \<longrightarrow> ds_find D q s = look s (dq_name q))"

lemma store_law_insert:
  assumes "store_laws N D look"
  shows "ds_insert D d s = (s', None) \<Longrightarrow> look s' = (look s)(data_name N d \<mapsto> d)"
    and "ds_insert D d s = (s', Some e) \<Longrightarrow> look s' = look s"
  using assms unfolding store_laws_def by blast+

lemma store_law_erase: "store_laws N D look \<Longrightarrow> ds_erase D n s = (s', None) \<Longrightarrow> look s' = (look s)(n := None)"
  unfolding store_laws_def by blast

lemma store_law_find:
  "store_laws N D look \<Longrightarrow> \<not> dq_canBePrefix q \<Longrightarrow> ds_find D q s = look s (dq_name q)"
  unfolding store_laws_def by blast

definition put_all :: "('n, 'c, 'b, 'd, 'i) ndn \<Rightarrow> 'd list \<Rightarrow> ('n \<Rightarrow> 'd option) \<Rightarrow> 'n \<Rightarrow> 'd option" where
  "put_all N packets m = fold (\<lambda>d m. m(data_name N d \<mapsto> d)) packets m"

lemma insert_packets_look:
  assumes "store_laws N D look" and "insert_packets N D ps s ins = (s', ins', r)"
  shows "\<exists>done rest. ps = done @ rest \<and> ins' = ins @ map (data_name N) done \<and>
    look s' = put_all N done (look s) \<and> (r = None \<longleftrightarrow> rest = [])"
  using assms(2)
proof (induction ps arbitrary: s ins)
  case Nil
  then show ?case by (simp add: put_all_def)
next
  case (Cons p ps)
  obtain s1 e where i: "ds_insert D p s = (s1, e)"
    by fastforce
  show ?case
  proof (cases e)
    case None
    then have "insert_packets N D ps s1 (ins @ [data_name N p]) = (s', ins', r)"
      using Cons.prems i by simp
    from Cons.IH [OF this] obtain dn rest where "ps = dn @ rest"
      "ins' = (ins @ [data_name N p]) @ map (data_name N) dn"
      "look s' = put_all N dn (look s1)" "r = None \<longleftrightarrow> rest = []"
      by blast
    then show ?thesis
      using store_law_insert(1) [OF assms(1)] i None
      by (intro exI [of _ "p # dn"] exI [of _ rest]) (simp add: put_all_def)
  next
    case (Some x)
    then have "s' = s1" "ins' = ins" "r = Some x"
      using Cons.prems i by simp_all
    moreover have "look s1 = look s"
      using store_law_insert(2) [OF assms(1), of p s s1 x] i Some by simp
    ultimately show ?thesis
      by (intro exI [of _ "[]"] exI [of _ "p # ps"]) (simp add: put_all_def)
  qed
qed

lemma erase_names_look:
  assumes "store_laws N D look" and "erase_names D ns s = (s', None)"
  shows "look s' = (\<lambda>n. if n \<in> set ns then None else look s n)"
  using assms(2)
proof (induction ns arbitrary: s)
  case Nil
  then show ?case by simp
next
  case (Cons n ns)
  obtain s1 where e: "ds_erase D n s = (s1, None)" and "erase_names D ns s1 = (s', None)"
    using Cons.prems by (cases "ds_erase D n s"; cases "snd (ds_erase D n s)") auto
  then have "look s' = (\<lambda>m. if m \<in> set ns then None else look s1 m)"
    using Cons.IH by blast
  then show ?case
    using store_law_erase [OF assms(1) e] by auto
qed

lemma put_all_other: "n \<notin> data_name N ` set ps \<Longrightarrow> put_all N ps m n = m n"
  by (induction ps arbitrary: m) (auto simp: put_all_def)

lemma erase_put_all:
  assumes "\<forall>p \<in> set ps. m (data_name N p) = None"
  shows "(\<lambda>n. if n \<in> data_name N ` set ps then None else put_all N ps m n) = m"
  using assms put_all_other [of _ N ps m] by fastforce

text \<open>Erasing as the store promises: where it is supported, it does not throw.\<close>

definition erases :: "('s, 'n, 'd) data_store \<Rightarrow> bool" where
  "erases D \<longleftrightarrow> (ds_supportsErase D \<longrightarrow> (\<forall>n s. snd (ds_erase D n s) = None))"

lemma erase_names_total: "\<forall>n s. snd (ds_erase D n s) = None \<Longrightarrow> snd (erase_names D ns s) = None"
proof (induction ns arbitrary: s)
  case (Cons n ns)
  obtain s1 where "ds_erase D n s = (s1, None)"
    using Cons.prems by (metis prod.collapse)
  then show ?case using Cons by simp
qed simp

text \<open>
  With ndn-cxx's storage, whose \<^verbatim>\<open>erase(name, false)\<close> matches full names, a packet name removes
  nothing: erasing the packets of a batch then reports success and leaves the store as it is.
\<close>

lemma memory_erase_ineffective:
  assumes "\<And>n s. n \<in> set ns \<Longrightarrow> ims_erase n False s = s"
  shows "erase_names (memory_data_store ims_find ims_insert ims_erase) ns s = (s, None)"
  using assms by (induction ns) (simp_all add: memory_data_store_def)

section \<open>Sample input for the witnesses\<close>

text \<open>A store by name, of at most \<open>k\<close> packets if \<open>k\<close> is given.\<close>

definition sample_store :: "nat option \<Rightarrow> ((i_name \<times> i_data) list, i_name, i_data) data_store" where
  "sample_store k =
     \<lparr>ds_find = (\<lambda>q s. if dq_canBePrefix q
        then map_option snd (find (\<lambda>e. take (length (dq_name q)) (fst e) = dq_name q) s)
        else map_of s (dq_name q)),
      ds_insert = (\<lambda>d s. if (case k of None \<Rightarrow> True | Some n \<Rightarrow> length s < n) then ((fst d, d) # s, None)
        else (s, Some (RuntimeError ''full''))),
      ds_supportsErase = True,
      ds_erase = (\<lambda>n s. (filter (\<lambda>e. fst e \<noteq> n) s, None))\<rparr>"

lemma map_of_filter_key: "map_of (filter (\<lambda>e. fst e \<noteq> n) s) = (map_of s)(n := None)"
  by (induction s) auto

lemma sample_store_laws: "store_laws i_ndn (sample_store k) map_of"
  by (auto simp: store_laws_def sample_store_def i_packets map_of_filter_key split: if_splits)

lemma sample_store_unbounded: "snd (ds_insert (sample_store None) d s) = None"
  by (simp add: sample_store_def)

lemma sample_store_erases: "erases (sample_store k)"
  by (simp add: erases_def sample_store_def)

definition sample_base_env ::
    "(i_name, i_comp, i_block, i_data, i_interest, (i_name \<times> i_data) list) base_env" where
  "sample_base_env = \<lparr>be_core = sample_env, be_store = sample_store None, be_sign = i_sign,
     be_put = (\<lambda>_. None)\<rparr>"

definition sample_svsync ::
    "(i_name, i_block, i_data, i_interest, (i_name \<times> i_data) list, nat) svsync" where
  "sample_svsync = \<lparr>sb_class = DedicatedPrefix, sb_syncPrefix = sample_group,
     sb_dataPrefix = [(8, [66])] @ sample_group, sb_id = [(8, [66])], sb_dataStore = [],
     sb_fetchInterestLifetime = 2000, sb_fetcher = fetcher_new False 0, sb_core = sample_core,
     sb_put = []\<rparr>"

definition sample_packet :: "u8 \<Rightarrow> i_data" where
  "sample_packet x = ([(8, [x])], (21, []), True, 0, 0, None)"

section \<open>Properties\<close>

text \<open>What a batch leaves in the store.\<close>

lemma batch_outcome:
  assumes "store_laws N D look" and "erases D"
    and "\<forall>p \<in> set packets. look s (data_name N p) = None"
    and "insertPreparedDataBatch N D packets s = (s', r)"
  shows "look s' = (case r of None \<Rightarrow> fold (\<lambda>d m. m(data_name N d \<mapsto> d)) packets (look s)
    | Some e \<Rightarrow> look s)"
proof (cases "packets \<noteq> [] \<and> \<not> ds_supportsErase D \<or>
    (\<exists>p \<in> set packets. length (block_wire N (data_wire N p)) > MAX_NDN_PACKET_SIZE)")
  case True
  then show ?thesis
    using assms(4) by (auto simp: insertPreparedDataBatch_def split: if_splits)
next
  case False
  obtain s1 ins e where i: "insert_packets N D packets s [] = (s1, ins, e)"
    using prod_cases3 by blast
  obtain dn rest where p: "packets = dn @ rest" "ins = map (data_name N) dn"
    and look1: "look s1 = put_all N dn (look s)" and e: "e = None \<longleftrightarrow> rest = []"
    using insert_packets_look [OF assms(1) i] by auto
  show ?thesis
  proof (cases e)
    case None
    then show ?thesis
      using False assms(4) i p e look1 by (auto simp: insertPreparedDataBatch_def put_all_def)
  next
    case (Some x)
    then have "packets \<noteq> []"
      using e p by auto
    then have "\<forall>n s. snd (ds_erase D n s) = None"
      using False assms(2) by (simp add: erases_def)
    then obtain s2 where s2: "erase_names D (rev ins) s1 = (s2, None)"
      using erase_names_total [of D "rev ins" s1] by (metis prod.collapse)
    then have "s' = s2" "r = Some x"
      using False assms(4) i Some by (auto simp: insertPreparedDataBatch_def)
    moreover have "look s2 = (\<lambda>n. if n \<in> data_name N ` set dn then None else look s1 n)"
      using erase_names_look [OF assms(1) s2] p(2) by simp
    moreover have "\<forall>p \<in> set dn. look s (data_name N p) = None"
      using assms(3) p(1) by simp
    ultimately show ?thesis
      using erase_put_all [of dn "look s" N] by (simp only: look1 option.case)
  qed
qed

text \<open>
  Inserting a batch is atomic. On a store that keeps the contract of \<^verbatim>\<open>store.hpp\<close>, with
  names that were free, the call either returns and every packet is stored under its name, or
  throws and the store holds what it held before.
\<close>

theorem batch_atomic:
  assumes "store_laws N D look" and "erases D"
    and "\<forall>p \<in> set packets. look s (data_name N p) = None"
    and "insertPreparedDataBatch N D packets s = (s', r)"
  shows "look s' = (case r of None \<Rightarrow> fold (\<lambda>d m. m(data_name N d \<mapsto> d)) packets (look s)
    | Some e \<Rightarrow> look s)"
  using batch_outcome [OF assms] .

theorem batch_atomic_witness:
  "map_of (fst (insertPreparedDataBatch i_ndn (sample_store (Some 1)) [sample_packet 1, sample_packet 2] [])) =
     map_of []"
  using batch_atomic [OF sample_store_laws sample_store_erases, of "[sample_packet 1, sample_packet 2]"
      "[]" "Some 1", OF _ prod.collapse [symmetric]]
  by (simp add: insertPreparedDataBatch_def sample_store_def sample_packet_def i_eval
      i_data_wire_def i_meta_wire_def i_meta_blocks_def MAX_NDN_PACKET_SIZE_def)

text \<open>
  Within one instance, data names identify publications: two names are equal exactly when the
  node, the number and, in V3, the epoch are.
\<close>

theorem data_names_unique:
  assumes "name_laws N" and "unat b \<le> max_timestamp" and "unat b' \<le> max_timestamp"
  shows "makeDataName N nid b s S = makeDataName N nid' b' s' S \<longleftrightarrow>
    nid = nid' \<and> s = s' \<and> (ro_version (m_protocolOptions (sb_core S)) \<noteq> V3 \<or> b = b')"
  using data_name_eq [OF assms] by blast

theorem data_names_unique_witness:
  "makeDataName i_ndn [(8, [66])] 100 1 sample_svsync \<noteq> makeDataName i_ndn [(8, [66])] 101 1 sample_svsync"
  using data_names_unique [OF i_name_laws, of 100 101 "[(8, [66])]" 1 sample_svsync "[(8, [66])]" 1]
  by (simp add: max_timestamp_def sample_svsync_def sample_core_def sample_options_def)

text \<open>
  C38: what is published is served. When signer, store and face accept the packet,
  \<^verbatim>\<open>publishData\<close> returns the number after the last one, sets the producer's register to it and
  no other, and puts one packet on the face, with the data name of that number and the given
  content type; an Interest for exactly that name is answered with the same packet.
\<close>

theorem publish_serves:
  assumes "packet_laws (be_ndn B)" and "signer_laws (be_ndn B) (be_sign B)"
    and "store_laws (be_ndn B) (be_store B) look"
    and "\<forall>d. \<exists>d'. be_sign B d = Inr d'" and "\<forall>d s. snd (ds_insert (be_store B) d s) = None"
    and "\<forall>d. be_put B d = None"
    and "pubId = or_self B nid S" and "pubId \<noteq> nm_empty (be_ndn B)"
    and "newSeq = getSeqNo (be_core B) pubId (sb_core S) + 1" and "newSeq \<noteq> 0"
  shows "\<exists>d S'. publishData B content freshness nid ct S = (newSeq, S', None) \<and>
    data_name (be_ndn B) d = getDataName (be_ndn B) pubId newSeq S \<and>
    data_content_type (be_ndn B) d = ct \<and> sb_put S' = sb_put S @ [d] \<and>
    (\<forall>q. dq_canBePrefix q \<or> dq_name q \<noteq> data_name (be_ndn B) d \<or>
       onDataInterest B q S' = (S'\<lparr>sb_put := sb_put S' @ [d]\<rparr>, None)) \<and>
    (\<forall>n b. vv_get n b (m_vv (sb_core S')) =
       (if n = pubId \<and> b = m_bootstrapTime (sb_core S) then newSeq
        else vv_get n b (m_vv (sb_core S))))"
proof -
  let ?N = "be_ndn B"
  let ?args = "\<lparr>da_name = getDataName ?N pubId newSeq S, da_content = PayloadBlock content,
      da_freshness = freshness, da_content_type = Some ct, da_final_block = None\<rparr>"
  obtain d where d: "be_sign B (data_new ?N ?args) = Inr d"
    using assms(4) by blast
  obtain s' where s': "ds_insert (be_store B) d (sb_dataStore S) = (s', None)"
    using assms(5) by (metis prod.collapse)
  have self: "or_self B pubId T = pubId" for T :: "('a, 'c, 'd, 'e, 'f, 'g) svsync"
    using assms(8) by (simp add: or_self_def)
  let ?S1 = "S\<lparr>sb_dataStore := s', sb_put := sb_put S @ [d]\<rparr>"
  have ins: "insertDataAtSeq B content freshness pubId newSeq ct S = (?S1, None)"
    using d s' assms(6) by (simp add: insertDataAtSeq_def self with_store_def face_put_def Let_def)
  define c' where "c' = fst (updateSeqNo (be_core B) newSeq pubId (sb_core S))"
  have u: "updateSeqNo (be_core B) newSeq pubId (sb_core S) = (c', None)"
    using updateSeqNo_effect(1) [OF assms(10,8), of "sb_core S"]
    by (simp add: c'_def prod_eq_iff)
  have pub: "publishData B content freshness nid ct S = (newSeq, ?S1\<lparr>sb_core := c'\<rparr>, None)"
    by (simp add: publishData_def publishDataAtSeq_def Let_def assms(7) [symmetric] self
        assms(9) [symmetric] ins with_core_def u)
  have vv: "vv_get n b (m_vv c') = (if n = pubId \<and> b = m_bootstrapTime (sb_core S) then newSeq
      else vv_get n b (m_vv (sb_core S)))" for n b
    unfolding c'_def by (rule core_register.reg_set [OF assms(10,8)])
  have name: "data_name ?N d = getDataName ?N pubId newSeq S" "data_content_type ?N d = ct"
    using signer_law(1,3) [OF assms(2) d] packet_law_data(4) [OF assms(1)]
      packet_law_content(3) [OF assms(1)] by simp_all
  have "look s' = (look (sb_dataStore S))(data_name ?N d \<mapsto> d)"
    by (rule store_law_insert(1) [OF assms(3) s'])
  then have "ds_find (be_store B) q s' = Some d" if "\<not> dq_canBePrefix q" "dq_name q = data_name ?N d" for q
    using store_law_find [OF assms(3) that(1), of s'] that(2) by simp
  then have "dq_canBePrefix q \<or> dq_name q \<noteq> data_name ?N d \<or>
      onDataInterest B q (?S1\<lparr>sb_core := c'\<rparr>) =
        (?S1\<lparr>sb_core := c', sb_put := sb_put S @ [d, d]\<rparr>, None)" for q
    using assms(6) by (cases "dq_canBePrefix q \<or> dq_name q \<noteq> data_name ?N d")
      (auto simp: onDataInterest_def face_put_def)
  then show ?thesis
    using pub vv name by (intro exI [of _ d] exI [of _ "?S1\<lparr>sb_core := c'\<rparr>"]) simp
qed

theorem publish_serves_witness:
  "\<exists>d S'. publishData sample_base_env (21, [1, 2]) 1000 [] 0 sample_svsync = (1, S', None) \<and>
     sb_put S' = [d] \<and> fst d = [(8, [66]), (8, [71]), (56, [100]), (58, [1])] \<and>
     vv_get [(8, [66])] 100 (m_vv (sb_core S')) = 1"
proof -
  have n: "be_ndn sample_base_env = i_ndn" "be_sign sample_base_env = i_sign"
    "be_put sample_base_env = (\<lambda>_. None)" "be_core sample_base_env = sample_env"
    by (simp_all add: sample_base_env_def sample_env_def)
  have "\<exists>d S'. publishData sample_base_env (21, [1, 2]) 1000 [] 0 sample_svsync = (1, S', None) \<and>
    data_name i_ndn d = getDataName i_ndn [(8, [66])] 1 sample_svsync \<and>
    data_content_type i_ndn d = 0 \<and> sb_put S' = sb_put sample_svsync @ [d] \<and>
    (\<forall>q. dq_canBePrefix q \<or> dq_name q \<noteq> data_name i_ndn d \<or>
       onDataInterest sample_base_env q S' = (S'\<lparr>sb_put := sb_put S' @ [d]\<rparr>, None)) \<and>
    (\<forall>n b. vv_get n b (m_vv (sb_core S')) =
       (if n = [(8, [66])] \<and> b = m_bootstrapTime (sb_core sample_svsync) then 1
        else vv_get n b (m_vv (sb_core sample_svsync))))"
    using publish_serves [of sample_base_env map_of "[(8, [66])]" "[]" sample_svsync 1
        "(21, [1, 2])" 1000 0] i_packet_laws i_signer_laws sample_store_laws i_sign_total
    unfolding n
    by (simp add: sample_base_env_def sample_store_unbounded or_self_def n sample_svsync_def
        i_names getSeqNo_def own_or_def sample_env_def sample_core_def vv_get_def vv_empty_def)
  then show ?thesis
    by (auto simp: getDataName_def makeDataName_def sample_svsync_def sample_core_def i_eval
        sample_options_def sample_group_def)
qed

text \<open>
  A publication that fails is not announced: whenever \<^verbatim>\<open>publishData\<close> throws, whether the
  signer, the store, the face or the state vector refused, the core is as it was.
\<close>

theorem publish_failure:
  "snd (snd (publishData B content freshness nid ct S)) = None \<or>
    sb_core (fst (snd (publishData B content freshness nid ct S))) = sb_core S"
proof -
  let ?id = "or_self B nid S"
  let ?seq = "getSeqNo (be_core B) ?id (sb_core S) + 1"
  let ?pid = "or_self B ?id S"
  have ins: "sb_core (fst (insertDataAtSeq B content freshness n s ct S)) = sb_core S" for n s
    by (auto simp: insertDataAtSeq_def Let_def with_store_def face_put_def and_then_def
        split: sum.split prod.split option.split)
  obtain S1 e where i: "insertDataAtSeq B content freshness ?pid ?seq ct S = (S1, e)"
    by fastforce
  have core1: "sb_core S1 = sb_core S"
    using ins [of ?pid ?seq] i by simp
  have "snd (updateSeqNo (be_core B) ?seq ?pid (sb_core S)) = None \<or>
      fst (updateSeqNo (be_core B) ?seq ?pid (sb_core S)) = sb_core S"
    using updateSeqNo_zero(1) updateSeqNoAt_effect(1) by (cases "?seq = 0") (auto simp: updateSeqNo_def)
  then show ?thesis
    using i core1
    by (cases e) (auto simp: publishData_def publishDataAtSeq_def Let_def with_core_def split_beta)
qed

end
