(* ===== verification/Seq_Range.thy ===== *)
theory Seq_Range
  imports Prelude
begin

text \<open>
  The loops over a range of sequence numbers,
  \<^verbatim>\<open>for (SeqNo i = low; i <= high; i++)\<close>, which MappingProvider and SVSPubSub share. The counter
  is 64 bits wide and wraps, so the loop is a partial function: it visits exactly the numbers
  from \<open>low\<close> to \<open>high\<close>, and it never returns when \<open>high\<close> is the largest number. \<open>seq_scan\<close> is
  the variant with a \<^verbatim>\<open>break\<close>.
\<close>

partial_function (option) seq_loop ::
    "(seq_no \<Rightarrow> 's \<Rightarrow> 's) \<Rightarrow> seq_no \<Rightarrow> seq_no \<Rightarrow> 's \<Rightarrow> 's option" where
  "seq_loop f i high s = (if i \<le> high then seq_loop f (i + 1) high (f i s) else Some s)"

declare seq_loop.simps [code]

text \<open>The numbers the loop visits, in its order.\<close>

definition seq_span :: "seq_no \<Rightarrow> seq_no \<Rightarrow> seq_no list" where
  "seq_span low high = map word_of_nat [unat low..<Suc (unat high)]"

lemma unat_seq_less: "unat (x :: u64) < 2 ^ 64"
  using unsigned_less [of x, where ?'a = nat] by simp

lemma set_seq_span: "set (seq_span low high) = {low..high}"
proof
  show "set (seq_span low high) \<subseteq> {low..high}"
  proof
    fix x assume "x \<in> set (seq_span low high)"
    then obtain n where n: "x = word_of_nat n" "unat low \<le> n" "n \<le> unat high"
      by (auto simp: seq_span_def simp del: upt_Suc)
    then have "n < 2 ^ 64"
      using unat_seq_less [of high] by linarith
    then have "unat x = n"
      using n(1) by (simp add: unat_of_nat)
    then show "x \<in> {low..high}"
      using n by (simp add: word_le_nat_alt)
  qed
  show "{low..high} \<subseteq> set (seq_span low high)"
  proof
    fix x assume "x \<in> {low..high}"
    then have "unat x \<in> set [unat low..<Suc (unat high)]"
      by (simp add: word_le_nat_alt less_Suc_eq_le del: upt_Suc)
    then have "word_of_nat (unat x) \<in> set (seq_span low high)"
      unfolding seq_span_def set_map by (rule imageI)
    then show "x \<in> set (seq_span low high)"
      by simp
  qed
qed

lemma seq_span_empty: "high < low \<Longrightarrow> seq_span low high = []"
  by (simp add: seq_span_def word_less_nat_alt)

lemma seq_succ_unat: "(i :: u64) \<le> high \<Longrightarrow> high \<noteq> - 1 \<Longrightarrow> unat (i + 1) = Suc (unat i)"
  by (metis u64_succ_unat word_order.not_eq_extremum order_le_less_trans)

lemma seq_span_step:
  assumes "low \<le> high" and "high \<noteq> - 1"
  shows "seq_span low high = low # seq_span (low + 1) high"
proof -
  have "[unat low..<Suc (unat high)] = unat low # [Suc (unat low)..<Suc (unat high)]"
    using assms(1) by (intro upt_conv_Cons) (simp add: word_le_nat_alt)
  then show ?thesis
    using seq_succ_unat [OF assms] by (simp add: seq_span_def del: upt_Suc)
qed

lemma distinct_seq_span: "distinct (seq_span low high)"
proof -
  have "inj_on (word_of_nat :: nat \<Rightarrow> u64) (set [unat low..<Suc (unat high)])"
  proof (rule inj_onI)
    fix m n
    assume "m \<in> set [unat low..<Suc (unat high)]" "n \<in> set [unat low..<Suc (unat high)]"
      and eq: "(word_of_nat m :: u64) = word_of_nat n"
    then have "m < 2 ^ 64" "n < 2 ^ 64"
      using unat_seq_less [of high] by (simp_all del: upt_Suc)
    then show "m = n"
      using arg_cong [OF eq, of unat] by (simp add: unat_of_nat)
  qed
  then show ?thesis
    by (simp add: seq_span_def distinct_map del: upt_Suc)
qed

text \<open>The loop returns, with the fold over its range, unless the bound is the largest number.\<close>

lemma seq_loop_returns:
  assumes "high \<noteq> - 1"
  shows "seq_loop f low high s = Some (fold f (seq_span low high) s)"
proof (induction "Suc (unat high) - unat low" arbitrary: low s)
  case 0
  then have "high < low"
    by (simp add: word_less_nat_alt)
  then show ?case
    by (subst seq_loop.simps) (auto simp: seq_span_empty)
next
  case (Suc n)
  then have le: "low \<le> high"
    by (simp add: word_le_nat_alt)
  have "seq_loop f (low + 1) high (f low s) = Some (fold f (seq_span (low + 1) high) (f low s))"
    using Suc.hyps(2) seq_succ_unat [OF le assms] by (intro Suc.hyps(1)) simp
  then show ?case
    using le by (subst seq_loop.simps) (simp add: seq_span_step [OF le assms])
qed

lemma seq_loop_diverges: "seq_loop f low (- 1) s = None"
proof (cases "seq_loop f low (- 1) s")
  case (Some t)
  have "high \<noteq> - 1" if "seq_loop g i high u = Some v" for g :: "seq_no \<Rightarrow> 'a \<Rightarrow> 'a" and i high u v
  proof (rule seq_loop.raw_induct [where P = "\<lambda>g i high u v. high \<noteq> - 1", OF _ that])
    fix loop and g :: "seq_no \<Rightarrow> 'a \<Rightarrow> 'a" and i high :: seq_no and u v
    assume "\<And>g i high u v. loop g i high u = Some v \<Longrightarrow> high \<noteq> - 1"
      and "(if i \<le> high then loop g (i + 1) high (g i u) else Some u) = Some v"
    then show "high \<noteq> - 1"
      by (cases "i \<le> high") auto
  qed
  with Some show ?thesis by blast
qed simp

text \<open>
  The loop with a \<^verbatim>\<open>break\<close>: the body returns the next state, or nothing to leave the loop.
\<close>

partial_function (option) seq_scan ::
    "(seq_no \<Rightarrow> 's \<Rightarrow> 's option) \<Rightarrow> seq_no \<Rightarrow> seq_no \<Rightarrow> 's \<Rightarrow> 's option" where
  "seq_scan f i high s =
     (if i \<le> high
      then (case f i s of None \<Rightarrow> Some s | Some t \<Rightarrow> seq_scan f (i + 1) high t)
      else Some s)"

declare seq_scan.simps [code]

fun scan_list :: "('a \<Rightarrow> 's \<Rightarrow> 's option) \<Rightarrow> 'a list \<Rightarrow> 's \<Rightarrow> 's" where
  "scan_list f [] s = s"
| "scan_list f (x # xs) s = (case f x s of None \<Rightarrow> s | Some t \<Rightarrow> scan_list f xs t)"

lemma seq_scan_returns:
  assumes "high \<noteq> - 1"
  shows "seq_scan f low high s = Some (scan_list f (seq_span low high) s)"
proof (induction "Suc (unat high) - unat low" arbitrary: low s)
  case 0
  then have "high < low"
    by (simp add: word_less_nat_alt)
  then show ?case
    by (subst seq_scan.simps) (auto simp: seq_span_empty)
next
  case (Suc n)
  then have le: "low \<le> high"
    by (simp add: word_le_nat_alt)
  have "seq_scan f (low + 1) high t = Some (scan_list f (seq_span (low + 1) high) t)" for t
    using Suc.hyps(2) seq_succ_unat [OF le assms] by (intro Suc.hyps(1)) simp
  then show ?case
    using le by (subst seq_scan.simps) (simp add: seq_span_step [OF le assms] split: option.split)
qed

end
