(* ===== verification/Segmentation.thy ===== *)
theory Segmentation
  imports Svsync_Base Seq_Range
begin

text \<open>
  Publications too large for one packet (\<^verbatim>\<open>prepareOuterSegment\<close>, \<^verbatim>\<open>prepareSegmentedPackets\<close> and
  \<^verbatim>\<open>decodeInnerSegments\<close> of \<^verbatim>\<open>svspubsub.cpp\<close>): the binary search for the largest content that
  fits a signed packet, the passes that rebuild the segments until the final block agrees with
  their number, and the reassembly at the receiver. The signer is a function of the packet. The
  lemmas give the soundness of the search, the contents of the cuts, and what a collection of
  blocks must be to be reassembled.
\<close>

section \<open>Publications in preparation\<close>

text \<open>\<^verbatim>\<open>AsyncPublication\<close>; a default-constructed \<^verbatim>\<open>Data\<close> is an empty packet.\<close>

datatype publication_kind = KindBytes | KindNameOnly | KindPacket

record ('n, 'b, 'd) async_publication =
  ap_kind :: publication_kind
  ap_bootstrapTime :: bootstrap_time
  ap_seqNo :: seq_no
  ap_name :: 'n
  ap_nodePrefix :: 'n
  ap_freshnessPeriod :: int
  ap_value :: bytes
  ap_packet :: 'd
  ap_mappingBlocks :: "'b list"

definition MAX_DATA_SIZE :: nat where
  "MAX_DATA_SIZE = 8000"

definition isFinalPacketSizeAllowed :: "nat \<Rightarrow> bool" where
  "isFinalPacketSizeAllowed wireSize \<longleftrightarrow> wireSize \<le> MAX_NDN_PACKET_SIZE"

definition wire_size :: "('n, 'c, 'b, 'd, 'i) ndn \<Rightarrow> 'd \<Rightarrow> nat" where
  "wire_size N d = length (block_wire N (data_wire N d))"

section \<open>Cutting a publication\<close>

definition inner_args ::
    "('n, 'c, 'b, 'd, 'i) ndn \<Rightarrow> ('n, 'b, 'd) async_publication \<Rightarrow> nat \<Rightarrow> 'c \<Rightarrow> nat \<Rightarrow> nat
      \<Rightarrow> ('n, 'c, 'b) data_args" where
  "inner_args N pub segmentNo finalBlock offset contentSize =
     \<lparr>da_name = segment_name N (ap_name pub) (of_nat segmentNo),
      da_content = PayloadBytes (take contentSize (drop offset (ap_value pub))),
      da_freshness = ap_freshnessPeriod pub, da_content_type = None,
      da_final_block = Some finalBlock\<rparr>"

definition outer_args ::
    "('n, 'c, 'b, 'd, 'i) ndn \<Rightarrow> ('n, 'b, 'd, 'i, 's, 'k) svsync \<Rightarrow> ('n, 'b, 'd) async_publication
      \<Rightarrow> nat \<Rightarrow> 'c \<Rightarrow> 'd \<Rightarrow> ('n, 'c, 'b) data_args" where
  "outer_args N S pub segmentNo finalBlock inner =
     \<lparr>da_name = segment_name N
        (makeDataName N (ap_nodePrefix pub) (ap_bootstrapTime pub) (ap_seqNo pub) S)
        (of_nat segmentNo),
      da_content = PayloadBlock (data_wire N inner), da_freshness = ap_freshnessPeriod pub,
      da_content_type = Some tlv_Data, da_final_block = Some finalBlock\<rparr>"

definition prepareOuterSegment ::
    "('n, 'c, 'b, 'd, 'i) ndn \<Rightarrow> ('d \<Rightarrow> 'd result) \<Rightarrow> ('n, 'b, 'd, 'i, 's, 'k) svsync
      \<Rightarrow> ('n, 'b, 'd) async_publication \<Rightarrow> 'c \<Rightarrow> nat \<Rightarrow> nat \<Rightarrow> nat \<Rightarrow> 'd result" where
  "prepareOuterSegment N sign S pub finalBlock segmentNo offset contentSize =
     res_bind (sign (data_new N (inner_args N pub segmentNo finalBlock offset contentSize)))
       (\<lambda>inner. sign (data_new N (outer_args N S pub segmentNo finalBlock inner)))"

text \<open>
  The binary search for the largest content that fits: \<open>prepare\<close> prepares the packet of a candidate
  size. The bounds are \<^verbatim>\<open>size_t\<close>; \<open>low\<close> starts at 1, so that \<^verbatim>\<open>candidate - 1\<close> does not wrap.
\<close>

function fit_search ::
    "(nat \<Rightarrow> 'd result) \<Rightarrow> ('d \<Rightarrow> bool) \<Rightarrow> nat \<Rightarrow> nat \<Rightarrow> nat \<times> 'd option \<Rightarrow> (nat \<times> 'd option) result"
where
  "fit_search prepare allowed low high best =
     (if 0 < low \<and> low \<le> high then
        (let candidate = low + (high - low) div 2 in
         res_bind (prepare candidate) (\<lambda>packet.
           if allowed packet
           then fit_search prepare allowed (candidate + 1) high (candidate, Some packet)
           else fit_search prepare allowed low (candidate - 1) best))
      else Inr best)"
  by pat_completeness auto
termination
  by (relation "measure (\<lambda>(prepare, allowed, low, high, best). Suc high - low)") auto

declare fit_search.simps [simp del]

text \<open>The loop over the value: \<open>prepare segmentNo offset size\<close> prepares a packet, \<open>valueSize\<close> is the
  size of the value.\<close>

function segment_loop ::
    "(nat \<Rightarrow> nat \<Rightarrow> nat \<Rightarrow> 'd result) \<Rightarrow> ('d \<Rightarrow> bool) \<Rightarrow> nat \<Rightarrow> nat \<Rightarrow> 'd list \<Rightarrow> 'd list result"
where
  "segment_loop prepare allowed valueSize offset packets =
     (if offset < valueSize then
        res_bind (fit_search (prepare (length packets) offset) allowed 1
                    (min MAX_DATA_SIZE (valueSize - offset)) (0, None)) (\<lambda>found.
          case found of
            (best, Some bestPacket) \<Rightarrow>
              if best = 0
              then Inl (LengthError ''signed SVS segment cannot fit MAX_NDN_PACKET_SIZE'')
              else segment_loop prepare allowed valueSize (offset + best) (packets @ [bestPacket])
          | (_, None) \<Rightarrow> Inl (LengthError ''signed SVS segment cannot fit MAX_NDN_PACKET_SIZE''))
      else Inr packets)"
  by pat_completeness auto
termination
  by (relation "measure (\<lambda>(prepare, allowed, valueSize, offset, packets). valueSize - offset)") auto

declare segment_loop.simps [simp del]

text \<open>The passes, at most 16: each starts from the number of segments the last one found.\<close>

fun segment_passes ::
    "('n, 'c, 'b, 'd, 'i) ndn \<Rightarrow> ('d \<Rightarrow> 'd result) \<Rightarrow> ('n, 'b, 'd, 'i, 's, 'k) svsync
      \<Rightarrow> ('n, 'b, 'd) async_publication \<Rightarrow> nat \<Rightarrow> nat \<Rightarrow> 'd list result" where
  "segment_passes N sign S pub 0 finalGuess =
     Inl (RuntimeError ''segmented FinalBlock fitting did not converge'')"
| "segment_passes N sign S pub (Suc passes) finalGuess =
     res_bind (segment_loop
         (prepareOuterSegment N sign S pub (comp_segment N (of_nat finalGuess)))
         (\<lambda>packet. isFinalPacketSizeAllowed (wire_size N packet))
         (length (ap_value pub)) 0 []) (\<lambda>packets.
       let actualFinal = length packets - 1 in
       if actualFinal = finalGuess then
         (if \<exists>packet \<in> set packets. \<not> isFinalPacketSizeAllowed (wire_size N packet)
          then Inl (LengthError ''final signed SVS segment exceeds packet limit'')
          else Inr packets)
       else segment_passes N sign S pub passes actualFinal)"

definition prepareSegmentedPackets ::
    "('n, 'c, 'b, 'd, 'i) ndn \<Rightarrow> ('d \<Rightarrow> 'd result) \<Rightarrow> ('n, 'b, 'd, 'i, 's, 'k) svsync
      \<Rightarrow> ('n, 'b, 'd) async_publication \<Rightarrow> 'd list result" where
  "prepareSegmentedPackets N sign S pub =
     (if ap_value pub = [] then Inl (InvalidArgument ''cannot segment an empty publication'')
      else segment_passes N sign S pub 16 ((length (ap_value pub) - 1) div MAX_DATA_SIZE))"

section \<open>Reassembly\<close>

text \<open>What the loop of \<^verbatim>\<open>decodeInnerSegments\<close> reads from one block, if it accepts it: the name
  without version and segment, the segment number, the final one, the packet.\<close>

definition inner_segment ::
    "('n, 'c, 'b, 'd, 'i) ndn \<Rightarrow> 'b \<Rightarrow> ('n \<times> u64 \<times> u64 \<times> 'd) option" where
  "inner_segment N block =
     (case data_of_block N block of
        None \<Rightarrow> None
      | Some inner \<Rightarrow>
          let name = data_name N inner in
          if nm_size N name < 2 then None
          else
            (case (Option.bind (nm_at N name (-1)) (comp_segment_of N), nm_at N name (-2),
                   Option.bind (data_final_block N inner) (comp_segment_of N)) of
               (Some segmentNo, Some version, Some finalSegment) \<Rightarrow>
                 if \<not> comp_is_version N version \<or> segmentNo > finalSegment \<or> data_value N inner = []
                 then None
                 else Some (nm_prefix N name (-2), segmentNo, finalSegment, inner)
             | _ \<Rightarrow> None))"

type_synonym ('n, 'd) segment_state = "(u64, 'd) std_map \<times> u64 option \<times> 'n option"

definition collect_segment ::
    "('n, 'c, 'b, 'd, 'i) ndn \<Rightarrow> 'b \<Rightarrow> ('n, 'd) segment_state \<Rightarrow> ('n, 'd) segment_state option" where
  "collect_segment N block st =
     (case (inner_segment N block, st) of
        (Some (currentBase, segmentNo, finalSegment, inner), (segments, expectedFinal, baseName)) \<Rightarrow>
          if (baseName \<noteq> None \<and> baseName \<noteq> Some currentBase) \<or>
             (expectedFinal \<noteq> None \<and> expectedFinal \<noteq> Some finalSegment) \<or>
             map_of segments segmentNo \<noteq> None
          then None
          else Some (map_put segmentNo inner segments, Some finalSegment, Some currentBase)
      | _ \<Rightarrow> None)"

fun collect_segments ::
    "('n, 'c, 'b, 'd, 'i) ndn \<Rightarrow> 'b list \<Rightarrow> ('n, 'd) segment_state \<Rightarrow> ('n, 'd) segment_state option" where
  "collect_segments N [] st = Some st"
| "collect_segments N (block # blocks) st =
     Option.bind (collect_segment N block st) (collect_segments N blocks)"

text \<open>The body of the loop that concatenates; a missing segment returns nothing.\<close>

definition append_segment ::
    "('n, 'c, 'b, 'd, 'i) ndn \<Rightarrow> (u64, 'd) std_map \<Rightarrow> u64 \<Rightarrow> bytes option \<Rightarrow> bytes option" where
  "append_segment N segments segmentNo payload =
     (case (payload, map_of segments segmentNo) of
        (Some payload, Some inner) \<Rightarrow> Some (payload @ data_value N inner)
      | _ \<Rightarrow> None)"

text \<open>
  \<^verbatim>\<open>decodeInnerSegments\<close>: the inner option is what it returns, the outer one is \<open>None\<close> when its
  last loop never ends; \<^verbatim>\<open>*expectedFinal + 1\<close> is 64-bit arithmetic.
\<close>

definition decodeInnerSegments ::
    "('n, 'c, 'b, 'd, 'i) ndn \<Rightarrow> 'b list \<Rightarrow> ('n \<times> bytes) option option" where
  "decodeInnerSegments N blocks =
     (if blocks = [] then Some None
      else
        (case collect_segments N blocks ([], None, None) of
           Some (segments, Some expectedFinal, Some baseName) \<Rightarrow>
             if of_nat (length segments) \<noteq> expectedFinal + 1 then Some None
             else
               (case seq_loop (append_segment N segments) 0 expectedFinal (Some []) of
                  None \<Rightarrow> None
                | Some payload \<Rightarrow> Some (map_option (\<lambda>payload. (baseName, payload)) payload))
         | _ \<Rightarrow> Some None))"


section \<open>The search\<close>

lemma fit_search_sound:
  assumes "fit_search prepare allowed low high best = Inr (b, Some p)" and "0 < low"
  shows "best = (b, Some p) \<or> low \<le> b \<and> b \<le> high \<and> prepare b = Inr p \<and> allowed p"
  using assms
proof (induction prepare allowed low high best rule: fit_search.induct)
  case (1 prepare allowed low high best)
  show ?case
  proof (cases "low \<le> high")
    case False
    then show ?thesis
      using 1 by (simp add: fit_search.simps)
  next
    case True
    let ?c = "low + (high - low) div 2"
    obtain packet where packet: "prepare ?c = Inr packet"
      using 1(3,4) True by (subst (asm) fit_search.simps) (auto simp: Let_def res_bind_eq_Inr)
    have c: "low \<le> ?c" "?c \<le> high"
      using True by auto
    show ?thesis
    proof (cases "allowed packet")
      case True
      then have "fit_search prepare allowed (?c + 1) high (?c, Some packet) = Inr (b, Some p)"
        using 1(3,4) c packet by (simp add: fit_search.simps [of prepare allowed low high] Let_def)
      then have "(?c, Some packet) = (b, Some p) \<or> ?c + 1 \<le> b \<and> b \<le> high \<and> prepare b = Inr p \<and> allowed p"
        using 1(1) [of ?c packet] 1(4) c packet True by simp
      then show ?thesis
        using c packet True by auto
    next
      case False
      then have "fit_search prepare allowed low (?c - 1) best = Inr (b, Some p)"
        using 1(3,4) c packet by (simp add: fit_search.simps [of prepare allowed low high] Let_def)
      then show ?thesis
        using 1(2) [of ?c packet] 1(4) c packet False by auto
    qed
  qed
qed

text \<open>
  When the packets that fit are those up to some size \<open>t\<close>, the search finds the largest size
  within its bounds.
\<close>

lemma fit_search_threshold:
  assumes "0 < low" and "\<And>k. low \<le> k \<Longrightarrow> k \<le> high \<Longrightarrow> prepare k = Inr (f k)"
    and "\<And>k. low \<le> k \<Longrightarrow> k \<le> high \<Longrightarrow> allowed (f k) \<longleftrightarrow> k \<le> t"
  shows "fit_search prepare allowed low high best =
    Inr (if low \<le> min t high then (min t high, Some (f (min t high))) else best)"
  using assms
proof (induction prepare allowed low high best rule: fit_search.induct)
  case (1 prepare allowed low high best)
  show ?case
  proof (cases "low \<le> high")
    case False
    then show ?thesis
      by (simp add: fit_search.simps)
  next
    case True
    let ?c = "low + (high - low) div 2"
    have c: "low \<le> ?c" "?c \<le> high"
      using True by auto
    have packet: "prepare ?c = Inr (f ?c)" and ok: "allowed (f ?c) \<longleftrightarrow> ?c \<le> t"
      using 1(4,5) c by blast+
    show ?thesis
    proof (cases "?c \<le> t")
      case True
      have "fit_search prepare allowed low high best =
          fit_search prepare allowed (?c + 1) high (?c, Some (f ?c))"
        using 1(3) c packet ok True by (subst fit_search.simps) (simp add: Let_def)
      also have "\<dots> = Inr (if ?c + 1 \<le> min t high then (min t high, Some (f (min t high)))
          else (?c, Some (f ?c)))"
        using 1(1) [of ?c "f ?c"] 1(3,4,5) c packet ok True by simp
      also have "min t high = ?c" if "\<not> ?c + 1 \<le> min t high"
        using that True c by (simp add: min_def split: if_splits)
      ultimately show ?thesis
        using True c by (cases "?c + 1 \<le> min t high") simp_all
    next
      case False
      have "fit_search prepare allowed low high best = fit_search prepare allowed low (?c - 1) best"
        using 1(3) c packet ok False by (subst fit_search.simps) (simp add: Let_def)
      also have "\<dots> = Inr (if low \<le> min t (?c - 1) then (min t (?c - 1), Some (f (min t (?c - 1)))) else best)"
        using 1(2) [of ?c "f ?c"] 1(3,4,5) c packet ok False by simp
      also have "min t (?c - 1) = t"
        using False by simp
      also have "t = min t high"
        using False c by simp
      finally show ?thesis .
    qed
  qed
qed

section \<open>The cuts\<close>

text \<open>The sizes and packets the loop produces from a segment number and an offset on.\<close>

fun cuts_ok ::
    "(nat \<Rightarrow> nat \<Rightarrow> nat \<Rightarrow> 'd result) \<Rightarrow> ('d \<Rightarrow> bool) \<Rightarrow> nat \<Rightarrow> nat \<Rightarrow> (nat \<times> 'd) list \<Rightarrow> bool" where
  "cuts_ok prepare allowed segmentNo offset [] \<longleftrightarrow> True"
| "cuts_ok prepare allowed segmentNo offset ((k, p) # cuts) \<longleftrightarrow>
     0 < k \<and> k \<le> MAX_DATA_SIZE \<and> prepare segmentNo offset k = Inr p \<and> allowed p \<and>
     cuts_ok prepare allowed (Suc segmentNo) (offset + k) cuts"

lemma segment_loop_cuts:
  assumes "segment_loop prepare allowed valueSize offset packets = Inr packets'"
    and "offset \<le> valueSize"
  shows "\<exists>cuts. cuts_ok prepare allowed (length packets) offset cuts \<and>
    packets' = packets @ map snd cuts \<and> offset + sum_list (map fst cuts) = valueSize"
  using assms
proof (induction prepare allowed valueSize offset packets rule: segment_loop.induct)
  case (1 prepare allowed valueSize offset packets)
  show ?case
  proof (cases "offset < valueSize")
    case False
    then show ?thesis
      using 1(2,3) by (intro exI [of _ "[]"]) (simp add: segment_loop.simps)
  next
    case True
    let ?search = "fit_search (prepare (length packets) offset) allowed 1
        (min MAX_DATA_SIZE (valueSize - offset)) (0, None)"
    obtain k p where found: "?search = Inr (k, Some p)" and k: "k \<noteq> 0"
      and rest: "segment_loop prepare allowed valueSize (offset + k) (packets @ [p]) = Inr packets'"
      using 1(2) True by (subst (asm) segment_loop.simps)
        (auto simp: res_bind_eq_Inr split: prod.splits option.splits if_splits)
    have cut: "1 \<le> k" "k \<le> min MAX_DATA_SIZE (valueSize - offset)"
      "prepare (length packets) offset k = Inr p" "allowed p"
      using fit_search_sound [OF found] by auto
    have "\<exists>cuts. cuts_ok prepare allowed (length (packets @ [p])) (offset + k) cuts \<and>
        packets' = (packets @ [p]) @ map snd cuts \<and> offset + k + sum_list (map fst cuts) = valueSize"
      by (rule 1(1) [OF True found refl refl k rest]) (use cut(2) True in auto)
    then obtain cuts where "cuts_ok prepare allowed (Suc (length packets)) (offset + k) cuts"
      "packets' = packets @ p # map snd cuts" "offset + k + sum_list (map fst cuts) = valueSize"
      by auto
    then show ?thesis
      using cut by (intro exI [of _ "(k, p) # cuts"]) (simp add: add.assoc)
  qed
qed

lemma segment_passes_cuts:
  assumes "segment_passes N sign S pub passes guess = Inr packets" and "ap_value pub \<noteq> []"
  shows "\<exists>cuts. cuts_ok (prepareOuterSegment N sign S pub (comp_segment N (of_nat (length packets - 1))))
      (\<lambda>p. wire_size N p \<le> MAX_NDN_PACKET_SIZE) 0 0 cuts \<and>
    packets = map snd cuts \<and> sum_list (map fst cuts) = length (ap_value pub) \<and> cuts \<noteq> []"
  using assms(1)
proof (induction passes arbitrary: guess)
  case 0
  then show ?case by simp
next
  case (Suc passes)
  let ?prepare = "prepareOuterSegment N sign S pub (comp_segment N (of_nat guess))"
  let ?allowed = "\<lambda>p. isFinalPacketSizeAllowed (wire_size N p)"
  obtain found where found: "segment_loop ?prepare ?allowed (length (ap_value pub)) 0 [] = Inr found"
    using Suc.prems by (auto simp: res_bind_eq_Inr)
  show ?case
  proof (cases "length found - 1 = guess")
    case False
    then show ?thesis
      using Suc.prems found by (intro Suc.IH) simp
  next
    case True
    then have packets: "packets = found"
      using Suc.prems found by (auto split: if_splits)
    obtain cuts where cuts: "cuts_ok ?prepare ?allowed 0 0 cuts" "found = map snd cuts"
      "sum_list (map fst cuts) = length (ap_value pub)"
      using segment_loop_cuts [OF found] by auto
    moreover have "cuts \<noteq> []"
      using cuts(3) assms(2) by auto
    ultimately show ?thesis
      using True packets unfolding isFinalPacketSizeAllowed_def by blast
  qed
qed


text \<open>What is in the \<open>i\<close>-th packet: an inner packet that is signed, and around it the outer one.\<close>

definition segment_of ::
    "('n, 'c, 'b, 'd, 'i) ndn \<Rightarrow> ('d \<Rightarrow> 'd result) \<Rightarrow> ('n, 'b, 'd, 'i, 's, 'k) svsync
      \<Rightarrow> ('n, 'b, 'd) async_publication \<Rightarrow> 'c \<Rightarrow> nat \<Rightarrow> bytes \<Rightarrow> 'd \<Rightarrow> 'd \<Rightarrow> bool" where
  "segment_of N sign S pub finalBlock segmentNo content inner outer \<longleftrightarrow>
     data_name N inner = segment_name N (ap_name pub) (of_nat segmentNo) \<and>
     data_value N inner = content \<and> data_final_block N inner = Some finalBlock \<and>
     data_name N outer = segment_name N
       (makeDataName N (ap_nodePrefix pub) (ap_bootstrapTime pub) (ap_seqNo pub) S)
       (of_nat segmentNo) \<and>
     data_value N outer = block_wire N (data_wire N inner) \<and>
     data_content_type N outer = tlv_Data \<and> data_final_block N outer = Some finalBlock \<and>
     wire_size N outer \<le> MAX_NDN_PACKET_SIZE"

lemma prepared_segment:
  assumes "packet_laws N" and "signer_laws N sign"
    and "prepareOuterSegment N sign S pub finalBlock segmentNo offset k = Inr outer"
    and "wire_size N outer \<le> MAX_NDN_PACKET_SIZE"
  shows "\<exists>inner. segment_of N sign S pub finalBlock segmentNo (take k (drop offset (ap_value pub)))
    inner outer"
proof -
  let ?in = "inner_args N pub segmentNo finalBlock offset k"
  obtain inner where inner: "sign (data_new N ?in) = Inr inner"
    and outer: "sign (data_new N (outer_args N S pub segmentNo finalBlock inner)) = Inr outer"
    using assms(3) by (auto simp: prepareOuterSegment_def res_bind_eq_Inr)
  have type: "block_type N (data_wire N inner) \<noteq> tlv_Content"
    using packet_law_data(1) [OF assms(1)] by (simp add: svs_simps)
  note facts = packet_law_data(4) [OF assms(1)] packet_law_content [OF assms(1)]
  show ?thesis
    unfolding segment_of_def
  proof (intro exI [of _ inner] conjI assms(4))
    show "data_name N inner = segment_name N (ap_name pub) (of_nat segmentNo)"
      "data_value N inner = take k (drop offset (ap_value pub))"
      "data_final_block N inner = Some finalBlock"
      using signer_law [OF assms(2) inner] facts by (simp_all add: inner_args_def data_value_def)
    show "data_value N outer = block_wire N (data_wire N inner)"
      using signer_law(2) [OF assms(2) outer] facts(2) [OF _ type]
      by (simp add: outer_args_def data_value_def)
  qed (use signer_law [OF assms(2) outer] facts in \<open>simp_all add: outer_args_def\<close>)
qed

lemma cut_segments:
  assumes "packet_laws N" and "signer_laws N sign"
    and "cuts_ok (prepareOuterSegment N sign S pub fb) (\<lambda>p. wire_size N p \<le> MAX_NDN_PACKET_SIZE)
      segNo offset cuts"
    and "offset + sum_list (map fst cuts) = length (ap_value pub)"
  shows "\<exists>inners. length inners = length cuts \<and>
    (\<forall>i < length cuts. data_value N (inners ! i) \<noteq> [] \<and>
      length (data_value N (inners ! i)) \<le> MAX_DATA_SIZE \<and>
      segment_of N sign S pub fb (segNo + i) (data_value N (inners ! i)) (inners ! i)
        (snd (cuts ! i))) \<and>
    concat (map (data_value N) inners) = drop offset (ap_value pub)"
  using assms(3,4)
proof (induction cuts arbitrary: segNo offset)
  case Nil
  then show ?case by simp
next
  case (Cons c cuts)
  obtain k p where c: "c = (k, p)"
    by fastforce
  have cut: "0 < k" "k \<le> MAX_DATA_SIZE" "prepareOuterSegment N sign S pub fb segNo offset k = Inr p"
    "wire_size N p \<le> MAX_NDN_PACKET_SIZE"
    using Cons.prems(1) c by simp_all
  obtain inner where inner: "segment_of N sign S pub fb segNo (take k (drop offset (ap_value pub))) inner p"
    using prepared_segment [OF assms(1,2) cut(3,4)] by blast
  obtain inners where len: "length inners = length cuts" and
    each: "\<And>i. i < length cuts \<Longrightarrow> data_value N (inners ! i) \<noteq> [] \<and>
      length (data_value N (inners ! i)) \<le> MAX_DATA_SIZE \<and>
      segment_of N sign S pub fb (Suc segNo + i) (data_value N (inners ! i)) (inners ! i)
        (snd (cuts ! i))" and
    rest: "concat (map (data_value N) inners) = drop (offset + k) (ap_value pub)"
    using Cons.IH [of "Suc segNo" "offset + k"] Cons.prems c by (auto simp: add.assoc)
  have content: "data_value N inner = take k (drop offset (ap_value pub))"
    using inner by (simp add: segment_of_def)
  have "length (data_value N inner) = k"
    using Cons.prems(2) c by (simp add: content)
  then have "data_value N inner \<noteq> [] \<and> length (data_value N inner) \<le> MAX_DATA_SIZE"
    using cut by auto
  moreover have "concat (map (data_value N) (inner # inners)) = drop offset (ap_value pub)"
    using append_take_drop_id [of k "drop offset (ap_value pub)"]
    by (simp add: content rest add.commute)
  ultimately show ?case
    using inner each len
    by (intro exI [of _ "inner # inners"]) (auto simp: c content less_Suc_eq_0_disj)
qed

lemma prepared_packets:
  assumes "packet_laws N" and "signer_laws N sign" and "prepareSegmentedPackets N sign S pub = Inr packets"
  shows "\<exists>inners. length inners = length packets \<and> packets \<noteq> [] \<and>
    (\<forall>i < length packets. data_value N (inners ! i) \<noteq> [] \<and>
      length (data_value N (inners ! i)) \<le> MAX_DATA_SIZE \<and>
      segment_of N sign S pub (comp_segment N (of_nat (length packets - 1))) i
        (data_value N (inners ! i)) (inners ! i) (packets ! i)) \<and>
    concat (map (data_value N) inners) = ap_value pub"
proof -
  have ne: "ap_value pub \<noteq> []"
    using assms(3) by (auto simp: prepareSegmentedPackets_def)
  then have "segment_passes N sign S pub 16 ((length (ap_value pub) - 1) div MAX_DATA_SIZE) = Inr packets"
    using assms(3) by (simp add: prepareSegmentedPackets_def)
  from segment_passes_cuts [OF this ne] obtain cuts where
    cuts: "cuts_ok (prepareOuterSegment N sign S pub (comp_segment N (of_nat (length packets - 1))))
      (\<lambda>p. wire_size N p \<le> MAX_NDN_PACKET_SIZE) 0 0 cuts" "packets = map snd cuts"
      "sum_list (map fst cuts) = length (ap_value pub)" "cuts \<noteq> []"
    by blast
  from cut_segments [OF assms(1,2) cuts(1)] cuts(2,3,4) show ?thesis
    by (auto simp del: of_nat_diff)
qed

section \<open>The collected segments\<close>

lemma inner_segment_Some:
  "inner_segment N block = Some (base, s, f, d) \<Longrightarrow> s \<le> f \<and> data_of_block N block = Some d"
  by (auto simp: inner_segment_def Let_def not_less split: option.splits if_splits)

text \<open>A segment packet is read as what it is.\<close>

lemma inner_segment_of:
  assumes "name_laws N" and "packet_laws N"
    and "data_name N inner = segment_name N base s" and "data_value N inner \<noteq> []"
    and "data_final_block N inner = Some (comp_segment N f)" and "s \<le> f"
    and "data_of_block N block = Some inner"
  shows "inner_segment N block = Some (base, s, f, inner)"
proof -
  let ?name = "segment_name N base s"
  have comps: "nm_comps N ?name = nm_comps N base @ [comp_version N 0, comp_segment N s]"
    by (simp add: segment_name_def name_law_comps [OF assms(1)])
  have "nm_at N ?name (- int 1) = Some (comp_segment N s)"
    by (subst name_law_back(2) [OF assms(1)]) (simp_all add: comps nth_append)
  moreover have "nm_at N ?name (- int 2) = Some (comp_version N 0)"
    by (subst name_law_back(2) [OF assms(1)]) (simp_all add: comps nth_append)
  moreover have "nm_comps N (nm_prefix N ?name (- int 2)) = nm_comps N base"
    by (subst name_law_back(1) [OF assms(1)]) (simp_all add: comps)
  then have "nm_prefix N ?name (- int 2) = base"
    using name_law_inj [OF assms(1)] by blast
  moreover have "\<not> nm_size N ?name < 2"
    by (simp add: name_law_comps(4) [OF assms(1)] comps)
  ultimately show ?thesis
    using assms(3-7) name_law_codecs(1,4) [OF assms(1)]
    by (simp add: inner_segment_def)
qed

lemma collect_segment_Some:
  "collect_segment N block (segs, ef, bn) = Some st \<longleftrightarrow>
     (\<exists>base s f d. inner_segment N block = Some (base, s, f, d) \<and> bn \<in> {None, Some base} \<and>
        ef \<in> {None, Some f} \<and> map_of segs s = None \<and> st = (map_put s d segs, Some f, Some base))"
  by (auto simp: collect_segment_def split: option.splits)

definition put_segments :: "(u64 \<times> 'd) list \<Rightarrow> (u64, 'd) std_map \<Rightarrow> (u64, 'd) std_map" where
  "put_segments = fold (\<lambda>(s, d). map_put s d)"

lemma put_segments_ok: "map_ok segs \<Longrightarrow> map_ok (put_segments qs segs)"
  unfolding put_segments_def by (rule std_map.put_all_ok)

lemma keys_put_segments: "fst ` set (put_segments qs segs) = fst ` set qs \<union> fst ` set segs"
  unfolding put_segments_def by (induction qs arbitrary: segs) (simp_all add: split_beta)

lemma map_of_put_segments:
  "map_ok segs \<Longrightarrow> distinct (map fst qs) \<Longrightarrow> map_of (put_segments qs segs) s =
     (case map_of qs s of None \<Rightarrow> map_of segs s | Some d \<Rightarrow> Some d)"
  unfolding put_segments_def by (simp add: std_map.lookup_put_all map_of_rev_distinct)

text \<open>
  The loop succeeds exactly when every block is an acceptable segment of one publication and no
  segment number occurs twice.
\<close>

lemma collect_segments_complete:
  assumes "map (inner_segment N) blocks = map (\<lambda>(s, d). Some (base, s, f, d)) qs"
    and "distinct (map fst qs)" and "\<forall>s \<in> fst ` set qs. map_of segs s = None" and "map_ok segs"
    and "bn \<in> {None, Some base}" and "ef \<in> {None, Some f}"
  shows "collect_segments N blocks (segs, ef, bn) =
    Some (put_segments qs segs, if qs = [] then ef else Some f, if qs = [] then bn else Some base)"
  using assms
proof (induction blocks arbitrary: qs segs ef bn)
  case Nil
  then show ?case by (simp add: put_segments_def)
next
  case (Cons block blocks)
  obtain s d qs' where qs: "qs = (s, d) # qs'"
    using Cons.prems(1) by (cases qs) auto
  have "collect_segment N block (segs, ef, bn) = Some (map_put s d segs, Some f, Some base)"
    using Cons.prems qs by (auto simp: collect_segment_Some)
  moreover have "collect_segments N blocks (map_put s d segs, Some f, Some base) =
      Some (put_segments qs' (map_put s d segs), Some f, Some base)"
    using Cons.prems qs by (subst Cons.IH [of qs']) (auto simp: image_iff)
  ultimately show ?case
    by (simp add: qs put_segments_def)
qed

lemma collect_segments_sound:
  assumes "collect_segments N blocks (segs, ef, bn) = Some (segs', ef', bn')" and "map_ok segs"
  shows "\<exists>qs base f. map (inner_segment N) blocks = map (\<lambda>(s, d). Some (base, s, f, d)) qs \<and>
    distinct (map fst qs) \<and> (\<forall>s \<in> fst ` set qs. map_of segs s = None) \<and>
    segs' = put_segments qs segs \<and>
    (if qs = [] then ef' = ef \<and> bn' = bn
     else ef' = Some f \<and> bn' = Some base \<and> ef \<in> {None, Some f} \<and> bn \<in> {None, Some base})"
  using assms
proof (induction blocks arbitrary: segs ef bn)
  case Nil
  then show ?case
    by (intro exI [of _ "[]"]) (simp add: put_segments_def)
next
  case (Cons block blocks)
  obtain base s f d where step: "inner_segment N block = Some (base, s, f, d)"
    "bn \<in> {None, Some base}" "ef \<in> {None, Some f}" "map_of segs s = None"
    and rest: "collect_segments N blocks (map_put s d segs, Some f, Some base) = Some (segs', ef', bn')"
    using Cons.prems(1)
    by (cases "collect_segment N block (segs, ef, bn)") (auto simp: collect_segment_Some)
  have "map_ok (map_put s d segs)"
    using Cons.prems(2) by simp
  from Cons.IH [OF rest this] obtain qs base' f' where
    IH: "map (inner_segment N) blocks = map (\<lambda>(s, d). Some (base', s, f', d)) qs"
    "distinct (map fst qs)" "\<forall>s' \<in> fst ` set qs. map_of (map_put s d segs) s' = None"
    "segs' = put_segments qs (map_put s d segs)"
    "if qs = [] then ef' = Some f \<and> bn' = Some base
     else ef' = Some f' \<and> bn' = Some base' \<and> Some f \<in> {None, Some f'} \<and> Some base \<in> {None, Some base'}"
    by blast
  have "map (inner_segment N) blocks = map (\<lambda>(s, d). Some (base, s, f, d)) qs"
    using IH(1,5) by (cases "qs = []") simp_all
  moreover have "ef' = Some f \<and> bn' = Some base"
    using IH(5) by (cases "qs = []") simp_all
  moreover have "s \<notin> fst ` set qs"
    using IH(3) by auto
  ultimately show ?case
    using step IH(2,3,4)
    by (intro exI [of _ "(s, d) # qs"] exI [of _ base] exI [of _ f])
      (auto simp: put_segments_def split: if_splits)
qed


section \<open>Numbers of segments\<close>

lemma unat_small: "n < 2 ^ 64 \<Longrightarrow> unat (of_nat n :: u64) = n"
  by (simp add: unat_of_nat)

lemma inj_small: "inj_on (of_nat :: nat \<Rightarrow> u64) {0..<n}" if "n < 2 ^ 64"
proof (rule inj_onI)
  fix i j
  assume "i \<in> {0..<n}" "j \<in> {0..<n}" and eq: "(of_nat i :: u64) = of_nat j"
  then have "i < 2 ^ 64" and "j < 2 ^ 64"
    using that by (meson atLeastLessThan_iff order_less_trans)+
  then show "i = j"
    using arg_cong [OF eq, of unat] by (simp only: unat_small)
qed

lemma segment_span:
  assumes "0 < n" and "n < 2 ^ 64"
  shows "seq_span 0 (of_nat (n - 1)) = map of_nat [0..<n]"
    and "(of_nat (n - 1) :: u64) \<noteq> - 1" and "(of_nat (n - 1) :: u64) + 1 = of_nat n"
proof -
  have u: "unat (of_nat (n - 1) :: u64) = n - 1"
    using assms by (intro unat_small) simp
  show "seq_span 0 (of_nat (n - 1)) = map of_nat [0..<n]"
    unfolding seq_span_def u using assms(1) by (simp del: upt_Suc)
  show "(of_nat (n - 1) :: u64) \<noteq> - 1"
  proof
    assume "(of_nat (n - 1) :: u64) = - 1"
    then have "n - 1 = unat (- 1 :: u64)"
      using u by argo
    then show False
      using assms by (simp add: unsigned_minus_1_eq_mask mask_eq_exp_minus_1)
  qed
  show "(of_nat (n - 1) :: u64) + 1 = of_nat n"
    using assms(1) by simp
qed

lemma append_segments:
  assumes "\<And>i. i \<in> set is \<Longrightarrow> map_of segs (of_nat i) = Some (f i)"
  shows "fold (append_segment N segs) (map of_nat is) (Some acc) =
    Some (acc @ concat (map (\<lambda>i. data_value N (f i)) is))"
  using assms by (induction "is" arbitrary: acc) (simp_all add: append_segment_def)

lemma length_put_segments:
  assumes "distinct (map fst qs)"
  shows "length (put_segments qs []) = length qs"
proof -
  have "distinct (map fst (put_segments qs []))"
    by (intro map_ok_distinct put_segments_ok) simp
  then have "length (put_segments qs []) = card (fst ` set (put_segments qs []))"
    using distinct_card by fastforce
  also have "\<dots> = card (set (map fst qs))"
    by (simp add: keys_put_segments)
  also have "\<dots> = length qs"
    using distinct_card [OF assms] by simp
  finally show ?thesis .
qed

section \<open>Reassembly\<close>

definition numbered :: "'d list \<Rightarrow> (u64 \<times> 'd) list" where
  "numbered ds = map (\<lambda>i. (of_nat i, ds ! i)) [0..<length ds]"

lemma distinct_numbered: "length ds < 2 ^ 64 \<Longrightarrow> distinct (map fst (numbered ds))"
  using inj_small [of "length ds"] by (simp add: numbered_def distinct_map comp_def)

lemma distinct_numbered_pairs: "length ds < 2 ^ 64 \<Longrightarrow> distinct (numbered ds)"
  using distinct_numbered [of ds] unfolding distinct_map by blast

lemma decode_numbered:
  assumes blocks: "map (inner_segment N) blocks =
      map (\<lambda>(s, d). Some (base, s, of_nat (length ds - 1), d)) qs"
    and perm: "mset qs = mset (numbered ds)" and ds: "ds \<noteq> []" "length ds < 2 ^ 64"
  shows "decodeInnerSegments N blocks = Some (Some (base, concat (map (data_value N) ds)))"
proof -
  let ?segs = "put_segments qs []"
  have "mset (map fst qs) = mset (map fst (numbered ds))"
    using perm by simp
  then have dist: "distinct (map fst qs)"
    using distinct_numbered [OF ds(2)] mset_eq_imp_distinct_iff by blast
  have len: "length qs = length ds"
    using mset_eq_length [OF perm] by (simp add: numbered_def)
  have "length blocks = length qs"
    using arg_cong [OF blocks, of length] by simp
  then have ne: "blocks \<noteq> []" "qs \<noteq> []"
    using len ds(1) by auto
  have collected: "collect_segments N blocks ([], None, None) =
      Some (?segs, Some (of_nat (length ds - 1)), Some base)"
    using collect_segments_complete [OF blocks dist, of "[]" None None] ne(2) by simp
  have look: "map_of ?segs (of_nat i) = Some (ds ! i)" if "i < length ds" for i
  proof -
    have "(of_nat i, ds ! i) \<in> set qs"
      using that mset_eq_setD [OF perm] by (simp add: numbered_def)
    then have "map_of qs (of_nat i) = Some (ds ! i)"
      using dist by simp
    then show ?thesis
      by (simp add: map_of_put_segments [OF _ dist])
  qed
  have pos: "0 < length ds"
    using ds(1) by simp
  note span = segment_span [OF pos ds(2)]
  have "seq_loop (append_segment N ?segs) 0 (of_nat (length ds - 1)) (Some []) =
      Some (Some (concat (map (\<lambda>i. data_value N (ds ! i)) [0..<length ds])))"
    unfolding seq_loop_returns [OF span(2)] span(1)
    by (subst append_segments [where f = "(!) ds"]) (simp_all add: look)
  also have "map (\<lambda>i. data_value N (ds ! i)) [0..<length ds] = map (data_value N) ds"
    by (rule nth_equalityI) simp_all
  finally show ?thesis
    using ne(1) collected span(3) length_put_segments [OF dist] len
    by (simp add: decodeInnerSegments_def del: of_nat_diff)
qed

lemma inner_segments_quads:
  fixes N :: "('n, 'c, 'b, 'd, 'i) ndn"
  assumes "mset (map (inner_segment N) blocks) = mset (map (\<lambda>(s, d). Some (base, s, f, d)) ps)"
  shows "\<exists>qs. map (inner_segment N) blocks = map (\<lambda>(s, d). Some (base, s, f, d)) qs \<and> mset qs = mset ps"
proof -
  define quad :: "u64 \<times> 'd \<Rightarrow> ('n \<times> u64 \<times> u64 \<times> 'd) option" where
    "quad = (\<lambda>(s, d). Some (base, s, f, d))"
  define pair :: "('n \<times> u64 \<times> u64 \<times> 'd) option \<Rightarrow> u64 \<times> 'd" where
    "pair = (\<lambda>x. case the x of (_, s, _, d) \<Rightarrow> (s, d))"
  have inv: "pair (quad q) = q" for q
    by (simp add: pair_def quad_def split_beta)
  let ?qs = "map pair (map (inner_segment N) blocks)"
  have "mset ?qs = image_mset pair (mset (map quad ps))"
    using assms by (simp only: mset_map quad_def)
  also have "\<dots> = mset (map pair (map quad ps))"
    by (simp only: mset_map)
  also have "map pair (map quad ps) = ps"
    by (simp add: comp_def inv)
  finally have perm: "mset ?qs = mset ps" .
  have "set (map (inner_segment N) blocks) = set (map quad ps)"
    using mset_eq_setD [OF assms] by (simp only: quad_def)
  then have "quad (pair x) = x" if "x \<in> set (map (inner_segment N) blocks)" for x
    using that inv by auto
  then have "map (inner_segment N) blocks = map quad ?qs"
    unfolding map_map comp_def by (intro map_cong [OF refl, symmetric, THEN sym]) auto
  then show ?thesis
    using perm unfolding quad_def by blast
qed

lemma decode_quads:
  assumes "decodeInnerSegments N blocks = Some (Some (base, payload))" and "length blocks < 2 ^ 64"
  obtains qs f where "map (inner_segment N) blocks = map (\<lambda>(s, d). Some (base, s, f, d)) qs"
    and "distinct (map fst qs)" and "of_nat (length qs) = f + 1" and "qs \<noteq> []"
proof -
  obtain segs f where ne: "blocks \<noteq> []"
    and collected: "collect_segments N blocks ([], None, None) = Some (segs, Some f, Some base)"
    and len: "of_nat (length segs) = f + 1"
    using assms(1) by (auto simp: decodeInnerSegments_def split: if_splits option.splits)
  from collect_segments_sound [OF collected] obtain qs base' f' where
    qs: "map (inner_segment N) blocks = map (\<lambda>(s, d). Some (base', s, f', d)) qs"
    "distinct (map fst qs)" "segs = put_segments qs []"
    and st: "if qs = [] then Some f = None \<and> Some base = None
      else Some f = Some f' \<and> Some base = Some base' \<and> None \<in> {None, Some f'} \<and> None \<in> {None, Some base'}"
    by auto
  have "qs \<noteq> []"
    using ne qs(1) by auto
  then show thesis
    using that qs st len length_put_segments [OF qs(2)] by auto
qed

lemma quads_numbered:
  assumes "distinct (map fst qs)" and "\<forall>(s, d) \<in> set qs. s \<le> f" and "of_nat (length qs) = f + 1"
    and "length qs < 2 ^ 64" and "qs \<noteq> []"
  shows "\<exists>ds. mset qs = mset (numbered ds) \<and> length ds = length qs \<and> f = of_nat (length ds - 1)"
proof -
  let ?n = "length qs"
  let ?ds = "map (\<lambda>i. the (map_of qs (of_nat i))) [0..<?n]"
  have f: "f = of_nat (?n - 1)"
    using assms(3,5) segment_span(3) [of ?n] assms(4) by (metis add_right_cancel length_greater_0_conv)
  then have uf: "unat f = ?n - 1"
    using unat_small [of "?n - 1"] assms(4) by simp
  have "fst ` set qs \<subseteq> of_nat ` {0..<?n}"
  proof
    fix s assume "s \<in> fst ` set qs"
    then have "s \<le> f"
      using assms(2) by auto
    then have "unat s \<le> ?n - 1"
      using uf by (simp add: word_le_nat_alt)
    moreover have "0 < ?n"
      using assms(5) by simp
    ultimately have "unat s < ?n"
      by linarith
    then show "s \<in> of_nat ` {0..<?n}"
      by (intro image_eqI [of _ _ "unat s"]) simp_all
  qed
  moreover have "card (of_nat ` {0..<?n} :: u64 set) = card (fst ` set qs)"
    using card_image [OF inj_small [OF assms(4)]] distinct_card [OF assms(1)] by simp
  ultimately have keys: "fst ` set qs = of_nat ` {0..<?n}"
    by (simp add: card_subset_eq)
  have "set qs = set (numbered ?ds)"
  proof (rule set_eqI, clarify)
    fix s d
    show "(s, d) \<in> set qs \<longleftrightarrow> (s, d) \<in> set (numbered ?ds)"
    proof
      assume mem: "(s, d) \<in> set qs"
      then have "s \<in> fst ` set qs"
        by (force simp: image_iff)
      then obtain i where i: "i < ?n" "s = of_nat i"
        unfolding keys by auto
      moreover have "map_of qs s = Some d"
        using mem assms(1) by simp
      ultimately have "(s, d) = (\<lambda>i. (of_nat i, ?ds ! i)) i" and "i \<in> {0..<length ?ds}"
        by simp_all
      then show "(s, d) \<in> set (numbered ?ds)"
        unfolding numbered_def set_map set_upt by (rule image_eqI)
    next
      assume "(s, d) \<in> set (numbered ?ds)"
      then obtain i where i: "i < ?n" "s = of_nat i" "d = the (map_of qs (of_nat i))"
        by (auto simp: numbered_def)
      then have "s \<in> fst ` set qs"
        using keys by auto
      then show "(s, d) \<in> set qs"
        using i assms(1) by auto
    qed
  qed
  moreover have "distinct qs"
    using assms(1) unfolding distinct_map by blast
  moreover have "distinct (numbered ?ds)"
    using assms(4) by (intro distinct_numbered_pairs) (simp only: length_map length_upt minus_nat.diff_0)
  ultimately have "mset qs = mset (numbered ?ds)"
    using set_eq_iff_mset_eq_distinct by blast
  then show ?thesis
    using f by (intro exI [of _ ?ds]) simp
qed


section \<open>Sizes\<close>

lemma length_concat_le:
  "length xs = length ys \<Longrightarrow> (\<And>i. i < length xs \<Longrightarrow> length (xs ! i) \<le> length (ys ! i)) \<Longrightarrow>
     length (concat xs) \<le> length (concat ys)"
proof (induction xs ys rule: list_induct2)
  case (Cons x xs y ys)
  have "length x \<le> length y"
    using Cons.prems [of 0] by simp
  moreover have "length (concat xs) \<le> length (concat ys)"
    using Cons.IH Cons.prems [of "Suc i" for i] by simp
  ultimately show ?case by simp
qed simp

lemma length_concat_ge: "(\<And>x. x \<in> set xs \<Longrightarrow> x \<noteq> []) \<Longrightarrow> length xs \<le> length (concat xs)"
proof (induction xs)
  case (Cons x xs)
  have "1 \<le> length x"
    using Cons.prems [of x] by (cases x) simp_all
  moreover have "length xs \<le> length (concat xs)"
    using Cons by simp
  ultimately show ?case by simp
qed simp

lemma data_value_le: "packet_laws N \<Longrightarrow> length (data_value N d) \<le> wire_size N d"
  unfolding data_value_def wire_size_def
  using packet_law_block(3) [of N "data_content N d"] packet_law_data(3) [of N d] by linarith

text \<open>A segment whose outer packet is within the packet limit has an inner packet that fits.\<close>

lemma segment_of_fits:
  assumes "packet_laws N" and "segment_of N sign S pub fb i content inner outer"
  shows "fits (block_wire N (data_wire N inner))"
proof -
  have "length (block_wire N (data_wire N inner)) \<le> wire_size N outer"
    using data_value_le [OF assms(1), of outer] assms(2) by (simp add: segment_of_def)
  then show ?thesis
    using assms(2) by (simp add: segment_of_def fits_def MAX_NDN_PACKET_SIZE_def)
qed

text \<open>The value and the number of segments are bounded by the size of what is transferred.\<close>

lemma prepared_sizes:
  assumes "packet_laws N" and "signer_laws N sign" and "length inners = length packets"
    and "\<And>i. i < length packets \<Longrightarrow> data_value N (inners ! i) \<noteq> [] \<and>
      segment_of N sign S pub fb i (data_value N (inners ! i)) (inners ! i) (packets ! i)"
    and "concat (map (data_value N) inners) = ap_value pub"
  shows "length (ap_value pub) \<le> length (concat (map (data_value N) packets))"
    and "length packets \<le> length (ap_value pub)"
proof -
  have "length (data_value N (inners ! i)) \<le> length (data_value N (packets ! i))"
    if "i < length packets" for i
    using assms(4) [OF that] data_value_le [OF assms(1), of "inners ! i"]
    by (simp add: segment_of_def wire_size_def)
  then show "length (ap_value pub) \<le> length (concat (map (data_value N) packets))"
    unfolding assms(5) [symmetric] by (intro length_concat_le) (simp_all add: assms(3))
  have "length (map (data_value N) inners) \<le> length (concat (map (data_value N) inners))"
    using assms(3,4) by (intro length_concat_ge) (auto simp: in_set_conv_nth)
  then show "length packets \<le> length (ap_value pub)"
    by (simp add: assms(3,5))
qed

lemma prepared_total:
  assumes "packet_laws N" and "\<forall>p \<in> set packets. wire_size N p \<le> MAX_NDN_PACKET_SIZE"
  shows "length (concat (map (data_value N) packets)) \<le> length packets * MAX_NDN_PACKET_SIZE"
  using assms(2)
proof (induction packets)
  case (Cons p packets)
  then show ?case
    using data_value_le [OF assms(1), of p] by simp
qed simp

section \<open>Packets that always fit\<close>

text \<open>When every packet of at most \<^verbatim>\<open>MAX_DATA_SIZE\<close> bytes fits, every cut but the last has that
  size.\<close>

lemma segment_count_step:
  assumes "0 < d"
  shows "Suc ((d - min MAX_DATA_SIZE d + (MAX_DATA_SIZE - 1)) div MAX_DATA_SIZE) =
    (d + (MAX_DATA_SIZE - 1)) div MAX_DATA_SIZE"
  using assms unfolding MAX_DATA_SIZE_def by (cases "d \<le> 8000") auto

lemma segment_loop_full:
  assumes "\<And>segmentNo offset k. k \<le> MAX_DATA_SIZE \<Longrightarrow>
      \<exists>p. prepare segmentNo offset k = Inr p \<and> allowed p"
  shows "\<exists>found. segment_loop prepare allowed valueSize offset packets = Inr (packets @ found) \<and>
    length found = (valueSize - offset + (MAX_DATA_SIZE - 1)) div MAX_DATA_SIZE"
  using assms
proof (induction prepare allowed valueSize offset packets rule: segment_loop.induct)
  case (1 prepare allowed valueSize offset packets)
  show ?case
  proof (cases "offset < valueSize")
    case False
    then show ?thesis
      by (intro exI [of _ "[]"]) (simp add: segment_loop.simps MAX_DATA_SIZE_def)
  next
    case True
    let ?upper = "min MAX_DATA_SIZE (valueSize - offset)"
    obtain f where f: "\<And>k. k \<le> MAX_DATA_SIZE \<Longrightarrow>
        prepare (length packets) offset k = Inr (f k) \<and> allowed (f k)"
    proof -
      have "\<forall>k. \<exists>p. k \<le> MAX_DATA_SIZE \<longrightarrow> prepare (length packets) offset k = Inr p \<and> allowed p"
        using 1(2) by blast
      from choice [OF this] show thesis
        using that by blast
    qed
    have upper: "1 \<le> ?upper"
      using True by (simp add: MAX_DATA_SIZE_def)
    have found: "fit_search (prepare (length packets) offset) allowed 1 ?upper (0, None) =
        Inr (?upper, Some (f ?upper))"
      by (subst fit_search_threshold [where f = f and t = ?upper]) (use f upper in auto)
    have ne: "?upper \<noteq> 0"
      using upper by linarith
    obtain rest where rest: "segment_loop prepare allowed valueSize (offset + ?upper)
        (packets @ [f ?upper]) = Inr ((packets @ [f ?upper]) @ rest)"
      "length rest = (valueSize - (offset + ?upper) + (MAX_DATA_SIZE - 1)) div MAX_DATA_SIZE"
      using 1(1) [OF True found refl refl ne 1(2)] by blast
    have "segment_loop prepare allowed valueSize offset packets =
        segment_loop prepare allowed valueSize (offset + ?upper) (packets @ [f ?upper])"
      by (subst segment_loop.simps)
        (simp only: True if_True found res_bind_Inr prod.case option.case ne if_False)
    then have "segment_loop prepare allowed valueSize offset packets = Inr (packets @ f ?upper # rest)"
      using rest(1) by simp
    moreover have "length (f ?upper # rest) =
        (valueSize - offset + (MAX_DATA_SIZE - 1)) div MAX_DATA_SIZE"
      using segment_count_step [of "valueSize - offset"] True rest(2)
      by (simp only: length_Cons diff_diff_left [symmetric] zero_less_diff)
    ultimately show ?thesis
      by blast
  qed
qed

lemma cuts_allowed:
  "cuts_ok prepare allowed segmentNo offset cuts \<Longrightarrow> \<forall>p \<in> set (map snd cuts). allowed p"
  by (induction prepare allowed segmentNo offset cuts rule: cuts_ok.induct) auto

lemma first_pass:
  assumes "\<And>f segmentNo offset k. k \<le> MAX_DATA_SIZE \<Longrightarrow>
      \<exists>p. prepareOuterSegment N sign S pub (comp_segment N f) segmentNo offset k = Inr p \<and>
        wire_size N p \<le> MAX_NDN_PACKET_SIZE"
    and "ap_value pub \<noteq> []"
  shows "\<exists>packets. prepareSegmentedPackets N sign S pub = Inr packets \<and>
    length packets = (length (ap_value pub) - 1) div MAX_DATA_SIZE + 1 \<and>
    (\<forall>p \<in> set packets. wire_size N p \<le> MAX_NDN_PACKET_SIZE)"
proof -
  let ?n = "length (ap_value pub)"
  let ?guess = "(?n - 1) div MAX_DATA_SIZE"
  let ?prepare = "prepareOuterSegment N sign S pub (comp_segment N (of_nat ?guess))"
  let ?allowed = "\<lambda>p. isFinalPacketSizeAllowed (wire_size N p)"
  have loop: "\<exists>found. segment_loop ?prepare ?allowed ?n 0 [] = Inr ([] @ found) \<and>
      length found = (?n - 0 + (MAX_DATA_SIZE - 1)) div MAX_DATA_SIZE"
    by (rule segment_loop_full) (use assms(1) in \<open>simp add: isFinalPacketSizeAllowed_def\<close>)
  then obtain packets where packets: "segment_loop ?prepare ?allowed ?n 0 [] = Inr packets"
    and len: "length packets = (?n + (MAX_DATA_SIZE - 1)) div MAX_DATA_SIZE"
    by auto
  have "0 < ?n"
    using assms(2) by simp
  then have count: "length packets = ?guess + 1"
    unfolding len MAX_DATA_SIZE_def by linarith
  obtain cuts where cuts: "cuts_ok ?prepare ?allowed 0 0 cuts" "packets = map snd cuts"
    using segment_loop_cuts [OF packets] by auto
  have "\<forall>p \<in> set packets. wire_size N p \<le> MAX_NDN_PACKET_SIZE"
    using cuts_allowed [OF cuts(1)] cuts(2) unfolding isFinalPacketSizeAllowed_def by simp
  moreover have "segment_passes N sign S pub (Suc passes) ?guess = Inr packets" for passes
    using calculation count packets by (auto simp: isFinalPacketSizeAllowed_def)
  then have "prepareSegmentedPackets N sign S pub = Inr packets"
    using assms(2) by (simp add: prepareSegmentedPackets_def numeral_eq_Suc del: segment_passes.simps)
  ultimately show ?thesis
    using count by blast
qed


section \<open>Sample input for the witnesses\<close>

definition sample_publication :: "bytes \<Rightarrow> (i_name, i_block, i_data) async_publication" where
  "sample_publication v =
     \<lparr>ap_kind = KindBytes, ap_bootstrapTime = 100, ap_seqNo = 1, ap_name = [(8, [78])],
      ap_nodePrefix = [(8, [66])], ap_freshnessPeriod = 1000, ap_value = v,
      ap_packet = ([], (21, []), False, 0, 0, None), ap_mappingBlocks = []\<rparr>"

lemma length_i_wire: "length (i_wire b) \<le> 18 + length (snd b)"
proof -
  have "length (i_var_num n) \<le> 9" for n
    by (simp add: i_var_num_def)
  from add_mono [OF this this] show ?thesis
    by (simp add: i_wire_def)
qed

lemma length_i_typed: "length (i_wire (i_typed t x)) \<le> 26"
proof -
  have "length (i_nni x) \<le> 8"
    by (simp add: i_nni_def)
  then show ?thesis
    using length_i_wire [of "i_typed t x"] by (simp add: i_typed_def)
qed

lemma length_i_segment_name:
  "length (i_wire (i_name_wire (n @ [i_typed 54 v, i_typed 50 s]))) \<le>
    70 + length (concat (map i_wire n))"
  using length_i_wire [of "i_name_wire (n @ [i_typed 54 v, i_typed 50 s])"]
    length_i_typed [of 54 v] length_i_typed [of 50 s]
  by (simp add: i_name_wire_def)

lemma length_i_meta: "length (i_wire (i_meta_wire (ct, fr, Some (i_typed t x)))) \<le> 114"
proof -
  have "length (i_wire (24, i_nni (ucast ct))) \<le> 26" "length (i_wire (25, i_nni fr)) \<le> 26"
    using length_i_typed [of 24 "ucast ct"] length_i_typed [of 25 fr] by (simp_all add: i_typed_def)
  moreover have "length (i_wire (26, i_wire (i_typed t x))) \<le> 44"
    using length_i_wire [of "(26, i_wire (i_typed t x))"] length_i_typed [of t x] by simp
  ultimately show ?thesis
    using length_i_wire [of "i_meta_wire (ct, fr, Some (i_typed t x))"]
    by (simp add: i_meta_wire_def i_meta_blocks_def)
qed

lemma length_i_data:
  "length (i_wire (i_data_wire (n, c, s, m))) \<le>
    37 + length (i_wire (i_name_wire n)) + length (i_wire (i_meta_wire m)) + length (i_wire c)"
  using length_i_wire [of "i_data_wire (n, c, s, m)"] length_i_wire [of "(23, if s then [1] else [])"]
  by (cases s) (simp_all add: i_data_wire_def)

text \<open>Every packet of the sample fits: the two layers add at most 587 bytes.\<close>

lemma sample_segment_fits:
  assumes "k \<le> MAX_DATA_SIZE"
  shows "\<exists>p. prepareOuterSegment i_ndn i_sign sample_svsync (sample_publication v)
      (comp_segment i_ndn f) segmentNo offset k = Inr p \<and> wire_size i_ndn p \<le> MAX_NDN_PACKET_SIZE"
proof -
  let ?content = "take k (drop offset v)"
  let ?in = "([(8, [78])] @ [i_typed 54 0, i_typed 50 (of_nat segmentNo)], (tlv_Content, ?content), True,
      0 :: u32, 1000 :: u64, Some (i_typed 50 f))"
  let ?prefix = "[(8, [66]), (8, [71]), i_typed 56 100, i_typed 58 1]"
  let ?out = "(?prefix @ [i_typed 54 0, i_typed 50 (of_nat segmentNo)],
      (tlv_Content, i_wire (i_data_wire ?in)), True, 6 :: u32, 1000 :: u64, Some (i_typed 50 f))"
  have type: "fst (i_data_wire d) \<noteq> tlv_Content" for d
    by (cases d) (simp add: i_data_wire_def svs_simps)
  have "prepareOuterSegment i_ndn i_sign sample_svsync (sample_publication v)
      (comp_segment i_ndn f) segmentNo offset k = Inr ?out"
    by (simp add: prepareOuterSegment_def inner_args_def outer_args_def sample_publication_def
        segment_name_def i_names i_packets i_data_new_def i_content_def i_sign_def makeDataName_def
        sample_svsync_def sample_core_def sample_options_def sample_group_def type tlv_Data_def)
  moreover have "length (i_wire (i_data_wire ?in)) \<le> 258 + k"
    using length_i_data [of "fst ?in" "(tlv_Content, ?content)" True "snd (snd (snd ?in))"]
      length_i_segment_name [of "[(8, [78])]" 0 "of_nat segmentNo"]
      length_i_wire [of "(tlv_Content, ?content)"] length_i_wire [of "(8 :: u32, [78 :: u8])"]
      length_i_meta [of 0 1000 50 f]
    by simp
  then have "length (i_wire (tlv_Content, i_wire (i_data_wire ?in))) \<le> 276 + k"
    using length_i_wire [of "(tlv_Content, i_wire (i_data_wire ?in))"] by simp
  then have "length (i_wire (i_data_wire ?out)) \<le> 8800"
    using assms length_i_data [of "fst ?out" "(tlv_Content, i_wire (i_data_wire ?in))" True
        "snd (snd (snd ?out))"]
      length_i_segment_name [of ?prefix 0 "of_nat segmentNo"]
      length_i_wire [of "(8 :: u32, [66 :: u8])"] length_i_wire [of "(8 :: u32, [71 :: u8])"]
      length_i_typed [of 56 100] length_i_typed [of 58 1] length_i_meta [of 6 1000 50 f]
    by (simp add: MAX_DATA_SIZE_def)
  ultimately show ?thesis
    by (simp add: wire_size_def i_blocks i_packets MAX_NDN_PACKET_SIZE_def)
qed


lemma sample_segments:
  obtains packets where "prepareSegmentedPackets i_ndn i_sign sample_svsync
      (sample_publication (replicate 9000 7)) = Inr packets"
    and "length packets = 2" and "\<forall>p \<in> set packets. wire_size i_ndn p \<le> MAX_NDN_PACKET_SIZE"
proof -
  have v: "ap_value (sample_publication v) = v" for v
    by (simp add: sample_publication_def)
  have "ap_value (sample_publication (replicate 9000 7)) \<noteq> []"
    unfolding v by simp
  from first_pass [OF sample_segment_fits this] show thesis
    using that unfolding v by (auto simp: MAX_DATA_SIZE_def)
qed

section \<open>Properties\<close>

text \<open>The inner packets of what a publisher sends, and what the receiver makes of them.\<close>

lemma prepared_reassembly:
  assumes "name_laws N" and "packet_laws N" and "signer_laws N sign"
    and "prepareSegmentedPackets N sign S pub = Inr packets"
    and "fits (concat (map (data_value N) packets))"
  shows "\<exists>inners. length inners = length packets \<and>
    (\<forall>inner \<in> set inners. data_of_block N (data_wire N inner) = Some inner) \<and>
    block_elems N (block_with_value N tlv_Data (concat (map (data_value N) packets))) =
      Some (map (data_wire N) inners) \<and>
    (\<forall>blocks. mset blocks = mset (map (data_wire N) inners) \<longrightarrow>
       decodeInnerSegments N blocks = Some (Some (ap_name pub, ap_value pub)))"
proof -
  let ?final = "of_nat (length packets - 1) :: u64"
  obtain inners where len: "length inners = length packets" and ne: "packets \<noteq> []"
    and each: "\<And>i. i < length packets \<Longrightarrow> data_value N (inners ! i) \<noteq> [] \<and>
      segment_of N sign S pub (comp_segment N ?final) i (data_value N (inners ! i)) (inners ! i)
        (packets ! i)"
    and value_eq: "concat (map (data_value N) inners) = ap_value pub"
    using prepared_packets [OF assms(2,3,4)] by blast
  have "length packets < 2 ^ 64"
    using prepared_sizes [OF assms(2,3) len each value_eq] assms(5) unfolding fits_def by linarith
  then have small: "length inners < 2 ^ 64"
    by (simp only: len)
  have contents: "map (data_value N) packets = map (block_wire N) (map (data_wire N) inners)"
    using len each by (intro nth_equalityI) (simp_all add: segment_of_def)
  have inner: "inner_segment N (data_wire N (inners ! i)) =
      Some (ap_name pub, of_nat i, of_nat (length inners - 1), inners ! i)" if i: "i < length inners" for i
  proof (rule inner_segment_of [OF assms(1,2)])
    show "data_of_block N (data_wire N (inners ! i)) = Some (inners ! i)"
      using segment_of_fits [OF assms(2)] each i len packet_law_data(2) [OF assms(2)] by metis
    have "unat (of_nat i :: u64) \<le> unat (of_nat (length inners - 1) :: u64)"
      using i small by (simp add: unat_small del: of_nat_diff)
    then show "(of_nat i :: u64) \<le> of_nat (length inners - 1)"
      unfolding word_le_nat_alt .
  qed (use each i len in \<open>simp_all add: segment_of_def\<close>)
  have quads: "map (inner_segment N) (map (data_wire N) inners) =
      map (\<lambda>(s, d). Some (ap_name pub, s, of_nat (length inners - 1), d)) (numbered inners)"
    using inner by (intro nth_equalityI) (simp_all add: numbered_def)
  have "decodeInnerSegments N blocks = Some (Some (ap_name pub, ap_value pub))"
    if "mset blocks = mset (map (data_wire N) inners)" for blocks
  proof -
    have "mset (map (inner_segment N) blocks) = mset (map (inner_segment N) (map (data_wire N) inners))"
      using that by (simp only: mset_map)
    from inner_segments_quads [OF this [unfolded quads]] obtain qs where
      qs: "map (inner_segment N) blocks =
        map (\<lambda>(s, d). Some (ap_name pub, s, of_nat (length inners - 1), d)) qs"
      "mset qs = mset (numbered inners)"
      by blast
    have "inners \<noteq> []"
      using len ne by auto
    from decode_numbered [OF qs this small] show ?thesis
      unfolding value_eq .
  qed
  moreover have "block_elems N (block_with_value N tlv_Data (concat (map (data_value N) packets))) =
      Some (map (data_wire N) inners)"
    unfolding contents by (rule packet_law_block(4) [OF assms(2)]) (use assms(5) contents in simp)
  moreover have "\<forall>inner \<in> set inners. data_of_block N (data_wire N inner) = Some inner"
    unfolding all_set_conv_all_nth
    using segment_of_fits [OF assms(2)] each len packet_law_data(2) [OF assms(2)] by metis
  ultimately show ?thesis
    using len by blast
qed

text \<open>
  Segmentation round-trips. When a publication was cut into packets, each packet carries one
  inner packet; the receiver that concatenates the contents of the packets in order parses them
  into these inner packets, and from the inner packets in any order it reassembles exactly the
  name and the value that were published.
\<close>

theorem segmentation_roundtrip:
  assumes "name_laws N" and "packet_laws N" and "signer_laws N sign"
    and "prepareSegmentedPackets N sign S pub = Inr packets"
    and "fits (concat (map (data_value N) packets))"
  shows "\<exists>inners. length inners = length packets \<and>
    block_elems N (block_with_value N tlv_Data (concat (map (data_value N) packets))) =
      Some (map (data_wire N) inners) \<and>
    (\<forall>blocks. mset blocks = mset (map (data_wire N) inners) \<longrightarrow>
       decodeInnerSegments N blocks = Some (Some (ap_name pub, ap_value pub)))"
  using prepared_reassembly [OF assms] by blast

theorem segmentation_roundtrip_witness:
  "\<exists>packets inners. prepareSegmentedPackets i_ndn i_sign sample_svsync
       (sample_publication (replicate 9000 7)) = Inr packets \<and>
     length inners = 2 \<and>
     decodeInnerSegments i_ndn (rev (map i_data_wire inners)) =
       Some (Some ([(8, [78])], replicate 9000 7))"
proof -
  let ?pub = "sample_publication (replicate 9000 7)"
  obtain packets where p: "prepareSegmentedPackets i_ndn i_sign sample_svsync ?pub = Inr packets"
    and len: "length packets = 2" and size: "\<forall>p \<in> set packets. wire_size i_ndn p \<le> MAX_NDN_PACKET_SIZE"
    using sample_segments .
  have "fits (concat (map (data_value i_ndn) packets))"
    using prepared_total [OF i_packet_laws size] len
    by (simp add: fits_def MAX_NDN_PACKET_SIZE_def)
  from segmentation_roundtrip [OF i_name_laws i_packet_laws i_signer_laws p this] show ?thesis
    using p len by (auto simp: sample_publication_def i_packets)
qed

text \<open>
  The packets of a segmented publication. There is at least one; each is at most
  \<^verbatim>\<open>MAX_NDN_PACKET_SIZE\<close> bytes on the wire, has the data name of the publication extended by its
  version 0 and its position, the number of the last packet as final block and the content type
  of an encapsulated Data; each carries at least one and at most \<^verbatim>\<open>MAX_DATA_SIZE\<close> bytes.
\<close>

theorem segmentation_packets:
  assumes "packet_laws N" and "signer_laws N sign"
    and "prepareSegmentedPackets N sign S pub = Inr packets"
  shows "packets \<noteq> [] \<and> (\<exists>cuts. concat cuts = ap_value pub \<and> length cuts = length packets \<and>
    (\<forall>i < length packets. length (block_wire N (data_wire N (packets ! i))) \<le> 8800 \<and>
       data_name N (packets ! i) = segment_name N
         (makeDataName N (ap_nodePrefix pub) (ap_bootstrapTime pub) (ap_seqNo pub) S) (of_nat i) \<and>
       data_final_block N (packets ! i) = Some (comp_segment N (of_nat (length packets - 1))) \<and>
       data_content_type N (packets ! i) = tlv_Data \<and>
       cuts ! i \<noteq> [] \<and> length (cuts ! i) \<le> 8000))"
proof -
  obtain inners where inners: "length inners = length packets" "packets \<noteq> []"
    "\<forall>i < length packets. data_value N (inners ! i) \<noteq> [] \<and>
      length (data_value N (inners ! i)) \<le> MAX_DATA_SIZE \<and>
      segment_of N sign S pub (comp_segment N (of_nat (length packets - 1))) i
        (data_value N (inners ! i)) (inners ! i) (packets ! i)"
    "concat (map (data_value N) inners) = ap_value pub"
    using prepared_packets [OF assms] by blast
  then show ?thesis
    by (intro conjI exI [of _ "map (data_value N) inners"])
      (simp_all add: segment_of_def wire_size_def MAX_NDN_PACKET_SIZE_def MAX_DATA_SIZE_def)
qed

theorem segmentation_packets_witness:
  "\<exists>packets. prepareSegmentedPackets i_ndn i_sign sample_svsync
       (sample_publication (replicate 9000 7)) = Inr packets \<and>
     (\<forall>p \<in> set packets. length (i_wire (i_data_wire p)) \<le> 8800)"
proof -
  let ?pub = "sample_publication (replicate 9000 7)"
  obtain packets where p: "prepareSegmentedPackets i_ndn i_sign sample_svsync ?pub = Inr packets"
    using sample_segments .
  from segmentation_packets [OF i_packet_laws i_signer_laws p]
  have "\<forall>i < length packets. length (i_wire (i_data_wire (packets ! i))) \<le> 8800"
    by (auto simp: i_blocks i_packets)
  then show ?thesis
    using p unfolding all_set_conv_all_nth by blast
qed



text \<open>
  C31: reassembly always returns, and it accepts exactly complete publications: it gives a name and
  a payload if and only if the blocks are, in some order, packets with that name, a version, the
  segment numbers 0 to n - 1, each once, a final block n - 1 and a non-empty content, and the
  payload is their contents in the order of their numbers.
\<close>

theorem reassembly_exact:
  assumes "length blocks < 2 ^ 64"
  shows "decodeInnerSegments N blocks \<noteq> None \<and>
    (decodeInnerSegments N blocks = Some (Some (base, payload)) \<longleftrightarrow>
      (\<exists>ds. ds \<noteq> [] \<and> length ds = length blocks \<and>
         mset (map (inner_segment N) blocks) =
           mset (map (\<lambda>i. Some (base, of_nat i, of_nat (length ds - 1), ds ! i)) [0..<length ds]) \<and>
         payload = concat (map (data_value N) ds)))"
    (is "_ \<and> (?l \<longleftrightarrow> ?r)")
proof (rule conjI)
  show "decodeInnerSegments N blocks \<noteq> None"
  proof
    assume none: "decodeInnerSegments N blocks = None"
    then obtain segs f bn where ne: "blocks \<noteq> []"
      and collected: "collect_segments N blocks ([], None, None) = Some (segs, Some f, bn)"
      and len: "of_nat (length segs) = f + 1"
      and loop: "seq_loop (append_segment N segs) 0 f (Some []) = None"
      by (auto simp: decodeInnerSegments_def split: if_splits option.splits)
    obtain qs base' f' where qs: "map (inner_segment N) blocks = map (\<lambda>(s, d). Some (base', s, f', d)) qs"
      "distinct (map fst qs)" "segs = put_segments qs []"
      using collect_segments_sound [OF collected] by auto
    have "length segs = length blocks"
      using length_put_segments [OF qs(2)] qs(3) arg_cong [OF qs(1), of length] by simp
    moreover have "f = - 1"
      using seq_loop_returns [of f "append_segment N segs" 0 "Some []"] loop by auto
    ultimately have "(of_nat (length blocks) :: u64) = 0"
      using len by simp
    then show False
      using unat_small [OF assms] ne by simp
  qed
  have shape: "map (\<lambda>(s, d). Some (base, s, of_nat (length ds - 1), d)) (numbered ds) =
      map (\<lambda>i. Some (base, of_nat i, of_nat (length ds - 1) :: u64, ds ! i)) [0..<length ds]" for ds
    by (simp add: numbered_def)
  show "?l \<longleftrightarrow> ?r"
  proof
    assume l: ?l
    obtain qs f where qs: "map (inner_segment N) blocks = map (\<lambda>(s, d). Some (base, s, f, d)) qs"
      "distinct (map fst qs)" "of_nat (length qs) = f + 1" "qs \<noteq> []"
      using decode_quads [OF l assms] .
    have len: "length qs = length blocks"
      using arg_cong [OF qs(1), of length] by simp
    have "s \<le> f" if "(s, d) \<in> set qs" for s d
    proof -
      have "Some (base, s, f, d) \<in> set (map (inner_segment N) blocks)"
        unfolding qs(1) using that by force
      then obtain block where "inner_segment N block = Some (base, s, f, d)"
        by (metis imageE list.set_map)
      from inner_segment_Some [OF this] show ?thesis
        by blast
    qed
    then obtain ds where ds: "mset qs = mset (numbered ds)" "length ds = length qs"
      "f = of_nat (length ds - 1)"
      using quads_numbered [OF qs(2) _ qs(3) _ qs(4)] assms len by force
    have "ds \<noteq> []" "length ds < 2 ^ 64"
      using ds(2) qs(4) len assms by auto
    from decode_numbered [OF qs(1) [unfolded ds(3)] ds(1) this]
    have "payload = concat (map (data_value N) ds)"
      using l by simp
    moreover have "mset (map (inner_segment N) blocks) =
        mset (map (\<lambda>(s, d). Some (base, s, of_nat (length ds - 1), d)) (numbered ds))"
      unfolding qs(1) ds(3) using ds(1) by simp
    ultimately show ?r
      using \<open>ds \<noteq> []\<close> ds(2) len unfolding shape by (intro exI [of _ ds]) simp
  next
    assume ?r
    then obtain ds where ds: "ds \<noteq> []" "length ds = length blocks"
      "mset (map (inner_segment N) blocks) =
        mset (map (\<lambda>(s, d). Some (base, s, of_nat (length ds - 1), d)) (numbered ds))"
      "payload = concat (map (data_value N) ds)"
      unfolding shape by blast
    from inner_segments_quads [OF ds(3)] obtain qs where
      "map (inner_segment N) blocks = map (\<lambda>(s, d). Some (base, s, of_nat (length ds - 1), d)) qs"
      "mset qs = mset (numbered ds)"
      by blast
    from decode_numbered [OF this ds(1)] show ?l
      using assms ds(2,4) by simp
  qed
qed

theorem reassembly_exact_witness:
  "decodeInnerSegments i_ndn [(5, [])] \<noteq> None \<and>
    decodeInnerSegments i_ndn [(5, [])] \<noteq> Some (Some ([(8, [78])], [1]))"
proof -
  have "inner_segment i_ndn (5, []) = None"
    by (simp add: inner_segment_def i_packets i_data_of_def svs_simps)
  then show ?thesis
    using reassembly_exact [of "[(5, [])]" i_ndn "[(8, [78])]" "[1]"]
    by (auto simp: length_Suc_conv)
qed

end
