(* ===== verification/Mapping_Provider.thy ===== *)
theory Mapping_Provider
  imports Seq_Range State_Merge Sync_Protocol Fetcher
begin

text \<open>
  Application names of publications (\<^verbatim>\<open>mapping-provider.hpp/.cpp\<close>): the wire format of
  \<^verbatim>\<open>MappingList\<close>, the store of \<^verbatim>\<open>MappingProvider\<close> and its mapping queries. The lemmas give the
  round trip of the codec (which reverses the entries), the round trip of the query names, and
  the effect of one query and reply on the requester's store.
\<close>

section \<open>Mapping lists\<close>

type_synonym ('n, 'b) mapping_pair = "'n \<times> 'b list"

record ('n, 'b) mapping_entry =
  me_bootstrapTime :: bootstrap_time
  me_seqNo :: seq_no
  me_mapping :: "('n, 'b) mapping_pair"

record ('n, 'b) mapping_list =
  ml_nodeId :: 'n
  ml_pairs :: "('n, 'b) mapping_entry list"
  ml_version :: svs_version

definition mapping_list_new :: "'n \<Rightarrow> svs_version \<Rightarrow> ('n, 'b) mapping_list" where
  "mapping_list_new nid version = \<lparr>ml_nodeId = nid, ml_pairs = [], ml_version = version\<rparr>"

text \<open>\<^verbatim>\<open>elements().at(i)\<close>\<close>

definition elem_at :: "'b list \<Rightarrow> nat \<Rightarrow> 'b result" where
  "elem_at es i = (if i < length es then Inr (es ! i) else Inl (OutOfRange ''vector::at''))"

definition parse_elems :: "('n, 'c, 'b, 'd, 'i) ndn \<Rightarrow> 'b \<Rightarrow> 'b list result" where
  "parse_elems N b = res_of_option (TlvError ''parse'') (block_elems N b)"

definition read_nni :: "('n, 'c, 'b, 'd, 'i) ndn \<Rightarrow> 'b \<Rightarrow> u64 result" where
  "read_nni N b = res_of_option (TlvError ''NonNegativeInteger'') (block_nni N b)"

definition read_name :: "('n, 'c, 'b, 'd, 'i) ndn \<Rightarrow> 'b \<Rightarrow> 'n result" where
  "read_name N b = res_of_option (TlvError ''Name'') (name_of_block N b)"

text \<open>The epoch and number of an entry: \<^verbatim>\<open>SeqNo\<close> alone in V2, a \<^verbatim>\<open>SeqNoEntry\<close> in V3.\<close>

definition decode_mapping_seq ::
    "('n, 'c, 'b, 'd, 'i) ndn \<Rightarrow> svs_version \<Rightarrow> 'b list \<Rightarrow> (bootstrap_time \<times> seq_no) result" where
  "decode_mapping_seq N version es =
     res_bind (elem_at es 0) (\<lambda>b0.
     if version = V2 then
       (if block_type N b0 \<noteq> tlv_SeqNo then Inl (TlvError ''V2 Mapping SeqNo'')
        else res_bind (read_nni N b0) (\<lambda>seqNo. Inr (0, seqNo)))
     else
       res_bind (parse_elems N b0) (\<lambda>ss.
       if block_type N b0 \<noteq> tlv_SeqNoEntry \<or> length ss < 2 \<or>
          block_type N (ss ! 0) \<noteq> tlv_BootstrapTime \<or> block_type N (ss ! 1) \<noteq> tlv_SeqNo
       then Inl (TlvError ''SeqNoEntry'')
       else
         res_bind (read_nni N (ss ! 0)) (\<lambda>bootstrapTime.
         res_bind (read_nni N (ss ! 1)) (\<lambda>seqNo. Inr (bootstrapTime, seqNo)))))"

text \<open>The body of the decoder's loop, for one element of the list.\<close>

definition decode_mapping_elem ::
    "('n, 'c, 'b, 'd, 'i) ndn \<Rightarrow> 'b \<Rightarrow> ('n, 'b) mapping_list \<Rightarrow> ('n, 'b) mapping_list result" where
  "decode_mapping_elem N e l =
     (if block_type N e = tlv_Name then
        res_bind (read_name N e) (\<lambda>n. Inr (l\<lparr>ml_nodeId := n\<rparr>))
      else if block_type N e = tlv_MappingEntry then
        res_bind (parse_elems N e) (\<lambda>es.
        res_bind (decode_mapping_seq N (ml_version l) es) (\<lambda>(bootstrapTime, seqNo).
        res_bind (elem_at es 1) (\<lambda>nb.
        res_bind (read_name N nb) (\<lambda>name.
        Inr (l\<lparr>ml_pairs := ml_pairs l @
          [\<lparr>me_bootstrapTime = bootstrapTime, me_seqNo = seqNo,
            me_mapping = (name, drop 2 es)\<rparr>]\<rparr>)))))
      else Inr l)"

text \<open>\<^verbatim>\<open>MappingList::MappingList(const Block&, SvsProtocolVersion)\<close>; it does not look at the type of
  the block itself.\<close>

definition mapping_list_decode ::
    "('n, 'c, 'b, 'd, 'i) ndn \<Rightarrow> svs_version \<Rightarrow> 'b \<Rightarrow> ('n, 'b) mapping_list result" where
  "mapping_list_decode N version block =
     res_bind (parse_elems N block) (\<lambda>es.
     res_fold (decode_mapping_elem N) es (mapping_list_new (nm_empty N) version))"

text \<open>\<^verbatim>\<open>MappingList::encode\<close>: both loops run forwards over a buffer that is filled backwards.\<close>

definition encode_mapping_seq ::
    "('n, 'c, 'b, 'd, 'i) ndn \<Rightarrow> svs_version \<Rightarrow> ('n, 'b) mapping_entry \<Rightarrow> bytes \<times> nat
      \<Rightarrow> bytes \<times> nat" where
  "encode_mapping_seq N version entry buf =
     (case buf of (enc, entryLength) \<Rightarrow>
        if version = V2 then
          (let (enc, k) = prepend_nni_block N tlv_SeqNo (me_seqNo entry) enc
           in (enc, entryLength + k))
        else
          (let (enc, k1) = prepend_nni_block N tlv_SeqNo (me_seqNo entry) enc;
               (enc, k2) = prepend_nni_block N tlv_BootstrapTime (me_bootstrapTime entry) enc;
               (enc, k) = prepend_header N tlv_SeqNoEntry (k1 + k2) enc
           in (enc, entryLength + k)))"

fun encode_mapping_entries ::
    "('n, 'c, 'b, 'd, 'i) ndn \<Rightarrow> svs_version \<Rightarrow> ('n, 'b) mapping_entry list \<Rightarrow> bytes \<times> nat
      \<Rightarrow> bytes \<times> nat" where
  "encode_mapping_entries N version [] buf = buf"
| "encode_mapping_entries N version (entry # rest) (enc, totalLength) =
     (let (enc, n1) = prepend_blocks N (snd (me_mapping entry)) (enc, 0);
          (enc, n2) = prepend_block N (name_wire N (fst (me_mapping entry))) enc;
          (enc, entryLength) = encode_mapping_seq N version entry (enc, n1 + n2);
          (enc, k) = prepend_header N tlv_MappingEntry entryLength enc
      in encode_mapping_entries N version rest (enc, totalLength + k))"

definition mapping_list_encode ::
    "('n, 'c, 'b, 'd, 'i) ndn \<Rightarrow> ('n, 'b) mapping_list \<Rightarrow> 'b result" where
  "mapping_list_encode N l =
     (let (enc, totalLength) = encode_mapping_entries N (ml_version l) (ml_pairs l) ([], 0);
          (enc, k) = prepend_block N (name_wire N (ml_nodeId l)) enc;
          (enc, _) = prepend_header N tlv_MappingData (totalLength + k) enc
      in res_of_option (TlvError ''block'') (block_of N enc))"

section \<open>The provider\<close>

text \<open>
  \<^verbatim>\<open>MappingProvider\<close>: its constant members and its map. \<^verbatim>\<open>m_mapMutex\<close> makes every operation one
  step.
\<close>

record ('n, 'b) mapping_provider =
  mp_syncPrefix :: 'n
  mp_id :: 'n
  mp_protocolVersion :: svs_version
  mp_map :: "('n, ('n, 'b) mapping_pair) std_map"

definition mp_new :: "'n \<Rightarrow> 'n \<Rightarrow> svs_version \<Rightarrow> ('n, 'b) mapping_provider" where
  "mp_new syncPrefix nid protocolVersion =
     \<lparr>mp_syncPrefix = syncPrefix, mp_id = nid, mp_protocolVersion = protocolVersion, mp_map = []\<rparr>"

definition makeMappingKey ::
    "('n, 'c, 'b, 'd, 'i) ndn \<Rightarrow> 'n \<Rightarrow> bootstrap_time \<Rightarrow> seq_no \<Rightarrow> 'n" where
  "makeMappingKey N nodeId bootstrapTime seqNo =
     nm_push N (nm_push N nodeId (comp_timestamp N bootstrapTime)) (comp_seq N seqNo)"

definition mp_insertMapping ::
    "('n :: linorder, 'c, 'b, 'd, 'i) ndn \<Rightarrow> 'n \<Rightarrow> bootstrap_time \<Rightarrow> seq_no
      \<Rightarrow> ('n, 'b) mapping_pair \<Rightarrow> ('n, 'b) mapping_provider \<Rightarrow> ('n, 'b) mapping_provider" where
  "mp_insertMapping N nodeId bootstrapTime seqNo entry P =
     P\<lparr>mp_map := map_put (makeMappingKey N nodeId bootstrapTime seqNo) entry (mp_map P)\<rparr>"

definition mp_getMapping ::
    "('n, 'c, 'b, 'd, 'i) ndn \<Rightarrow> 'n \<Rightarrow> bootstrap_time \<Rightarrow> seq_no
      \<Rightarrow> ('n, 'b) mapping_provider \<Rightarrow> ('n, 'b) mapping_pair result" where
  "mp_getMapping N nodeId bootstrapTime seqNo P =
     res_of_option (OutOfRange ''map::at'')
       (map_of (mp_map P) (makeMappingKey N nodeId bootstrapTime seqNo))"

definition getMappingQueryDataName ::
    "('n, 'c, 'b, 'd, 'i) ndn \<Rightarrow> ('n, 'b) mapping_provider \<Rightarrow> 'n missing_data_info \<Rightarrow> 'n" where
  "getMappingQueryDataName N P info =
     (let name = nm_append N (md_nodeId info) (mp_syncPrefix P) in
      if mp_protocolVersion P = V2 then
        nm_push N (nm_push N (nm_push N name (comp_of_string N ''MAPPING''))
          (comp_number N (md_low info))) (comp_number N (md_high info))
      else
        nm_push N (nm_push N (nm_push N (nm_push N name (comp_timestamp N (md_bootstrapTime info)))
          (comp_of_string N ''MAPPING'')) (comp_seq N (md_low info))) (comp_seq N (md_high info)))"

text \<open>\<^verbatim>\<open>name.get(i)\<close> followed by a typed read.\<close>

definition comp_read ::
    "('n, 'c, 'b, 'd, 'i) ndn \<Rightarrow> 'n \<Rightarrow> int \<Rightarrow> ('c \<Rightarrow> u64 option) \<Rightarrow> u64 option" where
  "comp_read N name i readc = Option.bind (nm_at N name i) readc"

definition parseMappingQueryDataName ::
    "('n, 'c, 'b, 'd, 'i) ndn \<Rightarrow> ('n, 'b) mapping_provider \<Rightarrow> 'n
      \<Rightarrow> 'n missing_data_info result" where
  "parseMappingQueryDataName N P name =
     (let expectedPrefix = nm_append N (mp_id P) (mp_syncPrefix P);
          info = \<lparr>md_nodeId = nm_empty N, md_low = 0, md_high = 0, md_incomingFace = 0,
            md_bootstrapTime = 0\<rparr>;
          mapping = Some (comp_of_string N ''MAPPING'')
      in
      if mp_protocolVersion P = V2 then
        (if nm_size N name \<noteq> nm_size N expectedPrefix + 3 \<or>
            nm_prefix N name (int (nm_size N expectedPrefix)) \<noteq> expectedPrefix \<or>
            nm_at N name (-3) \<noteq> mapping
         then Inl (InvalidArgument ''invalid SVS V2 Mapping query name'')
         else
           res_bind (res_of_option (TlvError ''toNumber'')
             (comp_read N name (-2) (comp_number_of N))) (\<lambda>low.
           res_bind (res_of_option (TlvError ''toNumber'')
             (comp_read N name (-1) (comp_number_of N))) (\<lambda>high.
           Inr (info\<lparr>md_low := low, md_high := high,
             md_nodeId := nm_prefix N name (-3 - int (nm_size N (mp_syncPrefix P)))\<rparr>))))
      else
        (case (comp_read N name (-4) (comp_timestamp_of N),
               comp_read N name (-2) (comp_seq_of N),
               comp_read N name (-1) (comp_seq_of N)) of
           (Some bootstrapTime, Some low, Some high) \<Rightarrow>
             if nm_size N name \<noteq> nm_size N expectedPrefix + 4 \<or>
                nm_prefix N name (int (nm_size N expectedPrefix)) \<noteq> expectedPrefix \<or>
                nm_at N name (-3) \<noteq> mapping
             then Inl (InvalidArgument ''invalid SVS-PS V3 Mapping query name'')
             else
               Inr (info\<lparr>md_bootstrapTime := bootstrapTime, md_low := low, md_high := high,
                 md_nodeId := nm_prefix N name (-4 - int (nm_size N (mp_syncPrefix P)))\<rparr>)
         | _ \<Rightarrow> Inl (InvalidArgument ''invalid SVS-PS V3 Mapping query name'')))"

text \<open>The body of the loop of \<^verbatim>\<open>onMappingQuery\<close>.\<close>

definition collect_mapping ::
    "('n, 'c, 'b, 'd, 'i) ndn \<Rightarrow> ('n, 'b) mapping_provider \<Rightarrow> 'n missing_data_info \<Rightarrow> seq_no
      \<Rightarrow> ('n, 'b) mapping_list \<Rightarrow> ('n, 'b) mapping_list" where
  "collect_mapping N P query i l =
     (case mp_getMapping N (md_nodeId query) (md_bootstrapTime query) i P of
        Inl _ \<Rightarrow> l
      | Inr mapping \<Rightarrow> l\<lparr>ml_pairs := ml_pairs l @
          [\<lparr>me_bootstrapTime = md_bootstrapTime query, me_seqNo = i, me_mapping = mapping\<rparr>]\<rparr>)"

text \<open>
  \<^verbatim>\<open>onMappingQuery\<close> returns the Data it puts on the face, if any; the outer option is \<open>None\<close> when
  the loop never ends.
\<close>

definition onMappingQuery ::
    "('n, 'c, 'b, 'd, 'i) ndn \<Rightarrow> ('d \<Rightarrow> 'd result) \<Rightarrow> ('n, 'b) mapping_provider \<Rightarrow> 'n
      \<Rightarrow> 'd option result option" where
  "onMappingQuery N sign P name =
     (case parseMappingQueryDataName N P name of
        Inl _ \<Rightarrow> Some (Inr None)
      | Inr query \<Rightarrow>
          (case seq_loop (collect_mapping N P query) (md_low query)
                  (max (md_high query) (md_low query))
                  (mapping_list_new (md_nodeId query) (mp_protocolVersion P)) of
             None \<Rightarrow> None
           | Some queryResponse \<Rightarrow>
               Some
                 (if ml_pairs queryResponse = [] then Inr None
                  else
                    res_bind (mapping_list_encode N queryResponse) (\<lambda>content.
                    res_bind (sign (data_new N \<lparr>da_name = name, da_content = PayloadBlock content,
                      da_freshness = 1000, da_content_type = None, da_final_block = None\<rparr>)) (\<lambda>data.
                    Inr (Some data))))))"

text \<open>
  \<^verbatim>\<open>fetchNameMapping\<close> gives its query to the provider's own fetcher; validation failures are
  answered by an empty callback.
\<close>

definition fetchNameMapping ::
    "('n, 'c, 'b, 'd, 'i) ndn \<Rightarrow> ('n, 'b) mapping_provider \<Rightarrow> 'n missing_data_info \<Rightarrow> 'k \<Rightarrow> int
      \<Rightarrow> ('n data_query, 'd, 'k) fetcher
      \<Rightarrow> ('n data_query, 'd, 'k) fetcher \<times> ('n data_query, 'd, 'k) fetch_output list" where
  "fetchNameMapping N P info callbacks nRetries f =
     f_expressInterest
       \<lparr>fr_interest = \<lparr>dq_name = getMappingQueryDataName N P info, dq_canBePrefix = False,
          dq_mustBeFresh = False, dq_lifetime = 2000\<rparr>,
        fr_callbacks = callbacks, fr_nRetries = nRetries, fr_hasValidationFailed = True\<rparr> f"

text \<open>The lambda \<^verbatim>\<open>onDataValidated\<close> of \<^verbatim>\<open>fetchNameMapping\<close>: known mappings are kept.\<close>

definition learn_mapping ::
    "('n :: linorder, 'c, 'b, 'd, 'i) ndn \<Rightarrow> 'n missing_data_info \<Rightarrow> ('n, 'b) mapping_entry
      \<Rightarrow> ('n, 'b) mapping_provider \<Rightarrow> ('n, 'b) mapping_provider" where
  "learn_mapping N info entry P =
     (case mp_getMapping N (md_nodeId info) (me_bootstrapTime entry) (me_seqNo entry) P of
        Inr _ \<Rightarrow> P
      | Inl _ \<Rightarrow>
          mp_insertMapping N (md_nodeId info) (me_bootstrapTime entry) (me_seqNo entry)
            (me_mapping entry) P)"

definition mp_onDataValidated ::
    "('n :: linorder, 'c, 'b, 'd, 'i) ndn \<Rightarrow> 'n missing_data_info \<Rightarrow> 'd
      \<Rightarrow> ('n, 'b) mapping_provider \<Rightarrow> (('n, 'b) mapping_provider \<times> ('n, 'b) mapping_list) result"
where
  "mp_onDataValidated N info data P =
     res_bind (block_from_value N data) (\<lambda>block.
     res_bind (mapping_list_decode N (mp_protocolVersion P) block) (\<lambda>list.
     Inr (fold (learn_mapping N info) (ml_pairs list) P, list)))"

section \<open>The bytes of a mapping list\<close>

definition mapping_seq_bytes ::
    "('n, 'c, 'b, 'd, 'i) ndn \<Rightarrow> svs_version \<Rightarrow> ('n, 'b) mapping_entry \<Rightarrow> bytes" where
  "mapping_seq_bytes N version e =
     (if version = V2 then nni_bytes N tlv_SeqNo (me_seqNo e)
      else seq_entry_bytes N (me_bootstrapTime e, me_seqNo e))"

definition mapping_entry_value ::
    "('n, 'c, 'b, 'd, 'i) ndn \<Rightarrow> svs_version \<Rightarrow> ('n, 'b) mapping_entry \<Rightarrow> bytes" where
  "mapping_entry_value N version e =
     mapping_seq_bytes N version e @ block_wire N (name_wire N (fst (me_mapping e))) @
     concat (map (block_wire N) (rev (snd (me_mapping e))))"

definition mapping_entry_bytes ::
    "('n, 'c, 'b, 'd, 'i) ndn \<Rightarrow> svs_version \<Rightarrow> ('n, 'b) mapping_entry \<Rightarrow> bytes" where
  "mapping_entry_bytes N version e = tlv_bytes N tlv_MappingEntry (mapping_entry_value N version e)"

definition mapping_list_bytes :: "('n, 'c, 'b, 'd, 'i) ndn \<Rightarrow> ('n, 'b) mapping_list \<Rightarrow> bytes" where
  "mapping_list_bytes N l =
     tlv_bytes N tlv_MappingData (block_wire N (name_wire N (ml_nodeId l)) @
       concat (map (mapping_entry_bytes N (ml_version l)) (rev (ml_pairs l))))"

lemma encode_mapping_seq_bytes:
  "encode_mapping_seq N version e (enc, len) =
     (mapping_seq_bytes N version e @ enc, len + length (mapping_seq_bytes N version e))"
  by (simp add: encode_mapping_seq_def mapping_seq_bytes_def prepend_nni_block_def
      prepend_header_two seq_entry_bytes_def nni_bytes_def Let_def)

lemma mapping_entry_header:
  "prepend_header N tlv_MappingEntry
     (length c + length b + length (mapping_seq_bytes N version e))
     (mapping_seq_bytes N version e @ b @ c @ enc) =
   (tlv_bytes N tlv_MappingEntry (mapping_seq_bytes N version e @ b @ c) @ enc,
    length (tlv_bytes N tlv_MappingEntry (mapping_seq_bytes N version e @ b @ c)))"
  using prepend_header_value [of N tlv_MappingEntry "mapping_seq_bytes N version e @ b @ c" enc]
  by (simp add: add.commute add.left_commute)

lemma encode_mapping_entries_bytes:
  "encode_mapping_entries N version es (enc, len) =
     (concat (map (mapping_entry_bytes N version) (rev es)) @ enc,
      len + length (concat (map (mapping_entry_bytes N version) (rev es))))"
  by (induction N version es "(enc, len)" arbitrary: enc len rule: encode_mapping_entries.induct)
    (simp_all add: prepend_blocks_bytes prepend_block_def encode_mapping_seq_bytes
      mapping_entry_header mapping_entry_bytes_def mapping_entry_value_def Let_def)

lemma mapping_list_encode_bytes:
  "mapping_list_encode N l = res_of_option (TlvError ''block'') (block_of N (mapping_list_bytes N l))"
  using prepend_header_two [of N tlv_MappingData _ _ "[]"]
  by (simp add: mapping_list_encode_def encode_mapping_entries_bytes prepend_block_def
      mapping_list_bytes_def)

section \<open>Decoding what was encoded\<close>

definition mapping_entry_blk ::
    "('n, 'c, 'b, 'd, 'i) ndn \<Rightarrow> svs_version \<Rightarrow> ('n, 'b) mapping_entry \<Rightarrow> 'b" where
  "mapping_entry_blk N version e = tlv_blk N tlv_MappingEntry (mapping_entry_value N version e)"

text \<open>What is left of an entry: the additional blocks in reverse, no epoch in V2.\<close>

definition mapping_entry_sent ::
    "svs_version \<Rightarrow> ('n, 'b) mapping_entry \<Rightarrow> ('n, 'b) mapping_entry" where
  "mapping_entry_sent version e =
     \<lparr>me_bootstrapTime = (if version = V2 then 0 else me_bootstrapTime e), me_seqNo = me_seqNo e,
      me_mapping = (fst (me_mapping e), rev (snd (me_mapping e)))\<rparr>"

lemma mapping_seq_blk:
  assumes laws: "tlv_laws N" and fits: "fits (mapping_seq_bytes N version e)"
  obtains b where "block_wire N b = mapping_seq_bytes N version e"
    and "\<And>es. decode_mapping_seq N version (b # es) =
      Inr (me_bootstrapTime (mapping_entry_sent version e), me_seqNo e)"
proof (cases "version = V2")
  case True
  have f: "fits (nni_bytes N tlv_SeqNo (me_seqNo e))"
    using fits True by (simp add: mapping_seq_bytes_def)
  show thesis
    by (rule that [of "tlv_blk N tlv_SeqNo (nni_value N (me_seqNo e))"])
      (simp_all add: True nni_blk [OF laws f] mapping_seq_bytes_def decode_mapping_seq_def
        elem_at_def read_nni_def mapping_entry_sent_def)
next
  case False
  have f: "fits (seq_entry_bytes N (me_bootstrapTime e, me_seqNo e))"
    using fits False by (simp add: mapping_seq_bytes_def)
  let ?b = "seq_entry_blk N (me_bootstrapTime e, me_seqNo e)"
  obtain b0 b1 where "block_elems N ?b = Some [b0, b1]"
    and "block_type N b0 = tlv_BootstrapTime" and "block_nni N b0 = Some (me_bootstrapTime e)"
    and "block_type N b1 = tlv_SeqNo" and "block_nni N b1 = Some (me_seqNo e)"
    and "block_type N ?b = tlv_SeqNoEntry"
    and "block_wire N ?b = seq_entry_bytes N (me_bootstrapTime e, me_seqNo e)"
    using seq_entry_blk_parts [OF laws f] .
  then show thesis
    by (intro that [of ?b])
      (simp_all add: False mapping_seq_bytes_def decode_mapping_seq_def elem_at_def parse_elems_def
        read_nni_def mapping_entry_sent_def)
qed

lemma mapping_entry_blk_wire:
  assumes "tlv_laws N" and "fits (mapping_entry_bytes N version e)"
  shows "block_wire N (mapping_entry_blk N version e) = mapping_entry_bytes N version e"
    and "block_type N (mapping_entry_blk N version e) = tlv_MappingEntry"
  using assms tlv_blk(2,3) [OF assms(1)]
  by (simp_all add: mapping_entry_blk_def mapping_entry_bytes_def)

lemma decode_mapping_entry_blk:
  assumes laws: "tlv_laws N" and fits: "fits (mapping_entry_bytes N (ml_version l) e)"
  shows "decode_mapping_elem N (mapping_entry_blk N (ml_version l) e) l =
    Inr (l\<lparr>ml_pairs := ml_pairs l @ [mapping_entry_sent (ml_version l) e]\<rparr>)"
proof -
  have f: "fits (mapping_entry_value N (ml_version l) e)"
    and f': "fits (tlv_bytes N tlv_MappingEntry (mapping_entry_value N (ml_version l) e))"
    using fits fits_tlv_value unfolding mapping_entry_bytes_def by blast+
  then have fs: "fits (mapping_seq_bytes N (ml_version l) e)"
    and fn: "fits (block_wire N (name_wire N (fst (me_mapping e))))"
    unfolding mapping_entry_value_def using fits_append by blast+
  obtain b where b: "block_wire N b = mapping_seq_bytes N (ml_version l) e"
    "\<And>es. decode_mapping_seq N (ml_version l) (b # es) =
      Inr (me_bootstrapTime (mapping_entry_sent (ml_version l) e), me_seqNo e)"
    by (rule mapping_seq_blk [OF laws fs]) blast
  have "block_elems N (mapping_entry_blk N (ml_version l) e) =
      Some (b # name_wire N (fst (me_mapping e)) # rev (snd (me_mapping e)))"
    unfolding mapping_entry_blk_def
    by (rule tlv_blk_elems [OF laws f']) (simp add: b(1) mapping_entry_value_def)
  then show ?thesis
    using mapping_entry_blk_wire(2) [OF laws fits] b(2) tlv_law_name [OF laws fn]
    by (simp add: decode_mapping_elem_def parse_elems_def elem_at_def read_name_def svs_simps
        mapping_entry_sent_def)
qed


lemma decode_mapping_entries_blk:
  assumes "tlv_laws N" and "fits (concat (map (mapping_entry_bytes N (ml_version l)) es))"
  shows "res_fold (decode_mapping_elem N) (map (mapping_entry_blk N (ml_version l)) es) l =
    Inr (l\<lparr>ml_pairs := ml_pairs l @ map (mapping_entry_sent (ml_version l)) es\<rparr>)"
  using assms(2)
proof (induction es arbitrary: l)
  case Nil
  then show ?case by simp
next
  case (Cons e es)
  have "fits (mapping_entry_bytes N (ml_version l) e)"
    and "fits (concat (map (mapping_entry_bytes N (ml_version l)) es))"
    using Cons.prems fits_append [of "mapping_entry_bytes N (ml_version l) e"] by simp_all
  then show ?case
    using decode_mapping_entry_blk [OF assms(1), of l e]
      Cons.IH [of "l\<lparr>ml_pairs := ml_pairs l @ [mapping_entry_sent (ml_version l) e]\<rparr>"]
    by simp
qed

definition mapping_list_sent :: "('n, 'b) mapping_list \<Rightarrow> ('n, 'b) mapping_list" where
  "mapping_list_sent l = l\<lparr>ml_pairs := map (mapping_entry_sent (ml_version l)) (rev (ml_pairs l))\<rparr>"

text \<open>An encoded list is a MappingData block, and decodes to what was sent of it.\<close>

lemma mapping_list_elems:
  assumes laws: "tlv_laws N" and fits: "fits (mapping_list_bytes N l)"
  obtains b es where "mapping_list_encode N l = Inr b" and "block_type N b = tlv_MappingData"
    and "block_wire N b = mapping_list_bytes N l" and "block_elems N b = Some es"
    and "concat (map (block_wire N) es) = block_wire N (name_wire N (ml_nodeId l)) @
      concat (map (mapping_entry_bytes N (ml_version l)) (rev (ml_pairs l)))"
    and "\<forall>e \<in> set es. block_type N e \<in> {tlv_Name, tlv_MappingEntry}"
    and "res_fold (decode_mapping_elem N) es (mapping_list_new (nm_empty N) (ml_version l)) =
      Inr (mapping_list_sent l)"
proof -
  let ?es = "rev (ml_pairs l)"
  let ?v = "block_wire N (name_wire N (ml_nodeId l)) @
    concat (map (mapping_entry_bytes N (ml_version l)) ?es)"
  let ?b = "tlv_blk N tlv_MappingData ?v"
  have f: "fits (tlv_bytes N tlv_MappingData ?v)"
    using fits by (simp add: mapping_list_bytes_def)
  then have fn: "fits (block_wire N (name_wire N (ml_nodeId l)))"
    and fe: "fits (concat (map (mapping_entry_bytes N (ml_version l)) ?es))"
    using fits_append fits_tlv_value by blast+
  let ?blocks = "name_wire N (ml_nodeId l) # map (mapping_entry_blk N (ml_version l)) ?es"
  have entry: "block_wire N (mapping_entry_blk N (ml_version l) e) = mapping_entry_bytes N (ml_version l) e \<and>
      block_type N (mapping_entry_blk N (ml_version l) e) = tlv_MappingEntry" if "e \<in> set ?es" for e
    using fits_concat [OF fe] that mapping_entry_blk_wire [OF laws, of "ml_version l" e] by simp
  then have maps: "map (block_wire N) (map (mapping_entry_blk N (ml_version l)) ?es) =
      map (mapping_entry_bytes N (ml_version l)) ?es"
    by simp
  have elems: "block_elems N ?b = Some ?blocks"
    by (rule tlv_blk_elems [OF laws f]) (simp only: list.map concat.simps maps)
  have "res_fold (decode_mapping_elem N) ?blocks (mapping_list_new (nm_empty N) (ml_version l)) =
      res_fold (decode_mapping_elem N) (map (mapping_entry_blk N (ml_version l)) ?es)
        (mapping_list_new (ml_nodeId l) (ml_version l))"
    using tlv_law_name [OF laws fn] tlv_law_name_type [OF laws, of "ml_nodeId l"]
    by (simp add: decode_mapping_elem_def read_name_def mapping_list_new_def)
  moreover have "ml_version (mapping_list_new (ml_nodeId l) (ml_version l) ::
      ('a, 'c) mapping_list) = ml_version l"
    by (simp add: mapping_list_new_def)
  ultimately have decoded: "res_fold (decode_mapping_elem N) ?blocks (mapping_list_new (nm_empty N) (ml_version l)) =
      Inr (mapping_list_sent l)"
    using decode_mapping_entries_blk [OF laws,
        of "mapping_list_new (ml_nodeId l) (ml_version l)" ?es] fe
    by (simp add: mapping_list_sent_def mapping_list_new_def)
  have "mapping_list_encode N l = Inr ?b"
    using tlv_blk(1) [OF laws f] by (simp add: mapping_list_encode_bytes mapping_list_bytes_def)
  moreover have "concat (map (block_wire N) ?blocks) = ?v"
    by (simp only: list.map concat.simps maps)
  moreover have "\<forall>e \<in> set ?blocks. block_type N e \<in> {tlv_Name, tlv_MappingEntry}"
    using entry tlv_law_name_type [OF laws] by auto
  ultimately show thesis
    using that [of ?b ?blocks] tlv_blk(2,3) [OF laws f] elems decoded by (simp add: mapping_list_bytes_def)
qed

lemma mapping_list_decode_encode:
  assumes laws: "tlv_laws N" and fits: "fits (mapping_list_bytes N l)"
  obtains b where "mapping_list_encode N l = Inr b" and "block_type N b = tlv_MappingData"
    and "block_wire N b = mapping_list_bytes N l"
    and "mapping_list_decode N (ml_version l) b = Inr (mapping_list_sent l)"
proof -
  obtain b es where "mapping_list_encode N l = Inr b" "block_type N b = tlv_MappingData"
    "block_wire N b = mapping_list_bytes N l" "block_elems N b = Some es"
    "res_fold (decode_mapping_elem N) es (mapping_list_new (nm_empty N) (ml_version l)) =
      Inr (mapping_list_sent l)"
    by (rule mapping_list_elems [OF assms])
  then show thesis
    using that by (simp add: mapping_list_decode_def parse_elems_def)
qed

section \<open>Query names\<close>

lemma mapping_query_comps:
  assumes "name_laws N"
  shows "nm_comps N (getMappingQueryDataName N P info) =
    nm_comps N (md_nodeId info) @ nm_comps N (mp_syncPrefix P) @
    (if mp_protocolVersion P = V2
     then [comp_of_string N ''MAPPING'', comp_number N (md_low info), comp_number N (md_high info)]
     else [comp_timestamp N (md_bootstrapTime info), comp_of_string N ''MAPPING'',
           comp_seq N (md_low info), comp_seq N (md_high info)])"
  by (simp add: getMappingQueryDataName_def Let_def name_law_comps [OF assms])

text \<open>The last components of a name, and the prefix before them.\<close>

lemma name_law_tail:
  assumes laws: "name_laws N" and n: "nm_comps N name = xs @ ys"
  shows "0 < k \<Longrightarrow> k \<le> length ys \<Longrightarrow> nm_at N name (- int k) = Some (ys ! (length ys - k))"
    and "0 < length ys + j \<Longrightarrow> j \<le> length xs \<Longrightarrow>
      nm_comps N (nm_prefix N name (- int (length ys + j))) = take (length xs - j) xs"
proof -
  show "nm_at N name (- int k) = Some (ys ! (length ys - k))" if "0 < k" "k \<le> length ys"
  proof -
    have "length (nm_comps N name) - k = length xs + (length ys - k)"
      using that n by simp
    then have "nm_comps N name ! (length (nm_comps N name) - k) = ys ! (length ys - k)"
      by (simp only: n nth_append_length_plus)
    then show ?thesis
      using name_law_back(2) [OF laws that(1), of name] that n by simp
  qed
  show "nm_comps N (nm_prefix N name (- int (length ys + j))) = take (length xs - j) xs"
    if "0 < length ys + j" "j \<le> length xs"
    using name_law_back(1) [OF laws that(1), of name] that n by simp
qed

lemma name_law_prefix_eq:
  assumes "name_laws N"
  shows "nm_prefix N name (int k) = p \<longleftrightarrow> take k (nm_comps N name) = nm_comps N p"
  using name_law_inj [OF assms, of "nm_prefix N name (int k)" p] name_law_comps(5) [OF assms]
  by simp


lemma mapping_query_parse:
  assumes laws: "name_laws N" and node: "md_nodeId info = mp_id P"
    and ts: "mp_protocolVersion P \<noteq> V2 \<Longrightarrow> unat (md_bootstrapTime info) \<le> max_timestamp"
  shows "parseMappingQueryDataName N P (getMappingQueryDataName N P info) =
    Inr \<lparr>md_nodeId = md_nodeId info, md_low = md_low info, md_high = md_high info,
      md_incomingFace = 0,
      md_bootstrapTime = (if mp_protocolVersion P = V2 then 0 else md_bootstrapTime info)\<rparr>"
proof -
  let ?name = "getMappingQueryDataName N P info"
  let ?p = "nm_comps N (md_nodeId info) @ nm_comps N (mp_syncPrefix P)"
  have sizes: "length (nm_comps N (nm_append N (mp_id P) (mp_syncPrefix P))) =
      length (nm_comps N (md_nodeId info)) + length (nm_comps N (mp_syncPrefix P))"
    by (simp add: name_law_comps [OF laws] node)
  have prefix: "nm_prefix N ?name (int (length ?p)) = nm_append N (mp_id P) (mp_syncPrefix P)"
    by (subst name_law_prefix_eq [OF laws])
      (simp add: mapping_query_comps [OF laws] name_law_comps [OF laws] node)
  have pre: "nm_prefix N ?name (- int (k + length (nm_comps N (mp_syncPrefix P)))) = md_nodeId info"
    if "nm_comps N ?name = ?p @ ys" and "length ys = k" and "0 < k" for k ys
    using name_law_tail(2) [OF laws that(1), of "length (nm_comps N (mp_syncPrefix P))"] that
      name_law_inj [OF laws, of _ "md_nodeId info"] by simp
  show ?thesis
  proof (cases "mp_protocolVersion P = V2")
    case True
    have comps: "nm_comps N ?name = ?p @ [comp_of_string N ''MAPPING'',
        comp_number N (md_low info), comp_number N (md_high info)]"
      by (simp add: mapping_query_comps [OF laws] True)
    have "nm_at N ?name (-3) = Some (comp_of_string N ''MAPPING'')"
      and "nm_at N ?name (-2) = Some (comp_number N (md_low info))"
      and "nm_at N ?name (-1) = Some (comp_number N (md_high info))"
      using name_law_tail(1) [OF laws comps, of 3] name_law_tail(1) [OF laws comps, of 2]
        name_law_tail(1) [OF laws comps, of 1] by simp_all
    moreover have "nm_prefix N ?name (-3 - int (length (nm_comps N (mp_syncPrefix P)))) =
        md_nodeId info"
      using pre [OF comps, of 3] by simp
    ultimately show ?thesis
      using True prefix
      by (simp add: parseMappingQueryDataName_def Let_def sizes comp_read_def comps
          name_law_comps(4) [OF laws] name_law_codecs [OF laws])
  next
    case False
    have comps: "nm_comps N ?name = ?p @ [comp_timestamp N (md_bootstrapTime info),
        comp_of_string N ''MAPPING'', comp_seq N (md_low info), comp_seq N (md_high info)]"
      by (simp add: mapping_query_comps [OF laws] False)
    have "nm_at N ?name (-4) = Some (comp_timestamp N (md_bootstrapTime info))"
      and "nm_at N ?name (-3) = Some (comp_of_string N ''MAPPING'')"
      and "nm_at N ?name (-2) = Some (comp_seq N (md_low info))"
      and "nm_at N ?name (-1) = Some (comp_seq N (md_high info))"
      using name_law_tail(1) [OF laws comps, of 4] name_law_tail(1) [OF laws comps, of 3]
        name_law_tail(1) [OF laws comps, of 2] name_law_tail(1) [OF laws comps, of 1] by simp_all
    moreover have "nm_prefix N ?name (-4 - int (length (nm_comps N (mp_syncPrefix P)))) =
        md_nodeId info"
      using pre [OF comps, of 4] by simp
    ultimately show ?thesis
      using False prefix ts
      by (simp add: parseMappingQueryDataName_def Let_def sizes comp_read_def comps
          name_law_comps(4) [OF laws] name_law_codecs [OF laws])
  qed
qed

text \<open>A name that parses is a query to this node: the other members' queries are refused.\<close>

lemma parse_query_node:
  assumes laws: "name_laws N" and parse: "parseMappingQueryDataName N P name = Inr info"
  shows "md_nodeId info = mp_id P"
proof -
  let ?e = "nm_append N (mp_id P) (mp_syncPrefix P)"
  let ?s = "length (nm_comps N (mp_syncPrefix P))"
  have node: "nm_prefix N name (- int (k + ?s)) = mp_id P"
    if "nm_size N name = nm_size N ?e + k" "nm_prefix N name (int (nm_size N ?e)) = ?e" "0 < k" for k
  proof -
    have "take (length (nm_comps N (mp_id P)) + ?s) (nm_comps N name) =
        nm_comps N (mp_id P) @ nm_comps N (mp_syncPrefix P)"
      using that(2) by (subst (asm) name_law_prefix_eq [OF laws]) (simp add: name_law_comps [OF laws])
    then have "take (length (nm_comps N (mp_id P)))
        (take (length (nm_comps N (mp_id P)) + ?s) (nm_comps N name)) =
        take (length (nm_comps N (mp_id P))) (nm_comps N (mp_id P) @ nm_comps N (mp_syncPrefix P))"
      by (rule arg_cong)
    then have "take (length (nm_comps N (mp_id P))) (nm_comps N name) = nm_comps N (mp_id P)"
      by simp
    then show ?thesis
      using name_law_back(1) [OF laws, of "k + ?s" name] that
        name_law_inj [OF laws, of "nm_prefix N name (- int (k + ?s))" "mp_id P"]
      by (simp add: name_law_comps [OF laws])
  qed
  show ?thesis
    using parse node [of 3] node [of 4]
    by (auto simp: parseMappingQueryDataName_def Let_def res_bind_eq_Inr name_law_comps(4) [OF laws]
        split: if_splits option.splits)
qed

section \<open>The store of mappings\<close>

lemma mapping_key_inj:
  assumes laws: "name_laws N" and "unat b \<le> max_timestamp" and "unat b' \<le> max_timestamp"
  shows "makeMappingKey N n b s = makeMappingKey N n' b' s' \<longleftrightarrow> n = n' \<and> b = b' \<and> s = s'"
proof
  assume "makeMappingKey N n b s = makeMappingKey N n' b' s'"
  then have "nm_comps N (makeMappingKey N n b s) = nm_comps N (makeMappingKey N n' b' s')"
    by simp
  then have "nm_comps N n = nm_comps N n'" and t: "comp_timestamp N b = comp_timestamp N b'"
    and s: "comp_seq N s = comp_seq N s'"
    by (simp_all add: makeMappingKey_def name_law_comps [OF laws])
  moreover have "b = b'"
    using name_law_codecs(5) [OF laws assms(2)] name_law_codecs(5) [OF laws assms(3)] t
    by (metis option.inject)
  moreover have "s = s'"
    using name_law_codecs(2) [OF laws] s by (metis option.inject)
  ultimately show "n = n' \<and> b = b' \<and> s = s'"
    by (simp add: name_law_inj [OF laws])
qed simp

definition mp_ok :: "('n :: linorder, 'b) mapping_provider \<Rightarrow> bool" where
  "mp_ok P \<longleftrightarrow> map_ok (mp_map P)"

lemma mp_ok_new [simp]: "mp_ok (mp_new syncPrefix nid version)"
  by (simp add: mp_ok_def mp_new_def)

lemma mp_ok_insert [simp, intro]: "mp_ok P \<Longrightarrow> mp_ok (mp_insertMapping N n b s m P)"
  by (simp add: mp_ok_def mp_insertMapping_def std_map.store_ok_put)

lemma mp_insert_lookup:
  "mp_ok P \<Longrightarrow> mp_getMapping N n' b' s' (mp_insertMapping N n b s m P) =
     (if makeMappingKey N n' b' s' = makeMappingKey N n b s then Inr m
      else mp_getMapping N n' b' s' P)"
  by (simp add: mp_ok_def mp_getMapping_def mp_insertMapping_def std_map.lookup_put)

lemma mp_insert_frame [simp]:
  "mp_id (mp_insertMapping N n b s m P) = mp_id P"
  "mp_syncPrefix (mp_insertMapping N n b s m P) = mp_syncPrefix P"
  "mp_protocolVersion (mp_insertMapping N n b s m P) = mp_protocolVersion P"
  by (simp_all add: mp_insertMapping_def)

section \<open>Answering a query\<close>

text \<open>The entries of a range that the provider knows.\<close>

definition known_mappings ::
    "('n, 'c, 'b, 'd, 'i) ndn \<Rightarrow> ('n, 'b) mapping_provider \<Rightarrow> 'n missing_data_info
      \<Rightarrow> seq_no list \<Rightarrow> ('n, 'b) mapping_entry list" where
  "known_mappings N P query seqs =
     concat (map (\<lambda>i. case mp_getMapping N (md_nodeId query) (md_bootstrapTime query) i P of
        Inl _ \<Rightarrow> []
      | Inr mapping \<Rightarrow> [\<lparr>me_bootstrapTime = md_bootstrapTime query, me_seqNo = i,
          me_mapping = mapping\<rparr>]) seqs)"

lemma known_mappings_simps [simp]:
  "known_mappings N P query [] = []"
  "known_mappings N P query (i # seqs) =
     (case mp_getMapping N (md_nodeId query) (md_bootstrapTime query) i P of
        Inl _ \<Rightarrow> known_mappings N P query seqs
      | Inr mapping \<Rightarrow> \<lparr>me_bootstrapTime = md_bootstrapTime query, me_seqNo = i,
          me_mapping = mapping\<rparr> # known_mappings N P query seqs)"
  by (simp_all add: known_mappings_def split: sum.split)

lemma known_mappings_append:
  "known_mappings N P query (xs @ ys) = known_mappings N P query xs @ known_mappings N P query ys"
  by (simp add: known_mappings_def)

lemma rev_known_mappings: "rev (known_mappings N P query xs) = known_mappings N P query (rev xs)"
  by (induction xs) (simp_all add: known_mappings_append split: sum.split)

lemma collect_mapping_fold:
  "fold (collect_mapping N P query) seqs l =
     l\<lparr>ml_pairs := ml_pairs l @ known_mappings N P query seqs\<rparr>"
proof (induction seqs arbitrary: l)
  case Nil
  then show ?case by simp
next
  case (Cons i seqs)
  then show ?case
    by (simp add: collect_mapping_def [of N P query i] split: sum.split)
qed

definition query_response ::
    "('n, 'c, 'b, 'd, 'i) ndn \<Rightarrow> ('n, 'b) mapping_provider \<Rightarrow> 'n missing_data_info
      \<Rightarrow> ('n, 'b) mapping_list" where
  "query_response N P query =
     \<lparr>ml_nodeId = md_nodeId query,
      ml_pairs = known_mappings N P query (seq_span (md_low query) (max (md_high query) (md_low query))),
      ml_version = mp_protocolVersion P\<rparr>"

lemma onMappingQuery_eq:
  assumes "parseMappingQueryDataName N P name = Inr query"
    and "max (md_high query) (md_low query) \<noteq> - 1"
  shows "onMappingQuery N sign P name =
    Some (if ml_pairs (query_response N P query) = [] then Inr None
      else res_bind (mapping_list_encode N (query_response N P query)) (\<lambda>content.
        res_bind (sign (data_new N \<lparr>da_name = name, da_content = PayloadBlock content,
          da_freshness = 1000, da_content_type = None, da_final_block = None\<rparr>)) (\<lambda>data.
        Inr (Some data))))"
  using assms
  by (simp add: onMappingQuery_def seq_loop_returns collect_mapping_fold mapping_list_new_def
      query_response_def)

section \<open>Learning from a reply\<close>

definition entry_key ::
    "('n, 'c, 'b, 'd, 'i) ndn \<Rightarrow> 'n \<Rightarrow> ('n, 'b) mapping_entry \<Rightarrow> 'n" where
  "entry_key N nid e = makeMappingKey N nid (me_bootstrapTime e) (me_seqNo e)"

lemma learn_mapping_map:
  assumes "map_ok (mp_map P)"
  shows "map_of (mp_map (learn_mapping N info e P)) k =
      (case map_of (mp_map P) k of
         Some m \<Rightarrow> Some m
       | None \<Rightarrow> if k = entry_key N (md_nodeId info) e then Some (me_mapping e) else None)"
    and "map_ok (mp_map (learn_mapping N info e P))"
  using assms
  by (auto simp: learn_mapping_def mp_getMapping_def mp_insertMapping_def entry_key_def
      res_of_option_def split: option.split)

lemma learn_mappings_map:
  "map_ok (mp_map P) \<Longrightarrow>
   map_of (mp_map (fold (learn_mapping N info) es P)) k =
     (case map_of (mp_map P) k of
        Some m \<Rightarrow> Some m
      | None \<Rightarrow> map_of (map (\<lambda>e. (entry_key N (md_nodeId info) e, me_mapping e)) es) k)"
proof (induction es arbitrary: P)
  case Nil
  then show ?case by (simp split: option.split)
next
  case (Cons e es)
  show ?case
    using Cons.IH [OF learn_mapping_map(2) [OF Cons.prems, of N info e]]
      learn_mapping_map(1) [OF Cons.prems, of N info e k]
    by (simp split: option.split)
qed

text \<open>What a lookup finds among the entries of a reply.\<close>

definition mapping_sent :: "('n, 'b) mapping_pair \<Rightarrow> ('n, 'b) mapping_pair" where
  "mapping_sent m = (fst m, rev (snd m))"

lemma known_mappings_keys:
  "map (\<lambda>e. (entry_key N nid e, me_mapping e))
     (map (mapping_entry_sent version) (known_mappings N P query seqs)) =
   concat (map (\<lambda>i. case mp_getMapping N (md_nodeId query) (md_bootstrapTime query) i P of
       Inl _ \<Rightarrow> []
     | Inr m \<Rightarrow> [(makeMappingKey N nid (if version = V2 then 0 else md_bootstrapTime query) i,
         mapping_sent m)]) seqs)"
  by (induction seqs)
    (simp_all add: known_mappings_def entry_key_def mapping_entry_sent_def mapping_sent_def
      split: sum.split)

lemma map_of_singletons:
  assumes "\<And>x. x \<in> set xs \<Longrightarrow> key x = k \<longleftrightarrow> c \<and> x = y"
  shows "map_of (concat (map (\<lambda>x. case f x of Inl _ \<Rightarrow> [] | Inr m \<Rightarrow> [(key x, g m)]) xs)) k =
    (if c \<and> y \<in> set xs then (case f y of Inl _ \<Rightarrow> None | Inr m \<Rightarrow> Some (g m)) else None)"
  using assms
proof (induction xs)
  case Nil
  then show ?case by simp
next
  case (Cons x xs)
  have "map_of (concat (map (\<lambda>x. case f x of Inl _ \<Rightarrow> [] | Inr m \<Rightarrow> [(key x, g m)]) xs)) k =
    (if c \<and> y \<in> set xs then (case f y of Inl _ \<Rightarrow> None | Inr m \<Rightarrow> Some (g m)) else None)"
    using Cons.prems by (intro Cons.IH) simp
  moreover have "key x = k \<longleftrightarrow> c \<and> x = y"
    using Cons.prems [of x] by simp
  ultimately show ?case
    by (auto split: sum.split)
qed

section \<open>Queries for other nodes\<close>

lemma parse_query_own_name:
  assumes laws: "name_laws N" and other: "md_nodeId info \<noteq> mp_id P"
  shows "parseMappingQueryDataName N P (getMappingQueryDataName N P info) \<noteq> Inr query"
proof
  let ?name = "getMappingQueryDataName N P info"
  let ?e = "nm_append N (mp_id P) (mp_syncPrefix P)"
  assume "parseMappingQueryDataName N P ?name = Inr query"
  then have size: "nm_size N ?name = nm_size N ?e + (if mp_protocolVersion P = V2 then 3 else 4)"
    and pre: "nm_prefix N ?name (int (nm_size N ?e)) = ?e"
    by (auto simp: parseMappingQueryDataName_def Let_def split: if_splits option.splits)
  have len: "length (nm_comps N (md_nodeId info)) = length (nm_comps N (mp_id P))"
    using size by (simp add: name_law_comps [OF laws] mapping_query_comps [OF laws] split: if_splits)
  have "take (length (nm_comps N ?e)) (nm_comps N ?name) = nm_comps N ?e"
    using pre name_law_prefix_eq [OF laws, of ?name "length (nm_comps N ?e)" ?e]
    by (simp add: name_law_comps(4) [OF laws])
  then have "nm_comps N (md_nodeId info) = nm_comps N (mp_id P)"
    by (simp add: name_law_comps [OF laws] mapping_query_comps [OF laws] len)
  then show False
    using other by (simp add: name_law_inj [OF laws])
qed

section \<open>Sample input for the witnesses\<close>

definition sample_provider :: "(i_name, i_block) mapping_provider" where
  "sample_provider =
     \<lparr>mp_syncPrefix = sample_group, mp_id = [(8, [65])], mp_protocolVersion = V3,
      mp_map = [(makeMappingKey i_ndn [(8, [65])] 100 3, ([(8, [78])], [(240, [1]), (241, [])]))]\<rparr>"

definition sample_requester :: "(i_name, i_block) mapping_provider" where
  "sample_requester =
     \<lparr>mp_syncPrefix = sample_group, mp_id = [(8, [66])], mp_protocolVersion = V3, mp_map = []\<rparr>"

definition sample_query :: "i_name missing_data_info" where
  "sample_query = \<lparr>md_nodeId = [(8, [65])], md_low = 3, md_high = 4, md_incomingFace = 0,
     md_bootstrapTime = 100\<rparr>"

lemmas sample_mapping_eval = i_eval svs_simps sample_provider_def sample_requester_def
  sample_query_def sample_group_def makeMappingKey_def mp_getMapping_def mapping_list_bytes_def
  mapping_entry_bytes_def mapping_entry_value_def mapping_seq_bytes_def seq_entry_bytes_def
  nni_bytes_def

lemma sample_known: "query_response i_ndn sample_provider sample_query =
  \<lparr>ml_nodeId = [(8, [65])], ml_pairs = [\<lparr>me_bootstrapTime = 100, me_seqNo = 3,
     me_mapping = ([(8, [78])], [(240, [1]), (241, [])])\<rparr>], ml_version = V3\<rparr>"
  by (simp add: query_response_def seq_span_def sample_mapping_eval)

lemma sample_response_fits:
  "fits (mapping_list_bytes i_ndn (query_response i_ndn sample_provider sample_query))"
  unfolding sample_known by (simp add: fits_def sample_mapping_eval)

section \<open>Properties\<close>

text \<open>
  A mapping list round-trips, except that \<^verbatim>\<open>encode\<close>, whose loops run forwards over a buffer
  filled from its end, reverses it: the decoded list has the entries, and the additional blocks
  of every entry, in the opposite order. In V2 the epoch is not transmitted and reads as 0.
\<close>

theorem mapping_list_roundtrip:
  assumes "tlv_laws N" and "fits (mapping_list_bytes N l)"
  shows "\<exists>b. mapping_list_encode N l = Inr b \<and> block_type N b = tlv_MappingData \<and>
    mapping_list_decode N (ml_version l) b =
      Inr (l\<lparr>ml_pairs := map (\<lambda>e. \<lparr>
          me_bootstrapTime = (if ml_version l = V2 then 0 else me_bootstrapTime e),
          me_seqNo = me_seqNo e,
          me_mapping = (fst (me_mapping e), rev (snd (me_mapping e)))\<rparr>) (rev (ml_pairs l))\<rparr>)"
proof -
  obtain b where "mapping_list_encode N l = Inr b" and "block_type N b = tlv_MappingData"
    and "mapping_list_decode N (ml_version l) b = Inr (mapping_list_sent l)"
    by (rule mapping_list_decode_encode [OF assms])
  then show ?thesis
    unfolding mapping_list_sent_def mapping_entry_sent_def [abs_def] by blast
qed

theorem mapping_list_roundtrip_witness:
  "\<exists>b. mapping_list_encode i_ndn (query_response i_ndn sample_provider sample_query) = Inr b \<and>
     mapping_list_decode i_ndn V3 b =
       Inr \<lparr>ml_nodeId = [(8, [65])], ml_pairs = [\<lparr>me_bootstrapTime = 100, me_seqNo = 3,
         me_mapping = ([(8, [78])], [(241, []), (240, [1])])\<rparr>], ml_version = V3\<rparr>"
  using mapping_list_roundtrip [OF i_tlv_laws sample_response_fits] unfolding sample_known by auto

text \<open>
  Query names round-trip and address one node: the name a requester builds for the producer
  of a missing range parses, at that producer, to the same node, range and (in V3) epoch, and
  every other member of the group refuses it.
\<close>

theorem mapping_query_roundtrip:
  assumes "name_laws N" and "unat (md_bootstrapTime info) \<le> max_timestamp"
    and "mp_syncPrefix Q = mp_syncPrefix P" and "mp_protocolVersion Q = mp_protocolVersion P"
  shows "case parseMappingQueryDataName N P (getMappingQueryDataName N Q info) of
      Inr query \<Rightarrow> md_nodeId info = mp_id P \<and>
        query = info\<lparr>md_incomingFace := 0,
          md_bootstrapTime := (if mp_protocolVersion P = V2 then 0 else md_bootstrapTime info)\<rparr>
    | Inl _ \<Rightarrow> md_nodeId info \<noteq> mp_id P"
proof -
  have name: "getMappingQueryDataName N Q info = getMappingQueryDataName N P info"
    by (simp add: getMappingQueryDataName_def assms)
  show ?thesis
  proof (cases "md_nodeId info = mp_id P")
    case True
    then show ?thesis
      using mapping_query_parse [OF assms(1) True assms(2)] by (simp add: name)
  next
    case False
    then show ?thesis
      using parse_query_own_name [OF assms(1), of info P] by (auto simp: name split: sum.split)
  qed
qed

theorem mapping_query_roundtrip_witness:
  "parseMappingQueryDataName i_ndn sample_provider
     (getMappingQueryDataName i_ndn sample_requester sample_query) = Inr sample_query"
  using mapping_query_roundtrip [OF i_name_laws, of sample_query sample_requester sample_provider]
  by (simp add: sample_query_def sample_requester_def sample_provider_def max_timestamp_def
      split: sum.splits)

text \<open>
  C29: answering a query terminates unless the range ends at the largest sequence number. The
  64-bit counter of the loop then wraps around and \<^verbatim>\<open>onMappingQuery\<close> never returns, for any
  contents of the store: one Interest, whose name only has to parse, stops the node.
\<close>

theorem mapping_query_termination:
  "onMappingQuery N sign P name = None \<longleftrightarrow>
     (\<exists>query. parseMappingQueryDataName N P name = Inr query \<and>
        max (md_high query) (md_low query) = - 1)"
proof (cases "parseMappingQueryDataName N P name")
  case (Inl e)
  then show ?thesis
    by (simp add: onMappingQuery_def)
next
  case (Inr query)
  then show ?thesis
  proof (cases "max (md_high query) (md_low query) = - 1")
    case True
    then show ?thesis
      using Inr by (simp add: onMappingQuery_def seq_loop_diverges)
  next
    case False
    then show ?thesis
      using Inr onMappingQuery_eq [OF Inr False, of sign] by simp
  qed
qed

text \<open>
  C26: the whole exchange. A provider that knows a mapping of the queried range answers, and the
  requester that processes the reply ends up with its own mappings, unchanged, and for the
  queried epoch and range the provider's, their additional blocks reversed; nothing else enters
  its store.
\<close>

theorem mapping_exchange:
  assumes laws: "tlv_laws N" "name_laws N" "packet_laws N" "signer_laws N sign"
    and signs: "\<forall>d. \<exists>d'. sign d = Inr d'"
    and ok: "mp_ok Q" and same: "mp_protocolVersion Q = mp_protocolVersion P"
      "mp_syncPrefix Q = mp_syncPrefix P" "md_nodeId info = mp_id P"
    and epoch: "unat (md_bootstrapTime info) \<le> max_timestamp"
      "mp_protocolVersion P = V2 \<Longrightarrow> md_bootstrapTime info = 0"
    and range: "md_low info \<le> md_high info" "md_high info \<noteq> - 1"
    and some: "mp_getMapping N (mp_id P) (md_bootstrapTime info) s0 P = Inr m0"
      "s0 \<in> {md_low info..md_high info}"
    and fits: "fits (mapping_list_bytes N (query_response N P info))"
  shows "\<exists>d Q' l. onMappingQuery N sign P (getMappingQueryDataName N Q info) = Some (Inr (Some d)) \<and>
      mp_onDataValidated N info d Q = Inr (Q', l) \<and>
      (\<forall>n b s. unat b \<le> max_timestamp \<longrightarrow>
        mp_getMapping N n b s Q' =
          (case mp_getMapping N n b s Q of
             Inr m \<Rightarrow> Inr m
           | Inl e \<Rightarrow>
               if n = mp_id P \<and> b = md_bootstrapTime info \<and> s \<in> {md_low info..md_high info}
               then map_sum id mapping_sent (mp_getMapping N n b s P) else Inl e))"
proof -
  let ?seqs = "seq_span (md_low info) (md_high info)"
  let ?r = "query_response N P info"
  let ?query = "\<lparr>md_nodeId = md_nodeId info, md_low = md_low info, md_high = md_high info,
      md_incomingFace = 0, md_bootstrapTime = md_bootstrapTime info\<rparr>"
  have name: "getMappingQueryDataName N Q info = getMappingQueryDataName N P info"
    by (simp add: getMappingQueryDataName_def same)
  have parse: "parseMappingQueryDataName N P (getMappingQueryDataName N Q info) = Inr ?query"
    using mapping_query_parse [OF laws(2) same(3) epoch(1)] epoch(2) by (auto simp: name)
  have high: "max (md_high info) (md_low info) = md_high info"
    using range(1) by (rule max_absorb1)
  have known: "known_mappings N P ?query ss = known_mappings N P info ss" for ss
    by (simp add: known_mappings_def cong: sum.case_cong)
  have resp: "query_response N P ?query = ?r"
    by (simp add: query_response_def known)
  have pairs: "ml_pairs ?r = known_mappings N P info ?seqs"
    by (simp add: query_response_def high)
  have "known_mappings N P info ?seqs \<noteq> []"
    using some by (force simp: known_mappings_def set_seq_span same(3))
  then have ne: "ml_pairs ?r \<noteq> []"
    by (simp add: pairs)
  obtain content where content: "mapping_list_encode N ?r = Inr content"
    "block_type N content = tlv_MappingData" "block_wire N content = mapping_list_bytes N ?r"
    "mapping_list_decode N (ml_version ?r) content = Inr (mapping_list_sent ?r)"
    by (rule mapping_list_decode_encode [OF laws(1) fits])
  let ?args = "\<lparr>da_name = getMappingQueryDataName N Q info, da_content = PayloadBlock content,
      da_freshness = 1000, da_content_type = None, da_final_block = None\<rparr>"
  obtain d where d: "sign (data_new N ?args) = Inr d"
    using signs by blast
  have reply: "onMappingQuery N sign P (getMappingQueryDataName N Q info) = Some (Inr (Some d))"
    using onMappingQuery_eq [OF parse, of sign] range(2) ne content(1) d by (simp add: high resp)
  have "block_from_value N d = Inr content"
    by (rule block_from_value_signed [OF laws(3,4) d])
      (simp_all add: content(2,3) fits tlv_MappingData_def tlv_Content_def)
  then have valid: "mp_onDataValidated N info d Q =
      Inr (fold (learn_mapping N info) (ml_pairs (mapping_list_sent ?r)) Q, mapping_list_sent ?r)"
    using content(4) by (simp add: mp_onDataValidated_def same query_response_def)
  have sent: "ml_pairs (mapping_list_sent ?r) =
      map (mapping_entry_sent (mp_protocolVersion P)) (known_mappings N P info (rev ?seqs))"
    using pairs by (simp add: mapping_list_sent_def rev_known_mappings query_response_def)
  have epoch_sent: "(if mp_protocolVersion P = V2 then 0 else md_bootstrapTime info) =
      md_bootstrapTime info"
    using epoch(2) by auto
  have "mp_getMapping N n b s (fold (learn_mapping N info) (ml_pairs (mapping_list_sent ?r)) Q) =
      (case mp_getMapping N n b s Q of
         Inr m \<Rightarrow> Inr m
       | Inl e \<Rightarrow>
           if n = mp_id P \<and> b = md_bootstrapTime info \<and> s \<in> {md_low info..md_high info}
           then map_sum id mapping_sent (mp_getMapping N n b s P) else Inl e)"
    if b: "unat b \<le> max_timestamp" for n b s
  proof -
    let ?k = "makeMappingKey N n b s"
    have key: "makeMappingKey N (mp_id P) (md_bootstrapTime info) i = ?k \<longleftrightarrow>
        (n = mp_id P \<and> b = md_bootstrapTime info) \<and> i = s" for i
      using mapping_key_inj [OF laws(2) epoch(1) b, of "mp_id P" i n s] by auto
    have "map_of (map (\<lambda>e. (entry_key N (mp_id P) e, me_mapping e))
        (ml_pairs (mapping_list_sent ?r))) ?k =
      (if (n = mp_id P \<and> b = md_bootstrapTime info) \<and> s \<in> set (rev ?seqs)
       then (case mp_getMapping N (mp_id P) (md_bootstrapTime info) s P of
          Inl _ \<Rightarrow> None | Inr m \<Rightarrow> Some (mapping_sent m)) else None)"
      unfolding sent known_mappings_keys same(3) epoch_sent
      by (rule map_of_singletons [where y = s]) (rule key)
    note found = this
    have "map_ok (mp_map Q)"
      using ok by (simp add: mp_ok_def)
    then have learned: "map_of (mp_map (fold (learn_mapping N info)
        (ml_pairs (mapping_list_sent ?r)) Q)) ?k =
      (case map_of (mp_map Q) ?k of
         Some m \<Rightarrow> Some m
       | None \<Rightarrow> if (n = mp_id P \<and> b = md_bootstrapTime info) \<and> s \<in> set (rev ?seqs)
           then (case mp_getMapping N (mp_id P) (md_bootstrapTime info) s P of
              Inl _ \<Rightarrow> None | Inr m \<Rightarrow> Some (mapping_sent m)) else None)"
      by (subst learn_mappings_map) (simp_all only: same(3) found)
    show ?thesis
    proof (cases "map_of (mp_map Q) ?k")
      case (Some m)
      then show ?thesis
        using learned by (simp add: mp_getMapping_def)
    next
      case None
      then show ?thesis
        using learned
        by (cases "n = mp_id P \<and> b = md_bootstrapTime info \<and> s \<in> {md_low info..md_high info}";
            cases "map_of (mp_map P) ?k")
          (auto simp: mp_getMapping_def set_seq_span)
    qed
  qed
  then show ?thesis
    using reply valid by blast
qed

theorem mapping_exchange_witness:
  "\<exists>d Q' l. onMappingQuery i_ndn i_sign sample_provider
       (getMappingQueryDataName i_ndn sample_requester sample_query) = Some (Inr (Some d)) \<and>
     mp_onDataValidated i_ndn sample_query d sample_requester = Inr (Q', l) \<and>
     mp_getMapping i_ndn [(8, [65])] 100 3 Q' = Inr ([(8, [78])], [(241, []), (240, [1])])"
proof -
  have known: "mp_getMapping i_ndn (mp_id sample_provider) (md_bootstrapTime sample_query) 3
      sample_provider = Inr ([(8, [78])], [(240, [1]), (241, [])])"
    by (simp add: sample_mapping_eval)
  have "\<exists>d Q' l. onMappingQuery i_ndn i_sign sample_provider
       (getMappingQueryDataName i_ndn sample_requester sample_query) = Some (Inr (Some d)) \<and>
     mp_onDataValidated i_ndn sample_query d sample_requester = Inr (Q', l) \<and>
     (\<forall>n b s. unat b \<le> max_timestamp \<longrightarrow>
        mp_getMapping i_ndn n b s Q' =
          (case mp_getMapping i_ndn n b s sample_requester of
             Inr m \<Rightarrow> Inr m
           | Inl e \<Rightarrow>
               if n = mp_id sample_provider \<and> b = md_bootstrapTime sample_query \<and>
                  s \<in> {md_low sample_query..md_high sample_query}
               then map_sum id mapping_sent (mp_getMapping i_ndn n b s sample_provider)
               else Inl e))"
    by (rule mapping_exchange [OF i_tlv_laws i_name_laws i_packet_laws i_signer_laws i_sign_total
          _ _ _ _ _ _ _ _ known _ sample_response_fits])
      (simp_all add: mp_ok_def sample_provider_def sample_requester_def
        sample_query_def max_timestamp_def)
  then obtain d Q' l where q: "onMappingQuery i_ndn i_sign sample_provider
       (getMappingQueryDataName i_ndn sample_requester sample_query) = Some (Inr (Some d))"
    "mp_onDataValidated i_ndn sample_query d sample_requester = Inr (Q', l)"
    and look: "\<forall>n b s. unat b \<le> max_timestamp \<longrightarrow>
        mp_getMapping i_ndn n b s Q' =
          (case mp_getMapping i_ndn n b s sample_requester of
             Inr m \<Rightarrow> Inr m
           | Inl e \<Rightarrow>
               if n = mp_id sample_provider \<and> b = md_bootstrapTime sample_query \<and>
                  s \<in> {md_low sample_query..md_high sample_query}
               then map_sum id mapping_sent (mp_getMapping i_ndn n b s sample_provider)
               else Inl e)"
    by blast
  have "mp_getMapping i_ndn [(8, [65])] 100 3 Q' = Inr ([(8, [78])], [(241, []), (240, [1])])"
    using look [rule_format, of 100 "[(8, [65])]" 3]
    by (simp add: sample_mapping_eval max_timestamp_def mapping_sent_def)
  then show ?thesis
    using q by blast
qed

end
