(* ===== verification/Repair_Codec.thy ===== *)
theory Repair_Codec
  imports Mapping_Provider
begin

text \<open>
  The RepairData extension (\<^verbatim>\<open>encodeRepairRequests\<close>, \<^verbatim>\<open>decodeRepairRequests\<close> of
  \<^verbatim>\<open>svspubsub.cpp\<close>): ranges of publications a node failed to fetch and asks its peers to
  piggyback again. The lemmas give the round trip and what the decoder admits.
\<close>

section \<open>Definitions\<close>

text \<open>The loop of the encoder, over the requests from the last to the first.\<close>

fun encode_repair_entries ::
    "('n, 'c, 'b, 'd, 'i) ndn \<Rightarrow> 'n missing_data_info list \<Rightarrow> bytes \<times> nat \<Rightarrow> bytes \<times> nat" where
  "encode_repair_entries N [] buf = buf"
| "encode_repair_entries N (info # rest) (enc, totalLength) =
     (let (enc, n1) = prepend_nni_block N tlv_SeqNo (md_high info) enc;
          (enc, n2) = prepend_nni_block N tlv_SeqNo (md_low info) enc;
          (enc, n3) = prepend_nni_block N tlv_BootstrapTime (md_bootstrapTime info) enc;
          (enc, n4) = prepend_block N (name_wire N (md_nodeId info)) enc;
          (enc, k) = prepend_header N tlv_RepairEntry (n1 + n2 + n3 + n4) enc
      in encode_repair_entries N rest (enc, totalLength + k))"

definition encodeRepairRequests ::
    "('n, 'c, 'b, 'd, 'i) ndn \<Rightarrow> 'n missing_data_info list \<Rightarrow> 'b result" where
  "encodeRepairRequests N requests =
     (let (enc, totalLength) = encode_repair_entries N (rev requests) ([], 0);
          (enc, _) = prepend_header N tlv_RepairData totalLength enc
      in res_of_option (TlvError ''block'') (block_of N enc))"

definition decode_repair_entry ::
    "('n, 'c, 'b, 'd, 'i) ndn \<Rightarrow> 'b \<Rightarrow> 'n missing_data_info list
      \<Rightarrow> 'n missing_data_info list result" where
  "decode_repair_entry N entry requests =
     (if block_type N entry \<noteq> tlv_RepairEntry then Inl (TlvError ''RepairEntry'')
      else
        res_bind (parse_elems N entry) (\<lambda>es.
        if length es \<noteq> 4 \<or> block_type N (es ! 0) \<noteq> tlv_Name \<or>
           block_type N (es ! 1) \<noteq> tlv_BootstrapTime \<or>
           block_type N (es ! 2) \<noteq> tlv_SeqNo \<or> block_type N (es ! 3) \<noteq> tlv_SeqNo
        then Inl (TlvError ''RepairEntry'')
        else
          res_bind (read_name N (es ! 0)) (\<lambda>nodeId.
          res_bind (read_nni N (es ! 1)) (\<lambda>bootstrapTime.
          res_bind (read_nni N (es ! 2)) (\<lambda>low.
          res_bind (read_nni N (es ! 3)) (\<lambda>high.
          if low = 0 \<or> high < low
          then Inl (InvalidArgument ''invalid SVS repair sequence range'')
          else
            Inr (requests @ [\<lparr>md_nodeId = nodeId, md_low = low, md_high = high,
              md_incomingFace = 0, md_bootstrapTime = bootstrapTime\<rparr>])))))))"

definition decodeRepairRequests ::
    "('n, 'c, 'b, 'd, 'i) ndn \<Rightarrow> 'b \<Rightarrow> 'n missing_data_info list result" where
  "decodeRepairRequests N block =
     res_bind (parse_elems N block) (\<lambda>es. res_fold (decode_repair_entry N) es [])"

section \<open>Bytes and blocks\<close>

definition repair_value :: "('n, 'c, 'b, 'd, 'i) ndn \<Rightarrow> 'n missing_data_info \<Rightarrow> bytes" where
  "repair_value N info =
     block_wire N (name_wire N (md_nodeId info)) @
     nni_bytes N tlv_BootstrapTime (md_bootstrapTime info) @
     nni_bytes N tlv_SeqNo (md_low info) @ nni_bytes N tlv_SeqNo (md_high info)"

definition repair_bytes :: "('n, 'c, 'b, 'd, 'i) ndn \<Rightarrow> 'n missing_data_info \<Rightarrow> bytes" where
  "repair_bytes N info = tlv_bytes N tlv_RepairEntry (repair_value N info)"

definition repair_list_bytes :: "('n, 'c, 'b, 'd, 'i) ndn \<Rightarrow> 'n missing_data_info list \<Rightarrow> bytes" where
  "repair_list_bytes N requests = tlv_bytes N tlv_RepairData (concat (map (repair_bytes N) requests))"

definition repair_blk :: "('n, 'c, 'b, 'd, 'i) ndn \<Rightarrow> 'n missing_data_info \<Rightarrow> 'b" where
  "repair_blk N info = tlv_blk N tlv_RepairEntry (repair_value N info)"

lemma repair_header:
  "prepend_header N t (length d + length c + length b + length a) (a @ b @ c @ d @ enc) =
     (tlv_bytes N t (a @ b @ c @ d) @ enc, length (tlv_bytes N t (a @ b @ c @ d)))"
  using prepend_header_value [of N t "a @ b @ c @ d" enc]
  by (simp add: add.commute add.left_commute)

lemma encode_repair_entries_bytes:
  "encode_repair_entries N rs (enc, len) =
     (concat (map (repair_bytes N) (rev rs)) @ enc,
      len + length (concat (map (repair_bytes N) (rev rs))))"
  by (induction N rs "(enc, len)" arbitrary: enc len rule: encode_repair_entries.induct)
    (simp_all add: prepend_block_def prepend_nni_block_def repair_header repair_bytes_def
      repair_value_def nni_bytes_def Let_def)

lemma encodeRepairRequests_bytes:
  "encodeRepairRequests N rs = res_of_option (TlvError ''block'') (block_of N (repair_list_bytes N rs))"
  using prepend_header_value [of N tlv_RepairData "concat (map (repair_bytes N) rs)" "[]"]
  by (simp add: encodeRepairRequests_def encode_repair_entries_bytes repair_list_bytes_def)

definition repair_range_ok :: "'n missing_data_info \<Rightarrow> bool" where
  "repair_range_ok info \<longleftrightarrow> md_low info \<noteq> 0 \<and> md_low info \<le> md_high info"

lemma decode_repair_blk:
  assumes laws: "tlv_laws N" and fits: "fits (repair_bytes N info)" and "repair_range_ok info"
  shows "decode_repair_entry N (repair_blk N info) rs = Inr (rs @ [info\<lparr>md_incomingFace := 0\<rparr>])"
    and "block_wire N (repair_blk N info) = repair_bytes N info"
proof -
  have f: "fits (tlv_bytes N tlv_RepairEntry (repair_value N info))"
    using fits by (simp add: repair_bytes_def)
  then have v: "fits (repair_value N info)"
    by (rule fits_tlv_value)
  then have p: "fits (block_wire N (name_wire N (md_nodeId info)))"
    "fits (nni_bytes N tlv_BootstrapTime (md_bootstrapTime info))"
    "fits (nni_bytes N tlv_SeqNo (md_low info))" "fits (nni_bytes N tlv_SeqNo (md_high info))"
    unfolding repair_value_def by (simp_all add: fits_def)
  note n = nni_blk [OF laws p(2)] nni_blk [OF laws p(3)] nni_blk [OF laws p(4)]
  have e: "block_elems N (repair_blk N info) = Some [name_wire N (md_nodeId info),
      tlv_blk N tlv_BootstrapTime (nni_value N (md_bootstrapTime info)),
      tlv_blk N tlv_SeqNo (nni_value N (md_low info)),
      tlv_blk N tlv_SeqNo (nni_value N (md_high info))]"
    unfolding repair_blk_def by (rule tlv_blk_elems [OF laws f]) (simp add: n repair_value_def)
  show "block_wire N (repair_blk N info) = repair_bytes N info"
    using tlv_blk(3) [OF laws f] by (simp add: repair_blk_def repair_bytes_def)
  have "block_type N (repair_blk N info) = tlv_RepairEntry"
    using tlv_blk(2) [OF laws f] by (simp add: repair_blk_def)
  then show "decode_repair_entry N (repair_blk N info) rs = Inr (rs @ [info\<lparr>md_incomingFace := 0\<rparr>])"
    using e n tlv_law_name [OF laws p(1)] tlv_law_name_type [OF laws] assms(3)
    by (simp add: decode_repair_entry_def parse_elems_def read_name_def read_nni_def
        repair_range_ok_def not_less)
qed

lemma decode_repair_blks:
  assumes "tlv_laws N" and "fits (concat (map (repair_bytes N) rs))"
    and "\<forall>info \<in> set rs. repair_range_ok info"
  shows "res_fold (decode_repair_entry N) (map (repair_blk N) rs) acc =
      Inr (acc @ map (\<lambda>info. info\<lparr>md_incomingFace := 0\<rparr>) rs) \<and>
    map (block_wire N) (map (repair_blk N) rs) = map (repair_bytes N) rs"
  using assms(2,3)
proof (induction rs arbitrary: acc)
  case Nil
  then show ?case by simp
next
  case (Cons info rs)
  have "fits (repair_bytes N info)" and "fits (concat (map (repair_bytes N) rs))"
    using Cons.prems fits_append [of "repair_bytes N info"] by simp_all
  then show ?case
    using decode_repair_blk [OF assms(1), of info] Cons by simp
qed

text \<open>Every decoded range is valid.\<close>

lemma guarded_eq_Inr: "(if c then Inl e else r) = Inr x \<longleftrightarrow> \<not> c \<and> r = Inr x"
  by simp

lemma decode_repair_sound:
  assumes "decodeRepairRequests N block = Inr rs"
  shows "\<forall>info \<in> set rs. repair_range_ok info"
proof -
  obtain es where "res_fold (decode_repair_entry N) es [] = Inr rs"
    using assms by (auto simp: decodeRepairRequests_def res_bind_eq_Inr)
  then show ?thesis
  proof (rule res_fold_invariant)
    fix x s t
    assume "\<forall>info \<in> set s. repair_range_ok info" and "decode_repair_entry N x s = Inr t"
    then show "\<forall>info \<in> set t. repair_range_ok info"
      unfolding decode_repair_entry_def guarded_eq_Inr res_bind_eq_Inr
      by (auto simp: guarded_eq_Inr res_bind_eq_Inr repair_range_ok_def not_less
          simp del: if_split)
  qed simp
qed

text \<open>An encoded list decodes to what was sent of it.\<close>

lemma repair_list_exchange:
  assumes "tlv_laws N" and "fits (repair_list_bytes N rs)"
    and "\<forall>info \<in> set rs. md_low info \<noteq> 0 \<and> md_low info \<le> md_high info"
  shows "\<exists>b. encodeRepairRequests N rs = Inr b \<and> block_type N b = tlv_RepairData \<and>
    decodeRepairRequests N b = Inr (map (\<lambda>info. info\<lparr>md_incomingFace := 0\<rparr>) rs)"
proof -
  let ?v = "concat (map (repair_bytes N) rs)"
  have f: "fits (tlv_bytes N tlv_RepairData ?v)"
    using assms(2) by (simp add: repair_list_bytes_def)
  have d: "res_fold (decode_repair_entry N) (map (repair_blk N) rs) [] =
      Inr ([] @ map (\<lambda>info. info\<lparr>md_incomingFace := 0\<rparr>) rs)"
    and w: "map (block_wire N) (map (repair_blk N) rs) = map (repair_bytes N) rs"
    using decode_repair_blks [OF assms(1) fits_tlv_value [OF f]] assms(3)
    unfolding repair_range_ok_def by blast+
  have "block_elems N (tlv_blk N tlv_RepairData ?v) = Some (map (repair_blk N) rs)"
    by (rule tlv_blk_elems [OF assms(1) f]) (simp only: w)
  then show ?thesis
    using d tlv_blk(1,2) [OF assms(1) f]
    by (intro exI [of _ "tlv_blk N tlv_RepairData ?v"])
      (simp add: encodeRepairRequests_bytes repair_list_bytes_def decodeRepairRequests_def
        parse_elems_def)
qed

text \<open>A block that decodes holds entries only.\<close>

lemma repair_block_elems:
  assumes "decodeRepairRequests N block = Inr rs"
  obtains es where "block_elems N block = Some es" and "\<forall>e \<in> set es. block_type N e = tlv_RepairEntry"
proof -
  obtain es where es: "block_elems N block = Some es" "res_fold (decode_repair_entry N) es [] = Inr rs"
    using assms by (auto simp: decodeRepairRequests_def parse_elems_def res_bind_eq_Inr res_of_option_def
        split: option.splits)
  have "\<forall>e \<in> set es. block_type N e = tlv_RepairEntry" if "res_fold (decode_repair_entry N) es acc = Inr rs" for es acc
    using that
  proof (induction es arbitrary: acc)
    case (Cons e es)
    then have "block_type N e = tlv_RepairEntry"
      by (auto simp: decode_repair_entry_def res_bind_def split: sum.splits if_splits)
    then show ?case
      using Cons by (auto simp: res_bind_eq_Inr)
  qed simp
  then show thesis
    using es that by blast
qed

section \<open>Properties\<close>

text \<open>
  Repair requests round-trip: a list of valid ranges is encoded into one RepairData block that
  decodes to the same nodes, epochs and ranges in the same order.
\<close>

theorem repair_roundtrip:
  assumes "tlv_laws N" and "fits (repair_list_bytes N rs)"
    and "\<forall>info \<in> set rs. md_low info \<noteq> 0 \<and> md_low info \<le> md_high info"
  shows "\<exists>b. encodeRepairRequests N rs = Inr b \<and> block_type N b = tlv_RepairData \<and>
    decodeRepairRequests N b = Inr (map (\<lambda>info. info\<lparr>md_incomingFace := 0\<rparr>) rs)"
  using repair_list_exchange [OF assms] .

theorem repair_roundtrip_witness:
  "\<exists>b. encodeRepairRequests i_ndn [sample_query] = Inr b \<and>
     decodeRepairRequests i_ndn b = Inr [sample_query]"
proof -
  have "fits (repair_list_bytes i_ndn [sample_query])"
    by (simp add: fits_def repair_list_bytes_def repair_bytes_def repair_value_def
        sample_mapping_eval)
  from repair_roundtrip [OF i_tlv_laws this] show ?thesis
    by (auto simp: sample_query_def)
qed

end
