(* ===== verification/PubSub_State.thy ===== *)
theory PubSub_State
  imports Segmentation Repair_Codec
begin

text \<open>
  The state of \<^verbatim>\<open>SVSPubSub\<close> (\<^verbatim>\<open>svspubsub.hpp\<close>): its options and structures, the members in three
  groups (publications in preparation, under \<^verbatim>\<open>m_asyncPublishMutex\<close>; extra blocks, under
  \<^verbatim>\<open>m_extraDataMutex\<close>; subscriptions and fetches), its constructor and its subscriptions.

  Callbacks of the application and regular expressions are tokens; calling a callback is an
  output. Callbacks are assumed to return without calling back into the object. The steady clock
  is an integer count of nanoseconds, 0 being a default-constructed time point, and is read once
  per operation; durations are milliseconds.
\<close>

section \<open>Durations\<close>

definition clampDuration :: "int \<Rightarrow> int \<Rightarrow> int \<Rightarrow> int" where
  "clampDuration v lower upper = min (max v lower) upper"

text \<open>Milliseconds as a duration of the steady clock.\<close>

definition toStdDuration :: "int \<Rightarrow> int" where
  "toStdDuration v = v * 1000000"

text \<open>\<^verbatim>\<open>duration_cast<milliseconds>\<close> truncates towards 0.\<close>

definition toNdnDuration :: "int \<Rightarrow> int" where
  "toNdnDuration v = (if v < 0 then - ((- v) div 1000000) else v div 1000000)"

lemma toNdnDuration_ms [simp]: "toNdnDuration (toStdDuration v) = v"
proof -
  have "(- v * 1000000) div 1000000 = - v"
    by (rule nonzero_mult_div_cancel_right) simp
  then show ?thesis
    by (simp add: toNdnDuration_def toStdDuration_def)
qed

lemma clampDuration_range:
  "lower \<le> upper \<Longrightarrow> lower \<le> clampDuration v lower upper \<and> clampDuration v lower upper \<le> upper"
  by (simp add: clampDuration_def)

section \<open>Options\<close>

record pubsub_options =
  so_syncProtocol :: protocol_options
  so_useTimestamp :: bool
  so_maxPubAge :: int
  so_maxApplicationParametersSize :: nat
  so_maxPiggyDataSize :: nat
  so_piggyDataCacheLimit :: nat
  so_mappingFetchRetries :: int
  so_mappingFetchFailureBackoff :: int
  so_mappingFetchWindow :: u16
  so_publicationFetchRetries :: int
  so_publicationFetchInnerRetries :: int
  so_publicationFetchInterestLifetime :: int
  so_publicationFetchMinInterestLifetime :: int
  so_publicationFetchMaxInterestLifetime :: int
  so_publicationFetchFailureBackoff :: int
  so_publicationFetchMaxBackoff :: int
  so_publicationFetchWindow :: u16
  so_piggybackRepeatCount :: nat
  so_piggybackMissLimit :: nat
  so_repairRequestRepeatCount :: nat
  so_asyncCommitRetryInitial :: int
  so_asyncCommitRetryMax :: int

definition default_pubsub_options :: "protocol_options \<Rightarrow> pubsub_options" where
  "default_pubsub_options syncProtocol =
     \<lparr>so_syncProtocol = syncProtocol, so_useTimestamp = True, so_maxPubAge = 0,
      so_maxApplicationParametersSize = 4096, so_maxPiggyDataSize = 800,
      so_piggyDataCacheLimit = 1024, so_mappingFetchRetries = 0,
      so_mappingFetchFailureBackoff = 200, so_mappingFetchWindow = 10,
      so_publicationFetchRetries = 2, so_publicationFetchInnerRetries = 2,
      so_publicationFetchInterestLifetime = 500, so_publicationFetchMinInterestLifetime = 250,
      so_publicationFetchMaxInterestLifetime = 2000, so_publicationFetchFailureBackoff = 50,
      so_publicationFetchMaxBackoff = 2000, so_publicationFetchWindow = 10,
      so_piggybackRepeatCount = 3, so_piggybackMissLimit = 3, so_repairRequestRepeatCount = 3,
      so_asyncCommitRetryInitial = 10, so_asyncCommitRetryMax = 1000\<rparr>"

section \<open>Structures\<close>

type_synonym 'n publication_key = "'n \<times> bootstrap_time \<times> seq_no"
type_synonym 'n mapping_fetch_key = "'n \<times> bootstrap_time \<times> seq_no \<times> seq_no"
type_synonym 'n producer_session_key = "'n \<times> bootstrap_time"

text \<open>\<open>'f\<close> is a callback of the application, \<open>'r\<close> a regular expression; the default expression
  \<^verbatim>\<open>^<>+$\<close>, which is never used, is \<open>None\<close>.\<close>

record ('n, 'f, 'r) subscription =
  su_id :: u32
  su_prefix :: 'n
  su_callback :: 'f
  su_isPacketSubscription :: bool
  su_prefetch :: bool
  su_autofetch :: bool
  su_regex :: "'r option"

record ('n, 'b, 'd) prepared_publication =
  pp_seqNo :: seq_no
  pp_bootstrapTime :: bootstrap_time
  pp_nodePrefix :: 'n
  pp_mappingName :: 'n
  pp_freshnessPeriod :: int
  pp_outerPackets :: "'d list"
  pp_piggyPacket :: "'d option"
  pp_mappingBlocks :: "'b list"
  pp_putFirstPacketToFace :: bool
  pp_stored :: bool
  pp_ok :: bool
  pp_commitAttempts :: nat
  pp_retryScheduled :: bool

record 'd piggy_data_entry =
  pd_data :: 'd
  pd_sent :: nat
  pd_missed :: nat

record ('n, 'b) piggy_mapping_entry =
  pm_nodeId :: 'n
  pm_mapping :: "('n, 'b) mapping_entry"
  pm_sent :: nat
  pm_missed :: nat

record 'n repair_request_entry =
  rr_info :: "'n missing_data_info"
  rr_sent :: nat
  rr_missed :: nat

datatype fetch_status = Queued | Fetching | Backoff | Delivered | Expired

record publication_fetch_state =
  fs_status :: fetch_status
  fs_attempts :: nat
  fs_firstQueued :: int
  fs_deadline :: int
  fs_nextAttempt :: int
  fs_attemptStarted :: int
  fs_currentLifetime :: int
  fs_currentBackoff :: int

definition fetch_state_new :: publication_fetch_state where
  "fetch_state_new = \<lparr>fs_status = Queued, fs_attempts = 0, fs_firstQueued = 0, fs_deadline = 0,
     fs_nextAttempt = 0, fs_attemptStarted = 0, fs_currentLifetime = 0, fs_currentBackoff = 0\<rparr>"

section \<open>Members\<close>

text \<open>
  Publications in preparation; \<open>pb_posted\<close> are the publications captured by the lambdas posted to
  the io_context, \<open>pb_retries\<close> the retries given to the scheduler with their delay.
\<close>

record ('n, 'b, 'd) publisher =
  pb_reservedSeqNo :: "('n, seq_no) std_map"
  pb_nextAsyncCommitSeq :: "('n, seq_no) std_map"
  pb_preparedPublications :: "('n, (seq_no, ('n, 'b, 'd) prepared_publication) std_map) std_map"
  pb_stagedPublicationPackets :: "('n, (seq_no, 'd list) std_map) std_map"
  pb_asyncPublishAlive :: bool
  pb_posted :: "('n, 'b, 'd) prepared_publication list"
  pb_retries :: "('n \<times> seq_no \<times> int) list"

text \<open>Extra blocks of Sync Interests.\<close>

record ('n, 'b, 'd) extra_data =
  ex_notificationMappingList :: "('n, 'b) mapping_list"
  ex_piggyDataQueue :: "'d piggy_data_entry list"
  ex_piggyMappingQueue :: "('n, 'b) piggy_mapping_entry list"
  ex_repairRequestQueue :: "'n repair_request_entry list"
  ex_piggyDataCache :: "('n, 'd) std_map"
  ex_piggyDataCacheOrder :: "'n list"
  ex_piggyDataCacheLimit :: nat
  ex_piggyDeliveredPublications :: "('n publication_key, bool) std_map"
  ex_piggyDeliveredPublicationOrder :: "'n publication_key list"
  ex_piggyDeliveredPublicationLimit :: nat

text \<open>Subscriptions and fetches.\<close>

record ('n, 'f, 'r) fetch_book =
  fb_subscriptionCount :: u32
  fb_producerSubscriptions :: "('n, 'f, 'r) subscription list"
  fb_prefixSubscriptions :: "('n, 'f, 'r) subscription list"
  fb_regexSubscriptions :: "('n, 'f, 'r) subscription list"
  fb_fetchMap :: "('n publication_key, ('n, 'f, 'r) subscription list) std_map"
  fb_publicationFetchStates :: "('n publication_key, publication_fetch_state) std_map"
  fb_publicationLifetimeEstimates :: "('n producer_session_key, int) std_map"
  fb_mappingFetchInFlight :: "('n mapping_fetch_key, bool) std_map"
  fb_mappingFetchSuppressUntil :: "('n mapping_fetch_key, int) std_map"

text \<open>
  The callbacks given to the two fetchers: of a publication, by its key; of a prefetch, which does
  nothing; of a mapping query, with what its lambdas capture.
\<close>

datatype 'n data_fetch = PublicationFetch "'n publication_key" | Prefetch

record 'n mapping_fetch =
  mf_query :: "'n missing_data_info"
  mf_streamName :: 'n
  mf_key :: "'n mapping_fetch_key"

text \<open>\<^verbatim>\<open>SubscriptionData\<close>, with the callback it is given to.\<close>

record ('n, 'd) subscription_data =
  sd_name :: 'n
  sd_data :: bytes
  sd_producerPrefix :: 'n
  sd_seqNo :: seq_no
  sd_packet :: "'d option"

text \<open>
  What the object does to the outside, besides what its parts do: calls of the application's
  callbacks, timers, Interests of its two fetchers, segment fetches, packets given to the
  validator of encapsulated packets (with what its lambdas capture).
\<close>

datatype ('n, 'd, 'f) pubsub_output =
    Call 'f "('n, 'd) subscription_data"
  | OnUpdate "'n missing_data_info list"
  | ScheduleFetchAll int
  | DataOutput "('n data_query, 'd, 'n data_fetch) fetch_output"
  | MappingOutput "('n data_query, 'd, 'n mapping_fetch) fetch_output"
  | StartSegmentFetch 'n "'n publication_key"
  | ValidateInner 'd 'd "'n publication_key"
  | ValidateSegment 'd "'n publication_key"

record ('n, 'b, 'd, 'i, 's, 'f, 'r) svspubsub =
  ps_dataPrefix :: 'n
  ps_opts :: pubsub_options
  ps_hasEncapsulatedValidator :: bool
  ps_svsync :: "('n, 'b, 'd, 'i, 's, 'n data_fetch) svsync"
  ps_mappingProvider :: "('n, 'b) mapping_provider"
  ps_mappingFetcher :: "('n data_query, 'd, 'n mapping_fetch) fetcher"
  ps_maxApplicationParametersSize :: nat
  ps_maxPiggyDataSize :: nat
  ps_publisher :: "('n, 'b, 'd) publisher"
  ps_extra :: "('n, 'b, 'd) extra_data"
  ps_book :: "('n, 'f, 'r) fetch_book"
  ps_out :: "('n, 'd, 'f) pubsub_output list"

text \<open>
  What its operations use from outside: the environment of \<^verbatim>\<open>SVSyncBase\<close>, the steady clock, the
  timestamp component of the current time (building it may throw), the age of a timestamp
  component in nanoseconds (nothing for other components), the matching of regular expressions,
  the hook that tests install before a commit, and \<^verbatim>\<open>std::sort\<close>, whose order of equivalent
  elements is unspecified.
\<close>

record ('n, 'c, 'b, 'd, 'i, 's, 'r) pubsub_env =
  pe_base :: "('n, 'c, 'b, 'd, 'i, 's) base_env"
  pe_now :: int
  pe_timestamp :: "'c result"
  pe_timestampAge :: "'c \<Rightarrow> int option"
  pe_regexMatch :: "'r option \<Rightarrow> 'n \<Rightarrow> bool"
  pe_commitHook :: "seq_no \<Rightarrow> svs_error option"
  pe_sort :: "('n publication_key \<Rightarrow> 'n publication_key \<Rightarrow> bool) \<Rightarrow> 'n publication_key list
    \<Rightarrow> 'n publication_key list"

abbreviation pe_ndn :: "('n, 'c, 'b, 'd, 'i, 's, 'r) pubsub_env \<Rightarrow> ('n, 'c, 'b, 'd, 'i) ndn" where
  "pe_ndn E \<equiv> be_ndn (pe_base E)"

text \<open>\<^verbatim>\<open>std::sort\<close> permutes its range; a stable insertion sort is one that may be used.\<close>

definition sort_laws :: "('n, 'c, 'b, 'd, 'i, 's, 'r) pubsub_env \<Rightarrow> bool" where
  "sort_laws E \<longleftrightarrow> (\<forall>prior xs. mset (pe_sort E prior xs) = mset xs)"

fun insert_by :: "('a \<Rightarrow> 'a \<Rightarrow> bool) \<Rightarrow> 'a \<Rightarrow> 'a list \<Rightarrow> 'a list" where
  "insert_by prior x [] = [x]"
| "insert_by prior x (y # ys) = (if prior y x then y # insert_by prior x ys else x # y # ys)"

definition insertion_sort :: "('a \<Rightarrow> 'a \<Rightarrow> bool) \<Rightarrow> 'a list \<Rightarrow> 'a list" where
  "insertion_sort prior xs = foldr (insert_by prior) xs []"

lemma mset_insert_by [simp]: "mset (insert_by prior x ys) = add_mset x (mset ys)"
  by (induction ys) auto

lemma mset_insertion_sort [simp]: "mset (insertion_sort prior xs) = mset xs"
  by (induction xs) (simp_all add: insertion_sort_def)

definition emit_ps ::
    "('n, 'd, 'f) pubsub_output list \<Rightarrow> ('n, 'b, 'd, 'i, 's, 'f, 'r) svspubsub
      \<Rightarrow> ('n, 'b, 'd, 'i, 's, 'f, 'r) svspubsub" where
  "emit_ps outs P = P\<lparr>ps_out := ps_out P @ outs\<rparr>"

section \<open>Constructor\<close>

definition publisher_new :: "('n, 'b, 'd) publisher" where
  "publisher_new = \<lparr>pb_reservedSeqNo = [], pb_nextAsyncCommitSeq = [],
     pb_preparedPublications = [], pb_stagedPublicationPackets = [], pb_asyncPublishAlive = True,
     pb_posted = [], pb_retries = []\<rparr>"

definition extra_data_new :: "('n, 'c, 'b, 'd, 'i) ndn \<Rightarrow> nat \<Rightarrow> ('n, 'b, 'd) extra_data" where
  "extra_data_new N piggyDataCacheLimit =
     \<lparr>ex_notificationMappingList = mapping_list_new (nm_empty N) V3, ex_piggyDataQueue = [],
      ex_piggyMappingQueue = [], ex_repairRequestQueue = [], ex_piggyDataCache = [],
      ex_piggyDataCacheOrder = [], ex_piggyDataCacheLimit = max 1 piggyDataCacheLimit,
      ex_piggyDeliveredPublications = [], ex_piggyDeliveredPublicationOrder = [],
      ex_piggyDeliveredPublicationLimit = 4096\<rparr>"

text \<open>The members that no constructor initialises, \<^verbatim>\<open>m_subscriptionCount\<close>, start at any value.\<close>

definition fetch_book_new :: "u32 \<Rightarrow> ('n, 'f, 'r) fetch_book" where
  "fetch_book_new subscriptionCount =
     \<lparr>fb_subscriptionCount = subscriptionCount, fb_producerSubscriptions = [],
      fb_prefixSubscriptions = [], fb_regexSubscriptions = [], fb_fetchMap = [],
      fb_publicationFetchStates = [], fb_publicationLifetimeEstimates = [],
      fb_mappingFetchInFlight = [], fb_mappingFetchSuppressUntil = []\<rparr>"

text \<open>\<^verbatim>\<open>SVSPubSub::SVSPubSub\<close>, given the constructed \<^verbatim>\<open>SVSync\<close> member, if its constructor does not
  throw.\<close>

definition svspubsub_new ::
    "('n, 'c, 'b, 'd, 'i) ndn \<Rightarrow> 'n \<Rightarrow> 'n \<Rightarrow> pubsub_options \<Rightarrow> bool \<Rightarrow> int \<Rightarrow> bool \<Rightarrow> u32
      \<Rightarrow> ('n, 'b, 'd, 'i, 's, 'n data_fetch) svsync result
      \<Rightarrow> ('n, 'b, 'd, 'i, 's, 'f, 'r) svspubsub result" where
  "svspubsub_new N syncPrefix nodePrefix options hasValidator vfRetries hasEncapsulatedValidator
      subscriptionCount svsync =
     res_bind svsync (\<lambda>svsync.
       let svsync = setFetchInterestLifetime
             (clampDuration (so_publicationFetchInterestLifetime options)
               (so_publicationFetchMinInterestLifetime options)
               (so_publicationFetchMaxInterestLifetime options)) svsync;
           (dataFetcher, _) = f_setWindowSize (so_publicationFetchWindow options) (sb_fetcher svsync);
           (mappingFetcher, _) = f_setWindowSize (so_mappingFetchWindow options)
             (fetcher_new hasValidator vfRetries);
           core = setRecvExtra BlockCollection (setGetExtra BlockCollection (sb_core svsync))
       in Inr \<lparr>ps_dataPrefix = nodePrefix, ps_opts = options,
            ps_hasEncapsulatedValidator = hasEncapsulatedValidator,
            ps_svsync = svsync\<lparr>sb_fetcher := dataFetcher, sb_core := core\<rparr>,
            ps_mappingProvider = mp_new syncPrefix nodePrefix V3,
            ps_mappingFetcher = mappingFetcher,
            ps_maxApplicationParametersSize = max 1 (so_maxApplicationParametersSize options),
            ps_maxPiggyDataSize = max 1 (so_maxPiggyDataSize options),
            ps_publisher = publisher_new,
            ps_extra = extra_data_new N (so_piggyDataCacheLimit options),
            ps_book = fetch_book_new subscriptionCount, ps_out = []\<rparr>)"

section \<open>Subscriptions\<close>

definition next_handle :: "('n, 'f, 'r) fetch_book \<Rightarrow> u32" where
  "next_handle b = fb_subscriptionCount b + 1"

definition subscribe ::
    "'n \<Rightarrow> 'f \<Rightarrow> bool \<Rightarrow> ('n, 'f, 'r) fetch_book \<Rightarrow> u32 \<times> ('n, 'f, 'r) fetch_book" where
  "subscribe prefix callback packets b =
     (let handle = next_handle b;
          sub = \<lparr>su_id = handle, su_prefix = prefix, su_callback = callback,
            su_isPacketSubscription = packets, su_prefetch = False, su_autofetch = True,
            su_regex = None\<rparr>
      in (handle, b\<lparr>fb_subscriptionCount := handle,
            fb_prefixSubscriptions := fb_prefixSubscriptions b @ [sub]\<rparr>))"

definition subscribeWithRegex ::
    "('n, 'c, 'b, 'd, 'i) ndn \<Rightarrow> 'r \<Rightarrow> 'f \<Rightarrow> bool \<Rightarrow> bool \<Rightarrow> ('n, 'f, 'r) fetch_book
      \<Rightarrow> u32 \<times> ('n, 'f, 'r) fetch_book" where
  "subscribeWithRegex N regex callback autofetch packets b =
     (let handle = next_handle b;
          sub = \<lparr>su_id = handle, su_prefix = nm_empty N, su_callback = callback,
            su_isPacketSubscription = packets, su_prefetch = False, su_autofetch = autofetch,
            su_regex = Some regex\<rparr>
      in (handle, b\<lparr>fb_subscriptionCount := handle,
            fb_regexSubscriptions := fb_regexSubscriptions b @ [sub]\<rparr>))"

definition subscribeToProducer ::
    "'n \<Rightarrow> 'f \<Rightarrow> bool \<Rightarrow> bool \<Rightarrow> ('n, 'f, 'r) fetch_book \<Rightarrow> u32 \<times> ('n, 'f, 'r) fetch_book" where
  "subscribeToProducer nodePrefix callback prefetch packets b =
     (let handle = next_handle b;
          sub = \<lparr>su_id = handle, su_prefix = nodePrefix, su_callback = callback,
            su_isPacketSubscription = packets, su_prefetch = prefetch, su_autofetch = True,
            su_regex = None\<rparr>
      in (handle, b\<lparr>fb_subscriptionCount := handle,
            fb_producerSubscriptions := fb_producerSubscriptions b @ [sub]\<rparr>))"

text \<open>The loop of \<^verbatim>\<open>unsub\<close> erases the first subscription with the handle and returns.\<close>

fun erase_subscription ::
    "u32 \<Rightarrow> ('n, 'f, 'r) subscription list \<Rightarrow> ('n, 'f, 'r) subscription list" where
  "erase_subscription handle [] = []"
| "erase_subscription handle (sub # subs) =
     (if su_id sub = handle then subs else sub # erase_subscription handle subs)"

definition unsubscribe :: "u32 \<Rightarrow> ('n, 'f, 'r) fetch_book \<Rightarrow> ('n, 'f, 'r) fetch_book" where
  "unsubscribe handle b =
     b\<lparr>fb_producerSubscriptions := erase_subscription handle (fb_producerSubscriptions b),
       fb_prefixSubscriptions := erase_subscription handle (fb_prefixSubscriptions b),
       fb_regexSubscriptions := erase_subscription handle (fb_regexSubscriptions b)\<rparr>"

end
