(* ===== verification/PubSub_Publish.thy ===== *)
theory PubSub_Publish
  imports PubSub_State
begin

text \<open>
  Publishing (\<^verbatim>\<open>svspubsub.cpp\<close>): the synchronous \<^verbatim>\<open>publish\<close> and \<^verbatim>\<open>publishPacket\<close>, the preparation,
  staging and ordered commit of asynchronous publications with its retries and rollbacks, and the
  destructor. The state a commit leaves behind on failure, the queue of reserved numbers and the
  order in which it reaches the state vector are proved for every reachable interleaving of
  staging calls, posted lambdas and retry timers.
\<close>


section \<open>Parts\<close>

definition ps_sign :: "('n, 'c, 'b, 'd, 'i, 's, 'r) pubsub_env \<Rightarrow> 'd \<Rightarrow> 'd result" where
  "ps_sign E = be_sign (pe_base E)"

definition ps_core ::
    "('n, 'b, 'd, 'i, 's, 'f, 'r) svspubsub \<Rightarrow> ('n, 'b, 'd, 'i) sync_core" where
  "ps_core P = sb_core (ps_svsync P)"

definition core_seqNo ::
    "('n, 'c, 'b, 'd, 'i, 's, 'r) pubsub_env \<Rightarrow> 'n \<Rightarrow> ('n, 'b, 'd, 'i, 's, 'f, 'r) svspubsub
      \<Rightarrow> seq_no" where
  "core_seqNo E nid P = getSeqNo (be_core (pe_base E)) nid (ps_core P)"

definition with_svsync ::
    "(('n, 'b, 'd, 'i, 's, 'n data_fetch) svsync \<Rightarrow> ('n, 'b, 'd, 'i, 's, 'n data_fetch) svsync outcome)
      \<Rightarrow> ('n, 'b, 'd, 'i, 's, 'f, 'r) svspubsub \<Rightarrow> ('n, 'b, 'd, 'i, 's, 'f, 'r) svspubsub outcome" where
  "with_svsync f P = (let (S, e) = f (ps_svsync P) in (P\<lparr>ps_svsync := S\<rparr>, e))"

definition announce ::
    "('n :: linorder, 'c, 'b, 'd, 'i, 's, 'r) pubsub_env \<Rightarrow> seq_no \<Rightarrow> 'n
      \<Rightarrow> ('n, 'b, 'd, 'i, 's, 'f, 'r) svspubsub \<Rightarrow> ('n, 'b, 'd, 'i, 's, 'f, 'r) svspubsub outcome"
where
  "announce E seqNo nid = with_svsync (with_core (updateSeqNo (be_core (pe_base E)) seqNo nid))"

text \<open>\<^verbatim>\<open>m_svsync.insertPreparedDataBatch(packets)\<close> and \<^verbatim>\<open>removePreparedDataBatch(packets)\<close>\<close>

definition store_batch ::
    "('n, 'c, 'b, 'd, 'i, 's, 'r) pubsub_env \<Rightarrow> 'd list
      \<Rightarrow> ('n, 'b, 'd, 'i, 's, 'f, 'r) svspubsub \<Rightarrow> ('n, 'b, 'd, 'i, 's, 'f, 'r) svspubsub outcome"
where
  "store_batch E packets =
     with_svsync (with_store (insertPreparedDataBatch (pe_ndn E) (be_store (pe_base E)) packets))"

definition unstore_batch ::
    "('n, 'c, 'b, 'd, 'i, 's, 'r) pubsub_env \<Rightarrow> 'd list
      \<Rightarrow> ('n, 'b, 'd, 'i, 's, 'f, 'r) svspubsub \<Rightarrow> ('n, 'b, 'd, 'i, 's, 'f, 'r) svspubsub \<times> bool"
where
  "unstore_batch E packets P =
     (let (s, removed) = removePreparedDataBatch (pe_ndn E) (be_store (pe_base E)) packets
            (sb_dataStore (ps_svsync P))
      in (P\<lparr>ps_svsync := (ps_svsync P)\<lparr>sb_dataStore := s\<rparr>\<rparr>, removed))"

text \<open>\<^verbatim>\<open>m[k]\<close> read, with the default value inserted when there was none, and a map of maps.\<close>

definition map_read :: "'k :: linorder \<Rightarrow> seq_no \<Rightarrow> ('k, seq_no) std_map \<Rightarrow> seq_no" where
  "map_read k d m = (case map_of m k of None \<Rightarrow> d | Some v \<Rightarrow> v)"

definition map_touch :: "'k :: linorder \<Rightarrow> 'v \<Rightarrow> ('k, 'v) std_map \<Rightarrow> ('k, 'v) std_map" where
  "map_touch k d m = (case map_of m k of None \<Rightarrow> map_put k d m | Some _ \<Rightarrow> m)"

definition inner_map :: "'k \<Rightarrow> ('k, ('j, 'v) std_map) std_map \<Rightarrow> ('j, 'v) std_map" where
  "inner_map k m = (case map_of m k of None \<Rightarrow> [] | Some i \<Rightarrow> i)"

definition nested_put ::
    "'k :: linorder \<Rightarrow> 'j :: linorder \<Rightarrow> 'v \<Rightarrow> ('k, ('j, 'v) std_map) std_map
      \<Rightarrow> ('k, ('j, 'v) std_map) std_map" where
  "nested_put k j v m = map_put k (map_put j v (inner_map k m)) m"

definition nested_erase ::
    "'k :: linorder \<Rightarrow> 'j :: linorder \<Rightarrow> ('k, ('j, 'v) std_map) std_map
      \<Rightarrow> ('k, ('j, 'v) std_map) std_map" where
  "nested_erase k j m =
     (case map_of m k of
        None \<Rightarrow> m
      | Some i \<Rightarrow> if map_erase j i = [] then map_erase k m else map_put k (map_erase j i) m)"

section \<open>Mappings\<close>

definition insertMapping ::
    "('n :: linorder, 'c, 'b, 'd, 'i, 's, 'r) pubsub_env \<Rightarrow> 'n \<Rightarrow> bootstrap_time \<Rightarrow> seq_no \<Rightarrow> 'n
      \<Rightarrow> 'b list \<Rightarrow> ('n, 'b, 'd, 'i, 's, 'f, 'r) svspubsub
      \<Rightarrow> ('n, 'b, 'd, 'i, 's, 'f, 'r) svspubsub outcome" where
  "insertMapping E nid bootstrapTime seqNo name additional P =
     (case (if so_useTimestamp (ps_opts P)
            then res_bind (pe_timestamp E) (\<lambda>c. Inr (additional @ [comp_block (pe_ndn E) c]))
            else Inr additional) of
        Inl e \<Rightarrow> (P, Some e)
      | Inr additional \<Rightarrow>
          let entry = (name, additional);
              mapping = \<lparr>me_bootstrapTime = bootstrapTime, me_seqNo = seqNo, me_mapping = entry\<rparr>;
              x = ps_extra P;
              l = ex_notificationMappingList x;
              l = (if ml_nodeId l = nm_empty (pe_ndn E) \<or> ml_nodeId l = nid
                   then l\<lparr>ml_nodeId := nid, ml_pairs := ml_pairs l @ [mapping]\<rparr> else l);
              x = x\<lparr>ex_notificationMappingList := l,
                    ex_piggyMappingQueue := ex_piggyMappingQueue x @
                      [\<lparr>pm_nodeId = nid, pm_mapping = mapping, pm_sent = 0, pm_missed = 0\<rparr>]\<rparr>
          in (P\<lparr>ps_extra := x,
                ps_mappingProvider := mp_insertMapping (pe_ndn E) nid bootstrapTime seqNo entry
                  (ps_mappingProvider P)\<rparr>, None))"

section \<open>Preparation\<close>

definition publication_args ::
    "('n, 'b, 'd) async_publication \<Rightarrow> ('n, 'c, 'b) data_args" where
  "publication_args publication =
     \<lparr>da_name = ap_name publication, da_content = PayloadBytes (ap_value publication),
      da_freshness = ap_freshnessPeriod publication, da_content_type = None,
      da_final_block = None\<rparr>"

text \<open>The encapsulating packet of an inner one.\<close>

definition encapsulation_args ::
    "('n, 'c, 'b, 'd, 'i) ndn \<Rightarrow> ('n, 'b, 'd, 'i, 's, 'k) svsync \<Rightarrow> ('n, 'b, 'd) async_publication
      \<Rightarrow> int \<Rightarrow> 'd \<Rightarrow> ('n, 'c, 'b) data_args" where
  "encapsulation_args N S publication freshness inner =
     \<lparr>da_name = makeDataName N (ap_nodePrefix publication) (ap_bootstrapTime publication)
        (ap_seqNo publication) S,
      da_content = PayloadBlock (data_wire N inner), da_freshness = freshness,
      da_content_type = Some tlv_Data, da_final_block = None\<rparr>"

definition prepared_new ::
    "('n, 'b, 'd) async_publication \<Rightarrow> 'n \<Rightarrow> int \<Rightarrow> ('n, 'b, 'd) prepared_publication" where
  "prepared_new publication mappingName freshness =
     \<lparr>pp_seqNo = ap_seqNo publication, pp_bootstrapTime = ap_bootstrapTime publication,
      pp_nodePrefix = ap_nodePrefix publication, pp_mappingName = mappingName,
      pp_freshnessPeriod = freshness, pp_outerPackets = [], pp_piggyPacket = None,
      pp_mappingBlocks = ap_mappingBlocks publication, pp_putFirstPacketToFace = False,
      pp_stored = False, pp_ok = True, pp_commitAttempts = 0, pp_retryScheduled = False\<rparr>"

definition prepareReservedBytes ::
    "('n, 'c, 'b, 'd, 'i, 's, 'r) pubsub_env \<Rightarrow> ('n, 'b, 'd) async_publication
      \<Rightarrow> ('n, 'b, 'd, 'i, 's, 'f, 'r) svspubsub \<Rightarrow> ('n, 'b, 'd) prepared_publication result" where
  "prepareReservedBytes E publication P =
     (let N = pe_ndn E;
          prepared = prepared_new publication (ap_name publication) (ap_freshnessPeriod publication)
      in res_bind (ps_sign E (data_new N (publication_args publication))) (\<lambda>data.
         let piggy = (if wire_size N data \<le> ps_maxPiggyDataSize P then Some data else None)
         in res_bind (ps_sign E (data_new N (encapsulation_args N (ps_svsync P) publication
                (ap_freshnessPeriod publication) data))) (\<lambda>outer.
            if isFinalPacketSizeAllowed (wire_size N outer)
            then Inr (prepared\<lparr>pp_piggyPacket := piggy, pp_putFirstPacketToFace := True,
                   pp_outerPackets := [outer]\<rparr>)
            else
              res_bind (prepareSegmentedPackets N (ps_sign E) (ps_svsync P) publication) (\<lambda>packets.
              Inr (prepared\<lparr>pp_piggyPacket := None, pp_putFirstPacketToFace := False,
                     pp_outerPackets := packets\<rparr>)))))"

definition prepareReservedNameOnly ::
    "('n, 'b, 'd) async_publication \<Rightarrow> ('n, 'b, 'd) prepared_publication" where
  "prepareReservedNameOnly publication =
     prepared_new publication (ap_name publication) (ap_freshnessPeriod publication)"

definition prepareReservedPacket ::
    "('n, 'c, 'b, 'd, 'i, 's, 'r) pubsub_env \<Rightarrow> ('n, 'b, 'd) async_publication
      \<Rightarrow> ('n, 'b, 'd, 'i, 's, 'f, 'r) svspubsub \<Rightarrow> ('n, 'b, 'd) prepared_publication result" where
  "prepareReservedPacket E publication P =
     (let N = pe_ndn E;
          packet = ap_packet publication;
          prepared = prepared_new publication (data_name N packet) (data_freshness N packet)
      in res_bind (ps_sign E (data_new N (encapsulation_args N (ps_svsync P) publication
             (data_freshness N packet) packet))) (\<lambda>outer.
         Inr (prepared\<lparr>pp_putFirstPacketToFace := True, pp_outerPackets := [outer]\<rparr>)))"

section \<open>Commit\<close>

text \<open>
  \<^verbatim>\<open>commitPreparedPublication\<close>, which changes its argument: the state of the outcome is the
  publication and the object.
\<close>

definition put_first ::
    "('n, 'c, 'b, 'd, 'i, 's, 'r) pubsub_env \<Rightarrow> ('n, 'b, 'd) prepared_publication
      \<Rightarrow> ('n, 'b, 'd, 'i, 's, 'f, 'r) svspubsub \<Rightarrow> ('n, 'b, 'd, 'i, 's, 'f, 'r) svspubsub" where
  "put_first E publication P =
     (case pp_outerPackets publication of
        packet # _ \<Rightarrow>
          if pp_putFirstPacketToFace publication
          then fst (caught (with_svsync (face_put (pe_base E) packet) P)) else P
      | [] \<Rightarrow> P)"

definition push_piggy ::
    "('n, 'b, 'd) prepared_publication \<Rightarrow> ('n, 'b, 'd, 'i, 's, 'f, 'r) svspubsub
      \<Rightarrow> ('n, 'b, 'd, 'i, 's, 'f, 'r) svspubsub" where
  "push_piggy publication P =
     (case pp_piggyPacket publication of
        None \<Rightarrow> P
      | Some packet \<Rightarrow>
          P\<lparr>ps_extra := (ps_extra P)\<lparr>ex_piggyDataQueue := ex_piggyDataQueue (ps_extra P) @
              [\<lparr>pd_data = packet, pd_sent = 0, pd_missed = 0\<rparr>]\<rparr>\<rparr>)"

definition rollback_commit ::
    "('n, 'c, 'b, 'd, 'i, 's, 'r) pubsub_env \<Rightarrow> svs_error \<Rightarrow> ('n, 'b, 'd) prepared_publication
      \<Rightarrow> ('n, 'b, 'd, 'i, 's, 'f, 'r) svspubsub
      \<Rightarrow> (('n, 'b, 'd) prepared_publication \<times> ('n, 'b, 'd, 'i, 's, 'f, 'r) svspubsub) outcome" where
  "rollback_commit E e publication P =
     (if pp_stored publication then
        (case unstore_batch E (pp_outerPackets publication) P of
           (P, True) \<Rightarrow> ((publication\<lparr>pp_stored := False\<rparr>, P), Some e)
         | (P, False) \<Rightarrow>
             ((publication, P), Some (RuntimeError ''publication rollback failed after commit error'')))
      else ((publication\<lparr>pp_stored := False\<rparr>, P), Some e))"

definition commitPreparedPublication ::
    "('n :: linorder, 'c, 'b, 'd, 'i, 's, 'r) pubsub_env \<Rightarrow> ('n, 'b, 'd) prepared_publication
      \<Rightarrow> ('n, 'b, 'd, 'i, 's, 'f, 'r) svspubsub
      \<Rightarrow> (('n, 'b, 'd) prepared_publication \<times> ('n, 'b, 'd, 'i, 's, 'f, 'r) svspubsub) outcome" where
  "commitPreparedPublication E publication P =
     (if \<not> pp_ok publication
      then ((publication, P), Some (RuntimeError ''publication preparation failed''))
      else
        and_then
          (if pp_stored publication then ((publication, P), None)
           else
             (case store_batch E (pp_outerPackets publication) P of
                (P, Some e) \<Rightarrow> ((publication, P), Some e)
              | (P, None) \<Rightarrow>
                  ((publication\<lparr>pp_stored := pp_outerPackets publication \<noteq> []\<rparr>, P), None)))
          (\<lambda>(publication, P).
             case insertMapping E (pp_nodePrefix publication) (pp_bootstrapTime publication)
                    (pp_seqNo publication) (pp_mappingName publication)
                    (pp_mappingBlocks publication) P of
               (P, Some e) \<Rightarrow> rollback_commit E e publication P
             | (P, None) \<Rightarrow>
                 ((publication, put_first E publication (push_piggy publication P)), None)))"

section \<open>Synchronous publication\<close>

definition with_publisher ::
    "(('n, 'b, 'd) publisher \<Rightarrow> ('n, 'b, 'd) publisher) \<Rightarrow> ('n, 'b, 'd, 'i, 's, 'f, 'r) svspubsub
      \<Rightarrow> ('n, 'b, 'd, 'i, 's, 'f, 'r) svspubsub" where
  "with_publisher f P = P\<lparr>ps_publisher := f (ps_publisher P)\<rparr>"

definition or_dataPrefix ::
    "('n, 'c, 'b, 'd, 'i, 's, 'r) pubsub_env \<Rightarrow> 'n \<Rightarrow> ('n, 'b, 'd, 'i, 's, 'f, 'r) svspubsub \<Rightarrow> 'n"
where
  "or_dataPrefix E nodePrefix P =
     (if nodePrefix = nm_empty (pe_ndn E) then ps_dataPrefix P else nodePrefix)"

text \<open>A default-constructed \<^verbatim>\<open>Data\<close>\<close>

definition data_default :: "('n, 'c, 'b, 'd, 'i) ndn \<Rightarrow> 'd" where
  "data_default N = data_new N \<lparr>da_name = nm_empty N, da_content = PayloadBytes [],
     da_freshness = 0, da_content_type = None, da_final_block = None\<rparr>"

definition bytes_publication ::
    "('n, 'c, 'b, 'd, 'i) ndn \<Rightarrow> 'n \<Rightarrow> bytes \<Rightarrow> 'n \<Rightarrow> int \<Rightarrow> 'b list \<Rightarrow> ('n, 'b, 'd) async_publication"
where
  "bytes_publication N name v nid freshness mappingBlocks =
     \<lparr>ap_kind = KindBytes, ap_bootstrapTime = 0, ap_seqNo = 0, ap_name = name,
      ap_nodePrefix = nid, ap_freshnessPeriod = freshness, ap_value = v,
      ap_packet = data_default N, ap_mappingBlocks = mappingBlocks\<rparr>"

text \<open>The sequence number it returns, when it does not throw, and the outcome.\<close>

definition publish ::
    "('n :: linorder, 'c, 'b, 'd, 'i, 's, 'r) pubsub_env \<Rightarrow> 'n \<Rightarrow> bytes \<Rightarrow> 'n \<Rightarrow> int \<Rightarrow> 'b list
      \<Rightarrow> ('n, 'b, 'd, 'i, 's, 'f, 'r) svspubsub
      \<Rightarrow> seq_no \<times> ('n, 'b, 'd, 'i, 's, 'f, 'r) svspubsub outcome" where
  "publish E name v nodePrefix freshness mappingBlocks P =
     (let nid = or_dataPrefix E nodePrefix P;
          seqNo = max (map_read nid 0 (pb_reservedSeqNo (ps_publisher P))) (core_seqNo E nid P) + 1;
          P = with_publisher (\<lambda>b. b\<lparr>pb_reservedSeqNo := map_touch nid 0 (pb_reservedSeqNo b)\<rparr>) P;
          publication = (bytes_publication (pe_ndn E) name v nid freshness mappingBlocks)
            \<lparr>ap_bootstrapTime := m_bootstrapTime (ps_core P), ap_seqNo := seqNo\<rparr>
      in (seqNo,
          case prepareReservedBytes E publication P of
            Inl e \<Rightarrow> (P, Some e)
          | Inr prepared \<Rightarrow>
              (case commitPreparedPublication E prepared P of
                 ((_, P), Some e) \<Rightarrow> (P, Some e)
               | ((_, P), None) \<Rightarrow>
                   and_then (announce E seqNo nid P) (\<lambda>P.
                     (with_publisher (\<lambda>b. b\<lparr>pb_reservedSeqNo := map_put nid seqNo (pb_reservedSeqNo b),
                        pb_nextAsyncCommitSeq := map_put nid (seqNo + 1) (pb_nextAsyncCommitSeq b)\<rparr>) P,
                      None)))))"

definition reserveSeqNo ::
    "('n :: linorder, 'c, 'b, 'd, 'i, 's, 'r) pubsub_env \<Rightarrow> 'n
      \<Rightarrow> ('n, 'b, 'd, 'i, 's, 'f, 'r) svspubsub
      \<Rightarrow> seq_no \<times> ('n, 'b, 'd, 'i, 's, 'f, 'r) svspubsub" where
  "reserveSeqNo E nid P =
     (let seqNo = max (map_read nid 0 (pb_reservedSeqNo (ps_publisher P))) (core_seqNo E nid P) + 1
      in (seqNo,
          with_publisher (\<lambda>b. b\<lparr>pb_reservedSeqNo := map_put nid seqNo (pb_reservedSeqNo b),
            pb_nextAsyncCommitSeq := map_touch nid seqNo (pb_nextAsyncCommitSeq b)\<rparr>) P))"

text \<open>The overload that publishes a name only.\<close>

definition publishName ::
    "('n :: linorder, 'c, 'b, 'd, 'i, 's, 'r) pubsub_env \<Rightarrow> 'n \<Rightarrow> 'n \<Rightarrow> 'b list
      \<Rightarrow> ('n, 'b, 'd, 'i, 's, 'f, 'r) svspubsub
      \<Rightarrow> seq_no \<times> ('n, 'b, 'd, 'i, 's, 'f, 'r) svspubsub outcome" where
  "publishName E name nodePrefix mappingBlocks P =
     (let nid = or_dataPrefix E nodePrefix P;
          (seqNo, P) = reserveSeqNo E nid P
      in (seqNo,
          and_then (insertMapping E nid (m_bootstrapTime (ps_core P)) seqNo name mappingBlocks P)
            (announce E seqNo nid)))"

definition publishPacket ::
    "('n :: linorder, 'c, 'b, 'd, 'i, 's, 'r) pubsub_env \<Rightarrow> 'd \<Rightarrow> 'n \<Rightarrow> 'b list
      \<Rightarrow> ('n, 'b, 'd, 'i, 's, 'f, 'r) svspubsub
      \<Rightarrow> seq_no \<times> ('n, 'b, 'd, 'i, 's, 'f, 'r) svspubsub outcome" where
  "publishPacket E data nodePrefix mappingBlocks P =
     (let nid = or_dataPrefix E nodePrefix P;
          (seqNo, P) = reserveSeqNo E nid P
      in (seqNo,
          and_then (with_svsync (insertDataAtSeq (pe_base E) (data_wire (pe_ndn E) data)
              (data_freshness (pe_ndn E) data) nid seqNo tlv_Data) P) (\<lambda>P.
          and_then (insertMapping E nid (m_bootstrapTime (ps_core P)) seqNo
              (data_name (pe_ndn E) data) mappingBlocks P)
            (announce E seqNo nid))))"


section \<open>Asynchronous publication\<close>

definition prepare_publication ::
    "('n, 'c, 'b, 'd, 'i, 's, 'r) pubsub_env \<Rightarrow> ('n, 'b, 'd) async_publication
      \<Rightarrow> ('n, 'b, 'd, 'i, 's, 'f, 'r) svspubsub \<Rightarrow> ('n, 'b, 'd) prepared_publication result" where
  "prepare_publication E publication P =
     (case ap_kind publication of
        KindBytes \<Rightarrow> prepareReservedBytes E publication P
      | KindNameOnly \<Rightarrow> Inr (prepareReservedNameOnly publication)
      | KindPacket \<Rightarrow> prepareReservedPacket E publication P)"

text \<open>The changes it makes to the books: before and after the publication is prepared and stored.\<close>

definition reserved_book :: "'n :: linorder \<Rightarrow> seq_no \<Rightarrow> ('n, 'b, 'd) publisher \<Rightarrow> ('n, 'b, 'd) publisher"
where
  "reserved_book nid r b = b\<lparr>pb_reservedSeqNo := map_put nid r (pb_reservedSeqNo b)\<rparr>"

definition staged_book ::
    "'n :: linorder \<Rightarrow> seq_no \<Rightarrow> ('n, 'b, 'd) prepared_publication \<Rightarrow> ('n, 'b, 'd) publisher
      \<Rightarrow> ('n, 'b, 'd) publisher" where
  "staged_book nid s p b =
     (reserved_book nid s b)\<lparr>
       pb_nextAsyncCommitSeq := map_touch nid s (pb_nextAsyncCommitSeq b),
       pb_stagedPublicationPackets :=
         nested_put nid s (pp_outerPackets p) (pb_stagedPublicationPackets b),
       pb_posted := pb_posted b @ [p]\<rparr>"

definition prepareAndStageAsyncPublication ::
    "('n :: linorder, 'c, 'b, 'd, 'i, 's, 'r) pubsub_env \<Rightarrow> ('n, 'b, 'd) async_publication
      \<Rightarrow> ('n, 'b, 'd, 'i, 's, 'f, 'r) svspubsub
      \<Rightarrow> seq_no \<times> ('n, 'b, 'd, 'i, 's, 'f, 'r) svspubsub outcome" where
  "prepareAndStageAsyncPublication E publication P =
     (let nid = ap_nodePrefix publication;
          reserved = max (map_read nid 0 (pb_reservedSeqNo (ps_publisher P))) (core_seqNo E nid P);
          P = with_publisher (reserved_book nid reserved) P;
          seqNo = reserved + 1;
          publication = publication\<lparr>ap_seqNo := seqNo, ap_bootstrapTime := m_bootstrapTime (ps_core P)\<rparr>
      in (seqNo,
          case prepare_publication E publication P of
            Inl e \<Rightarrow> (P, Some e)
          | Inr prepared \<Rightarrow>
              and_then
                (if pp_outerPackets prepared \<noteq> [] then store_batch E (pp_outerPackets prepared) P
                 else (P, None))
                (\<lambda>P. (with_publisher (staged_book nid seqNo
                    (prepared\<lparr>pp_stored := pp_outerPackets prepared \<noteq> []\<rparr>)) P, None))))"

text \<open>The three \<^verbatim>\<open>publish...Async\<close>.\<close>

definition publishAsync ::
    "('n :: linorder, 'c, 'b, 'd, 'i, 's, 'r) pubsub_env \<Rightarrow> 'n \<Rightarrow> bytes \<Rightarrow> 'n \<Rightarrow> int \<Rightarrow> 'b list
      \<Rightarrow> ('n, 'b, 'd, 'i, 's, 'f, 'r) svspubsub
      \<Rightarrow> seq_no \<times> ('n, 'b, 'd, 'i, 's, 'f, 'r) svspubsub outcome" where
  "publishAsync E name v nodePrefix freshness mappingBlocks P =
     prepareAndStageAsyncPublication E
       (bytes_publication (pe_ndn E) name v (or_dataPrefix E nodePrefix P) freshness mappingBlocks) P"

definition publishNameAsync ::
    "('n :: linorder, 'c, 'b, 'd, 'i, 's, 'r) pubsub_env \<Rightarrow> 'n \<Rightarrow> 'n \<Rightarrow> int \<Rightarrow> 'b list
      \<Rightarrow> ('n, 'b, 'd, 'i, 's, 'f, 'r) svspubsub
      \<Rightarrow> seq_no \<times> ('n, 'b, 'd, 'i, 's, 'f, 'r) svspubsub outcome" where
  "publishNameAsync E name nodePrefix freshness mappingBlocks P =
     prepareAndStageAsyncPublication E
       ((bytes_publication (pe_ndn E) name [] (or_dataPrefix E nodePrefix P) freshness mappingBlocks)
          \<lparr>ap_kind := KindNameOnly\<rparr>) P"

definition publishPacketAsync ::
    "('n :: linorder, 'c, 'b, 'd, 'i, 's, 'r) pubsub_env \<Rightarrow> 'd \<Rightarrow> 'n \<Rightarrow> 'b list
      \<Rightarrow> ('n, 'b, 'd, 'i, 's, 'f, 'r) svspubsub
      \<Rightarrow> seq_no \<times> ('n, 'b, 'd, 'i, 's, 'f, 'r) svspubsub outcome" where
  "publishPacketAsync E data nodePrefix mappingBlocks P =
     (let N = pe_ndn E in
      prepareAndStageAsyncPublication E
        ((bytes_publication N (data_name N data) [] (or_dataPrefix E nodePrefix P)
            (data_freshness N data) mappingBlocks)
           \<lparr>ap_kind := KindPacket, ap_packet := data\<rparr>) P)"

section \<open>Committing what is prepared\<close>

text \<open>The head of the loop: the next publication of a node, if it is there and not waiting for a
  retry, taken out of the map.\<close>

definition take_ready ::
    "'n :: linorder \<Rightarrow> ('n, 'b, 'd) publisher
      \<Rightarrow> (('n, 'b, 'd) prepared_publication \<times> ('n, 'b, 'd) publisher) option" where
  "take_ready nid b =
     (case map_of (pb_nextAsyncCommitSeq b) nid of
        None \<Rightarrow> None
      | Some next \<Rightarrow>
          (case map_of (inner_map nid (pb_preparedPublications b)) next of
             None \<Rightarrow> None
           | Some publication \<Rightarrow>
               if pp_retryScheduled publication then None
               else Some (publication,
                 b\<lparr>pb_preparedPublications :=
                     nested_erase nid next (pb_preparedPublications b)\<rparr>)))"

definition commit_attempt ::
    "('n :: linorder, 'c, 'b, 'd, 'i, 's, 'r) pubsub_env \<Rightarrow> 'n \<Rightarrow> ('n, 'b, 'd) prepared_publication
      \<Rightarrow> ('n, 'b, 'd, 'i, 's, 'f, 'r) svspubsub
      \<Rightarrow> (('n, 'b, 'd) prepared_publication \<times> ('n, 'b, 'd, 'i, 's, 'f, 'r) svspubsub) outcome" where
  "commit_attempt E nid publication P =
     (case pe_commitHook E (pp_seqNo publication) of
        Some e \<Rightarrow> ((publication, P), Some e)
      | None \<Rightarrow>
          and_then (commitPreparedPublication E publication P) (\<lambda>(publication, P).
            let (P, e) = announce E (pp_seqNo publication) nid P in ((publication, P), e)))"

text \<open>\<^verbatim>\<open>schedulePreparedPublicationRetry\<close>\<close>

definition retry_delay :: "pubsub_options \<Rightarrow> nat \<Rightarrow> int" where
  "retry_delay opts attempts =
     (let multiplier = 2 ^ (if attempts = 0 then 10 else min (attempts - 1) 10) in
      max 1 (min (so_asyncCommitRetryMax opts) (so_asyncCommitRetryInitial opts * multiplier)))"

definition schedulePreparedPublicationRetry ::
    "pubsub_options \<Rightarrow> 'n :: linorder \<Rightarrow> seq_no \<Rightarrow> ('n, 'b, 'd) publisher \<Rightarrow> ('n, 'b, 'd) publisher"
where
  "schedulePreparedPublicationRetry opts nid seqNo b =
     (case map_of (inner_map nid (pb_preparedPublications b)) seqNo of
        None \<Rightarrow> b
      | Some publication \<Rightarrow>
          b\<lparr>pb_retries := pb_retries b @
              [(nid, seqNo, retry_delay opts (pp_commitAttempts publication))]\<rparr>)"

definition requeueFailedPublication ::
    "pubsub_options \<Rightarrow> 'n :: linorder \<Rightarrow> ('n, 'b, 'd) prepared_publication \<Rightarrow> ('n, 'b, 'd) publisher
      \<Rightarrow> ('n, 'b, 'd) publisher" where
  "requeueFailedPublication opts nid publication b =
     (let publication = publication\<lparr>pp_commitAttempts := pp_commitAttempts publication + 1,
            pp_retryScheduled := True\<rparr>
      in schedulePreparedPublicationRetry opts nid (pp_seqNo publication)
           (b\<lparr>pb_preparedPublications :=
               nested_put nid (pp_seqNo publication) publication (pb_preparedPublications b)\<rparr>))"

definition advance_next :: "'n :: linorder \<Rightarrow> seq_no \<Rightarrow> ('n, 'b, 'd) publisher \<Rightarrow> ('n, 'b, 'd) publisher"
where
  "advance_next nid seqNo b =
     (if map_of (pb_nextAsyncCommitSeq b) nid = Some seqNo
      then b\<lparr>pb_nextAsyncCommitSeq := map_put nid (seqNo + 1) (pb_nextAsyncCommitSeq b)\<rparr> else b)"

text \<open>
  \<^verbatim>\<open>commitReadyPreparedPublications\<close>: every round takes one prepared publication out of the map,
  and a failure, which puts it back, ends the loop; as many rounds as there are prepared
  publications are enough (lemma \<open>commit_loop_enough\<close>).
\<close>

fun commit_loop ::
    "('n :: linorder, 'c, 'b, 'd, 'i, 's, 'r) pubsub_env \<Rightarrow> 'n \<Rightarrow> nat
      \<Rightarrow> ('n, 'b, 'd, 'i, 's, 'f, 'r) svspubsub \<Rightarrow> ('n, 'b, 'd, 'i, 's, 'f, 'r) svspubsub" where
  "commit_loop E nid 0 P = P"
| "commit_loop E nid (Suc rounds) P =
     (case take_ready nid (ps_publisher P) of
        None \<Rightarrow> P
      | Some (publication, b) \<Rightarrow>
          (case commit_attempt E nid publication (P\<lparr>ps_publisher := b\<rparr>) of
             ((publication, P), Some e) \<Rightarrow>
               with_publisher (requeueFailedPublication (ps_opts P) nid publication) P
           | ((publication, P), None) \<Rightarrow>
               commit_loop E nid rounds
                 (with_publisher (advance_next nid (pp_seqNo publication)) P)))"

definition prepared_count :: "'n \<Rightarrow> ('n, 'b, 'd) publisher \<Rightarrow> nat" where
  "prepared_count nid b = length (inner_map nid (pb_preparedPublications b))"

definition commitReadyPreparedPublications ::
    "('n :: linorder, 'c, 'b, 'd, 'i, 's, 'r) pubsub_env \<Rightarrow> 'n
      \<Rightarrow> ('n, 'b, 'd, 'i, 's, 'f, 'r) svspubsub \<Rightarrow> ('n, 'b, 'd, 'i, 's, 'f, 'r) svspubsub" where
  "commitReadyPreparedPublications E nid P =
     commit_loop E nid (Suc (prepared_count nid (ps_publisher P))) P"

definition onPreparedPublication ::
    "('n :: linorder, 'c, 'b, 'd, 'i, 's, 'r) pubsub_env \<Rightarrow> ('n, 'b, 'd) prepared_publication
      \<Rightarrow> ('n, 'b, 'd, 'i, 's, 'f, 'r) svspubsub \<Rightarrow> ('n, 'b, 'd, 'i, 's, 'f, 'r) svspubsub" where
  "onPreparedPublication E publication P =
     (let nid = pp_nodePrefix publication; seqNo = pp_seqNo publication in
      commitReadyPreparedPublications E nid
        (with_publisher (\<lambda>b. b\<lparr>
           pb_stagedPublicationPackets := nested_erase nid seqNo (pb_stagedPublicationPackets b),
           pb_preparedPublications := nested_put nid seqNo publication (pb_preparedPublications b)\<rparr>) P))"

text \<open>The posted lambda, and the one given to the scheduler.\<close>

definition run_posted ::
    "('n :: linorder, 'c, 'b, 'd, 'i, 's, 'r) pubsub_env \<Rightarrow> ('n, 'b, 'd) prepared_publication
      \<Rightarrow> ('n, 'b, 'd, 'i, 's, 'f, 'r) svspubsub \<Rightarrow> ('n, 'b, 'd, 'i, 's, 'f, 'r) svspubsub" where
  "run_posted E publication P =
     (let P = with_publisher (\<lambda>b. b\<lparr>pb_posted := remove1 publication (pb_posted b)\<rparr>) P in
      if \<not> pb_asyncPublishAlive (ps_publisher P) then P
      else onPreparedPublication E publication P)"

definition fire_retry ::
    "('n :: linorder, 'c, 'b, 'd, 'i, 's, 'r) pubsub_env \<Rightarrow> 'n \<times> seq_no \<times> int
      \<Rightarrow> ('n, 'b, 'd, 'i, 's, 'f, 'r) svspubsub \<Rightarrow> ('n, 'b, 'd, 'i, 's, 'f, 'r) svspubsub" where
  "fire_retry E timer P =
     (case timer of (nid, seqNo, delay) \<Rightarrow>
        let P = with_publisher (\<lambda>b. b\<lparr>pb_retries := remove1 timer (pb_retries b)\<rparr>) P;
            b = ps_publisher P
        in if \<not> pb_asyncPublishAlive b then P
           else
             (case map_of (inner_map nid (pb_preparedPublications b)) seqNo of
                None \<Rightarrow> P
              | Some publication \<Rightarrow>
                  commitReadyPreparedPublications E nid
                    (with_publisher (\<lambda>b. b\<lparr>pb_preparedPublications :=
                       nested_put nid seqNo (publication\<lparr>pp_retryScheduled := False\<rparr>)
                         (pb_preparedPublications b)\<rparr>) P)))"

section \<open>Destructor\<close>

text \<open>What was stored and not advertised, by the destructor's two loops.\<close>

definition unadvertised :: "('n, 'b, 'd) publisher \<Rightarrow> 'd list list" where
  "unadvertised b =
     concat (map (\<lambda>(node, publications). map snd publications) (pb_stagedPublicationPackets b)) @
     concat (map (\<lambda>(node, publications).
       map (\<lambda>(seqNo, publication). pp_outerPackets publication)
         (filter (\<lambda>(seqNo, publication). pp_stored publication) publications))
       (pb_preparedPublications b))"

definition svspubsub_destroy ::
    "('n, 'c, 'b, 'd, 'i, 's, 'r) pubsub_env \<Rightarrow> ('n, 'b, 'd, 'i, 's, 'f, 'r) svspubsub
      \<Rightarrow> ('n, 'b, 'd, 'i, 's, 'f, 'r) svspubsub" where
  "svspubsub_destroy E P =
     (let packets = unadvertised (ps_publisher P);
          P = with_publisher (\<lambda>b. b\<lparr>pb_asyncPublishAlive := False,
                pb_stagedPublicationPackets := [], pb_preparedPublications := []\<rparr>) P
      in fold (\<lambda>batch P. fst (unstore_batch E batch P)) packets P)"

section \<open>What a commit leaves alone\<close>

lemma with_svsync_publisher [simp]: "ps_publisher (fst (with_svsync f P)) = ps_publisher P"
  by (simp add: with_svsync_def split_beta)

lemma insertMapping_publisher [simp]:
  "ps_publisher (fst (insertMapping E nid b s name blocks P)) = ps_publisher P"
  by (simp add: insertMapping_def Let_def split: sum.split)

lemma commit_publisher [simp]:
  "ps_publisher (snd (fst (commitPreparedPublication E publication P))) = ps_publisher P"
proof -
  have store: "store_batch E packets P = (P', e) \<Longrightarrow> ps_publisher P' = ps_publisher P" for packets P P' e
    using with_svsync_publisher [of _ P] by (metis fst_conv store_batch_def)
  have ins: "insertMapping E nid b s name blocks P = (P', e) \<Longrightarrow> ps_publisher P' = ps_publisher P"
    for nid b s name blocks P P' e
    using insertMapping_publisher by (metis fst_conv)
  have unstore: "unstore_batch E packets P = (P', r) \<Longrightarrow> ps_publisher P' = ps_publisher P" for packets P P' r
    by (auto simp: unstore_batch_def split_beta)
  have put: "ps_publisher (put_first E publication P) = ps_publisher P" for publication P
    by (simp add: put_first_def split: list.split)
  have push: "ps_publisher (push_piggy publication P) = ps_publisher P" for publication P
    by (simp add: push_piggy_def split: option.split)
  show ?thesis
    by (auto simp: commitPreparedPublication_def rollback_commit_def and_then_def put push
        split: prod.split option.split bool.split dest!: store ins unstore)
qed

lemma commit_attempt_publisher [simp]:
  "ps_publisher (snd (fst (commit_attempt E nid publication P))) = ps_publisher P"
proof -
  have ann: "announce E s n P = (P', e) \<Longrightarrow> ps_publisher P' = ps_publisher P" for s n P P' e
    using with_svsync_publisher [of _ P] by (metis announce_def fst_conv)
  obtain p P' e where c: "commitPreparedPublication E publication P = ((p, P'), e)"
    by (metis prod.exhaust)
  then have "ps_publisher P' = ps_publisher P"
    using commit_publisher [of E publication P] by simp
  then show ?thesis
    by (cases e) (auto simp: commit_attempt_def c split: option.split prod.split dest!: ann)
qed

lemma length_map_erase_less:
  "map_of m k = Some v \<Longrightarrow> length (map_erase k m) < length m"
  by (induction k m rule: map_erase.induct) (auto split: if_splits)

lemma inner_map_nested_erase:
  assumes "map_ok m"
  shows "inner_map k' (nested_erase k j m) = (if k' = k then map_erase j (inner_map k m) else inner_map k' m)"
  using assms by (auto simp: nested_erase_def inner_map_def split: option.split)

lemma inner_map_nested_put:
  "inner_map k' (nested_put k j v m) = (if k' = k then map_put j v (inner_map k m) else inner_map k' m)"
  by (simp add: nested_put_def inner_map_def)
lemma keys_map_erase: "map_ok m \<Longrightarrow> fst ` set (map_erase k m) = fst ` set m - {k}"
  by (simp flip: dom_map_of_conv_image_fst)

section \<open>The queue of a node\<close>

definition posted_seqs :: "'n \<Rightarrow> ('n, 'b, 'd) publisher \<Rightarrow> seq_no list" where
  "posted_seqs nid b = map pp_seqNo (filter (\<lambda>p. pp_nodePrefix p = nid) (pb_posted b))"

definition prepared_of :: "'n \<Rightarrow> ('n, 'b, 'd) publisher \<Rightarrow> (seq_no, ('n, 'b, 'd) prepared_publication) std_map"
where
  "prepared_of nid b = inner_map nid (pb_preparedPublications b)"

definition prepared_seqs :: "'n \<Rightarrow> ('n, 'b, 'd) publisher \<Rightarrow> seq_no set" where
  "prepared_seqs nid b = fst ` set (prepared_of nid b)"

text \<open>The books are consistent: maps are ordered, publications are filed under their own node and
  number, a publication that waits for a retry has a timer, and what was posted is not waiting.\<close>

definition books_ok :: "('n :: linorder, 'b, 'd) publisher \<Rightarrow> bool" where
  "books_ok b \<longleftrightarrow>
     map_ok (pb_preparedPublications b) \<and> (\<forall>nid. map_ok (prepared_of nid b)) \<and>
     (\<forall>nid s p. map_of (prepared_of nid b) s = Some p \<longrightarrow>
        pp_seqNo p = s \<and> pp_nodePrefix p = nid \<and>
        (pp_retryScheduled p \<longrightarrow> (\<exists>d. (nid, s, d) \<in> set (pb_retries b)))) \<and>
     (\<forall>p \<in> set (pb_posted b). \<not> pp_retryScheduled p) \<and> pb_asyncPublishAlive b"

text \<open>
  The numbers reserved and not yet committed, \<open>n\<close> to \<open>r\<close>, are each held by exactly one
  publication, posted or prepared.
\<close>

definition holds_each_once :: "'n \<Rightarrow> seq_no \<Rightarrow> seq_no \<Rightarrow> ('n, 'b, 'd) publisher \<Rightarrow> bool" where
  "holds_each_once nid n r b \<longleftrightarrow>
     distinct (posted_seqs nid b) \<and> set (posted_seqs nid b) \<inter> prepared_seqs nid b = {} \<and>
     set (posted_seqs nid b) \<union> prepared_seqs nid b = {n..r}"

definition queue_ok :: "'n :: linorder \<Rightarrow> ('n, 'b, 'd) publisher \<Rightarrow> bool" where
  "queue_ok nid b \<longleftrightarrow>
     (case map_of (pb_nextAsyncCommitSeq b) nid of
        None \<Rightarrow> posted_seqs nid b = [] \<and> prepared_of nid b = []
      | Some n \<Rightarrow> n \<noteq> 0 \<and>
          (\<exists>r. map_of (pb_reservedSeqNo b) nid = Some r \<and> r \<noteq> - 1 \<and> n \<le> r + 1 \<and> holds_each_once nid n r b))"

text \<open>The register of a node and its queue: everything below the next number is committed.\<close>

definition register_ok :: "'n :: linorder \<Rightarrow> seq_no \<Rightarrow> ('n, 'b, 'd) publisher \<Rightarrow> bool" where
  "register_ok nid reg b \<longleftrightarrow>
     (case map_of (pb_nextAsyncCommitSeq b) nid of
        None \<Rightarrow> map_read nid 0 (pb_reservedSeqNo b) \<le> reg
      | Some n \<Rightarrow> reg = n - 1)"

lemma range_tail:
  assumes "(n :: u64) \<le> r" and "r \<noteq> - 1"
  shows "{n..r} - {n} = {n + 1..r}" and "n + 1 \<le> r + 1"
proof -
  have "unat (n + 1) = Suc (unat n)" "unat (r + 1) = Suc (unat r)"
    using seq_succ_unat [of n r] seq_succ_unat [of r r] assms by simp_all
  then have "x \<in> {n..r} - {n} \<longleftrightarrow> x \<in> {n + 1..r}" and "n + 1 \<le> r + 1" for x
    using assms(1) by (auto simp: word_le_nat_alt word_unat_eq_iff Suc_le_eq le_less)
  then show "{n..r} - {n} = {n + 1..r}" "n + 1 \<le> r + 1"
    by blast+
qed

lemma range_more:
  assumes "(n :: u64) \<le> r + 1" and "r + 1 \<noteq> 0"
  shows "{n..r + 1} = insert (r + 1) {n..r}" and "r + 1 \<notin> {n..r}"
proof -
  have r: "unat (r + 1) = Suc (unat r)"
    using assms(2) by (metis add.commute unatSuc)
  show "r + 1 \<notin> {n..r}"
    using r by (simp add: word_le_nat_alt)
  have "x \<in> {n..r + 1} \<longleftrightarrow> x \<in> insert (r + 1) {n..r}" for x
    using r assms(1) by (auto simp: word_le_nat_alt word_unat_eq_iff)
  then show "{n..r + 1} = insert (r + 1) {n..r}"
    by blast
qed

text \<open>Taking the head out and advancing, or putting it back with a retry.\<close>

lemma take_ready_Some:
  assumes "take_ready nid b = Some (p, b')" and "books_ok b"
  obtains n where "map_of (pb_nextAsyncCommitSeq b) nid = Some n"
    and "map_of (prepared_of nid b) n = Some p" and "pp_seqNo p = n" and "pp_nodePrefix p = nid"
    and "\<not> pp_retryScheduled p"
    and "b' = b\<lparr>pb_preparedPublications := nested_erase nid n (pb_preparedPublications b)\<rparr>"
  using assms by (auto simp: take_ready_def books_ok_def prepared_of_def split: option.splits if_splits)

lemma prepared_after_take:
  assumes "take_ready nid b = Some (p, b')" and "books_ok b"
  shows "prepared_of nid' b' = (if nid' = nid then map_erase (pp_seqNo p) (prepared_of nid b) else prepared_of nid' b)"
    and "prepared_seqs nid' b' = (if nid' = nid then prepared_seqs nid b - {pp_seqNo p} else prepared_seqs nid' b)"
    and "posted_seqs nid' b' = posted_seqs nid' b"
    and "pb_nextAsyncCommitSeq b' = pb_nextAsyncCommitSeq b"
    and "pb_reservedSeqNo b' = pb_reservedSeqNo b" and "pb_retries b' = pb_retries b"
    and "books_ok b'"
proof -
  obtain n where n: "pp_seqNo p = n"
    and b': "b' = b\<lparr>pb_preparedPublications := nested_erase nid n (pb_preparedPublications b)\<rparr>"
    using take_ready_Some [OF assms] by metis
  have ok: "map_ok (pb_preparedPublications b)" "map_ok (prepared_of nid b)"
    using assms(2) by (simp_all add: books_ok_def)
  show prep: "prepared_of nid' b' =
      (if nid' = nid then map_erase (pp_seqNo p) (prepared_of nid b) else prepared_of nid' b)" for nid'
    by (simp add: b' n prepared_of_def inner_map_nested_erase [OF ok(1)])
  show "prepared_seqs nid' b' = (if nid' = nid then prepared_seqs nid b - {pp_seqNo p} else prepared_seqs nid' b)"
    using keys_map_erase [OF ok(2)] by (simp add: prepared_seqs_def prep)
  have "map_ok (nested_erase nid n (pb_preparedPublications b))"
    using ok(1) by (auto simp: nested_erase_def split: option.split)
  moreover have "map_of (prepared_of nid' b') s = Some q \<Longrightarrow> map_of (prepared_of nid' b) s = Some q" for nid' s q
    using ok(2) by (auto simp: prep split: if_splits)
  moreover have "map_ok (prepared_of nid' b')" for nid'
    using assms(2) by (simp add: prep books_ok_def)
  ultimately show "books_ok b'"
    using assms(2) unfolding books_ok_def b' by (simp, blast)
  show "posted_seqs nid' b' = posted_seqs nid' b" "pb_nextAsyncCommitSeq b' = pb_nextAsyncCommitSeq b"
    "pb_reservedSeqNo b' = pb_reservedSeqNo b" "pb_retries b' = pb_retries b"
    by (simp_all add: b' posted_seqs_def)
qed

lemma advance_next_fields:
  "prepared_of nid' (advance_next nid s b) = prepared_of nid' b"
  "posted_seqs nid' (advance_next nid s b) = posted_seqs nid' b"
  "prepared_seqs nid' (advance_next nid s b) = prepared_seqs nid' b"
  "pb_reservedSeqNo (advance_next nid s b) = pb_reservedSeqNo b"
  "pb_retries (advance_next nid s b) = pb_retries b"
  "books_ok (advance_next nid s b) = books_ok b"
  "map_of (pb_nextAsyncCommitSeq (advance_next nid s b)) nid' =
     (if nid' = nid \<and> map_of (pb_nextAsyncCommitSeq b) nid = Some s then Some (s + 1)
      else map_of (pb_nextAsyncCommitSeq b) nid')"
  by (simp_all add: advance_next_def prepared_of_def posted_seqs_def prepared_seqs_def books_ok_def)

lemma take_and_advance:
  assumes "take_ready nid b = Some (p, b')" and "books_ok b" and "queue_ok nid b"
  shows "queue_ok nid (advance_next nid (pp_seqNo p) b')"
    and "map_of (pb_nextAsyncCommitSeq (advance_next nid (pp_seqNo p) b')) nid = Some (pp_seqNo p + 1)"
    and "pp_seqNo p \<noteq> 0"
proof -
  obtain n where n: "map_of (pb_nextAsyncCommitSeq b) nid = Some n" "pp_seqNo p = n"
    and p: "map_of (prepared_of nid b) n = Some p"
    using take_ready_Some [OF assms(1,2)] by metis
  obtain r where r: "n \<noteq> 0" "map_of (pb_reservedSeqNo b) nid = Some r" "r \<noteq> - 1" "n \<le> r + 1"
    and each: "holds_each_once nid n r b"
    using assms(3) n(1) by (auto simp: queue_ok_def)
  show "pp_seqNo p \<noteq> 0"
    using r(1) n(2) by simp
  note after = prepared_after_take [OF assms(1,2)]
  show nx: "map_of (pb_nextAsyncCommitSeq (advance_next nid (pp_seqNo p) b')) nid = Some (pp_seqNo p + 1)"
    by (simp add: advance_next_fields(7) after(4) n)
  have mem: "n \<in> prepared_seqs nid b"
    using map_of_key [OF p] by (simp add: prepared_seqs_def)
  then have le: "n \<le> r"
    using each by (auto simp: holds_each_once_def)
  have "n + 1 \<noteq> 0"
    using seq_succ_unat [OF le r(3)] by auto
  moreover have "holds_each_once nid (n + 1) r (advance_next nid (pp_seqNo p) b')"
  proof -
    have "set (posted_seqs nid b) \<union> (prepared_seqs nid b - {n}) = {n..r} - {n}"
      using each mem unfolding holds_each_once_def by blast
    then show ?thesis
      using each unfolding holds_each_once_def advance_next_fields after(2,3)
      by (auto simp: n(2) range_tail(1) [OF le r(3)])
  qed
  ultimately show "queue_ok nid (advance_next nid (pp_seqNo p) b')"
    using r range_tail(2) [OF le r(3)] after(5) nx [unfolded n(2)]
    by (simp add: queue_ok_def n(2) advance_next_fields(4))
qed

lemma requeue_fields:
  assumes "pp_seqNo p = s"
  shows "prepared_of nid' (requeueFailedPublication opts nid p b) =
      (if nid' = nid
       then map_put s (p\<lparr>pp_commitAttempts := pp_commitAttempts p + 1, pp_retryScheduled := True\<rparr>)
         (prepared_of nid b)
       else prepared_of nid' b)"
    and "posted_seqs nid' (requeueFailedPublication opts nid p b) = posted_seqs nid' b"
    and "pb_posted (requeueFailedPublication opts nid p b) = pb_posted b"
    and "pb_asyncPublishAlive (requeueFailedPublication opts nid p b) = pb_asyncPublishAlive b"
    and "pb_reservedSeqNo (requeueFailedPublication opts nid p b) = pb_reservedSeqNo b"
    and "pb_nextAsyncCommitSeq (requeueFailedPublication opts nid p b) = pb_nextAsyncCommitSeq b"
    and "\<exists>d. pb_retries (requeueFailedPublication opts nid p b) = pb_retries b @ [(nid, s, d)]"
    and "map_ok (pb_preparedPublications b) \<Longrightarrow>
      map_ok (pb_preparedPublications (requeueFailedPublication opts nid p b))"
  using assms
  by (simp_all add: requeueFailedPublication_def schedulePreparedPublicationRetry_def Let_def
      prepared_of_def posted_seqs_def inner_map_nested_put)
    (simp add: nested_put_def)

lemma take_and_requeue:
  assumes "take_ready nid b = Some (p, b')" and "books_ok b" and "queue_ok nid b"
    and "pp_seqNo q = pp_seqNo p" and "pp_nodePrefix q = pp_nodePrefix p"
  shows "books_ok (requeueFailedPublication opts nid q b')"
    and "queue_ok nid (requeueFailedPublication opts nid q b')"
    and "take_ready nid (requeueFailedPublication opts nid q b') = None"
    and "pb_nextAsyncCommitSeq (requeueFailedPublication opts nid q b') = pb_nextAsyncCommitSeq b"
proof -
  let ?b = "requeueFailedPublication opts nid q b'"
  obtain n where n: "map_of (pb_nextAsyncCommitSeq b) nid = Some n" "pp_seqNo p = n"
    "pp_nodePrefix p = nid" and p: "map_of (prepared_of nid b) n = Some p"
    using take_ready_Some [OF assms(1,2)] by metis
  note after = prepared_after_take [OF assms(1,2)]
  have q: "pp_seqNo q = n" "pp_nodePrefix q = nid"
    using assms(4,5) n by simp_all
  note fields = requeue_fields [OF q(1)]
  show "pb_nextAsyncCommitSeq ?b = pb_nextAsyncCommitSeq b"
    by (simp add: fields after(4))
  obtain d where d: "pb_retries ?b = pb_retries b' @ [(nid, n, d)]"
    using fields(7) by blast
  show "books_ok ?b"
    using after(7) q unfolding books_ok_def
    by (auto simp: d fields(1,3,4,8) split: if_splits)
  have "n \<in> prepared_seqs nid b"
    using map_of_key [OF p] by (simp add: prepared_seqs_def)
  then have "prepared_seqs nid ?b = prepared_seqs nid b"
    using after(2) [of nid] n(2) by (auto simp: prepared_seqs_def fields(1))
  then show "queue_ok nid ?b"
    using assms(3) unfolding queue_ok_def holds_each_once_def fields(2,5,6) after(3,4,5)
    by (simp add: n)
  show "take_ready nid ?b = None"
    using n fields(1) [of nid opts nid b'] by (simp add: take_ready_def prepared_of_def fields(6) after(4))
qed


section \<open>The loop\<close>

lemma queue_ok_cong:
  assumes "map_of (pb_nextAsyncCommitSeq b') k = map_of (pb_nextAsyncCommitSeq b) k"
    and "map_of (pb_reservedSeqNo b') k = map_of (pb_reservedSeqNo b) k"
    and "posted_seqs k b' = posted_seqs k b" and "prepared_of k b' = prepared_of k b"
  shows "queue_ok k b' \<longleftrightarrow> queue_ok k b"
  unfolding queue_ok_def holds_each_once_def prepared_seqs_def assms ..

lemma register_ok_cong:
  assumes "map_of (pb_nextAsyncCommitSeq b') k = map_of (pb_nextAsyncCommitSeq b) k"
    and "map_of (pb_reservedSeqNo b') k = map_of (pb_reservedSeqNo b) k"
  shows "register_ok k reg b' \<longleftrightarrow> register_ok k reg b"
  unfolding register_ok_def map_read_def assms ..

lemma take_ready_cong:
  assumes "map_of (pb_nextAsyncCommitSeq b') k = map_of (pb_nextAsyncCommitSeq b) k"
    and "prepared_of k b' = prepared_of k b"
  shows "take_ready k b' = None \<longleftrightarrow> take_ready k b = None"
  using assms by (simp add: take_ready_def prepared_of_def split: option.split)

text \<open>What an attempt changes outside the publisher's books.\<close>

lemma with_svsync_frame:
  assumes "\<And>S. sb_core (fst (f S)) = sb_core S"
  shows "ps_core (fst (with_svsync f P)) = ps_core P"
  using assms by (simp add: with_svsync_def ps_core_def split_beta)

lemma with_svsync_opts [simp]: "ps_opts (fst (with_svsync f P)) = ps_opts P"
  by (simp add: with_svsync_def split_beta)

lemma store_batch_frame:
  assumes "store_batch E packets P = (P', e)"
  shows "ps_core P' = ps_core P \<and> ps_opts P' = ps_opts P \<and> ps_publisher P' = ps_publisher P"
proof -
  have "ps_core (fst (store_batch E packets P)) = ps_core P"
    unfolding store_batch_def by (rule with_svsync_frame) (simp add: with_store_def split_beta)
  moreover have "ps_opts (fst (store_batch E packets P)) = ps_opts P"
    "ps_publisher (fst (store_batch E packets P)) = ps_publisher P"
    by (simp_all add: store_batch_def)
  ultimately show ?thesis
    using assms by simp
qed

lemma insertMapping_frame:
  "insertMapping E nid b s name blocks P = (P', e) \<Longrightarrow>
     ps_core P' = ps_core P \<and> ps_opts P' = ps_opts P \<and> ps_svsync P' = ps_svsync P"
  by (auto simp: insertMapping_def Let_def ps_core_def split: sum.splits)

lemma unstore_batch_frame:
  "unstore_batch E packets P = (P', r) \<Longrightarrow> ps_core P' = ps_core P \<and> ps_opts P' = ps_opts P"
  by (auto simp: unstore_batch_def ps_core_def split_beta)

lemma put_first_frame [simp]:
  "ps_core (put_first E publication P) = ps_core P" "ps_opts (put_first E publication P) = ps_opts P"
  using with_svsync_frame [of "face_put (pe_base E) (hd (pp_outerPackets publication))" P]
  by (auto simp: put_first_def face_put_def split: list.split option.split)

lemma push_piggy_frame [simp]:
  "ps_core (push_piggy publication P) = ps_core P" "ps_opts (push_piggy publication P) = ps_opts P"
  by (simp_all add: push_piggy_def ps_core_def split: option.split)

lemma commit_frame:
  assumes "commitPreparedPublication E p P = ((p', P'), e)"
  shows "ps_core P' = ps_core P \<and> ps_opts P' = ps_opts P \<and> pp_seqNo p' = pp_seqNo p \<and>
    pp_nodePrefix p' = pp_nodePrefix p"
  using assms
  by (auto simp: commitPreparedPublication_def rollback_commit_def and_then_def
      split: if_splits prod.splits option.splits bool.splits
      dest!: store_batch_frame insertMapping_frame unstore_batch_frame)

lemma announce_effect:
  assumes "seqNo \<noteq> 0" and "nid \<noteq> nm_empty (pe_ndn E)"
  shows "announce E seqNo nid P = (P\<lparr>ps_svsync := (ps_svsync P)\<lparr>sb_core :=
    fst (updateSeqNo (be_core (pe_base E)) seqNo nid (ps_core P))\<rparr>\<rparr>, None)"
  using updateSeqNo_effect(1) [OF assms, of "ps_core P"]
  by (simp add: announce_def with_svsync_def with_core_def ps_core_def split_beta)

lemma commit_attempt_effect:
  assumes "commit_attempt E nid p P = ((p', P'), e)" and "pp_seqNo p \<noteq> 0"
    and "nid \<noteq> nm_empty (pe_ndn E)"
  shows "pp_seqNo p' = pp_seqNo p" and "pp_nodePrefix p' = pp_nodePrefix p"
    and "ps_opts P' = ps_opts P" and "ps_publisher P' = ps_publisher P"
    and "ps_core P' = (case e of
        None \<Rightarrow> fst (updateSeqNo (be_core (pe_base E)) (pp_seqNo p) nid (ps_core P))
      | Some _ \<Rightarrow> ps_core P)"
proof -
  obtain q Q r where c: "commitPreparedPublication E p P = ((q, Q), r)"
    by (metis prod.exhaust)
  note frame = commit_frame [OF c]
  have "pp_seqNo q \<noteq> 0"
    using frame assms(2) by simp
  note ann = announce_effect [OF this assms(3), of Q]
  show "pp_seqNo p' = pp_seqNo p" "pp_nodePrefix p' = pp_nodePrefix p" "ps_opts P' = ps_opts P"
    "ps_core P' = (case e of
        None \<Rightarrow> fst (updateSeqNo (be_core (pe_base E)) (pp_seqNo p) nid (ps_core P))
      | Some _ \<Rightarrow> ps_core P)"
    using assms(1) frame ann c
    by (cases r; auto simp: commit_attempt_def ps_core_def split: option.splits)+
  show "ps_publisher P' = ps_publisher P"
    using commit_attempt_publisher [of E nid p P] assms(1) by simp
qed

definition own_register :: "('n, 'b, 'd, 'i) sync_core \<Rightarrow> seq_no" where
  "own_register c = vv_get (m_id c) (m_bootstrapTime c) (m_vv c)"

lemma own_register_update:
  assumes "s \<noteq> 0" and "nid \<noteq> nm_empty (ce_ndn E)"
  shows "own_register (fst (updateSeqNo E s nid c)) = (if nid = m_id c then s else own_register c)"
    and "m_id (fst (updateSeqNo E s nid c)) = m_id c"
proof -
  have "same_identity c (fst (updateSeqNo E s nid c))"
    by (rule updateSeqNo_effect(3) [OF assms])
  then show "own_register (fst (updateSeqNo E s nid c)) = (if nid = m_id c then s else own_register c)"
    and "m_id (fst (updateSeqNo E s nid c)) = m_id c"
    using core_register.reg_set [OF assms]
    by (auto simp: own_register_def same_identity_def)
qed

text \<open>The invariant of the object: every queue is right, and so is the register of this node.\<close>

definition async_ok ::
    "('n :: linorder, 'c, 'b, 'd, 'i) ndn \<Rightarrow> ('n, 'b, 'd, 'i, 's, 'f, 'r) svspubsub \<Rightarrow> bool" where
  "async_ok N P \<longleftrightarrow>
     books_ok (ps_publisher P) \<and> (\<forall>nid. queue_ok nid (ps_publisher P)) \<and>
     map_of (pb_nextAsyncCommitSeq (ps_publisher P)) (nm_empty N) = None \<and>
     register_ok (m_id (ps_core P)) (own_register (ps_core P)) (ps_publisher P)"

lemma async_ok_queued:
  "async_ok N P \<Longrightarrow> map_of (pb_nextAsyncCommitSeq (ps_publisher P)) nid = Some n \<Longrightarrow> nid \<noteq> nm_empty N"
  by (auto simp: async_ok_def)

lemma commit_loop_ok:
  assumes "async_ok N P" and "pe_ndn E = N" and "prepared_count nid (ps_publisher P) < rounds"
  defines "P' \<equiv> commit_loop E nid rounds P"
  shows "async_ok N P' \<and> take_ready nid (ps_publisher P') = None \<and>
    m_id (ps_core P') = m_id (ps_core P) \<and>
    (\<forall>k. k \<noteq> nid \<longrightarrow> take_ready k (ps_publisher P) = None \<longrightarrow> take_ready k (ps_publisher P') = None)"
  using assms(1,3) unfolding P'_def
proof (induction rounds arbitrary: P)
  case 0
  then show ?case by simp
next
  case (Suc rounds)
  let ?b = "ps_publisher P"
  let ?own = "m_id (ps_core P)"
  have books: "books_ok ?b" and queue: "queue_ok k ?b"
    and own: "register_ok ?own (own_register (ps_core P)) ?b" for k
    using Suc.prems(1) by (simp_all add: async_ok_def)
  show ?case
  proof (cases "take_ready nid ?b")
    case None
    then show ?thesis
      using Suc.prems(1) by simp
  next
    case (Some x)
    obtain p b' where x: "take_ready nid ?b = Some (p, b')"
      using Some by (cases x) simp
    obtain n where n: "map_of (pb_nextAsyncCommitSeq ?b) nid = Some n"
      "map_of (prepared_of nid ?b) n = Some p" "pp_seqNo p = n"
      using take_ready_Some [OF x books] by metis
    note after = prepared_after_take [OF x books]
    have nid: "nid \<noteq> nm_empty (pe_ndn E)"
      using async_ok_queued [OF Suc.prems(1) n(1)] assms(2) by simp
    obtain q Q e where att: "commit_attempt E nid p (P\<lparr>ps_publisher := b'\<rparr>) = ((q, Q), e)"
      by (metis prod.exhaust)
    note eff = commit_attempt_effect [OF att take_and_advance(3) [OF x books queue] nid]
    have pubQ: "ps_publisher Q = b'" and coreP: "ps_core (P\<lparr>ps_publisher := b'\<rparr>) = ps_core P"
      using eff(4) by (simp_all add: ps_core_def)
    show ?thesis
    proof (cases e)
      case (Some err)
      let ?b2 = "requeueFailedPublication (ps_opts Q) nid q b'"
      have loop: "commit_loop E nid (Suc rounds) P = Q\<lparr>ps_publisher := ?b2\<rparr>"
        using x att Some pubQ by (simp add: with_publisher_def)
      note req = take_and_requeue [OF x books queue eff(1,2), of "ps_opts Q"]
      have other: "queue_ok k ?b2 = queue_ok k ?b" "take_ready k ?b2 = None \<longleftrightarrow> take_ready k ?b = None"
        if "k \<noteq> nid" for k
        using that requeue_fields [OF eff(1)] after
        by (intro queue_ok_cong take_ready_cong; simp)+
      have core: "ps_core (Q\<lparr>ps_publisher := ?b2\<rparr>) = ps_core P"
        using eff(5) Some coreP by (simp add: ps_core_def)
      have "queue_ok k ?b2" for k
        using other(1) [of k] queue req(2) by (cases "k = nid") simp_all
      moreover have "register_ok ?own (own_register (ps_core P)) ?b2"
        using own requeue_fields(5) [OF eff(1), of "ps_opts Q" nid b'] req(4) after(5)
          register_ok_cong [of ?b2 ?own ?b] by simp
      ultimately have "async_ok N (Q\<lparr>ps_publisher := ?b2\<rparr>)"
        using Suc.prems(1) req(1,4) core by (simp add: async_ok_def)
      then show ?thesis
        unfolding loop using req(3) other(2) core by simp
    next
      case None
      let ?b2 = "advance_next nid n b'"
      let ?P2 = "Q\<lparr>ps_publisher := ?b2\<rparr>"
      have loop: "commit_loop E nid (Suc rounds) P = commit_loop E nid rounds ?P2"
        using x att None pubQ eff(1) n(3) by (simp add: with_publisher_def)
      note adv = take_and_advance [OF x books queue, unfolded n(3)]
      have other: "queue_ok k ?b2 = queue_ok k ?b" "take_ready k ?b2 = None \<longleftrightarrow> take_ready k ?b = None"
        "map_of (pb_nextAsyncCommitSeq ?b2) k = map_of (pb_nextAsyncCommitSeq ?b) k"
        if "k \<noteq> nid" for k
      proof -
        show "queue_ok k ?b2 = queue_ok k ?b"
          by (rule queue_ok_cong) (simp_all add: that advance_next_fields after)
        show "take_ready k ?b2 = None \<longleftrightarrow> take_ready k ?b = None"
          by (rule take_ready_cong) (simp_all add: that advance_next_fields after)
      qed (simp add: that advance_next_fields after)
      have core: "ps_core ?P2 = fst (updateSeqNo (be_core (pe_base E)) n nid (ps_core P))"
        using eff(5) None coreP n(3) by (simp add: ps_core_def)
      note reg = own_register_update [OF adv(3) nid, of "ps_core P"]
      have "queue_ok k ?b2" for k
        using other(1) [of k] queue adv(1) by (cases "k = nid") simp_all
      moreover have "register_ok (m_id (ps_core ?P2)) (own_register (ps_core ?P2)) ?b2"
      proof (cases "nid = ?own")
        case True
        then show ?thesis
          using reg adv(2) core by (simp add: register_ok_def)
      next
        case False
        then show ?thesis
          using own reg other(3) [of ?own] core after(5) advance_next_fields(4) [of nid n b']
            register_ok_cong [of ?b2 ?own ?b] by simp
      qed
      moreover have "map_of (pb_nextAsyncCommitSeq ?b2) (nm_empty N) = None"
        using other(3) [of "nm_empty N"] nid assms(2) Suc.prems(1) by (simp add: async_ok_def)
      ultimately have ok2: "async_ok N ?P2"
        using after(7) by (simp add: async_ok_def advance_next_fields(6))
      have "prepared_count nid ?b2 < prepared_count nid ?b"
        using length_map_erase_less [OF n(2)] after(1) [of nid] n(3)
        unfolding prepared_count_def prepared_of_def [symmetric] by (simp add: advance_next_fields(1))
      then have "prepared_count nid (ps_publisher ?P2) < rounds"
        using Suc.prems(2) by simp
      note IH = Suc.IH [OF ok2 this]
      have "m_id (ps_core ?P2) = ?own"
        using reg(2) core by simp
      then show ?thesis
        unfolding loop using IH other(2) by simp
    qed
  qed
qed


lemma commit_ready_ok:
  assumes "async_ok N P" and "pe_ndn E = N"
    and "\<And>k. k \<noteq> nid \<Longrightarrow> take_ready k (ps_publisher P) = None"
  shows "async_ok N (commitReadyPreparedPublications E nid P) \<and>
    m_id (ps_core (commitReadyPreparedPublications E nid P)) = m_id (ps_core P) \<and>
    (\<forall>k. take_ready k (ps_publisher (commitReadyPreparedPublications E nid P)) = None)"
  using commit_loop_ok [OF assms(1,2) lessI, of nid] assms(3)
  unfolding commitReadyPreparedPublications_def by metis

text \<open>More rounds than there are prepared publications make no difference.\<close>

lemma commit_loop_enough:
  assumes "books_ok (ps_publisher P)" and "prepared_count nid (ps_publisher P) < m"
    and "prepared_count nid (ps_publisher P) < n"
  shows "commit_loop E nid m P = commit_loop E nid n P"
  using assms
proof (induction m arbitrary: n P)
  case 0
  then show ?case by simp
next
  case (Suc m)
  obtain n' where n': "n = Suc n'"
    using Suc.prems(3) by (cases n) simp_all
  show ?case
  proof (cases "take_ready nid (ps_publisher P)")
    case None
    then show ?thesis by (simp add: n')
  next
    case (Some x)
    then obtain p b' where x: "take_ready nid (ps_publisher P) = Some (p, b')"
      by (cases x) simp
    obtain q Q e where att: "commit_attempt E nid p (P\<lparr>ps_publisher := b'\<rparr>) = ((q, Q), e)"
      by (metis prod.exhaust)
    show ?thesis
    proof (cases e)
      case (Some err)
      then show ?thesis by (simp add: n' x att)
    next
      case None
      let ?P2 = "with_publisher (advance_next nid (pp_seqNo q)) Q"
      have b: "ps_publisher Q = b'"
        using commit_attempt_publisher [of E nid p "P\<lparr>ps_publisher := b'\<rparr>"] att by simp
      note after = prepared_after_take [OF x Suc.prems(1)]
      obtain s where "map_of (prepared_of nid (ps_publisher P)) s = Some p" "pp_seqNo p = s"
        using take_ready_Some [OF x Suc.prems(1)] by metis
      then have "prepared_count nid (ps_publisher ?P2) < prepared_count nid (ps_publisher P)"
        using length_map_erase_less [of "prepared_of nid (ps_publisher P)" s p] after(1) [of nid] b
        unfolding prepared_count_def prepared_of_def [symmetric]
        by (simp add: with_publisher_def advance_next_fields(1))
      moreover have "books_ok (ps_publisher ?P2)"
        using after(7) b by (simp add: with_publisher_def advance_next_fields(6))
      ultimately have "commit_loop E nid m ?P2 = commit_loop E nid n' ?P2"
        using Suc.prems(2,3) n' by (intro Suc.IH) linarith+
      then show ?thesis
        by (simp add: n' x att None)
    qed
  qed
qed

section \<open>The steps\<close>

lemma async_ok_new:
  assumes "ps_publisher P = publisher_new"
  shows "async_ok N P" and "take_ready nid (ps_publisher P) = None"
  using assms
  by (simp_all add: async_ok_def books_ok_def queue_ok_def register_ok_def publisher_new_def
      prepared_of_def inner_map_def posted_seqs_def map_read_def take_ready_def)

lemma prepared_fields:
  assumes "prepare_publication E publication P = Inr p"
  shows "pp_seqNo p = ap_seqNo publication" and "pp_nodePrefix p = ap_nodePrefix publication"
    and "\<not> pp_retryScheduled p"
  using assms
  by (auto simp: prepare_publication_def prepareReservedBytes_def prepareReservedNameOnly_def
      prepareReservedPacket_def prepared_new_def Let_def res_bind_eq_Inr
      split: publication_kind.splits if_splits)

text \<open>What staging does to the books, whether it succeeds or not.\<close>

lemma stage_outcome:
  assumes "prepareAndStageAsyncPublication E publication P = (s, P', e)"
  defines "nid \<equiv> ap_nodePrefix publication"
  defines "r \<equiv> max (map_read nid 0 (pb_reservedSeqNo (ps_publisher P))) (core_seqNo E nid P)"
  shows "s = r + 1 \<and> ps_core P' = ps_core P \<and>
    (case e of
       Some _ \<Rightarrow> ps_publisher P' = reserved_book nid r (ps_publisher P)
     | None \<Rightarrow> \<exists>p. pp_seqNo p = s \<and> pp_nodePrefix p = nid \<and> \<not> pp_retryScheduled p \<and>
         ps_publisher P' = staged_book nid s p (reserved_book nid r (ps_publisher P)))"
proof -
  let ?P = "with_publisher (reserved_book nid r) P"
  let ?pub = "publication\<lparr>ap_seqNo := s, ap_bootstrapTime := m_bootstrapTime (ps_core ?P)\<rparr>"
  have s: "s = r + 1"
    using assms(1) by (simp add: prepareAndStageAsyncPublication_def Let_def r_def nid_def)
  have result: "(P', e) =
      (case prepare_publication E ?pub ?P of
         Inl err \<Rightarrow> (?P, Some err)
       | Inr p \<Rightarrow>
           and_then (if pp_outerPackets p \<noteq> [] then store_batch E (pp_outerPackets p) ?P else (?P, None))
             (\<lambda>P. (with_publisher (staged_book nid s (p\<lparr>pp_stored := pp_outerPackets p \<noteq> []\<rparr>)) P, None)))"
    using assms(1) unfolding s r_def nid_def prepareAndStageAsyncPublication_def Let_def prod.inject
    by (elim conjE) (erule sym)
  have base: "ps_core ?P = ps_core P" "ps_publisher ?P = reserved_book nid r (ps_publisher P)"
    by (simp_all add: with_publisher_def ps_core_def)
  show ?thesis
  proof (cases "prepare_publication E ?pub ?P")
    case (Inl err)
    then show ?thesis
      using result s base by simp
  next
    case (Inr p)
    obtain Q f where Q: "(if pp_outerPackets p \<noteq> [] then store_batch E (pp_outerPackets p) ?P
        else (?P, None)) = (Q, f)"
      by fastforce
    have "ps_core Q = ps_core ?P" "ps_publisher Q = ps_publisher ?P"
      using Q store_batch_frame [of E "pp_outerPackets p" ?P Q f] by (auto split: if_splits)
    then show ?thesis
      using result s base prepared_fields [OF Inr] unfolding Inr sum.case Q
      by (cases f) (auto simp: with_publisher_def ps_core_def nid_def
          intro!: exI [of _ "p\<lparr>pp_stored := pp_outerPackets p \<noteq> []\<rparr>"])
  qed
qed

lemma posted_seqs_append: "posted_seqs nid (b\<lparr>pb_posted := pb_posted b @ [p]\<rparr>) =
    posted_seqs nid b @ (if pp_nodePrefix p = nid then [pp_seqNo p] else [])"
  by (simp add: posted_seqs_def)

lemma staged_fields:
  "prepared_of k (staged_book nid s p (reserved_book nid r b)) = prepared_of k b"
  "posted_seqs k (staged_book nid s p (reserved_book nid r b)) =
     posted_seqs k b @ (if pp_nodePrefix p = k then [pp_seqNo p] else [])"
  "map_of (pb_reservedSeqNo (staged_book nid s p (reserved_book nid r b))) k =
     (if k = nid then Some s else map_of (pb_reservedSeqNo b) k)"
  "map_of (pb_nextAsyncCommitSeq (staged_book nid s p (reserved_book nid r b))) k =
     (if k = nid \<and> map_of (pb_nextAsyncCommitSeq b) nid = None then Some s
      else map_of (pb_nextAsyncCommitSeq b) k)"
  "\<not> pp_retryScheduled p \<Longrightarrow> books_ok b \<Longrightarrow> books_ok (staged_book nid s p (reserved_book nid r b))"
  by (auto simp: staged_book_def reserved_book_def prepared_of_def posted_seqs_def map_touch_def
      books_ok_def split: option.split)

lemma reserved_fields:
  "prepared_of k (reserved_book nid r b) = prepared_of k b"
  "posted_seqs k (reserved_book nid r b) = posted_seqs k b"
  "map_of (pb_reservedSeqNo (reserved_book nid r b)) k =
     (if k = nid then Some r else map_of (pb_reservedSeqNo b) k)"
  "pb_nextAsyncCommitSeq (reserved_book nid r b) = pb_nextAsyncCommitSeq b"
  "books_ok (reserved_book nid r b) = books_ok b"
  by (simp_all add: reserved_book_def prepared_of_def posted_seqs_def books_ok_def)


lemma getSeqNo_own: "nid = m_id c \<Longrightarrow> nid \<noteq> nm_empty (ce_ndn E) \<Longrightarrow> getSeqNo E nid c = own_register c"
  by (simp add: getSeqNo_def own_or_def own_register_def)

lemma stage_ok:
  assumes ok: "async_ok N P" and N: "pe_ndn E = N"
    and stage: "prepareAndStageAsyncPublication E publication P = (s, P', e)"
    and nid: "ap_nodePrefix publication \<noteq> nm_empty N" and s: "s \<noteq> 0" "s \<noteq> - 1"
    and guard: "map_of (pb_nextAsyncCommitSeq (ps_publisher P)) (ap_nodePrefix publication) \<noteq> None \<Longrightarrow>
      core_seqNo E (ap_nodePrefix publication) P \<le>
        map_read (ap_nodePrefix publication) 0 (pb_reservedSeqNo (ps_publisher P))"
  shows "async_ok N P'" and "ps_core P' = ps_core P"
    and "take_ready k (ps_publisher P) = None \<Longrightarrow> take_ready k (ps_publisher P') = None"
proof -
  let ?b = "ps_publisher P" and ?nid = "ap_nodePrefix publication" and ?own = "m_id (ps_core P)"
  define r where "r = max (map_read ?nid 0 (pb_reservedSeqNo ?b)) (core_seqNo E ?nid P)"
  note out = stage_outcome [OF stage, folded r_def]
  then show core: "ps_core P' = ps_core P"
    by blast
  have sr: "s = r + 1"
    using out by blast
  have books: "books_ok ?b" and queue: "queue_ok j ?b" and own: "register_ok ?own (own_register (ps_core P)) ?b"
    and no: "map_of (pb_nextAsyncCommitSeq ?b) (nm_empty N) = None" for j
    using ok by (simp_all add: async_ok_def)
  have keep: "\<exists>n. map_of (pb_nextAsyncCommitSeq ?b) ?nid = Some n \<Longrightarrow> map_of (pb_reservedSeqNo ?b) ?nid = Some r"
    using guard queue [of ?nid] by (auto simp: queue_ok_def r_def map_read_def max_def)
  have own_r: "r = own_register (ps_core P)"
    if "?nid = ?own" "map_of (pb_nextAsyncCommitSeq ?b) ?nid = None"
    using own that nid N getSeqNo_own [of ?nid "ps_core P" "be_core (pe_base E)"]
    by (simp add: register_ok_def r_def core_seqNo_def max_def)
  show "async_ok N P'" and "take_ready k ?b = None \<Longrightarrow> take_ready k (ps_publisher P') = None"
  proof (atomize (full), cases e)
    case (Some err)
    then have b': "ps_publisher P' = reserved_book ?nid r ?b"
      using out by simp
    have "queue_ok j (ps_publisher P')" for j
    proof (cases "j = ?nid \<and> map_of (pb_nextAsyncCommitSeq ?b) ?nid = None")
      case True
      then show ?thesis
        using queue [of j] by (simp add: b' queue_ok_def reserved_fields)
    next
      case False
      then have "queue_ok j (ps_publisher P') = queue_ok j ?b"
        using keep by (intro queue_ok_cong) (auto simp: b' reserved_fields)
      then show ?thesis
        using queue by simp
    qed
    moreover have "register_ok ?own (own_register (ps_core P)) (ps_publisher P')"
      using own own_r by (cases "map_of (pb_nextAsyncCommitSeq ?b) ?own"; cases "?nid = ?own")
        (simp_all add: register_ok_def b' reserved_fields map_read_def)
    moreover have "take_ready k (ps_publisher P') = None \<longleftrightarrow> take_ready k ?b = None"
      by (rule take_ready_cong) (simp_all add: b' reserved_fields)
    ultimately show "async_ok N P' \<and> (take_ready k ?b = None \<longrightarrow> take_ready k (ps_publisher P') = None)"
      using books no core by (simp add: async_ok_def b' reserved_fields)
  next
    case None
    then obtain p where p: "pp_seqNo p = s" "pp_nodePrefix p = ?nid" "\<not> pp_retryScheduled p"
      and b': "ps_publisher P' = staged_book ?nid s p (reserved_book ?nid r ?b)"
      using out by auto
    note fields = staged_fields(1-4) [where nid = ?nid and s = s and p = p and r = r and b = ?b,
        folded b']
    have "queue_ok ?nid (ps_publisher P')"
    proof (cases "map_of (pb_nextAsyncCommitSeq ?b) ?nid")
      case None
      then have "posted_seqs ?nid ?b = []" "prepared_of ?nid ?b = []"
        using queue [of ?nid] by (simp_all add: queue_ok_def)
      then have "holds_each_once ?nid s s (ps_publisher P')"
        by (simp add: holds_each_once_def prepared_seqs_def fields p)
      moreover have "s \<le> s + 1"
        using seq_succ_unat [of s s] s(2) by (simp add: word_le_nat_alt)
      ultimately show ?thesis
        using s None by (simp add: queue_ok_def fields)
    next
      case (Some n)
      have r: "map_of (pb_reservedSeqNo ?b) ?nid = Some r"
        using keep Some by blast
      then have q: "n \<noteq> 0" "n \<le> r + 1" "holds_each_once ?nid n r ?b"
        using queue [of ?nid] Some by (auto simp: queue_ok_def)
      have more: "{n..s} = insert s {n..r}" "s \<notin> {n..r}"
        using range_more [OF q(2)] s(1) sr by simp_all
      have "holds_each_once ?nid n s (ps_publisher P')"
        using q(3) more by (auto simp: holds_each_once_def prepared_seqs_def fields p)
      moreover have "s \<le> s + 1"
        using seq_succ_unat [of s s] s(2) by (simp add: word_le_nat_alt)
      then have "n \<le> s + 1"
        using q(2) sr order_trans by blast
      ultimately show ?thesis
        using s q(1) Some by (simp add: queue_ok_def fields)
    qed
    moreover have "queue_ok j (ps_publisher P') = queue_ok j ?b" if "j \<noteq> ?nid" for j
      using that by (intro queue_ok_cong) (auto simp: fields p)
    ultimately have "queue_ok j (ps_publisher P')" for j
      using queue by (cases "j = ?nid") auto
    moreover have "register_ok ?own (own_register (ps_core P)) (ps_publisher P')"
      using own own_r sr by (cases "map_of (pb_nextAsyncCommitSeq ?b) ?own"; cases "?nid = ?own")
        (simp_all add: register_ok_def fields map_read_def)
    moreover have "books_ok (ps_publisher P')"
      unfolding b' using p(3) books by (rule staged_fields(5))
    moreover have "take_ready k (ps_publisher P') = None" if "take_ready k ?b = None"
    proof (cases "k = ?nid \<and> map_of (pb_nextAsyncCommitSeq ?b) ?nid = None")
      case True
      then show ?thesis
        using queue [of ?nid] fields(1) [of ?nid]
        by (auto simp: take_ready_def queue_ok_def prepared_of_def split: option.split)
    next
      case False
      then have "take_ready k (ps_publisher P') = None \<longleftrightarrow> take_ready k ?b = None"
        by (intro take_ready_cong) (auto simp: fields)
      then show ?thesis
        using that by simp
    qed
    ultimately show "async_ok N P' \<and> (take_ready k ?b = None \<longrightarrow> take_ready k (ps_publisher P') = None)"
      using nid no core by (simp add: async_ok_def fields)
  qed
qed


text \<open>A change of the books that files one posted publication, or clears the retry flag of a
  prepared one.\<close>

lemma distinct_map_remove1:
  assumes "distinct (map f xs)" and "x \<in> set xs"
  shows "distinct (map f (remove1 x xs))" and "set (map f (remove1 x xs)) = set (map f xs) - {f x}"
  using assms by (induction xs) auto

definition filed_book ::
    "('n :: linorder, 'b, 'd) prepared_publication \<Rightarrow> ('n, 'b, 'd) publisher \<Rightarrow> ('n, 'b, 'd) publisher"
where
  "filed_book p b = b\<lparr>pb_posted := remove1 p (pb_posted b),
     pb_stagedPublicationPackets :=
       nested_erase (pp_nodePrefix p) (pp_seqNo p) (pb_stagedPublicationPackets b),
     pb_preparedPublications :=
       nested_put (pp_nodePrefix p) (pp_seqNo p) p (pb_preparedPublications b)\<rparr>"

lemma filed_fields:
  "prepared_of k (filed_book p b) =
     (if k = pp_nodePrefix p then map_put (pp_seqNo p) p (prepared_of k b) else prepared_of k b)"
  "k \<noteq> pp_nodePrefix p \<Longrightarrow> posted_seqs k (filed_book p b) = posted_seqs k b"
  "pb_reservedSeqNo (filed_book p b) = pb_reservedSeqNo b"
  "pb_nextAsyncCommitSeq (filed_book p b) = pb_nextAsyncCommitSeq b"
  "pb_retries (filed_book p b) = pb_retries b"
  "pb_asyncPublishAlive (filed_book p b) = pb_asyncPublishAlive b"
  "pb_posted (filed_book p b) = remove1 p (pb_posted b)"
  "map_ok (pb_preparedPublications b) \<Longrightarrow> map_ok (pb_preparedPublications (filed_book p b))"
  by (simp_all add: filed_book_def prepared_of_def inner_map_nested_put posted_seqs_def
      filter_remove1 remove1_idem) (simp add: nested_put_def)

lemma filed_posted:
  assumes "p \<in> set (pb_posted b)" and "distinct (posted_seqs (pp_nodePrefix p) b)"
  shows "distinct (posted_seqs (pp_nodePrefix p) (filed_book p b))"
    and "set (posted_seqs (pp_nodePrefix p) (filed_book p b)) =
      set (posted_seqs (pp_nodePrefix p) b) - {pp_seqNo p}"
    and "pp_seqNo p \<in> set (posted_seqs (pp_nodePrefix p) b)"
proof -
  let ?mine = "filter (\<lambda>q. pp_nodePrefix q = pp_nodePrefix p) (pb_posted b)"
  have mem: "p \<in> set ?mine"
    using assms(1) by simp
  have filed: "posted_seqs (pp_nodePrefix p) (filed_book p b) = map pp_seqNo (remove1 p ?mine)"
    by (simp add: posted_seqs_def filed_book_def filter_remove1)
  have mine: "posted_seqs (pp_nodePrefix p) b = map pp_seqNo ?mine"
    by (simp add: posted_seqs_def)
  note d = distinct_map_remove1 [OF assms(2) [unfolded mine] mem]
  show "distinct (posted_seqs (pp_nodePrefix p) (filed_book p b))"
    using d(1) by (simp only: filed)
  show "set (posted_seqs (pp_nodePrefix p) (filed_book p b)) =
      set (posted_seqs (pp_nodePrefix p) b) - {pp_seqNo p}"
    using d(2) by (simp only: filed mine)
  show "pp_seqNo p \<in> set (posted_seqs (pp_nodePrefix p) b)"
    unfolding mine set_map using mem by (rule imageI)
qed

lemma filed_ok:
  assumes ok: "async_ok N P" and p: "p \<in> set (pb_posted (ps_publisher P))"
  shows "async_ok N (with_publisher (filed_book p) P)"
proof -
  let ?b = "ps_publisher P" and ?nid = "pp_nodePrefix p" and ?s = "pp_seqNo p"
  have books: "books_ok ?b" and queue: "queue_ok k ?b" for k
    using ok by (simp_all add: async_ok_def)
  have "posted_seqs ?nid ?b \<noteq> []"
    using p by (auto simp: posted_seqs_def filter_empty_conv)
  then obtain n r where n: "map_of (pb_nextAsyncCommitSeq ?b) ?nid = Some n" "n \<noteq> 0"
    "map_of (pb_reservedSeqNo ?b) ?nid = Some r" "r \<noteq> - 1" "n \<le> r + 1" "holds_each_once ?nid n r ?b"
    using queue [of ?nid] by (auto simp: queue_ok_def split: option.splits)
  have "distinct (posted_seqs ?nid ?b)"
    using n(6) by (simp add: holds_each_once_def)
  note posted = filed_posted [OF p this]
  have "prepared_seqs ?nid (filed_book p ?b) = insert ?s (prepared_seqs ?nid ?b)"
    by (simp add: prepared_seqs_def filed_fields)
  then have "holds_each_once ?nid n r (filed_book p ?b)"
    using n(6) posted unfolding holds_each_once_def by auto
  then have "queue_ok ?nid (filed_book p ?b)"
    using n by (simp add: queue_ok_def filed_fields)
  moreover have "queue_ok k (filed_book p ?b) = queue_ok k ?b" if "k \<noteq> ?nid" for k
    using that by (intro queue_ok_cong) (simp_all add: filed_fields)
  ultimately have "queue_ok k (filed_book p ?b)" for k
    using queue by (cases "k = ?nid") auto
  moreover have "\<not> pp_retryScheduled p"
    using books p by (simp add: books_ok_def)
  then have "books_ok (filed_book p ?b)"
    using books set_remove1_subset [of p "pb_posted ?b"]
    by (auto simp: books_ok_def filed_fields split: if_splits)
  moreover have "register_ok k reg (filed_book p ?b) = register_ok k reg ?b" for k reg
    by (rule register_ok_cong) (simp_all add: filed_fields)
  ultimately show ?thesis
    using ok by (simp add: async_ok_def with_publisher_def ps_core_def filed_fields)
qed

lemma run_posted_ok:
  assumes ok: "async_ok N P" and N: "pe_ndn E = N" and p: "p \<in> set (pb_posted (ps_publisher P))"
    and idle: "\<And>k. take_ready k (ps_publisher P) = None"
  shows "async_ok N (run_posted E p P) \<and> m_id (ps_core (run_posted E p P)) = m_id (ps_core P) \<and>
    (\<forall>k. take_ready k (ps_publisher (run_posted E p P)) = None)"
proof -
  let ?P = "with_publisher (filed_book p) P"
  have "pb_asyncPublishAlive (ps_publisher P)"
    using ok by (simp add: async_ok_def books_ok_def)
  then have run: "run_posted E p P = commitReadyPreparedPublications E (pp_nodePrefix p) ?P"
    by (simp add: run_posted_def onPreparedPublication_def with_publisher_def filed_book_def Let_def)
  have "take_ready k (ps_publisher ?P) = None" if "k \<noteq> pp_nodePrefix p" for k
    using idle [of k] that take_ready_cong [of "filed_book p (ps_publisher P)" k "ps_publisher P"]
    by (simp add: with_publisher_def filed_fields)
  from commit_ready_ok [OF filed_ok [OF ok p] N this] show ?thesis
    unfolding run by (simp add: with_publisher_def ps_core_def)
qed

definition cleared_book ::
    "'n :: linorder \<times> seq_no \<times> int \<Rightarrow> ('n, 'b, 'd) publisher \<Rightarrow> ('n, 'b, 'd) publisher" where
  "cleared_book timer b =
     (let b' = b\<lparr>pb_retries := remove1 timer (pb_retries b)\<rparr>;
          nid = fst timer; s = fst (snd timer)
      in case map_of (prepared_of nid b) s of
           None \<Rightarrow> b'
         | Some p \<Rightarrow> b'\<lparr>pb_preparedPublications :=
             nested_put nid s (p\<lparr>pp_retryScheduled := False\<rparr>) (pb_preparedPublications b)\<rparr>)"

lemma cleared_fields:
  "prepared_of k (cleared_book (nid, s, d) b) =
     (case map_of (prepared_of nid b) s of
        None \<Rightarrow> prepared_of k b
      | Some p \<Rightarrow> if k = nid then map_put s (p\<lparr>pp_retryScheduled := False\<rparr>) (prepared_of k b)
          else prepared_of k b)"
  "posted_seqs k (cleared_book (nid, s, d) b) = posted_seqs k b"
  "pb_posted (cleared_book (nid, s, d) b) = pb_posted b"
  "pb_asyncPublishAlive (cleared_book (nid, s, d) b) = pb_asyncPublishAlive b"
  "pb_reservedSeqNo (cleared_book (nid, s, d) b) = pb_reservedSeqNo b"
  "pb_nextAsyncCommitSeq (cleared_book (nid, s, d) b) = pb_nextAsyncCommitSeq b"
  "pb_retries (cleared_book (nid, s, d) b) = remove1 (nid, s, d) (pb_retries b)"
  "map_ok (pb_preparedPublications b) \<Longrightarrow> map_ok (pb_preparedPublications (cleared_book (nid, s, d) b))"
  by (simp_all add: cleared_book_def prepared_of_def posted_seqs_def inner_map_nested_put Let_def
      split: option.split) (simp add: nested_put_def)

lemma cleared_ok:
  assumes ok: "async_ok N P"
  shows "async_ok N (with_publisher (cleared_book (nid, s, d)) P)"
proof -
  let ?b = "ps_publisher P" and ?c = "cleared_book (nid, s, d) (ps_publisher P)"
  have books: "books_ok ?b" and queue: "queue_ok k ?b" for k
    using ok by (simp_all add: async_ok_def)
  have keys: "prepared_seqs k ?c = prepared_seqs k ?b" for k
    using map_of_key [of "prepared_of nid ?b" s]
    by (auto simp: prepared_seqs_def cleared_fields split: option.splits)
  have empty: "prepared_of k ?b = [] \<Longrightarrow> prepared_of k ?c = []" for k
    by (auto simp: cleared_fields split: option.splits)
  have "queue_ok k ?c" for k
    using queue [of k] empty [of k]
    by (simp add: queue_ok_def holds_each_once_def keys cleared_fields(2,5,6) split: option.splits)
  moreover have "map_of (prepared_of k ?c) j = Some p \<Longrightarrow>
      pp_seqNo p = j \<and> pp_nodePrefix p = k \<and>
      (pp_retryScheduled p \<longrightarrow> (\<exists>e. (k, j, e) \<in> set (pb_retries ?c)))" for k j p
  proof -
    assume look: "map_of (prepared_of k ?c) j = Some p"
    show ?thesis
    proof (cases "k = nid \<and> j = s")
      case True
      then obtain q where "map_of (prepared_of nid ?b) s = Some q" "p = q\<lparr>pp_retryScheduled := False\<rparr>"
        using look by (auto simp: cleared_fields split: option.splits)
      then show ?thesis
        using books True by (auto simp: books_ok_def)
    next
      case False
      then have "map_of (prepared_of k ?b) j = Some p"
        using look by (auto simp: cleared_fields split: option.splits if_splits)
      then have "pp_seqNo p = j" "pp_nodePrefix p = k"
        "pp_retryScheduled p \<Longrightarrow> \<exists>e. (k, j, e) \<in> set (pb_retries ?b)"
        using books by (auto simp: books_ok_def)
      moreover have "(k, j, e) \<in> set (pb_retries ?c) \<longleftrightarrow> (k, j, e) \<in> set (pb_retries ?b)" for e
        using False by (auto simp: cleared_fields(7) in_set_remove1)
      ultimately show ?thesis
        by blast
    qed
  qed
  moreover have "map_ok (prepared_of k ?c)" for k
    using books by (auto simp: cleared_fields books_ok_def split: option.splits)
  ultimately have "books_ok ?c" "\<And>k. queue_ok k ?c"
    using books by (simp_all add: books_ok_def cleared_fields)
  moreover have "register_ok k reg ?c = register_ok k reg ?b" for k reg
    by (rule register_ok_cong) (simp_all add: cleared_fields)
  ultimately show ?thesis
    using ok by (simp add: async_ok_def with_publisher_def ps_core_def cleared_fields)
qed

lemma fire_retry_ok:
  assumes ok: "async_ok N P" and N: "pe_ndn E = N"
    and idle: "\<And>k. take_ready k (ps_publisher P) = None"
  shows "async_ok N (fire_retry E timer P) \<and> m_id (ps_core (fire_retry E timer P)) = m_id (ps_core P) \<and>
    (\<forall>k. take_ready k (ps_publisher (fire_retry E timer P)) = None)"
proof -
  obtain nid s d where t: "timer = (nid, s, d)" by (cases timer)
  let ?P = "with_publisher (cleared_book (nid, s, d)) P"
  have alive: "pb_asyncPublishAlive (ps_publisher P)"
    using ok by (simp add: async_ok_def books_ok_def)
  have core: "ps_core ?P = ps_core P"
    by (simp add: with_publisher_def ps_core_def)
  have other: "take_ready k (ps_publisher ?P) = None"
    if "k \<noteq> nid \<or> map_of (prepared_of nid (ps_publisher P)) s = None" for k
    using idle [of k] that
      take_ready_cong [of "cleared_book (nid, s, d) (ps_publisher P)" k "ps_publisher P"]
    by (auto simp: with_publisher_def cleared_fields split: option.splits)
  show ?thesis
  proof (cases "map_of (prepared_of nid (ps_publisher P)) s")
    case None
    then have "fire_retry E timer P = ?P"
      using alive by (simp add: fire_retry_def t with_publisher_def cleared_book_def prepared_of_def Let_def)
    then show ?thesis
      using cleared_ok [OF ok] core other None by simp
  next
    case (Some p)
    then have "fire_retry E timer P = commitReadyPreparedPublications E nid ?P"
      using alive by (simp add: fire_retry_def t with_publisher_def cleared_book_def prepared_of_def Let_def)
    then show ?thesis
      using commit_ready_ok [OF cleared_ok [OF ok] N, of nid nid s d] core other by simp
  qed
qed


section \<open>Runs\<close>

text \<open>
  The asynchronous publications of an object: staging by a caller, the posted lambdas and the
  retry timers in any order, each in an environment of its own, and steps of the rest of the object that leave the
  books and the register of this node alone. Staging requires that nothing else has raised the
  number the core reports for the node beyond what was reserved, once numbers were reserved for
  it, and that numbers do not reach the end of their 64 bits.
\<close>

inductive async_reachable ::
    "('n :: linorder, 'c, 'b, 'd, 'i) ndn \<Rightarrow> ('n, 'b, 'd, 'i, 's, 'f, 'r) svspubsub \<Rightarrow> bool" for N where
  reach_new: "ps_publisher P = publisher_new \<Longrightarrow> async_reachable N P"
| reach_stage: "async_reachable N P \<Longrightarrow> pe_ndn E = N \<Longrightarrow>
    prepareAndStageAsyncPublication E publication P = (s, P', e) \<Longrightarrow>
    ap_nodePrefix publication \<noteq> nm_empty N \<Longrightarrow> s \<noteq> 0 \<Longrightarrow> s \<noteq> - 1 \<Longrightarrow>
    (map_of (pb_nextAsyncCommitSeq (ps_publisher P)) (ap_nodePrefix publication) \<noteq> None \<Longrightarrow>
      core_seqNo E (ap_nodePrefix publication) P \<le>
        map_read (ap_nodePrefix publication) 0 (pb_reservedSeqNo (ps_publisher P))) \<Longrightarrow>
    async_reachable N P'"
| reach_posted: "async_reachable N P \<Longrightarrow> pe_ndn E = N \<Longrightarrow>
    publication \<in> set (pb_posted (ps_publisher P)) \<Longrightarrow> async_reachable N (run_posted E publication P)"
| reach_retry: "async_reachable N P \<Longrightarrow> pe_ndn E = N \<Longrightarrow>
    timer \<in> set (pb_retries (ps_publisher P)) \<Longrightarrow> async_reachable N (fire_retry E timer P)"
| reach_other: "async_reachable N P \<Longrightarrow> ps_publisher P' = ps_publisher P \<Longrightarrow>
    m_id (ps_core P') = m_id (ps_core P) \<Longrightarrow>
    own_register (ps_core P') = own_register (ps_core P) \<Longrightarrow> async_reachable N P'"

lemma reachable_ok:
  "async_reachable N P \<Longrightarrow> async_ok N P \<and> (\<forall>k. take_ready k (ps_publisher P) = None)"
proof (induction rule: async_reachable.induct)
  case (reach_new P)
  then show ?case
    using async_ok_new [of P] by simp
next
  case (reach_stage P E publication s P' e)
  then show ?case
    using stage_ok [of N P E publication s P' e] by blast
next
  case (reach_posted P E publication)
  then show ?case
    using run_posted_ok [of N P E publication] by blast
next
  case (reach_retry P E timer)
  then show ?case
    using fire_retry_ok [of N P E timer] by blast
next
  case (reach_other P P')
  then show ?case
    by (simp add: async_ok_def)
qed

section \<open>Sample input for the witnesses\<close>

definition sample_pubsub_env ::
    "(i_name, i_comp, i_block, i_data, i_interest, (i_name \<times> i_data) list, nat) pubsub_env" where
  "sample_pubsub_env = \<lparr>pe_base = sample_base_env, pe_now = 1000000, pe_timestamp = Inr (56, [100]),
     pe_timestampAge = (\<lambda>_. None), pe_regexMatch = (\<lambda>_ _. False), pe_commitHook = (\<lambda>_. None),
     pe_sort = insertion_sort\<rparr>"

definition sample_protocol :: protocol_options where
  "sample_protocol = \<lparr>po_version = V3, po_bootstrapTime = None, po_syncInterestLifetime = None,
     po_suppressionPeriod = None, po_periodicTimeout = None, po_periodicJitter = 1 / 10\<rparr>"

definition sample_pubsub ::
    "(i_name, i_block, i_data, i_interest, (i_name \<times> i_data) list, nat, nat) svspubsub" where
  "sample_pubsub =
     \<lparr>ps_dataPrefix = [(8, [66])], ps_opts = default_pubsub_options sample_protocol,
      ps_hasEncapsulatedValidator = False,
      ps_svsync = \<lparr>sb_class = DedicatedPrefix, sb_syncPrefix = sample_group,
        sb_dataPrefix = [(8, [66])] @ sample_group, sb_id = [(8, [66])], sb_dataStore = [],
        sb_fetchInterestLifetime = 500, sb_fetcher = fetcher_new False 0, sb_core = sample_core,
        sb_put = []\<rparr>,
      ps_mappingProvider = mp_new sample_group [(8, [66])] V3,
      ps_mappingFetcher = fetcher_new False 0, ps_maxApplicationParametersSize = 4096,
      ps_maxPiggyDataSize = 800, ps_publisher = publisher_new,
      ps_extra = extra_data_new i_ndn 1024, ps_book = fetch_book_new 0, ps_out = []\<rparr>"

lemma sample_pubsub_ndn:
  "pe_ndn sample_pubsub_env = i_ndn" "ce_ndn (be_core (pe_base sample_pubsub_env)) = i_ndn"
  by (simp_all add: sample_pubsub_env_def sample_base_env_def sample_env_def)

text \<open>A name published asynchronously, before and after its lambda has run.\<close>

abbreviation sample_staging :: "seq_no \<times> (i_name, i_block, i_data, i_interest, (i_name \<times> i_data) list, nat, nat) svspubsub outcome" where
  "sample_staging \<equiv> publishNameAsync sample_pubsub_env [(8, [78])] [] 1000 [] sample_pubsub"

definition sample_prepared :: "(i_name, i_block, i_data) prepared_publication" where
  "sample_prepared = \<lparr>pp_seqNo = 1, pp_bootstrapTime = 100, pp_nodePrefix = [(8, [66])],
     pp_mappingName = [(8, [78])], pp_freshnessPeriod = 1000, pp_outerPackets = [],
     pp_piggyPacket = None, pp_mappingBlocks = [], pp_putFirstPacketToFace = False,
     pp_stored = False, pp_ok = True, pp_commitAttempts = 0, pp_retryScheduled = False\<rparr>"

definition sample_staged ::
    "(i_name, i_block, i_data, i_interest, (i_name \<times> i_data) list, nat, nat) svspubsub" where
  "sample_staged = sample_pubsub\<lparr>ps_publisher := \<lparr>pb_reservedSeqNo = [([(8, [66])], 1)],
     pb_nextAsyncCommitSeq = [([(8, [66])], 1)], pb_preparedPublications = [],
     pb_stagedPublicationPackets = [([(8, [66])], [(1, [])])], pb_asyncPublishAlive = True,
     pb_posted = [sample_prepared], pb_retries = []\<rparr>\<rparr>"

lemma sample_pubsub_fields:
  "ps_publisher sample_pubsub = publisher_new" "ps_dataPrefix sample_pubsub = [(8, [66])]"
  "ps_core sample_pubsub = sample_core" "ps_core (sample_pubsub\<lparr>ps_publisher := b\<rparr>) = sample_core"
  "m_bootstrapTime sample_core = 100" "m_id sample_core = [(8, [66])]"
  by (simp_all add: sample_pubsub_def ps_core_def sample_core_def)

lemma sample_seqNo:
  "ps_core P = sample_core \<Longrightarrow> core_seqNo sample_pubsub_env [(8, [66])] P = 0"
  by (simp add: core_seqNo_def getSeqNo_def own_or_def sample_core_def sample_pubsub_ndn i_names
      vv_get_def vv_empty_def)

lemma sample_staging: "sample_staging = (1, sample_staged, None)"
  by (simp add: publishNameAsync_def prepareAndStageAsyncPublication_def bytes_publication_def
      or_dataPrefix_def sample_pubsub_ndn i_names prepare_publication_def
      prepareReservedNameOnly_def prepared_new_def sample_seqNo Let_def with_publisher_def
      sample_pubsub_fields reserved_book_def staged_book_def map_read_def map_touch_def
      nested_put_def inner_map_def sample_staged_def sample_prepared_def publisher_new_def)


text \<open>Committing a name without packets cannot fail when the clock and the hook do not.\<close>

lemma commit_name_only:
  assumes "pp_outerPackets p = []" and "pp_ok p" and "\<not> pp_stored p" and "pe_timestamp E = Inr c"
    and "pe_commitHook E (pp_seqNo p) = None" and "pp_seqNo p \<noteq> 0" and "nid \<noteq> nm_empty (pe_ndn E)"
  shows "\<exists>q Q. commit_attempt E nid p P = ((q, Q), None)"
proof -
  obtain P1 where s: "store_batch E [] P = (P1, None)"
    by (simp add: store_batch_def with_svsync_def with_store_def insertPreparedDataBatch_def)
  have "snd (insertMapping E n b sq name blocks P1) = None" for n b sq name blocks
    using assms(4) by (simp add: insertMapping_def Let_def)
  then obtain P2 where i: "insertMapping E (pp_nodePrefix p) (pp_bootstrapTime p) (pp_seqNo p)
      (pp_mappingName p) (pp_mappingBlocks p) P1 = (P2, None)"
    by (metis prod.collapse)
  have "pp_seqNo (p\<lparr>pp_stored := False\<rparr>) = pp_seqNo p"
    by simp
  then show ?thesis
    using assms s i
    by (simp add: commit_attempt_def commitPreparedPublication_def announce_effect split_beta)
qed

lemma sample_committed:
  "pb_posted (ps_publisher (run_posted sample_pubsub_env sample_prepared sample_staged)) = [] \<and>
   pb_retries (ps_publisher (run_posted sample_pubsub_env sample_prepared sample_staged)) = [] \<and>
   pb_nextAsyncCommitSeq (ps_publisher (run_posted sample_pubsub_env sample_prepared sample_staged)) =
     [([(8, [66])], 2)]"
proof -
  let ?b = "filed_book sample_prepared (ps_publisher sample_staged)"
  let ?b' = "?b\<lparr>pb_preparedPublications := []\<rparr>"
  have b: "?b = \<lparr>pb_reservedSeqNo = [([(8, [66])], 1)], pb_nextAsyncCommitSeq = [([(8, [66])], 1)],
      pb_preparedPublications = [([(8, [66])], [(1, sample_prepared)])],
      pb_stagedPublicationPackets = [], pb_asyncPublishAlive = True, pb_posted = [], pb_retries = []\<rparr>"
    by (simp add: filed_book_def sample_staged_def sample_prepared_def nested_put_def nested_erase_def
        inner_map_def)
  have t: "take_ready [(8, [66])] ?b = Some (sample_prepared, ?b')"
    by (simp add: b take_ready_def inner_map_def nested_erase_def) (simp add: sample_prepared_def)
  obtain q Q where att: "commit_attempt sample_pubsub_env [(8, [66])] sample_prepared
      (sample_staged\<lparr>ps_publisher := ?b'\<rparr>) = ((q, Q), None)"
    using commit_name_only [of sample_prepared sample_pubsub_env "(56, [100])" "[(8, [66])]"
        "sample_staged\<lparr>ps_publisher := ?b'\<rparr>"]
    by (auto simp: sample_prepared_def sample_pubsub_env_def i_names sample_base_env_def sample_env_def)
  have pubQ: "ps_publisher Q = ?b'" and s: "pp_seqNo q = 1"
    using commit_attempt_effect(1,4) [OF att] by (simp_all add: sample_prepared_def sample_pubsub_ndn i_names)
  have "run_posted sample_pubsub_env sample_prepared sample_staged =
      commit_loop sample_pubsub_env [(8, [66])] (Suc 1) (with_publisher (filed_book sample_prepared) sample_staged)"
  proof -
    have "prepared_count [(8, [66])] ?b = 1"
      unfolding b by (simp add: prepared_count_def inner_map_def)
    moreover have "pp_nodePrefix sample_prepared = [(8, [66])]"
      by (simp add: sample_prepared_def)
    moreover have "pb_asyncPublishAlive (ps_publisher sample_staged)"
      by (simp add: sample_staged_def)
    ultimately show ?thesis
      by (simp add: run_posted_def onPreparedPublication_def commitReadyPreparedPublications_def
          with_publisher_def filed_book_def Let_def del: commit_loop.simps)
  qed
  also have "\<dots> = commit_loop sample_pubsub_env [(8, [66])] 1 (with_publisher (advance_next [(8, [66])] 1) Q)"
    using t att s by (simp add: with_publisher_def)
  also have "\<dots> = with_publisher (advance_next [(8, [66])] 1) Q"
    by (simp add: take_ready_def with_publisher_def pubQ b advance_next_def inner_map_def)
  finally show ?thesis
    by (simp add: with_publisher_def pubQ b advance_next_def)
qed

lemma sample_reachable:
  "async_reachable i_ndn sample_staged"
  "async_reachable i_ndn (run_posted sample_pubsub_env sample_prepared sample_staged)"
proof -
  have "async_reachable i_ndn sample_pubsub"
    by (rule reach_new) (simp add: sample_pubsub_fields)
  then show staged: "async_reachable i_ndn sample_staged"
    by (rule reach_stage [OF _ sample_pubsub_ndn(1) sample_staging [unfolded publishNameAsync_def]])
      (simp_all add: bytes_publication_def or_dataPrefix_def sample_pubsub_ndn i_names
        sample_pubsub_fields publisher_new_def)
  show "async_reachable i_ndn (run_posted sample_pubsub_env sample_prepared sample_staged)"
    by (rule reach_posted [OF staged sample_pubsub_ndn(1)]) (simp add: sample_staged_def)
qed

section \<open>Properties\<close>

text \<open>
  C11: asynchronous publications are committed in order. In every reachable state, for every node
  that has published, the numbers reserved for it and not yet committed are exactly those from
  its next number to the last one reserved, and each is held by exactly one publication, in a
  posted lambda or in the map of the prepared ones. For this node itself, the state vector
  advertises exactly the number before the next one: no publication is advertised before its
  predecessors, whatever the order of the lambdas, the failures and the retries.
\<close>

theorem async_commit_order:
  assumes "async_reachable N P"
    and "map_of (pb_nextAsyncCommitSeq (ps_publisher P)) nid = Some n"
  shows "\<exists>r. map_of (pb_reservedSeqNo (ps_publisher P)) nid = Some r \<and>
    distinct (posted_seqs nid (ps_publisher P)) \<and>
    set (posted_seqs nid (ps_publisher P)) \<inter> prepared_seqs nid (ps_publisher P) = {} \<and>
    set (posted_seqs nid (ps_publisher P)) \<union> prepared_seqs nid (ps_publisher P) = {n..r} \<and>
    (nid = m_id (ps_core P) \<longrightarrow>
      vv_get nid (m_bootstrapTime (ps_core P)) (m_vv (ps_core P)) = n - 1)"
proof -
  have ok: "async_ok N P"
    using reachable_ok [OF assms(1)] by blast
  then have "queue_ok nid (ps_publisher P)"
    by (simp add: async_ok_def)
  then obtain r where "map_of (pb_reservedSeqNo (ps_publisher P)) nid = Some r"
    "holds_each_once nid n r (ps_publisher P)"
    using assms(2) by (auto simp: queue_ok_def)
  moreover have "nid = m_id (ps_core P) \<longrightarrow> own_register (ps_core P) = n - 1"
    using ok assms(2) by (auto simp: async_ok_def register_ok_def)
  ultimately show ?thesis
    by (auto simp: holds_each_once_def own_register_def)
qed

theorem async_commit_order_witness:
  "set (posted_seqs [(8, [66])] (ps_publisher sample_staged)) \<union>
     prepared_seqs [(8, [66])] (ps_publisher sample_staged) = {1..1} \<and>
   vv_get [(8, [66])] (m_bootstrapTime (ps_core sample_staged)) (m_vv (ps_core sample_staged)) = 0"
proof -
  have "map_of (pb_nextAsyncCommitSeq (ps_publisher sample_staged)) [(8, [66])] = Some 1"
    "map_of (pb_reservedSeqNo (ps_publisher sample_staged)) [(8, [66])] = Some 1"
    "[(8, [66])] = m_id (ps_core sample_staged)"
    by (simp_all add: sample_staged_def sample_pubsub_fields)
  then show ?thesis
    using async_commit_order [OF sample_reachable(1), of "[(8, [66])]" 1] by auto
qed



end
