(* ===== verification/PubSub_Fetch.thy ===== *)
theory PubSub_Fetch
  imports PubSub_Publish "HOL-Library.Product_Lexorder"
begin

text \<open>
  Subscriptions meet publications (\<^verbatim>\<open>svspubsub.cpp\<close>, from \<^verbatim>\<open>updateCallbackInternal\<close> to
  \<^verbatim>\<open>rememberPiggyDeliveredPublication\<close>): what missing sequence numbers make of the subscriptions,
  the queue of publications to fetch with its window, deadlines, retries and backoff, the fetching
  of mappings, and the delivery of fetched publications.
\<close>

section \<open>Parts\<close>

definition with_book ::
    "(('n, 'f, 'r) fetch_book \<Rightarrow> ('n, 'f, 'r) fetch_book) \<Rightarrow> ('n, 'b, 'd, 'i, 's, 'f, 'r) svspubsub
      \<Rightarrow> ('n, 'b, 'd, 'i, 's, 'f, 'r) svspubsub" where
  "with_book f P = P\<lparr>ps_book := f (ps_book P)\<rparr>"

definition with_extra ::
    "(('n, 'b, 'd) extra_data \<Rightarrow> ('n, 'b, 'd) extra_data) \<Rightarrow> ('n, 'b, 'd, 'i, 's, 'f, 'r) svspubsub
      \<Rightarrow> ('n, 'b, 'd, 'i, 's, 'f, 'r) svspubsub" where
  "with_extra f P = P\<lparr>ps_extra := f (ps_extra P)\<rparr>"

text \<open>\<^verbatim>\<open>m[k]\<close> of a map of vectors, or of states: the default when there is none.\<close>

definition map_at :: "'k \<Rightarrow> 'v \<Rightarrow> ('k \<times> 'v) list \<Rightarrow> 'v" where
  "map_at k d m = (case map_of m k of None \<Rightarrow> d | Some v \<Rightarrow> v)"

section \<open>Publications delivered from piggybacked packets\<close>

text \<open>The two loops that bound a map, with the queue of its keys in the order of insertion.\<close>

fun evict :: "nat \<Rightarrow> 'k :: linorder list \<Rightarrow> ('k, 'v) std_map \<Rightarrow> 'k list \<times> ('k, 'v) std_map" where
  "evict limit [] m = ([], m)"
| "evict limit (k # ks) m =
     (if length m > limit then evict limit ks (map_erase k m) else (k # ks, m))"

definition remember_key ::
    "'k :: linorder \<Rightarrow> 'v \<Rightarrow> 'k list \<times> ('k, 'v) std_map \<Rightarrow> 'k list \<times> ('k, 'v) std_map" where
  "remember_key k v c =
     (if map_of (snd c) k = None then fst c @ [k] else fst c, map_put k v (snd c))"

definition hasPiggyDeliveredPublication :: "'n publication_key \<Rightarrow> ('n, 'b, 'd) extra_data \<Rightarrow> bool" where
  "hasPiggyDeliveredPublication publication x \<longleftrightarrow>
     map_of (ex_piggyDeliveredPublications x) publication \<noteq> None"

definition rememberPiggyDeliveredPublication ::
    "'n :: linorder publication_key \<Rightarrow> ('n, 'b, 'd) extra_data \<Rightarrow> ('n, 'b, 'd) extra_data" where
  "rememberPiggyDeliveredPublication publication x =
     (let (order, m) = remember_key publication True
            (ex_piggyDeliveredPublicationOrder x, ex_piggyDeliveredPublications x);
          (order, m) = evict (ex_piggyDeliveredPublicationLimit x) order m
      in x\<lparr>ex_piggyDeliveredPublicationOrder := order, ex_piggyDeliveredPublications := m\<rparr>)"

text \<open>The packet in the cache for a name: of that name, or the first whose name it is a prefix
  of.\<close>

definition piggy_lookup ::
    "('n :: linorder, 'c, 'b, 'd, 'i) ndn \<Rightarrow> 'n \<Rightarrow> ('n, 'b, 'd) extra_data \<Rightarrow> 'd option" where
  "piggy_lookup N name x =
     (case map_of (ex_piggyDataCache x) name of
        Some data \<Rightarrow> Some data
      | None \<Rightarrow>
          (case map_lower_bound name (ex_piggyDataCache x) of
             Some (name', data) \<Rightarrow> if nm_is_prefix N name name' then Some data else None
           | None \<Rightarrow> None))"

section \<open>The queue of publications\<close>

text \<open>The time a publication stays in the queue, in milliseconds.\<close>

definition fetch_deadline :: "pubsub_options \<Rightarrow> int" where
  "fetch_deadline opts = (if so_maxPubAge opts > 0 then so_maxPubAge opts else 30000)"

definition clamp_lifetime :: "pubsub_options \<Rightarrow> int \<Rightarrow> int" where
  "clamp_lifetime opts lifetime =
     clampDuration lifetime (so_publicationFetchMinInterestLifetime opts)
       (so_publicationFetchMaxInterestLifetime opts)"

definition queued_state :: "pubsub_options \<Rightarrow> int \<Rightarrow> int \<Rightarrow> publication_fetch_state \<Rightarrow> publication_fetch_state"
where
  "queued_state opts now lifetime st =
     st\<lparr>fs_status := Queued, fs_firstQueued := now,
       fs_deadline := now + toStdDuration (fetch_deadline opts), fs_nextAttempt := now,
       fs_currentLifetime := clamp_lifetime opts lifetime,
       fs_currentBackoff := so_publicationFetchFailureBackoff opts\<rparr>"

definition session_lifetime ::
    "pubsub_options \<Rightarrow> 'n publication_key \<Rightarrow> ('n, 'f, 'r) fetch_book \<Rightarrow> int" where
  "session_lifetime opts publication b =
     (case publication of (nid, bootstrapTime, _) \<Rightarrow>
        (case map_of (fb_publicationLifetimeEstimates b) (nid, bootstrapTime) of
           Some lifetime \<Rightarrow>
             if lifetime > 0 then lifetime else so_publicationFetchInterestLifetime opts
         | None \<Rightarrow> so_publicationFetchInterestLifetime opts))"

definition addPublicationFetch ::
    "pubsub_options \<Rightarrow> int \<Rightarrow> ('n :: linorder) publication_key \<Rightarrow> ('n, 'f, 'r) subscription
      \<Rightarrow> ('n, 'f, 'r) fetch_book \<Rightarrow> ('n, 'f, 'r) fetch_book" where
  "addPublicationFetch opts now publication sub b =
     (let b = b\<lparr>fb_fetchMap := map_put publication (map_at publication [] (fb_fetchMap b) @ [sub])
            (fb_fetchMap b)\<rparr>;
          st = map_at publication fetch_state_new (fb_publicationFetchStates b);
          st = (if fs_firstQueued st = 0
            then queued_state opts now (session_lifetime opts publication b) st else st)
      in b\<lparr>fb_publicationFetchStates := map_put publication st (fb_publicationFetchStates b)\<rparr>)"

definition cleanUpFetch ::
    "('n :: linorder) publication_key \<Rightarrow> ('n, 'f, 'r) fetch_book \<Rightarrow> ('n, 'f, 'r) fetch_book" where
  "cleanUpFetch publication b =
     b\<lparr>fb_fetchMap := map_erase publication (fb_fetchMap b),
       fb_publicationFetchStates := map_erase publication (fb_publicationFetchStates b)\<rparr>"

definition set_fetch_state ::
    "('n :: linorder) publication_key \<Rightarrow> publication_fetch_state \<Rightarrow> ('n, 'f, 'r) fetch_book
      \<Rightarrow> ('n, 'f, 'r) fetch_book" where
  "set_fetch_state publication st b =
     b\<lparr>fb_publicationFetchStates := map_put publication st (fb_publicationFetchStates b)\<rparr>"

definition set_estimate ::
    "('n :: linorder) publication_key \<Rightarrow> int \<Rightarrow> ('n, 'f, 'r) fetch_book \<Rightarrow> ('n, 'f, 'r) fetch_book" where
  "set_estimate publication lifetime b =
     b\<lparr>fb_publicationLifetimeEstimates :=
         map_put (fst publication, fst (snd publication)) lifetime
           (fb_publicationLifetimeEstimates b)\<rparr>"

section \<open>The end of an attempt\<close>

definition rememberRepairRequest ::
    "'n publication_key \<Rightarrow> ('n, 'b, 'd) extra_data \<Rightarrow> ('n, 'b, 'd) extra_data" where
  "rememberRepairRequest key x =
     (case key of (nid, bootstrapTime, seqNo) \<Rightarrow>
        if \<exists>entry \<in> set (ex_repairRequestQueue x).
             md_nodeId (rr_info entry) = nid \<and> md_bootstrapTime (rr_info entry) = bootstrapTime \<and>
             md_low (rr_info entry) = seqNo \<and> md_high (rr_info entry) = seqNo
        then x
        else
          x\<lparr>ex_repairRequestQueue := ex_repairRequestQueue x @
              [\<lparr>rr_info = \<lparr>md_nodeId = nid, md_low = seqNo, md_high = seqNo, md_incomingFace = 0,
                   md_bootstrapTime = bootstrapTime\<rparr>, rr_sent = 0, rr_missed = 0\<rparr>]\<rparr>)"

text \<open>The backoff of the attempt that failed and the state that waits for the next one.\<close>

definition backoff_of :: "pubsub_options \<Rightarrow> publication_fetch_state \<Rightarrow> int" where
  "backoff_of opts st =
     (if fs_currentBackoff st \<le> 0 then so_publicationFetchFailureBackoff opts
      else fs_currentBackoff st)"

definition backoff_state ::
    "pubsub_options \<Rightarrow> int \<Rightarrow> publication_fetch_state \<Rightarrow> publication_fetch_state" where
  "backoff_state opts now st =
     st\<lparr>fs_status := Backoff, fs_nextAttempt := now + toStdDuration (backoff_of opts st),
       fs_currentLifetime := clamp_lifetime opts (fs_currentLifetime st * 2),
       fs_currentBackoff := clampDuration (backoff_of opts st * 2)
         (so_publicationFetchFailureBackoff opts) (so_publicationFetchMaxBackoff opts)\<rparr>"

definition attempts_spent :: "pubsub_options \<Rightarrow> publication_fetch_state \<Rightarrow> bool" where
  "attempts_spent opts st \<longleftrightarrow>
     so_publicationFetchRetries opts \<ge> 0 \<and> fs_attempts st > nat (so_publicationFetchRetries opts)"

definition markPublicationFetchFailed ::
    "('n :: linorder, 'c, 'b, 'd, 'i, 's, 'r) pubsub_env \<Rightarrow> 'n publication_key
      \<Rightarrow> ('n, 'b, 'd, 'i, 's, 'f, 'r) svspubsub \<Rightarrow> ('n, 'b, 'd, 'i, 's, 'f, 'r) svspubsub" where
  "markPublicationFetchFailed E key P =
     (case (map_of (fb_fetchMap (ps_book P)) key, map_of (fb_publicationFetchStates (ps_book P)) key) of
        (Some _, Some st) \<Rightarrow>
          if attempts_spent (ps_opts P) st \<or> pe_now E \<ge> fs_deadline st
          then with_book (cleanUpFetch key) P
          else
            let st = backoff_state (ps_opts P) (pe_now E) st;
                P = with_extra (rememberRepairRequest key) P;
                P = with_book (set_fetch_state key st) P;
                P = with_book (set_estimate key (fs_currentLifetime st)) P
            in emit_ps [ScheduleFetchAll (toNdnDuration (fs_nextAttempt st - pe_now E))] P
      | _ \<Rightarrow> P)"

text \<open>Division of a duration by 2, towards 0.\<close>

definition half :: "int \<Rightarrow> int" where
  "half v = (if v < 0 then - ((- v) div 2) else v div 2)"

definition observed_lifetime :: "pubsub_options \<Rightarrow> int \<Rightarrow> int option \<Rightarrow> int" where
  "observed_lifetime opts rtt estimate =
     (let target = clamp_lifetime opts ((if rtt \<le> 0 then 1 else rtt) * 2);
          old = (case estimate of None \<Rightarrow> 0 | Some l \<Rightarrow> l)
      in if old \<le> 0 then target else clamp_lifetime opts (half (old + target)))"

definition observePublicationFetchSuccess ::
    "('n :: linorder, 'c, 'b, 'd, 'i, 's, 'r) pubsub_env \<Rightarrow> 'n publication_key
      \<Rightarrow> ('n, 'b, 'd, 'i, 's, 'f, 'r) svspubsub \<Rightarrow> ('n, 'b, 'd, 'i, 's, 'f, 'r) svspubsub" where
  "observePublicationFetchSuccess E key P =
     (case map_of (fb_publicationFetchStates (ps_book P)) key of
        None \<Rightarrow> P
      | Some st \<Rightarrow>
          if fs_attemptStarted st = 0
          then with_book (set_fetch_state key (st\<lparr>fs_status := Delivered\<rparr>)) P
          else
            let rtt = toNdnDuration (pe_now E - fs_attemptStarted st);
                lifetime = observed_lifetime (ps_opts P) rtt
                  (map_of (fb_publicationLifetimeEstimates (ps_book P)) (fst key, fst (snd key)))
            in with_book (set_fetch_state key
                    (st\<lparr>fs_currentLifetime := lifetime, fs_status := Delivered\<rparr>))
                 (with_book (set_estimate key lifetime) P))"

section \<open>Mappings meet subscriptions\<close>

text \<open>The loop over the additional blocks: whether one of them is a timestamp that is too old.\<close>

fun mapping_too_old ::
    "('n, 'c, 'b, 'd, 'i, 's, 'r) pubsub_env \<Rightarrow> int \<Rightarrow> 'b list \<Rightarrow> bool result" where
  "mapping_too_old E maxPubAge [] = Inr False"
| "mapping_too_old E maxPubAge (block # blocks) =
     res_bind (res_of_option (TlvError ''Name::Component'') (comp_of_block (pe_ndn E) block)) (\<lambda>component.
     case pe_timestampAge E component of
       None \<Rightarrow> mapping_too_old E maxPubAge blocks
     | Some age \<Rightarrow>
         if age > toStdDuration maxPubAge then Inr True else mapping_too_old E maxPubAge blocks)"

text \<open>\<^verbatim>\<open>queueOrDeliver\<close>, over the flags \<^verbatim>\<open>queued\<close> and \<^verbatim>\<open>deliveredFromPiggy\<close> and the object.\<close>

definition packet_data :: "('n, 'c, 'b, 'd, 'i) ndn \<Rightarrow> 'n \<Rightarrow> 'n publication_key \<Rightarrow> 'd \<Rightarrow> ('n, 'd) subscription_data"
where
  "packet_data N name publication packet =
     \<lparr>sd_name = name, sd_data = data_value N packet, sd_producerPrefix = fst publication,
      sd_seqNo = snd (snd publication), sd_packet = Some packet\<rparr>"

definition name_data :: "'n \<Rightarrow> 'n publication_key \<Rightarrow> ('n, 'd) subscription_data" where
  "name_data name publication =
     \<lparr>sd_name = name, sd_data = [], sd_producerPrefix = fst publication,
      sd_seqNo = snd (snd publication), sd_packet = None\<rparr>"

definition queueOrDeliver ::
    "('n :: linorder, 'c, 'b, 'd, 'i, 's, 'r) pubsub_env \<Rightarrow> 'n \<Rightarrow> 'n publication_key
      \<Rightarrow> ('n, 'f, 'r) subscription \<Rightarrow> bool \<times> bool \<times> ('n, 'b, 'd, 'i, 's, 'f, 'r) svspubsub
      \<Rightarrow> bool \<times> bool \<times> ('n, 'b, 'd, 'i, 's, 'f, 'r) svspubsub" where
  "queueOrDeliver E name publication sub st =
     (case st of (queued, delivered, P) \<Rightarrow>
        if su_autofetch sub then
          (case piggy_lookup (pe_ndn E) name (ps_extra P) of
             Some packet \<Rightarrow>
               (queued, True,
                emit_ps [Call (su_callback sub) (packet_data (pe_ndn E) name publication packet)] P)
           | None \<Rightarrow>
               (True, delivered,
                with_book (addPublicationFetch (ps_opts P) (pe_now E) publication sub) P))
        else (queued, delivered, emit_ps [Call (su_callback sub) (name_data name publication)] P))"

text \<open>The subscriptions that a mapping matches, in the order of the two loops.\<close>

definition matching_subscriptions ::
    "('n, 'c, 'b, 'd, 'i, 's, 'r) pubsub_env \<Rightarrow> 'n \<Rightarrow> ('n, 'f, 'r) fetch_book
      \<Rightarrow> ('n, 'f, 'r) subscription list" where
  "matching_subscriptions E name b =
     filter (\<lambda>sub. nm_is_prefix (pe_ndn E) (su_prefix sub) name) (fb_prefixSubscriptions b) @
     filter (\<lambda>sub. pe_regexMatch E (su_regex sub) name) (fb_regexSubscriptions b)"

text \<open>Exceptions are thrown before anything changes.\<close>

definition processMapping ::
    "('n :: linorder, 'c, 'b, 'd, 'i, 's, 'r) pubsub_env \<Rightarrow> 'n publication_key
      \<Rightarrow> ('n, 'b, 'd, 'i, 's, 'f, 'r) svspubsub
      \<Rightarrow> (bool \<times> ('n, 'b, 'd, 'i, 's, 'f, 'r) svspubsub) result" where
  "processMapping E publication P =
     (if hasPiggyDeliveredPublication publication (ps_extra P) then Inr (False, P)
      else
        case publication of (nid, bootstrapTime, seqNo) \<Rightarrow>
        res_bind (mp_getMapping (pe_ndn E) nid bootstrapTime seqNo (ps_mappingProvider P)) (\<lambda>mapping.
        res_bind (if so_maxPubAge (ps_opts P) > 0
            then mapping_too_old E (so_maxPubAge (ps_opts P)) (snd mapping) else Inr False) (\<lambda>too_old.
        if too_old then Inr (False, P)
        else
          let (queued, delivered, P) =
                fold (queueOrDeliver E (fst mapping) publication)
                  (matching_subscriptions E (fst mapping) (ps_book P)) (False, False, P)
          in Inr (queued, if delivered
               then with_extra (rememberPiggyDeliveredPublication publication) P else P))))"

section \<open>Fetching publications\<close>

text \<open>The first loop of \<^verbatim>\<open>fetchAll\<close>: counts what is in flight, collects what is ready.\<close>

definition survey_fetch ::
    "pubsub_options \<Rightarrow> int \<Rightarrow> ('n :: linorder) publication_key
      \<Rightarrow> nat \<times> 'n publication_key list \<times> ('n, 'f, 'r) fetch_book
      \<Rightarrow> nat \<times> 'n publication_key list \<times> ('n, 'f, 'r) fetch_book" where
  "survey_fetch opts now key acc =
     (case acc of (inFlight, ready, b) \<Rightarrow>
        let st = map_at key fetch_state_new (fb_publicationFetchStates b);
            st = (if fs_firstQueued st = 0
              then queued_state opts now (so_publicationFetchInterestLifetime opts) st else st)
        in if fs_status st = Fetching then (inFlight + 1, ready, set_fetch_state key st b)
           else if fs_status st = Delivered \<or> fs_status st = Expired
           then (inFlight, ready, set_fetch_state key st b)
           else if now \<ge> fs_deadline st
           then (inFlight, ready, set_fetch_state key (st\<lparr>fs_status := Expired\<rparr>) b)
           else if fs_nextAttempt st \<le> now then (inFlight, ready @ [key], set_fetch_state key st b)
           else (inFlight, ready, set_fetch_state key st b))"

text \<open>The second loop drops what has expired.\<close>

definition drop_expired :: "('n :: linorder, 'f, 'r) fetch_book \<Rightarrow> ('n, 'f, 'r) fetch_book" where
  "drop_expired b =
     fold cleanUpFetch
       (map fst (filter (\<lambda>(key, st). fs_status st = Expired \<and> map_of (fb_fetchMap b) key \<noteq> None)
          (fb_publicationFetchStates b))) b"

text \<open>The order of the third loop.\<close>

definition fetch_before ::
    "('n, 'f, 'r) fetch_book \<Rightarrow> 'n publication_key \<Rightarrow> 'n publication_key \<Rightarrow> bool" where
  "fetch_before b lhs rhs \<longleftrightarrow>
     (let attempts = (\<lambda>key. fs_attempts (map_at key fetch_state_new (fb_publicationFetchStates b))) in
      if attempts lhs \<noteq> attempts rhs then attempts lhs < attempts rhs
      else if fst (snd lhs) \<noteq> fst (snd rhs) then fst (snd lhs) > fst (snd rhs)
      else snd (snd lhs) > snd (snd rhs))"

text \<open>A publication found in the cache is delivered to its subscriptions.\<close>

definition cached_publication ::
    "('n :: linorder, 'c, 'b, 'd, 'i) ndn \<Rightarrow> 'n publication_key
      \<Rightarrow> ('n, 'b, 'd, 'i, 's, 'f, 'r) svspubsub \<Rightarrow> ('n \<times> 'd) option" where
  "cached_publication N key P =
     (case key of (nid, bootstrapTime, seqNo) \<Rightarrow>
        (case mp_getMapping N nid bootstrapTime seqNo (ps_mappingProvider P) of
           Inl _ \<Rightarrow> None
         | Inr mapping \<Rightarrow>
             (case piggy_lookup N (fst mapping) (ps_extra P) of
                None \<Rightarrow> None
              | Some packet \<Rightarrow> Some (fst mapping, packet))))"

definition deliver_cached ::
    "('n :: linorder, 'c, 'b, 'd, 'i, 's, 'r) pubsub_env \<Rightarrow> 'n publication_key \<Rightarrow> 'n \<Rightarrow> 'd
      \<Rightarrow> ('n, 'b, 'd, 'i, 's, 'f, 'r) svspubsub \<Rightarrow> ('n, 'b, 'd, 'i, 's, 'f, 'r) svspubsub" where
  "deliver_cached E key name packet P =
     (let P = emit_ps (map (\<lambda>sub. Call (su_callback sub) (packet_data (pe_ndn E) name key packet))
            (map_at key [] (fb_fetchMap (ps_book P)))) P;
          P = with_extra (rememberPiggyDeliveredPublication key) P;
          P = observePublicationFetchSuccess E key P
      in with_book (cleanUpFetch key) P)"

text \<open>An attempt over the network.\<close>

definition attempt_state :: "pubsub_options \<Rightarrow> int \<Rightarrow> publication_fetch_state \<Rightarrow> publication_fetch_state"
where
  "attempt_state opts now st =
     st\<lparr>fs_status := Fetching, fs_attemptStarted := now,
       fs_currentLifetime := clamp_lifetime opts (fs_currentLifetime st),
       fs_attempts := fs_attempts st + 1\<rparr>"

definition start_fetch ::
    "('n :: linorder, 'c, 'b, 'd, 'i, 's, 'r) pubsub_env \<Rightarrow> 'n publication_key
      \<Rightarrow> publication_fetch_state \<Rightarrow> ('n, 'b, 'd, 'i, 's, 'f, 'r) svspubsub
      \<Rightarrow> ('n, 'b, 'd, 'i, 's, 'f, 'r) svspubsub" where
  "start_fetch E key st P =
     (case key of (nid, bootstrapTime, seqNo) \<Rightarrow>
        let st = attempt_state (ps_opts P) (pe_now E) st;
            P = with_book (set_fetch_state key st) P;
            S = setFetchInterestLifetime (fs_currentLifetime st) (ps_svsync P);
            (S, outs) = fetchData (pe_ndn E) nid bootstrapTime seqNo (PublicationFetch key)
              (so_publicationFetchInnerRetries (ps_opts P)) S
        in emit_ps (map DataOutput outs) (P\<lparr>ps_svsync := S\<rparr>))"

fun fetch_ready ::
    "('n :: linorder, 'c, 'b, 'd, 'i, 's, 'r) pubsub_env \<Rightarrow> nat \<Rightarrow> nat \<Rightarrow> 'n publication_key list
      \<Rightarrow> ('n, 'b, 'd, 'i, 's, 'f, 'r) svspubsub \<Rightarrow> ('n, 'b, 'd, 'i, 's, 'f, 'r) svspubsub" where
  "fetch_ready E window inFlight [] P = P"
| "fetch_ready E window inFlight (key # ready) P =
     (if inFlight \<ge> window then P
      else
        (case (map_of (fb_fetchMap (ps_book P)) key,
               map_of (fb_publicationFetchStates (ps_book P)) key) of
           (Some _, Some st) \<Rightarrow>
             if fs_status st = Fetching \<or> fs_nextAttempt st > pe_now E
             then fetch_ready E window inFlight ready P
             else
               (case cached_publication (pe_ndn E) key P of
                  Some (name, packet) \<Rightarrow>
                    fetch_ready E window inFlight ready (deliver_cached E key name packet P)
                | None \<Rightarrow> fetch_ready E window (inFlight + 1) ready (start_fetch E key st P))
         | _ \<Rightarrow> fetch_ready E window inFlight ready P))"

definition fetch_window :: "pubsub_options \<Rightarrow> nat" where
  "fetch_window opts = max 1 (unat (so_publicationFetchWindow opts))"

definition fetchAll ::
    "('n :: linorder, 'c, 'b, 'd, 'i, 's, 'r) pubsub_env
      \<Rightarrow> ('n, 'b, 'd, 'i, 's, 'f, 'r) svspubsub \<Rightarrow> ('n, 'b, 'd, 'i, 's, 'f, 'r) svspubsub" where
  "fetchAll E P =
     (let (inFlight, ready, b) =
            fold (survey_fetch (ps_opts P) (pe_now E)) (map fst (fb_fetchMap (ps_book P)))
              (0, [], ps_book P);
          b = drop_expired b
      in fetch_ready E (fetch_window (ps_opts P)) inFlight (pe_sort E (fetch_before b) ready)
           (P\<lparr>ps_book := b\<rparr>))"

section \<open>Fetching mappings\<close>

definition mapping_key :: "'n missing_data_info \<Rightarrow> 'n mapping_fetch_key" where
  "mapping_key query =
     (md_nodeId query, md_bootstrapTime query, md_low query, md_high query)"

definition with_mapping_fetcher ::
    "(('n data_query, 'd, 'n mapping_fetch) fetcher
        \<Rightarrow> ('n data_query, 'd, 'n mapping_fetch) fetch_result)
      \<Rightarrow> ('n, 'b, 'd, 'i, 's, 'f, 'r) svspubsub \<Rightarrow> ('n, 'b, 'd, 'i, 's, 'f, 'r) svspubsub" where
  "with_mapping_fetcher f P =
     (let (F, outs) = f (ps_mappingFetcher P)
      in emit_ps (map MappingOutput outs) (P\<lparr>ps_mappingFetcher := F\<rparr>))"

definition fetch_suppressed :: "int \<Rightarrow> 'n mapping_fetch_key \<Rightarrow> ('n, 'f, 'r) fetch_book \<Rightarrow> bool" where
  "fetch_suppressed now key b \<longleftrightarrow>
     (case map_of (fb_mappingFetchSuppressUntil b) key of None \<Rightarrow> False | Some t \<Rightarrow> t > now)"

definition scheduleMappingFetch ::
    "('n :: linorder, 'c, 'b, 'd, 'i, 's, 'r) pubsub_env \<Rightarrow> 'n missing_data_info \<Rightarrow> 'n
      \<Rightarrow> ('n, 'b, 'd, 'i, 's, 'f, 'r) svspubsub
      \<Rightarrow> bool \<times> ('n, 'b, 'd, 'i, 's, 'f, 'r) svspubsub" where
  "scheduleMappingFetch E requested streamName P =
     (let query = requested\<lparr>md_high := max (md_high requested) (md_low requested)\<rparr>;
          key = mapping_key query;
          b = ps_book P
      in if map_of (fb_mappingFetchInFlight b) key \<noteq> None then (False, P)
         else if fetch_suppressed (pe_now E) key b then (False, P)
         else
           let P = with_book (\<lambda>b. b\<lparr>
                 fb_mappingFetchSuppressUntil := map_erase key (fb_mappingFetchSuppressUntil b),
                 fb_mappingFetchInFlight := map_put key True (fb_mappingFetchInFlight b)\<rparr>) P
           in (True,
               with_mapping_fetcher
                 (fetchNameMapping (pe_ndn E) (ps_mappingProvider P) query
                    \<lparr>mf_query = query, mf_streamName = streamName, mf_key = key\<rparr>
                    (so_mappingFetchRetries (ps_opts P))) P))"

definition markMappingFetchComplete ::
    "('n :: linorder) mapping_fetch_key \<Rightarrow> ('n, 'f, 'r) fetch_book \<Rightarrow> ('n, 'f, 'r) fetch_book" where
  "markMappingFetchComplete key b =
     b\<lparr>fb_mappingFetchInFlight := map_erase key (fb_mappingFetchInFlight b),
       fb_mappingFetchSuppressUntil := map_erase key (fb_mappingFetchSuppressUntil b)\<rparr>"

definition markMappingFetchFailed ::
    "pubsub_options \<Rightarrow> int \<Rightarrow> ('n :: linorder) mapping_fetch_key \<Rightarrow> ('n, 'f, 'r) fetch_book
      \<Rightarrow> ('n, 'f, 'r) fetch_book" where
  "markMappingFetchFailed opts now key b =
     (let b = b\<lparr>fb_mappingFetchInFlight := map_erase key (fb_mappingFetchInFlight b)\<rparr> in
      if so_mappingFetchFailureBackoff opts > 0
      then b\<lparr>fb_mappingFetchSuppressUntil :=
               map_put key (now + toStdDuration (so_mappingFetchFailureBackoff opts))
                 (fb_mappingFetchSuppressUntil b)\<rparr>
      else b)"

text \<open>
  \<^verbatim>\<open>onFetchedNameMappings\<close>. Its first loop: the numbers returned, whether something was queued;
  \<^verbatim>\<open>processMapping\<close> may throw, which leaves the function. The loop over the requested numbers
  fetches every gap again.
\<close>

definition note_mapping ::
    "('n :: linorder, 'c, 'b, 'd, 'i, 's, 'r) pubsub_env \<Rightarrow> 'n missing_data_info \<Rightarrow> 'n
      \<Rightarrow> ('n, 'b) mapping_entry \<Rightarrow> seq_no set \<times> bool \<times> ('n, 'b, 'd, 'i, 's, 'f, 'r) svspubsub
      \<Rightarrow> (seq_no set \<times> bool \<times> ('n, 'b, 'd, 'i, 's, 'f, 'r) svspubsub) outcome" where
  "note_mapping E requested streamName entry acc =
     (case acc of (returned, queued, P) \<Rightarrow>
        let returned =
              (if me_bootstrapTime entry = md_bootstrapTime requested \<and>
                  me_seqNo entry \<ge> md_low requested \<and>
                  me_seqNo entry \<le> max (md_high requested) (md_low requested)
               then insert (me_seqNo entry) returned else returned)
        in case processMapping E (streamName, me_bootstrapTime entry, me_seqNo entry) P of
             Inl e \<Rightarrow> ((returned, queued, P), Some e)
           | Inr (q, P) \<Rightarrow> ((returned, queued \<or> q, P), None))"

fun note_mappings ::
    "('n :: linorder, 'c, 'b, 'd, 'i, 's, 'r) pubsub_env \<Rightarrow> 'n missing_data_info \<Rightarrow> 'n
      \<Rightarrow> ('n, 'b) mapping_entry list
      \<Rightarrow> seq_no set \<times> bool \<times> ('n, 'b, 'd, 'i, 's, 'f, 'r) svspubsub
      \<Rightarrow> (seq_no set \<times> bool \<times> ('n, 'b, 'd, 'i, 's, 'f, 'r) svspubsub) outcome" where
  "note_mappings E requested streamName [] acc = (acc, None)"
| "note_mappings E requested streamName (entry # entries) acc =
     and_then (note_mapping E requested streamName entry acc)
       (note_mappings E requested streamName entries)"

definition fetchMissingRange ::
    "('n :: linorder, 'c, 'b, 'd, 'i, 's, 'r) pubsub_env \<Rightarrow> 'n missing_data_info \<Rightarrow> 'n \<Rightarrow> seq_no
      \<Rightarrow> seq_no \<Rightarrow> ('n, 'b, 'd, 'i, 's, 'f, 'r) svspubsub \<Rightarrow> ('n, 'b, 'd, 'i, 's, 'f, 'r) svspubsub" where
  "fetchMissingRange E requested streamName low high P =
     snd (scheduleMappingFetch E (requested\<lparr>md_low := low, md_high := high\<rparr>) streamName P)"

definition gap_step ::
    "(seq_no \<Rightarrow> seq_no \<Rightarrow> 's \<Rightarrow> 's) \<Rightarrow> seq_no set \<Rightarrow> seq_no \<Rightarrow> seq_no option \<times> 's \<Rightarrow> seq_no option \<times> 's"
where
  "gap_step fetch returned seq acc =
     (case acc of (missingLow, s) \<Rightarrow>
        if seq \<notin> returned then (case missingLow of None \<Rightarrow> Some seq | Some l \<Rightarrow> Some l, s)
        else
          (case missingLow of None \<Rightarrow> (None, s) | Some l \<Rightarrow> (None, fetch l (seq - 1) s)))"

definition close_gap ::
    "(seq_no \<Rightarrow> seq_no \<Rightarrow> 's \<Rightarrow> 's) \<Rightarrow> seq_no \<Rightarrow> seq_no option \<times> 's \<Rightarrow> 's" where
  "close_gap fetch high acc =
     (case acc of (Some l, s) \<Rightarrow> fetch l high s | (None, s) \<Rightarrow> s)"

definition onFetchedNameMappings ::
    "('n :: linorder, 'c, 'b, 'd, 'i, 's, 'r) pubsub_env \<Rightarrow> 'n missing_data_info \<Rightarrow> 'n
      \<Rightarrow> ('n, 'b) mapping_list \<Rightarrow> ('n, 'b, 'd, 'i, 's, 'f, 'r) svspubsub
      \<Rightarrow> ('n, 'b, 'd, 'i, 's, 'f, 'r) svspubsub outcome option" where
  "onFetchedNameMappings E requested streamName list P =
     (if ml_pairs list = [] then Some (P, None)
      else
        (case note_mappings E requested streamName (ml_pairs list) ({}, False, P) of
           ((_, _, P), Some e) \<Rightarrow> Some (P, Some e)
         | ((returned, queued, P), None) \<Rightarrow>
             let P = (if queued then fetchAll E P else P);
                 requestedHigh = max (md_high requested) (md_low requested);
                 fetch = fetchMissingRange E requested streamName
             in map_option (\<lambda>acc. (close_gap fetch requestedHigh acc, None))
                  (seq_loop (gap_step fetch returned) (md_low requested) requestedHigh (None, P))))"

section \<open>Missing data\<close>

definition prefetch_next ::
    "('n :: linorder, 'c, 'b, 'd, 'i, 's, 'r) pubsub_env \<Rightarrow> 'n missing_data_info
      \<Rightarrow> ('n, 'b, 'd, 'i, 's, 'f, 'r) svspubsub \<Rightarrow> ('n, 'b, 'd, 'i, 's, 'f, 'r) svspubsub" where
  "prefetch_next E stream P =
     (let (S, outs) = fetchData (pe_ndn E) (md_nodeId stream) (md_bootstrapTime stream)
            (md_high stream + 1) Prefetch 0 (ps_svsync P)
      in emit_ps (map DataOutput outs) (P\<lparr>ps_svsync := S\<rparr>))"

text \<open>The loop over the producer subscriptions.\<close>

fun queue_producers ::
    "('n :: linorder, 'c, 'b, 'd, 'i, 's, 'r) pubsub_env \<Rightarrow> 'n missing_data_info
      \<Rightarrow> ('n, 'f, 'r) subscription list \<Rightarrow> ('n, 'b, 'd, 'i, 's, 'f, 'r) svspubsub
      \<Rightarrow> ('n, 'b, 'd, 'i, 's, 'f, 'r) svspubsub option" where
  "queue_producers E stream [] P = Some P"
| "queue_producers E stream (sub # subs) P =
     (if nm_is_prefix (pe_ndn E) (su_prefix sub) (md_nodeId stream) then
        Option.bind
          (seq_loop (\<lambda>i. with_book (addPublicationFetch (ps_opts P) (pe_now E)
               (md_nodeId stream, md_bootstrapTime stream, i) sub))
             (md_low stream) (md_high stream) P)
          (\<lambda>P. queue_producers E stream subs
            (if su_prefetch sub then prefetch_next E stream P else P))
      else queue_producers E stream subs P)"

text \<open>What is already known of the mappings: the loop stops at the first number that is not.\<close>

definition process_known ::
    "('n :: linorder, 'c, 'b, 'd, 'i, 's, 'r) pubsub_env \<Rightarrow> 'n missing_data_info \<Rightarrow> seq_no
      \<Rightarrow> seq_no \<times> ('n, 'b, 'd, 'i, 's, 'f, 'r) svspubsub
      \<Rightarrow> (seq_no \<times> ('n, 'b, 'd, 'i, 's, 'f, 'r) svspubsub) option" where
  "process_known E stream i acc =
     (case acc of (low, P) \<Rightarrow>
        (case processMapping E (md_nodeId stream, md_bootstrapTime stream, i) P of
           Inl _ \<Rightarrow> None
         | Inr (_, P) \<Rightarrow> Some (low + 1, P)))"

text \<open>What is not is fetched in ranges of at most 11.\<close>

partial_function (option) fetch_ranges ::
    "(seq_no \<Rightarrow> seq_no \<Rightarrow> 's \<Rightarrow> 's) \<Rightarrow> seq_no \<Rightarrow> seq_no \<Rightarrow> 's \<Rightarrow> 's option" where
  "fetch_ranges fetch low high s =
     (if low \<le> high
      then fetch_ranges fetch (low + 11) high (fetch low (if high - low > 10 then low + 10 else high) s)
      else Some s)"

declare fetch_ranges.simps [code]

definition queue_mapped ::
    "('n :: linorder, 'c, 'b, 'd, 'i, 's, 'r) pubsub_env \<Rightarrow> 'n missing_data_info
      \<Rightarrow> ('n, 'b, 'd, 'i, 's, 'f, 'r) svspubsub \<Rightarrow> ('n, 'b, 'd, 'i, 's, 'f, 'r) svspubsub option" where
  "queue_mapped E stream P =
     (if fb_prefixSubscriptions (ps_book P) = [] \<and> fb_regexSubscriptions (ps_book P) = []
      then Some P
      else
        Option.bind (seq_scan (process_known E stream) (md_low stream) (md_high stream)
            (md_low stream, P))
          (\<lambda>(low, P). fetch_ranges (fetchMissingRange E stream (md_nodeId stream)) low
             (md_high stream) P))"

fun update_streams ::
    "('n :: linorder, 'c, 'b, 'd, 'i, 's, 'r) pubsub_env \<Rightarrow> 'n missing_data_info list
      \<Rightarrow> ('n, 'b, 'd, 'i, 's, 'f, 'r) svspubsub \<Rightarrow> ('n, 'b, 'd, 'i, 's, 'f, 'r) svspubsub option" where
  "update_streams E [] P = Some P"
| "update_streams E (stream # info) P =
     Option.bind (queue_producers E stream (fb_producerSubscriptions (ps_book P)) P) (\<lambda>P.
     Option.bind (queue_mapped E stream P) (update_streams E info))"

definition updateCallbackInternal ::
    "('n :: linorder, 'c, 'b, 'd, 'i, 's, 'r) pubsub_env \<Rightarrow> 'n missing_data_info list
      \<Rightarrow> ('n, 'b, 'd, 'i, 's, 'f, 'r) svspubsub \<Rightarrow> ('n, 'b, 'd, 'i, 's, 'f, 'r) svspubsub option" where
  "updateCallbackInternal E info P =
     map_option (\<lambda>P. emit_ps [OnUpdate info] (fetchAll E P)) (update_streams E info P)"

section \<open>Delivery of fetched publications\<close>

text \<open>\<^verbatim>\<open>returnData\<close> of \<^verbatim>\<open>onSyncData\<close>\<close>

definition deliver_inner ::
    "('n, 'c, 'b, 'd, 'i) ndn \<Rightarrow> 'd \<Rightarrow> 'n publication_key \<Rightarrow> ('n, 'f, 'r) subscription list
      \<Rightarrow> ('n, 'd, 'f) pubsub_output list" where
  "deliver_inner N inner publication subs =
     map (\<lambda>sub. Call (su_callback sub) (packet_data N (data_name N inner) publication inner))
       (filter (\<lambda>sub. su_isPacketSubscription sub \<or> data_final_block N inner = None) subs)"

definition returnData ::
    "('n :: linorder, 'c, 'b, 'd, 'i, 's, 'r) pubsub_env \<Rightarrow> 'd \<Rightarrow> 'd \<Rightarrow> 'n publication_key
      \<Rightarrow> ('n, 'b, 'd, 'i, 's, 'f, 'r) svspubsub \<Rightarrow> ('n, 'b, 'd, 'i, 's, 'f, 'r) svspubsub" where
  "returnData E firstData inner publication P =
     (if \<not> pb_asyncPublishAlive (ps_publisher P) then P
      else
        (case map_of (fb_fetchMap (ps_book P)) publication of
           None \<Rightarrow> P
         | Some subs \<Rightarrow>
             let N = pe_ndn E;
                 P = emit_ps (deliver_inner N inner publication subs) P
             in if (\<exists>sub \<in> set subs. \<not> su_isPacketSubscription sub) \<and>
                   data_final_block N inner \<noteq> None \<and> nm_size N (data_name N firstData) > 2
                then emit_ps [StartSegmentFetch (nm_prefix N (data_name N firstData) (-2)) publication] P
                else with_book (cleanUpFetch publication) P))"

definition decode_inner :: "('n, 'c, 'b, 'd, 'i) ndn \<Rightarrow> 'd \<Rightarrow> 'd result" where
  "decode_inner N outer =
     res_bind (block_from_value N outer) (\<lambda>block. res_of_option (TlvError ''Data'') (data_of_block N block))"

definition onSyncData ::
    "('n :: linorder, 'c, 'b, 'd, 'i, 's, 'r) pubsub_env \<Rightarrow> 'd \<Rightarrow> 'n publication_key
      \<Rightarrow> ('n, 'b, 'd, 'i, 's, 'f, 'r) svspubsub \<Rightarrow> ('n, 'b, 'd, 'i, 's, 'f, 'r) svspubsub" where
  "onSyncData E firstData publication P =
     (if data_content_type (pe_ndn E) firstData \<noteq> tlv_Data
      then markPublicationFetchFailed E publication P
      else
        let P = observePublicationFetchSuccess E publication P in
        case decode_inner (pe_ndn E) firstData of
          Inl _ \<Rightarrow> with_book (cleanUpFetch publication) P
        | Inr inner \<Rightarrow>
            if ps_hasEncapsulatedValidator P
            then emit_ps [ValidateInner firstData inner publication] P
            else returnData E firstData inner publication P)"

text \<open>The two lambdas given to the validator.\<close>

definition inner_validated ::
    "('n :: linorder, 'c, 'b, 'd, 'i, 's, 'r) pubsub_env \<Rightarrow> 'd \<Rightarrow> 'd \<Rightarrow> 'n publication_key
      \<Rightarrow> ('n, 'b, 'd, 'i, 's, 'f, 'r) svspubsub \<Rightarrow> ('n, 'b, 'd, 'i, 's, 'f, 'r) svspubsub" where
  "inner_validated E firstData inner publication P =
     (if pb_asyncPublishAlive (ps_publisher P) then returnData E firstData inner publication P else P)"

definition clean_up_alive ::
    "('n :: linorder) publication_key
      \<Rightarrow> ('n, 'b, 'd, 'i, 's, 'f, 'r) svspubsub \<Rightarrow> ('n, 'b, 'd, 'i, 's, 'f, 'r) svspubsub" where
  "clean_up_alive publication P =
     (if pb_asyncPublishAlive (ps_publisher P) then with_book (cleanUpFetch publication) P else P)"

text \<open>
  The segments of a publication. The segment fetcher of ndn-cxx completes with a buffer, the
  concatenation of the contents, or fails. \<^verbatim>\<open>ValidationState\<close> is shared by the lambdas given to
  the validator, one for each inner packet.
\<close>

record 'n validation_state =
  vs_name :: 'n
  vs_payload :: bytes
  vs_completed :: nat
  vs_failed :: nat
  vs_expected :: nat
  vs_terminal :: bool

definition assembly_data :: "'n validation_state \<Rightarrow> 'n publication_key \<Rightarrow> ('n, 'd) subscription_data" where
  "assembly_data v publication =
     \<lparr>sd_name = vs_name v, sd_data = vs_payload v, sd_producerPrefix = fst publication,
      sd_seqNo = snd (snd publication), sd_packet = None\<rparr>"

definition deliver_assembly ::
    "'n validation_state \<Rightarrow> ('n :: linorder) publication_key
      \<Rightarrow> ('n, 'b, 'd, 'i, 's, 'f, 'r) svspubsub \<Rightarrow> ('n, 'b, 'd, 'i, 's, 'f, 'r) svspubsub" where
  "deliver_assembly v publication P =
     (case map_of (fb_fetchMap (ps_book P)) publication of
        None \<Rightarrow> P
      | Some subs \<Rightarrow>
          emit_ps (map (\<lambda>sub. Call (su_callback sub) (assembly_data v publication))
            (filter (\<lambda>sub. \<not> su_isPacketSubscription sub) subs)) P)"

definition finishOne ::
    "('n :: linorder) publication_key \<Rightarrow> bool
      \<Rightarrow> 'n validation_state \<times> ('n, 'b, 'd, 'i, 's, 'f, 'r) svspubsub
      \<Rightarrow> 'n validation_state \<times> ('n, 'b, 'd, 'i, 's, 'f, 'r) svspubsub" where
  "finishOne publication failed st =
     (case st of (v, P) \<Rightarrow>
        if vs_terminal v then (v, P)
        else
          let v = v\<lparr>vs_completed := vs_completed v + 1,
                vs_failed := vs_failed v + (if failed then 1 else 0)\<rparr>;
              finish = (vs_completed v = vs_expected v);
              v = (if finish then v\<lparr>vs_terminal := True\<rparr> else v);
              deliver = (finish \<and> vs_failed v = 0)
          in if \<not> finish \<or> \<not> pb_asyncPublishAlive (ps_publisher P) then (v, P)
             else (v, with_book (cleanUpFetch publication)
                        (if deliver then deliver_assembly v publication P else P)))"

text \<open>The loop over the inner blocks; parsing a packet may throw, which cleans up.\<close>

fun validate_inner_blocks ::
    "('n :: linorder, 'c, 'b, 'd, 'i, 's, 'r) pubsub_env \<Rightarrow> 'n publication_key \<Rightarrow> 'b list
      \<Rightarrow> 'n validation_state \<times> ('n, 'b, 'd, 'i, 's, 'f, 'r) svspubsub
      \<Rightarrow> 'n validation_state \<times> ('n, 'b, 'd, 'i, 's, 'f, 'r) svspubsub" where
  "validate_inner_blocks E publication [] st = st"
| "validate_inner_blocks E publication (block # blocks) (v, P) =
     (case data_of_block (pe_ndn E) block of
        None \<Rightarrow> (v, clean_up_alive publication P)
      | Some packet \<Rightarrow>
          validate_inner_blocks E publication blocks
            (if ps_hasEncapsulatedValidator P
             then (v, emit_ps [ValidateSegment packet publication] P)
             else finishOne publication False (v, P)))"

text \<open>The state the lambdas share, if any, and the object; nothing when the reassembly never ends.\<close>

definition segments_complete ::
    "('n :: linorder, 'c, 'b, 'd, 'i, 's, 'r) pubsub_env \<Rightarrow> 'n publication_key \<Rightarrow> bytes
      \<Rightarrow> ('n, 'b, 'd, 'i, 's, 'f, 'r) svspubsub
      \<Rightarrow> ('n validation_state option \<times> ('n, 'b, 'd, 'i, 's, 'f, 'r) svspubsub) option" where
  "segments_complete E publication buffer P =
     (if \<not> pb_asyncPublishAlive (ps_publisher P) then Some (None, P)
      else
        (case block_elems (pe_ndn E) (block_with_value (pe_ndn E) tlv_Data buffer) of
           None \<Rightarrow> Some (None, clean_up_alive publication P)
         | Some innerBlocks \<Rightarrow>
             (case decodeInnerSegments (pe_ndn E) innerBlocks of
                None \<Rightarrow> None
              | Some None \<Rightarrow> Some (None, with_book (cleanUpFetch publication) P)
              | Some (Some (name, payload)) \<Rightarrow>
                  let v = \<lparr>vs_name = name, vs_payload = payload, vs_completed = 0, vs_failed = 0,
                        vs_expected = length innerBlocks, vs_terminal = False\<rparr>;
                      (v, P) = validate_inner_blocks E publication innerBlocks (v, P)
                  in Some (Some v, P))))"

section \<open>The callbacks of the two fetchers\<close>

text \<open>
  What the fetchers' conclusions call: of a publication, \<^verbatim>\<open>onSyncData\<close> after the base class has
  cached the packet, or \<^verbatim>\<open>markPublicationFetchFailed\<close>; of a prefetch, nothing but the caching; of
  a mapping query, the lambdas of \<^verbatim>\<open>scheduleMappingFetch\<close> after the provider has kept the
  mappings. A failed validation calls empty lambdas. An error leaves the handler; the caching
  store or the parsing of the reply throws it.
\<close>

definition on_data_fetch ::
    "('n :: linorder, 'c, 'b, 'd, 'i, 's, 'r) pubsub_env
      \<Rightarrow> ('n data_query, 'd, 'n data_fetch) fetch_output
      \<Rightarrow> ('n, 'b, 'd, 'i, 's, 'f, 'r) svspubsub \<Rightarrow> ('n, 'b, 'd, 'i, 's, 'f, 'r) svspubsub outcome" where
  "on_data_fetch E out P =
     (case out of
        Satisfied k data \<Rightarrow>
          and_then (with_svsync (sb_onDataValidated (pe_base E) data) P) (\<lambda>P.
            (case k of PublicationFetch key \<Rightarrow> onSyncData E data key P | Prefetch \<Rightarrow> P, None))
      | TimedOut (PublicationFetch key) \<Rightarrow> (markPublicationFetchFailed E key P, None)
      | Nacked (PublicationFetch key) \<Rightarrow> (markPublicationFetchFailed E key P, None)
      | _ \<Rightarrow> (P, None))"

definition on_mapping_data ::
    "('n :: linorder, 'c, 'b, 'd, 'i, 's, 'r) pubsub_env \<Rightarrow> 'n mapping_fetch \<Rightarrow> 'd
      \<Rightarrow> ('n, 'b, 'd, 'i, 's, 'f, 'r) svspubsub
      \<Rightarrow> ('n, 'b, 'd, 'i, 's, 'f, 'r) svspubsub outcome option" where
  "on_mapping_data E m data P =
     (case mp_onDataValidated (pe_ndn E) (mf_query m) data (ps_mappingProvider P) of
        Inl e \<Rightarrow> Some (P, Some e)
      | Inr (provider, list) \<Rightarrow>
          onFetchedNameMappings E (mf_query m) (mf_streamName m) list
            (with_book (markMappingFetchComplete (mf_key m)) (P\<lparr>ps_mappingProvider := provider\<rparr>)))"

definition on_mapping_fetch ::
    "('n :: linorder, 'c, 'b, 'd, 'i, 's, 'r) pubsub_env
      \<Rightarrow> ('n data_query, 'd, 'n mapping_fetch) fetch_output
      \<Rightarrow> ('n, 'b, 'd, 'i, 's, 'f, 'r) svspubsub
      \<Rightarrow> ('n, 'b, 'd, 'i, 's, 'f, 'r) svspubsub outcome option" where
  "on_mapping_fetch E out P =
     (case out of
        Satisfied m data \<Rightarrow> on_mapping_data E m data P
      | TimedOut m \<Rightarrow>
          Some (with_book (markMappingFetchFailed (ps_opts P) (pe_now E) (mf_key m)) P, None)
      | Nacked m \<Rightarrow>
          Some (with_book (markMappingFetchFailed (ps_opts P) (pe_now E) (mf_key m)) P, None)
      | _ \<Rightarrow> Some (P, None))"

end
