(* ===== verification/PubSub_Extra.thy ===== *)
theory PubSub_Extra
  imports PubSub_Fetch
begin

text \<open>
  The extra blocks of Sync Interests (\<^verbatim>\<open>svspubsub.cpp\<close>, from \<^verbatim>\<open>satisfyPendingFetchFromPiggyData\<close> to
  its end, and \<^verbatim>\<open>enqueueRepairPublication\<close>): what is packed into the parameters of the next Sync
  Interest, within a budget and a bounded number of times, and what is taken from those received.
  Log messages and the statistics that only they use are left out.
\<close>

section \<open>Repair requests of others\<close>

text \<open>
  \<^verbatim>\<open>enqueueRepairPublication\<close>. The Interest has the default lifetime of 4 s, which the store does
  not look at.
\<close>

definition repair_query ::
    "('n, 'c, 'b, 'd, 'i) ndn \<Rightarrow> 'n publication_key \<Rightarrow> ('n, 'b, 'd, 'i, 's, 'f, 'r) svspubsub
      \<Rightarrow> 'n data_query" where
  "repair_query N key P =
     \<lparr>dq_name = makeDataName N (fst key) (fst (snd key)) (snd (snd key)) (ps_svsync P),
      dq_canBePrefix = True, dq_mustBeFresh = False, dq_lifetime = 4000\<rparr>"

definition repair_packet ::
    "('n, 'c, 'b, 'd, 'i, 's, 'r) pubsub_env \<Rightarrow> 'n publication_key
      \<Rightarrow> ('n, 'b, 'd, 'i, 's, 'f, 'r) svspubsub \<Rightarrow> 'd option" where
  "repair_packet E key P =
     (case ds_find (be_store (pe_base E)) (repair_query (pe_ndn E) key P) (sb_dataStore (ps_svsync P)) of
        None \<Rightarrow> None
      | Some outer \<Rightarrow>
          if data_content_type (pe_ndn E) outer \<noteq> tlv_Data then None
          else
            (case decode_inner (pe_ndn E) outer of
               Inl _ \<Rightarrow> None
             | Inr inner \<Rightarrow>
                 if wire_size (pe_ndn E) inner > ps_maxPiggyDataSize P then None else Some inner))"

definition enqueueRepairPublication ::
    "('n, 'c, 'b, 'd, 'i, 's, 'r) pubsub_env \<Rightarrow> 'n publication_key
      \<Rightarrow> ('n, 'b, 'd, 'i, 's, 'f, 'r) svspubsub \<Rightarrow> ('n, 'b, 'd, 'i, 's, 'f, 'r) svspubsub" where
  "enqueueRepairPublication E key P =
     (case key of (nid, bootstrapTime, seqNo) \<Rightarrow>
        (case mp_getMapping (pe_ndn E) nid bootstrapTime seqNo (ps_mappingProvider P) of
           Inl _ \<Rightarrow> P
         | Inr mapping \<Rightarrow>
             let P = with_extra (\<lambda>x. x\<lparr>ex_piggyMappingQueue := ex_piggyMappingQueue x @
                    [\<lparr>pm_nodeId = nid, pm_mapping = \<lparr>me_bootstrapTime = bootstrapTime,
                        me_seqNo = seqNo, me_mapping = mapping\<rparr>, pm_sent = 0, pm_missed = 0\<rparr>]\<rparr>) P
             in (case repair_packet E key P of
                   None \<Rightarrow> P
                 | Some inner \<Rightarrow>
                     with_extra (\<lambda>x. x\<lparr>ex_piggyDataQueue := ex_piggyDataQueue x @
                       [\<lparr>pd_data = inner, pd_sent = 0, pd_missed = 0\<rparr>]\<rparr>) P)))"

section \<open>Building the blocks\<close>

text \<open>
  The mappings of the notification list that fit, each added to a copy that is encoded; encoding
  may throw.
\<close>

fun include_mappings ::
    "('n, 'c, 'b, 'd, 'i) ndn \<Rightarrow> nat \<Rightarrow> ('n, 'b) mapping_entry list \<Rightarrow> ('n, 'b) mapping_list
      \<Rightarrow> ('n, 'b) mapping_list result" where
  "include_mappings N limit [] included = Inr included"
| "include_mappings N limit (entry # entries) included =
     (let candidate = included\<lparr>ml_pairs := ml_pairs included @ [entry]\<rparr> in
      res_bind (mapping_list_encode N candidate) (\<lambda>block.
      include_mappings N limit entries
        (if length (block_wire N block) \<le> limit then candidate else included)))"

text \<open>
  The three loops over the queues, from the newest entry to the oldest, share their body: encode
  the entry, count it as missed when it does not fit and drop it after too many misses, else
  append its block, count it as sent and drop it after enough repetitions. They differ in the
  members they count with.
\<close>

record ('e, 'b) piggy_ops =
  po_encode :: "'e \<Rightarrow> 'b result"
  po_sent :: "'e \<Rightarrow> nat"
  po_missed :: "'e \<Rightarrow> nat"
  po_incSent :: "'e \<Rightarrow> 'e"
  po_incMissed :: "'e \<Rightarrow> 'e"
  po_repeat :: nat

text \<open>
  What the loops keep: the blocks appended, the running size, the retained entries and, in the
  order of the loop, the entries of the queue as they were counted in place, which is what the
  queue holds when encoding throws.
\<close>

record ('e, 'b) pack_state =
  pk_blocks :: "'b list"
  pk_size :: nat
  pk_retained :: "'e list"
  pk_counted :: "'e list"

definition pack_entry ::
    "('n, 'c, 'b, 'd, 'i) ndn \<Rightarrow> nat \<Rightarrow> nat \<Rightarrow> ('e, 'b) piggy_ops \<Rightarrow> 'e \<Rightarrow> 'b
      \<Rightarrow> ('e, 'b) pack_state \<Rightarrow> ('e, 'b) pack_state" where
  "pack_entry N limit missLimit ops entry block s =
     (if pk_size s + length (block_wire N block) > limit then
        (let entry = po_incMissed ops entry in
         s\<lparr>pk_counted := pk_counted s @ [entry],
           pk_retained := (if po_missed ops entry < missLimit then [entry] else []) @ pk_retained s\<rparr>)
      else
        (let entry = po_incSent ops entry in
         s\<lparr>pk_blocks := pk_blocks s @ [block], pk_size := pk_size s + length (block_wire N block),
           pk_counted := pk_counted s @ [entry],
           pk_retained := (if po_sent ops entry < po_repeat ops then [entry] else []) @ pk_retained s\<rparr>))"

fun pack_loop ::
    "('n, 'c, 'b, 'd, 'i) ndn \<Rightarrow> nat \<Rightarrow> nat \<Rightarrow> ('e, 'b) piggy_ops \<Rightarrow> 'e list
      \<Rightarrow> ('e, 'b) pack_state \<Rightarrow> ('e, 'b) pack_state outcome" where
  "pack_loop N limit missLimit ops [] s = (s, None)"
| "pack_loop N limit missLimit ops (entry # entries) s =
     (case po_encode ops entry of
        Inl e \<Rightarrow> (s, Some e)
      | Inr block \<Rightarrow>
          pack_loop N limit missLimit ops entries (pack_entry N limit missLimit ops entry block s))"

text \<open>A whole queue: the blocks, the size and the queue it leaves.\<close>

definition pack_queue ::
    "('n, 'c, 'b, 'd, 'i) ndn \<Rightarrow> nat \<Rightarrow> nat \<Rightarrow> ('e, 'b) piggy_ops \<Rightarrow> 'e list \<Rightarrow> 'b list \<times> nat
      \<Rightarrow> ('b list \<times> nat) \<times> 'e list \<times> svs_error option" where
  "pack_queue N limit missLimit ops queue acc =
     (case pack_loop N limit missLimit ops (rev queue)
             \<lparr>pk_blocks = fst acc, pk_size = snd acc, pk_retained = [], pk_counted = []\<rparr> of
        (s, None) \<Rightarrow> ((pk_blocks s, pk_size s), pk_retained s, None)
      | (s, Some e) \<Rightarrow>
          ((pk_blocks s, pk_size s),
           take (length queue - length (pk_counted s)) queue @ rev (pk_counted s), Some e))"

definition mapping_ops ::
    "('n, 'c, 'b, 'd, 'i) ndn \<Rightarrow> pubsub_options \<Rightarrow> (('n, 'b) piggy_mapping_entry, 'b) piggy_ops" where
  "mapping_ops N opts =
     \<lparr>po_encode = (\<lambda>entry. mapping_list_encode N
        \<lparr>ml_nodeId = pm_nodeId entry, ml_pairs = [pm_mapping entry], ml_version = V3\<rparr>),
      po_sent = pm_sent, po_missed = pm_missed,
      po_incSent = (\<lambda>entry. entry\<lparr>pm_sent := pm_sent entry + 1\<rparr>),
      po_incMissed = (\<lambda>entry. entry\<lparr>pm_missed := pm_missed entry + 1\<rparr>),
      po_repeat = so_piggybackRepeatCount opts\<rparr>"

definition data_ops ::
    "('n, 'c, 'b, 'd, 'i) ndn \<Rightarrow> pubsub_options \<Rightarrow> ('d piggy_data_entry, 'b) piggy_ops" where
  "data_ops N opts =
     \<lparr>po_encode = (\<lambda>entry. Inr (data_wire N (pd_data entry))),
      po_sent = pd_sent, po_missed = pd_missed,
      po_incSent = (\<lambda>entry. entry\<lparr>pd_sent := pd_sent entry + 1\<rparr>),
      po_incMissed = (\<lambda>entry. entry\<lparr>pd_missed := pd_missed entry + 1\<rparr>),
      po_repeat = so_piggybackRepeatCount opts\<rparr>"

definition repair_ops ::
    "('n, 'c, 'b, 'd, 'i) ndn \<Rightarrow> pubsub_options \<Rightarrow> ('n repair_request_entry, 'b) piggy_ops" where
  "repair_ops N opts =
     \<lparr>po_encode = (\<lambda>entry. encodeRepairRequests N [rr_info entry]),
      po_sent = rr_sent, po_missed = rr_missed,
      po_incSent = (\<lambda>entry. entry\<lparr>rr_sent := rr_sent entry + 1\<rparr>),
      po_incMissed = (\<lambda>entry. entry\<lparr>rr_missed := rr_missed entry + 1\<rparr>),
      po_repeat = so_repairRequestRepeatCount opts\<rparr>"

text \<open>
  \<^verbatim>\<open>onGetExtraData\<close>: first the block of the included mappings, which the rest extends with
  sub-elements.
\<close>

definition initial_block ::
    "('n, 'c, 'b, 'd, 'i) ndn \<Rightarrow> nat \<Rightarrow> ('n, 'b) mapping_list \<Rightarrow> ('b \<times> 'b list) result" where
  "initial_block N limit notification =
     res_bind (if ml_nodeId notification \<noteq> nm_empty N
         then include_mappings N limit (ml_pairs notification)
                (mapping_list_new (ml_nodeId notification) V3)
         else Inr (mapping_list_new (ml_nodeId notification) V3)) (\<lambda>included.
     res_bind (mapping_list_encode N included) (\<lambda>block.
     res_bind (parse_elems N block) (\<lambda>es. Inr (block, es))))"

definition onGetExtraData ::
    "('n, 'c, 'b, 'd, 'i) ndn \<Rightarrow> pubsub_options \<Rightarrow> nat \<Rightarrow> ('n, 'b, 'd) extra_data
      \<Rightarrow> 'b result \<times> ('n, 'b, 'd) extra_data" where
  "onGetExtraData N opts limit x =
     (case initial_block N limit (ex_notificationMappingList x) of
        Inl e \<Rightarrow> (Inl e, x)
      | Inr (block, es) \<Rightarrow>
          let miss = so_piggybackMissLimit opts;
              (acc, q, e) = pack_queue N limit miss (mapping_ops N opts) (ex_piggyMappingQueue x)
                (es, length (block_wire N block));
              x = x\<lparr>ex_piggyMappingQueue := q\<rparr>
          in case e of Some e \<Rightarrow> (Inl e, x) | None \<Rightarrow>
          let (acc, q, e) = pack_queue N limit miss (data_ops N opts) (ex_piggyDataQueue x) acc;
              x = x\<lparr>ex_piggyDataQueue := q\<rparr>
          in case e of Some e \<Rightarrow> (Inl e, x) | None \<Rightarrow>
          let (acc, q, e) = pack_queue N limit miss (repair_ops N opts) (ex_repairRequestQueue x) acc;
              x = x\<lparr>ex_repairRequestQueue := q\<rparr>
          in case e of Some e \<Rightarrow> (Inl e, x) | None \<Rightarrow>
          (Inr (if fst acc = es then block else block_nested N (block_type N block) (fst acc)),
           x\<lparr>ex_notificationMappingList := mapping_list_new (nm_empty N) V3\<rparr>))"

text \<open>\<^verbatim>\<open>onGetExtraBlocks\<close> separates the repair requests from the mappings.\<close>

definition split_child ::
    "('n, 'c, 'b, 'd, 'i) ndn \<Rightarrow> 'b \<Rightarrow> 'b list \<times> 'n missing_data_info list
      \<Rightarrow> ('b list \<times> 'n missing_data_info list) result" where
  "split_child N child acc =
     (if block_type N child = tlv_RepairData
      then res_bind (decodeRepairRequests N child) (\<lambda>requests. Inr (fst acc, snd acc @ requests))
      else Inr (fst acc @ [child], snd acc))"

definition split_composite ::
    "('n, 'c, 'b, 'd, 'i) ndn \<Rightarrow> 'b \<Rightarrow> 'b list result" where
  "split_composite N composite =
     res_bind (parse_elems N composite) (\<lambda>es.
     res_bind (res_fold (split_child N) es ([], [])) (\<lambda>(children, repairs).
     let mappings = block_nested N tlv_MappingData children in
     if repairs = [] then Inr [mappings]
     else res_bind (encodeRepairRequests N repairs) (\<lambda>b. Inr [mappings, b])))"

definition onGetExtraBlocks ::
    "('n, 'c, 'b, 'd, 'i) ndn \<Rightarrow> pubsub_options \<Rightarrow> nat \<Rightarrow> ('n, 'b, 'd) extra_data
      \<Rightarrow> 'b list result \<times> ('n, 'b, 'd) extra_data" where
  "onGetExtraBlocks N opts limit x =
     (let (composite, x) = onGetExtraData N opts limit x
      in (res_bind composite (split_composite N), x))"

section \<open>Taking what is received\<close>

definition satisfied_publications ::
    "('n, 'c, 'b, 'd, 'i) ndn \<Rightarrow> 'n \<Rightarrow> ('n, 'b) mapping_provider \<Rightarrow> ('n, 'f, 'r) fetch_book
      \<Rightarrow> ('n publication_key \<times> ('n, 'f, 'r) subscription list) list" where
  "satisfied_publications N name provider b =
     filter (\<lambda>((nid, bootstrapTime, seqNo), subs).
        case mp_getMapping N nid bootstrapTime seqNo provider of
          Inl _ \<Rightarrow> False
        | Inr mapping \<Rightarrow> fst mapping = name) (fb_fetchMap b)"

definition deliver_piggy ::
    "('n :: linorder, 'c, 'b, 'd, 'i) ndn \<Rightarrow> 'd \<Rightarrow> 'n publication_key \<times> ('n, 'f, 'r) subscription list
      \<Rightarrow> ('n, 'b, 'd, 'i, 's, 'f, 'r) svspubsub \<Rightarrow> ('n, 'b, 'd, 'i, 's, 'f, 'r) svspubsub" where
  "deliver_piggy N data ready P =
     (case ready of (publication, subscriptions) \<Rightarrow>
        with_book (cleanUpFetch publication)
          (with_extra (rememberPiggyDeliveredPublication publication)
             (emit_ps (map (\<lambda>sub. Call (su_callback sub) (packet_data N (data_name N data) publication data))
                subscriptions) P)))"

definition satisfyPendingFetchFromPiggyData ::
    "('n :: linorder, 'c, 'b, 'd, 'i) ndn \<Rightarrow> 'd \<Rightarrow> ('n, 'b, 'd, 'i, 's, 'f, 'r) svspubsub
      \<Rightarrow> bool \<times> ('n, 'b, 'd, 'i, 's, 'f, 'r) svspubsub" where
  "satisfyPendingFetchFromPiggyData N data P =
     (let ready = satisfied_publications N (data_name N data) (ps_mappingProvider P) (ps_book P)
      in (ready \<noteq> [], fold (deliver_piggy N data) ready P))"

text \<open>A received packet is cached under its name and its full name.\<close>

definition cache_piggy_data ::
    "('n :: linorder, 'c, 'b, 'd, 'i) ndn \<Rightarrow> 'd \<Rightarrow> ('n, 'b, 'd) extra_data \<Rightarrow> ('n, 'b, 'd) extra_data"
where
  "cache_piggy_data N data x =
     (let c = remember_key (data_name N data) data (ex_piggyDataCacheOrder x, ex_piggyDataCache x);
          c = remember_key (data_full_name N data) data c;
          (order, cache) = evict (ex_piggyDataCacheLimit x) (fst c) (snd c)
      in x\<lparr>ex_piggyDataCacheOrder := order, ex_piggyDataCache := cache\<rparr>)"

text \<open>The validation that precedes any change, of \<^verbatim>\<open>onRecvExtraBlocks\<close> and \<^verbatim>\<open>onRecvExtraData\<close>.\<close>

definition discard :: "'a result \<Rightarrow> unit result" where
  "discard r = res_bind r (\<lambda>_. Inr ())"

definition validate_child :: "('n, 'c, 'b, 'd, 'i) ndn \<Rightarrow> 'b \<Rightarrow> unit \<Rightarrow> unit result" where
  "validate_child N child u =
     (if block_type N child = tlv_MappingData then discard (mapping_list_decode N V3 child)
      else if block_type N child = tlv_Data
      then discard (res_of_option (TlvError ''Data'') (data_of_block N child))
      else if block_type N child = tlv_RepairData then discard (decodeRepairRequests N child)
      else Inr ())"

definition is_known_extension :: "('n, 'c, 'b, 'd, 'i) ndn \<Rightarrow> 'b \<Rightarrow> bool" where
  "is_known_extension N block \<longleftrightarrow> block_type N block \<in> {tlv_MappingData, tlv_RepairData}"

definition validate_tree :: "('n, 'c, 'b, 'd, 'i) ndn \<Rightarrow> 'b \<Rightarrow> unit result" where
  "validate_tree N block =
     res_bind (parse_elems N block) (\<lambda>es.
     res_bind (if block_type N block = tlv_MappingData then discard (mapping_list_decode N V3 block)
         else discard (decodeRepairRequests N block)) (\<lambda>_.
     res_fold (validate_child N) es ()))"

definition validate_block ::
    "('n, 'c, 'b, 'd, 'i) ndn \<Rightarrow> 'b \<Rightarrow> u32 list \<Rightarrow> u32 list result" where
  "validate_block N block knownTypes =
     (if \<not> is_known_extension N block then Inr knownTypes
      else if block_type N block \<in> set knownTypes
      then Inl (InvalidArgument ''duplicate known SVS extension'')
      else res_bind (validate_tree N block) (\<lambda>_. Inr (block_type N block # knownTypes)))"

definition validate_blocks :: "('n, 'c, 'b, 'd, 'i) ndn \<Rightarrow> 'b list \<Rightarrow> unit result" where
  "validate_blocks N blocks =
     (if length blocks > MAX_EXTENSION_BLOCKS
      then Inl (InvalidArgument ''too many SVS extension blocks'')
      else discard (res_fold (validate_block N) blocks []))"

text \<open>
  \<^verbatim>\<open>onRecvExtraData\<close>, over the publications whose mappings were received and the object. The
  mappings of a list: both the top-level block and its sub-elements.
\<close>

definition take_mapping ::
    "('n :: linorder, 'c, 'b, 'd, 'i) ndn \<Rightarrow> 'n \<Rightarrow> ('n, 'b) mapping_entry
      \<Rightarrow> 'n publication_key list \<times> ('n, 'b, 'd, 'i, 's, 'f, 'r) svspubsub
      \<Rightarrow> 'n publication_key list \<times> ('n, 'b, 'd, 'i, 's, 'f, 'r) svspubsub" where
  "take_mapping N nid entry acc =
     (case acc of (received, P) \<Rightarrow>
        (received @ [(nid, me_bootstrapTime entry, me_seqNo entry)],
         P\<lparr>ps_mappingProvider := mp_insertMapping N nid (me_bootstrapTime entry) (me_seqNo entry)
             (me_mapping entry) (ps_mappingProvider P)\<rparr>))"

definition take_mapping_list ::
    "('n :: linorder, 'c, 'b, 'd, 'i) ndn \<Rightarrow> 'b
      \<Rightarrow> 'n publication_key list \<times> ('n, 'b, 'd, 'i, 's, 'f, 'r) svspubsub
      \<Rightarrow> ('n publication_key list \<times> ('n, 'b, 'd, 'i, 's, 'f, 'r) svspubsub) outcome" where
  "take_mapping_list N block acc =
     (case mapping_list_decode N V3 block of
        Inl e \<Rightarrow> (acc, Some e)
      | Inr list \<Rightarrow> (fold (take_mapping N (ml_nodeId list)) (ml_pairs list) acc, None))"

text \<open>The requests of a RepairData block: a loop over each range.\<close>

fun take_repairs ::
    "('n, 'c, 'b, 'd, 'i, 's, 'r) pubsub_env \<Rightarrow> 'n missing_data_info list
      \<Rightarrow> ('n, 'b, 'd, 'i, 's, 'f, 'r) svspubsub \<Rightarrow> ('n, 'b, 'd, 'i, 's, 'f, 'r) svspubsub option" where
  "take_repairs E [] P = Some P"
| "take_repairs E (request # requests) P =
     Option.bind
       (seq_loop (\<lambda>seq. enqueueRepairPublication E (md_nodeId request, md_bootstrapTime request, seq))
         (md_low request) (md_high request) P)
       (take_repairs E requests)"

text \<open>The body of the loop over the sub-elements. An exception ends it and is caught. In the
  sub-elements, \<^verbatim>\<open>high\<close> is the larger bound of the range.\<close>

definition ordered_range :: "'n missing_data_info \<Rightarrow> 'n missing_data_info" where
  "ordered_range request = request\<lparr>md_high := max (md_high request) (md_low request)\<rparr>"

definition take_data ::
    "('n :: linorder, 'c, 'b, 'd, 'i, 's, 'r) pubsub_env \<Rightarrow> 'd
      \<Rightarrow> ('n, 'b, 'd, 'i, 's, 'f, 'r) svspubsub \<Rightarrow> ('n, 'b, 'd, 'i, 's, 'f, 'r) svspubsub" where
  "take_data E data P =
     with_extra (cache_piggy_data (pe_ndn E) data)
       (snd (satisfyPendingFetchFromPiggyData (pe_ndn E) data P))"

definition take_child ::
    "('n :: linorder, 'c, 'b, 'd, 'i, 's, 'r) pubsub_env \<Rightarrow> 'b
      \<Rightarrow> 'n publication_key list \<times> ('n, 'b, 'd, 'i, 's, 'f, 'r) svspubsub
      \<Rightarrow> ('n publication_key list \<times> ('n, 'b, 'd, 'i, 's, 'f, 'r) svspubsub) outcome option" where
  "take_child E child acc =
     (let N = pe_ndn E in
      if block_type N child = tlv_MappingData then Some (take_mapping_list N child acc)
      else if block_type N child = tlv_Data then
        (case data_of_block N child of
           None \<Rightarrow> Some (acc, Some (TlvError ''Data''))
         | Some data \<Rightarrow> Some ((fst acc, take_data E data (snd acc)), None))
      else if block_type N child = tlv_RepairData then
        (case decodeRepairRequests N child of
           Inl e \<Rightarrow> Some (acc, Some e)
         | Inr requests \<Rightarrow>
             map_option (\<lambda>P. ((fst acc, P), None))
               (take_repairs E (map ordered_range requests) (snd acc)))
      else Some (acc, None))"

fun take_children ::
    "('n :: linorder, 'c, 'b, 'd, 'i, 's, 'r) pubsub_env \<Rightarrow> 'b list
      \<Rightarrow> 'n publication_key list \<times> ('n, 'b, 'd, 'i, 's, 'f, 'r) svspubsub
      \<Rightarrow> ('n publication_key list \<times> ('n, 'b, 'd, 'i, 's, 'f, 'r) svspubsub) option" where
  "take_children E [] acc = Some acc"
| "take_children E (child # children) acc =
     Option.bind (take_child E child acc) (\<lambda>r.
     case r of
       (acc, Some _) \<Rightarrow> Some acc
     | (acc, None) \<Rightarrow> take_children E children acc)"

text \<open>The mappings received are processed last; what one of them throws is ignored.\<close>

definition process_received ::
    "('n :: linorder, 'c, 'b, 'd, 'i, 's, 'r) pubsub_env \<Rightarrow> 'n publication_key
      \<Rightarrow> bool \<times> ('n, 'b, 'd, 'i, 's, 'f, 'r) svspubsub
      \<Rightarrow> bool \<times> ('n, 'b, 'd, 'i, 's, 'f, 'r) svspubsub" where
  "process_received E publication acc =
     (case processMapping E publication (snd acc) of
        Inl _ \<Rightarrow> acc
      | Inr (queued, P) \<Rightarrow> (fst acc \<or> queued, P))"

definition finish_received ::
    "('n :: linorder, 'c, 'b, 'd, 'i, 's, 'r) pubsub_env
      \<Rightarrow> 'n publication_key list \<times> ('n, 'b, 'd, 'i, 's, 'f, 'r) svspubsub
      \<Rightarrow> ('n, 'b, 'd, 'i, 's, 'f, 'r) svspubsub" where
  "finish_received E acc =
     (let (queued, P) = fold (process_received E) (fst acc) (False, snd acc)
      in if queued then fetchAll E P else P)"

definition onRecvExtraData ::
    "('n :: linorder, 'c, 'b, 'd, 'i, 's, 'r) pubsub_env \<Rightarrow> 'b
      \<Rightarrow> ('n, 'b, 'd, 'i, 's, 'f, 'r) svspubsub
      \<Rightarrow> ('n, 'b, 'd, 'i, 's, 'f, 'r) svspubsub outcome option" where
  "onRecvExtraData E block P =
     (let N = pe_ndn E in
      if \<not> is_known_extension N block then Some (P, None)
      else
        (case validate_tree N block of
           Inl _ \<Rightarrow> Some (P, None)
         | Inr _ \<Rightarrow>
             let acc = fst (take_mapping_list N block ([], P)) in
             Option.bind
               (if block_type N block = tlv_RepairData then
                  (case decodeRepairRequests N block of
                     Inl e \<Rightarrow> Some (acc, Some e)
                   | Inr requests \<Rightarrow>
                       map_option (\<lambda>P. ((fst acc, P), None)) (take_repairs E requests (snd acc)))
                else Some (acc, None))
               (\<lambda>r. case r of
                  (acc, Some e) \<Rightarrow> Some (snd acc, Some e)
                | (acc, None) \<Rightarrow>
                    map_option (\<lambda>acc. (finish_received E acc, None))
                      (case parse_elems N block of
                         Inl _ \<Rightarrow> Some acc
                       | Inr es \<Rightarrow> take_children E es acc))))"

fun recv_blocks ::
    "('n :: linorder, 'c, 'b, 'd, 'i, 's, 'r) pubsub_env \<Rightarrow> 'b list
      \<Rightarrow> ('n, 'b, 'd, 'i, 's, 'f, 'r) svspubsub
      \<Rightarrow> ('n, 'b, 'd, 'i, 's, 'f, 'r) svspubsub outcome option" where
  "recv_blocks E [] P = Some (P, None)"
| "recv_blocks E (block # blocks) P =
     Option.bind (onRecvExtraData E block P) (\<lambda>r.
     case r of (P, Some e) \<Rightarrow> Some (P, Some e) | (P, None) \<Rightarrow> recv_blocks E blocks P)"

definition onRecvExtraBlocks ::
    "('n :: linorder, 'c, 'b, 'd, 'i, 's, 'r) pubsub_env \<Rightarrow> 'b list
      \<Rightarrow> ('n, 'b, 'd, 'i, 's, 'f, 'r) svspubsub
      \<Rightarrow> ('n, 'b, 'd, 'i, 's, 'f, 'r) svspubsub outcome option" where
  "onRecvExtraBlocks E blocks P =
     (case validate_blocks (pe_ndn E) blocks of
        Inl _ \<Rightarrow> Some (P, None)
      | Inr _ \<Rightarrow> recv_blocks E blocks P)"

end
