(* ===== verification/Fetch_Queue.thy ===== *)
theory Fetch_Queue
  imports PubSub_Extra
begin

text \<open>
  The queue of publications to fetch: the invariant of \<^verbatim>\<open>m_fetchMap\<close> and
  \<^verbatim>\<open>m_publicationFetchStates\<close> that every operation of the object keeps, what one call of \<^verbatim>\<open>fetchAll\<close>
  achieves, and the bounds on attempts and on publications in flight.
\<close>

section \<open>States\<close>

declare split_paired_All [simp del] and split_paired_Ex [simp del] and split_paired_all [simp del]

abbreviation fetch_of :: "('n, 'f, 'r) fetch_book \<Rightarrow> 'n publication_key \<Rightarrow> publication_fetch_state option" where
  "fetch_of b \<equiv> map_of (fb_publicationFetchStates b)"

abbreviation subs_of :: "('n, 'f, 'r) fetch_book \<Rightarrow> 'n publication_key \<Rightarrow> ('n, 'f, 'r) subscription list option" where
  "subs_of b \<equiv> map_of (fb_fetchMap b)"

definition lifetime_ok :: "pubsub_options \<Rightarrow> int \<Rightarrow> bool" where
  "lifetime_ok opts lifetime \<longleftrightarrow>
     lifetime \<le> so_publicationFetchMaxInterestLifetime opts \<and>
     (so_publicationFetchMinInterestLifetime opts \<le> so_publicationFetchMaxInterestLifetime opts \<longrightarrow>
        so_publicationFetchMinInterestLifetime opts \<le> lifetime)"

lemma lifetime_ok_clamp [simp]: "lifetime_ok opts (clamp_lifetime opts v)"
  by (auto simp: lifetime_ok_def clamp_lifetime_def clampDuration_def)

text \<open>Attempts are bounded when the retries are.\<close>

definition attempts_ok :: "pubsub_options \<Rightarrow> publication_fetch_state \<Rightarrow> bool" where
  "attempts_ok opts st \<longleftrightarrow>
     (so_publicationFetchRetries opts \<ge> 0 \<longrightarrow>
        fs_attempts st \<le> nat (so_publicationFetchRetries opts) +
          (if fs_status st \<in> {Queued, Backoff} then 0 else 1))"

definition fetch_state_ok :: "pubsub_options \<Rightarrow> publication_fetch_state \<Rightarrow> bool" where
  "fetch_state_ok opts st \<longleftrightarrow>
     fs_firstQueued st \<noteq> 0 \<and> fs_status st \<noteq> Expired \<and>
     fs_deadline st = fs_firstQueued st + toStdDuration (fetch_deadline opts) \<and>
     lifetime_ok opts (fs_currentLifetime st) \<and> attempts_ok opts st"

definition fetching_keys :: "('n, 'f, 'r) fetch_book \<Rightarrow> 'n publication_key set" where
  "fetching_keys b = {key. \<exists>st. fetch_of b key = Some st \<and> fs_status st = Fetching}"

lemma finite_fetching_keys [simp]: "finite (fetching_keys b)"
proof -
  have "fetching_keys b \<subseteq> dom (fetch_of b)"
    by (auto simp: fetching_keys_def)
  then show ?thesis
    by (rule finite_subset) (simp add: finite_dom_map_of)
qed

text \<open>The two maps have the same keys, and every key has a subscription.\<close>

definition fetches_ok :: "pubsub_options \<Rightarrow> ('n :: linorder, 'f, 'r) fetch_book \<Rightarrow> bool" where
  "fetches_ok opts b \<longleftrightarrow>
     map_ok (fb_fetchMap b) \<and> map_ok (fb_publicationFetchStates b) \<and>
     (\<forall>key. subs_of b key = None \<longleftrightarrow> fetch_of b key = None) \<and> (\<forall>key. subs_of b key \<noteq> Some []) \<and>
     (\<forall>key st. fetch_of b key = Some st \<longrightarrow> fetch_state_ok opts st)"

definition window_ok :: "pubsub_options \<Rightarrow> ('n, 'f, 'r) fetch_book \<Rightarrow> bool" where
  "window_ok opts b \<longleftrightarrow> card (fetching_keys b) \<le> fetch_window opts"

section \<open>Changes of one publication\<close>

lemma set_fetch_state_fields [simp]:
  "fb_fetchMap (set_fetch_state key st b) = fb_fetchMap b"
  "fetch_of (set_fetch_state key st b) = (fetch_of b)(key \<mapsto> st)"
  "map_ok (fb_publicationFetchStates b) \<Longrightarrow> map_ok (fb_publicationFetchStates (set_fetch_state key st b))"
  by (simp_all add: set_fetch_state_def)

lemma set_estimate_fields [simp]:
  "fb_fetchMap (set_estimate key l b) = fb_fetchMap b"
  "fb_publicationFetchStates (set_estimate key l b) = fb_publicationFetchStates b"
  by (simp_all add: set_estimate_def)

lemma fetching_set_estimate [simp]: "fetching_keys (set_estimate key l b) = fetching_keys b"
  by (simp add: fetching_keys_def)

lemma fetches_set_estimate [simp]: "fetches_ok opts (set_estimate key l b) = fetches_ok opts b"
  by (simp add: fetches_ok_def)

lemma fetching_set:
  "fetching_keys (set_fetch_state key st b) =
     (if fs_status st = Fetching then insert key (fetching_keys b) else fetching_keys b - {key})"
  by (auto simp: fetching_keys_def)

lemma fetches_ok_set:
  assumes "fetches_ok opts b" and "fetch_of b key = Some old" and "fetch_state_ok opts st"
  shows "fetches_ok opts (set_fetch_state key st b)"
  using assms by (auto simp: fetches_ok_def)

lemma cleanUpFetch_fields:
  assumes "map_ok (fb_fetchMap b)" and "map_ok (fb_publicationFetchStates b)"
  shows "fetch_of (cleanUpFetch key b) = (fetch_of b)(key := None)"
    and "subs_of (cleanUpFetch key b) = (subs_of b)(key := None)"
    and "map_ok (fb_fetchMap (cleanUpFetch key b))"
    and "map_ok (fb_publicationFetchStates (cleanUpFetch key b))"
  using assms by (simp_all add: cleanUpFetch_def)

lemma fetches_okD:
  assumes "fetches_ok opts b"
  shows "map_ok (fb_fetchMap b)" and "map_ok (fb_publicationFetchStates b)"
    and "subs_of b key = None \<longleftrightarrow> fetch_of b key = None"
    and "fetch_of b key = Some st \<Longrightarrow> fetch_state_ok opts st"
  using assms by (auto simp: fetches_ok_def)

lemma fetches_ok_clean:
  assumes "fetches_ok opts b"
  shows "fetches_ok opts (cleanUpFetch key b)"
    and "fetching_keys (cleanUpFetch key b) = fetching_keys b - {key}"
  using assms cleanUpFetch_fields [OF fetches_okD(1,2) [OF assms], of key]
  by (auto simp: fetches_ok_def fetching_keys_def)

lemma window_ok_subset:
  assumes "window_ok opts b" and "fetching_keys b' \<subseteq> fetching_keys b"
  shows "window_ok opts b'"
  using assms card_mono [OF finite_fetching_keys assms(2)] by (simp add: window_ok_def)

lemma window_ok_clean:
  "fetches_ok opts b \<Longrightarrow> window_ok opts b \<Longrightarrow> window_ok opts (cleanUpFetch key b)"
  using window_ok_subset [of opts b "cleanUpFetch key b"] by (auto simp: fetches_ok_clean)

lemma queued_state_ok:
  "now \<noteq> 0 \<Longrightarrow> fetch_state_ok opts (queued_state opts now lifetime fetch_state_new)"
  by (simp add: fetch_state_ok_def queued_state_def attempts_ok_def fetch_state_new_def)

lemma addPublicationFetch_state:
  assumes "fetches_ok opts b"
  shows "fetch_of (addPublicationFetch opts now key sub b) = (fetch_of b)(key \<mapsto>
      (case fetch_of b key of Some st \<Rightarrow> st
       | None \<Rightarrow> queued_state opts now (session_lifetime opts key b) fetch_state_new))"
    and "subs_of (addPublicationFetch opts now key sub b) =
      (subs_of b)(key \<mapsto> (case subs_of b key of None \<Rightarrow> [sub] | Some subs \<Rightarrow> subs @ [sub]))"
proof -
  have "fs_firstQueued st \<noteq> 0" if "fetch_of b key = Some st" for st
    using fetches_okD(4) [OF assms that] by (simp add: fetch_state_ok_def)
  then show "fetch_of (addPublicationFetch opts now key sub b) = (fetch_of b)(key \<mapsto>
      (case fetch_of b key of Some st \<Rightarrow> st
       | None \<Rightarrow> queued_state opts now (session_lifetime opts key b) fetch_state_new))"
    by (cases "fetch_of b key")
      (auto simp: addPublicationFetch_def map_at_def Let_def fetch_state_new_def session_lifetime_def
        split: prod.split)
  show "subs_of (addPublicationFetch opts now key sub b) =
      (subs_of b)(key \<mapsto> (case subs_of b key of None \<Rightarrow> [sub] | Some subs \<Rightarrow> subs @ [sub]))"
    by (simp add: addPublicationFetch_def map_at_def Let_def split: option.split)
qed

lemma fetches_ok_add:
  assumes "fetches_ok opts b" and "now \<noteq> 0"
  shows "fetches_ok opts (addPublicationFetch opts now key sub b)"
    and "fetching_keys (addPublicationFetch opts now key sub b) = fetching_keys b"
proof -
  note st = addPublicationFetch_state [OF assms(1), of now key sub]
  have maps: "map_ok (fb_fetchMap (addPublicationFetch opts now key sub b))"
    "map_ok (fb_publicationFetchStates (addPublicationFetch opts now key sub b))"
    using fetches_okD(1,2) [OF assms(1)] by (auto simp: addPublicationFetch_def Let_def)
  show "fetches_ok opts (addPublicationFetch opts now key sub b)"
    using assms maps queued_state_ok [OF assms(2), of opts]
    by (auto simp: fetches_ok_def st split: option.splits)
  show "fetching_keys (addPublicationFetch opts now key sub b) = fetching_keys b"
    unfolding fetching_keys_def st
    by (auto simp: queued_state_def split: option.splits)
qed


section \<open>The end of an attempt\<close>

lemma with_book_book [simp]: "ps_book (with_book f P) = f (ps_book P)"
  and with_book_opts [simp]: "ps_opts (with_book f P) = ps_opts P"
  and with_book_extra [simp]: "ps_extra (with_book f P) = ps_extra P"
  and with_extra_book [simp]: "ps_book (with_extra g P) = ps_book P"
  and with_extra_opts [simp]: "ps_opts (with_extra g P) = ps_opts P"
  and with_extra_extra [simp]: "ps_extra (with_extra g P) = g (ps_extra P)"
  and emit_ps_book [simp]: "ps_book (emit_ps outs P) = ps_book P"
  and emit_ps_opts [simp]: "ps_opts (emit_ps outs P) = ps_opts P"
  and emit_ps_extra [simp]: "ps_extra (emit_ps outs P) = ps_extra P"
  by (simp_all add: with_book_def with_extra_def emit_ps_def)

text \<open>
  A change of the queue that keeps its invariant: what every operation of the object does to it.
\<close>

definition fetch_safe ::
    "pubsub_options \<Rightarrow> ('n :: linorder, 'f, 'r) fetch_book \<Rightarrow> ('n, 'f, 'r) fetch_book \<Rightarrow> bool" where
  "fetch_safe opts b b' \<longleftrightarrow>
     (fetches_ok opts b \<longrightarrow>
        fetches_ok opts b' \<and> (window_ok opts b \<longrightarrow> window_ok opts b'))"

lemma fetch_safe_refl [simp, intro]: "fetch_safe opts b b"
  by (simp add: fetch_safe_def)

lemma fetch_safe_trans: "fetch_safe opts b b' \<Longrightarrow> fetch_safe opts b' b'' \<Longrightarrow> fetch_safe opts b b''"
  by (auto simp: fetch_safe_def)

lemma fetch_safe_clean: "fetch_safe opts b (cleanUpFetch key b)"
  by (simp add: fetch_safe_def fetches_ok_clean(1) window_ok_clean)

lemma fetch_safe_add: "now \<noteq> 0 \<Longrightarrow> fetch_safe opts b (addPublicationFetch opts now key sub b)"
  by (simp add: fetch_safe_def fetches_ok_add window_ok_def)

lemma fetch_safe_set:
  assumes "fetch_of b key = Some old" and "fs_status st \<noteq> Fetching"
    and "fetch_state_ok opts old \<Longrightarrow> fetch_state_ok opts st"
  shows "fetch_safe opts b (set_fetch_state key st b)"
  using assms fetches_ok_set [OF _ assms(1)] fetches_okD(4) [OF _ assms(1)]
    window_ok_subset [of opts b "set_fetch_state key st b"]
  by (auto simp: fetch_safe_def fetching_set)

lemma fetch_safe_estimate: "fetch_safe opts b (set_estimate key l b)"
  by (simp add: fetch_safe_def window_ok_def)

lemma fetch_safe_fold:
  "(\<And>x b. fetch_safe opts b (f x b)) \<Longrightarrow> fetch_safe opts b (fold f xs b)"
  by (induction xs arbitrary: b) (auto intro: fetch_safe_trans)

lemma backoff_state_ok:
  "fetch_state_ok opts st \<Longrightarrow> \<not> attempts_spent opts st \<Longrightarrow> fetch_state_ok opts (backoff_state opts now st)"
  by (auto simp: fetch_state_ok_def backoff_state_def attempts_ok_def attempts_spent_def)

lemma fetch_safe_failed:
  "fetch_safe (ps_opts P) (ps_book P) (ps_book (markPublicationFetchFailed E key P))"
proof (cases "map_of (fb_publicationFetchStates (ps_book P)) key")
  case (Some st)
  let ?st = "backoff_state (ps_opts P) (pe_now E) st"
  have "fetch_safe (ps_opts P) (ps_book P)
      (set_estimate key (fs_currentLifetime ?st) (set_fetch_state key ?st (ps_book P)))"
    if "\<not> attempts_spent (ps_opts P) st"
    using fetch_safe_set [OF Some, of ?st "ps_opts P"] backoff_state_ok [OF _ that]
    by (auto intro: fetch_safe_trans fetch_safe_estimate simp: backoff_state_def)
  then show ?thesis
    using Some by (auto simp: markPublicationFetchFailed_def Let_def fetch_safe_clean split: option.split)
qed (simp add: markPublicationFetchFailed_def split: option.split)

lemma delivered_state_ok:
  "fetch_state_ok opts st \<Longrightarrow> fetch_state_ok opts (st\<lparr>fs_status := Delivered\<rparr>)"
  by (auto simp: fetch_state_ok_def attempts_ok_def split: if_splits)

lemma observed_lifetime_ok [simp]: "lifetime_ok opts (observed_lifetime opts rtt estimate)"
  by (simp add: observed_lifetime_def Let_def)

lemma fetch_safe_observe:
  "fetch_safe (ps_opts P) (ps_book P) (ps_book (observePublicationFetchSuccess E key P))"
proof (cases "map_of (fb_publicationFetchStates (ps_book P)) key")
  case (Some st)
  have ok: "fetch_state_ok (ps_opts P) st \<Longrightarrow>
      fetch_state_ok (ps_opts P) (st\<lparr>fs_status := Delivered\<rparr>) \<and>
      fetch_state_ok (ps_opts P) (st\<lparr>fs_currentLifetime :=
        observed_lifetime (ps_opts P) rtt e, fs_status := Delivered\<rparr>)" for rtt e
    by (auto simp: fetch_state_ok_def attempts_ok_def split: if_splits)
  have "fetch_safe (ps_opts P) (ps_book P)
      (set_fetch_state key (st\<lparr>fs_currentLifetime := observed_lifetime (ps_opts P) rtt e,
        fs_status := Delivered\<rparr>) (set_estimate key l (ps_book P)))" for rtt e l
    by (rule fetch_safe_trans [OF fetch_safe_estimate [of _ _ key l] fetch_safe_set [where old = st]])
      (use Some ok in auto)
  moreover have "fetch_safe (ps_opts P) (ps_book P)
      (set_fetch_state key (st\<lparr>fs_status := Delivered\<rparr>) (ps_book P))"
    by (rule fetch_safe_set [OF Some]) (use ok in auto)
  ultimately show ?thesis
    using Some by (simp add: observePublicationFetchSuccess_def Let_def)
qed (simp add: observePublicationFetchSuccess_def)

lemma mark_failed_opts [simp]: "ps_opts (markPublicationFetchFailed E key P) = ps_opts P"
  by (simp add: markPublicationFetchFailed_def Let_def split: option.split)

lemma observe_opts [simp]: "ps_opts (observePublicationFetchSuccess E key P) = ps_opts P"
  by (simp add: observePublicationFetchSuccess_def Let_def split: option.split)


section \<open>The survey of the queue\<close>

abbreviation waits :: "publication_fetch_state \<Rightarrow> bool" where
  "waits st \<equiv> fs_status st = Queued \<or> fs_status st = Backoff"

definition overdue :: "int \<Rightarrow> publication_fetch_state \<Rightarrow> bool" where
  "overdue now st \<longleftrightarrow> waits st \<and> fs_deadline st \<le> now"

definition due :: "int \<Rightarrow> publication_fetch_state \<Rightarrow> bool" where
  "due now st \<longleftrightarrow> waits st \<and> now < fs_deadline st \<and> fs_nextAttempt st \<le> now"

definition state_with :: "(publication_fetch_state \<Rightarrow> bool) \<Rightarrow> ('n, 'f, 'r) fetch_book \<Rightarrow> 'n publication_key \<Rightarrow> bool"
where
  "state_with Q b key \<longleftrightarrow> (\<exists>st. fetch_of b key = Some st \<and> Q st)"

text \<open>What the survey makes of the state of a publication.\<close>

definition expire :: "int \<Rightarrow> publication_fetch_state \<Rightarrow> publication_fetch_state" where
  "expire now st = (if overdue now st then st\<lparr>fs_status := Expired\<rparr> else st)"

lemma expire_status: "fs_status (expire now st) = Expired \<longleftrightarrow> overdue now st \<or> fs_status st = Expired"
  by (simp add: expire_def)

lemma survey_one:
  assumes "fetch_of b key = Some st" and "fs_firstQueued st \<noteq> 0"
  shows "survey_fetch opts now key (n, r, b) =
    (if fs_status st = Fetching then n + 1 else n, if due now st then r @ [key] else r,
     set_fetch_state key (expire now st) b)"
  using assms
  by (cases "fs_status st")
    (auto simp: survey_fetch_def map_at_def expire_def overdue_def due_def Let_def)

lemma survey_all:
  assumes "distinct keys" and "map_ok (fb_publicationFetchStates b)"
    and "\<And>key. key \<in> set keys \<Longrightarrow> state_with (\<lambda>st. fs_firstQueued st \<noteq> 0) b key"
  shows "\<exists>b'. fold (survey_fetch opts now) keys (n, r, b) =
      (n + length (filter (state_with (\<lambda>st. fs_status st = Fetching) b) keys),
       r @ filter (state_with (due now) b) keys, b') \<and>
    fb_fetchMap b' = fb_fetchMap b \<and> map_ok (fb_publicationFetchStates b') \<and>
    fetch_of b' = (\<lambda>key. if key \<in> set keys then map_option (expire now) (fetch_of b key) else fetch_of b key)"
  using assms
proof (induction keys arbitrary: n r b)
  case (Cons key keys)
  obtain st where st: "fetch_of b key = Some st" "fs_firstQueued st \<noteq> 0"
    using Cons.prems(3) [of key] by (auto simp: state_with_def)
  let ?b = "set_fetch_state key (expire now st) b"
  have same: "state_with Q ?b k = state_with Q b k" if "k \<in> set keys" for Q k
    using that Cons.prems(1) by (auto simp: state_with_def)
  have filters: "filter (state_with Q ?b) keys = filter (state_with Q b) keys" for Q
    by (rule filter_cong) (simp_all add: same)
  let ?n = "if fs_status st = Fetching then n + 1 else n"
  let ?r = "if due now st then r @ [key] else r"
  obtain b' where b': "fold (survey_fetch opts now) keys (?n, ?r, ?b) =
      (?n + length (filter (state_with (\<lambda>st. fs_status st = Fetching) b) keys),
       ?r @ filter (state_with (due now) b) keys, b')"
    "fb_fetchMap b' = fb_fetchMap ?b" "map_ok (fb_publicationFetchStates b')"
    "fetch_of b' = (\<lambda>k. if k \<in> set keys then map_option (expire now) (fetch_of ?b k) else fetch_of ?b k)"
    using Cons.IH [of ?b ?n ?r] Cons.prems same unfolding filters by auto
  have here: "state_with Q b key = Q st" for Q
    using st(1) by (simp add: state_with_def)
  have start: "fold (survey_fetch opts now) (key # keys) (n, r, b) =
      fold (survey_fetch opts now) keys (?n, ?r, ?b)"
    using survey_one [OF st] by simp
  show ?case
    unfolding start
    using b' st(1) Cons.prems(1) by (intro exI [of _ b']) (auto simp: here)
qed (auto simp: fun_eq_iff)

section \<open>Dropping what has expired\<close>

lemma clean_all:
  assumes "map_ok (fb_fetchMap b)" and "map_ok (fb_publicationFetchStates b)"
  shows "fetch_of (fold cleanUpFetch keys b) = (\<lambda>k. if k \<in> set keys then None else fetch_of b k) \<and>
    subs_of (fold cleanUpFetch keys b) = (\<lambda>k. if k \<in> set keys then None else subs_of b k) \<and>
    map_ok (fb_fetchMap (fold cleanUpFetch keys b)) \<and>
    map_ok (fb_publicationFetchStates (fold cleanUpFetch keys b))"
  using assms
proof (induction keys arbitrary: b)
  case (Cons key keys)
  note after = cleanUpFetch_fields [OF Cons.prems, of key]
  show ?case
    using Cons.IH [OF after(3,4)] after(1,2) by (auto simp: fun_eq_iff)
qed simp

lemma set_expired_keys:
  assumes "map_ok (fb_publicationFetchStates b)"
  shows "set (map fst (filter (\<lambda>(key, st). fs_status st = Expired \<and> subs_of b key \<noteq> None)
      (fb_publicationFetchStates b))) =
    {key. state_with (\<lambda>st. fs_status st = Expired) b key \<and> subs_of b key \<noteq> None}"
  using map_ok_mem [OF assms] by (force simp: state_with_def)

text \<open>The first two loops of \<^verbatim>\<open>fetchAll\<close>: what is overdue is gone, the rest is as it was.\<close>

lemma survey_drop:
  assumes "fetches_ok opts b"
  shows "\<exists>b'. fold (survey_fetch opts now) (map fst (fb_fetchMap b)) (0, [], b) =
      (card (fetching_keys b), filter (state_with (due now) b) (map fst (fb_fetchMap b)), b') \<and>
    fetches_ok opts (drop_expired b') \<and>
    fetch_of (drop_expired b') = (\<lambda>key. if state_with (overdue now) b key then None else fetch_of b key) \<and>
    fetching_keys (drop_expired b') = fetching_keys b"
proof -
  note ok = fetches_okD [OF assms]
  let ?keys = "map fst (fb_fetchMap b)"
  have keys: "set ?keys = dom (fetch_of b)" "distinct ?keys"
    using ok(3) map_ok_distinct [OF ok(1)] by (simp_all add: dom_def flip: dom_map_of_conv_image_fst)
  have first: "state_with (\<lambda>st. fs_firstQueued st \<noteq> 0) b key" if "key \<in> set ?keys" for key
    using that ok(4) [of key] unfolding keys(1) by (auto simp: state_with_def fetch_state_ok_def)
  obtain b' where b': "fold (survey_fetch opts now) ?keys (0, [], b) =
      (length (filter (state_with (\<lambda>st. fs_status st = Fetching) b) ?keys),
       filter (state_with (due now) b) ?keys, b')"
    "fb_fetchMap b' = fb_fetchMap b" "map_ok (fb_publicationFetchStates b')"
    "fetch_of b' = (\<lambda>key. if key \<in> set ?keys then map_option (expire now) (fetch_of b key) else fetch_of b key)"
    using survey_all [OF keys(2) ok(2) first, of opts now 0 "[]"] by auto
  have states: "fetch_of b' key = map_option (expire now) (fetch_of b key)" for key
    unfolding b'(4) keys(1) by (cases "fetch_of b key") auto
  have "set (filter (state_with (\<lambda>st. fs_status st = Fetching) b) ?keys) = fetching_keys b"
    unfolding set_filter keys(1) by (auto simp: fetching_keys_def state_with_def)
  then have count: "length (filter (state_with (\<lambda>st. fs_status st = Fetching) b) ?keys) = card (fetching_keys b)"
    using distinct_card [OF distinct_filter [OF keys(2)]] by metis
  have expired: "state_with (\<lambda>st. fs_status st = Expired) b' key \<and> subs_of b' key \<noteq> None \<longleftrightarrow>
      state_with (overdue now) b key" for key
    using ok(3) [of key] ok(4) [of key]
    by (auto simp: state_with_def states b'(2) expire_status fetch_state_ok_def)
  have maps: "map_ok (fb_fetchMap b')" "map_ok (fb_publicationFetchStates b')"
    using ok(1) b'(2,3) by simp_all
  let ?gone = "map fst (filter (\<lambda>(key, st). fs_status st = Expired \<and> subs_of b' key \<noteq> None)
      (fb_publicationFetchStates b'))"
  have gone: "key \<in> set ?gone \<longleftrightarrow> state_with (overdue now) b key" for key
    unfolding set_expired_keys [OF maps(2)] mem_Collect_eq by (rule expired)
  have after: "fetch_of (drop_expired b') = (\<lambda>k. if k \<in> set ?gone then None else fetch_of b' k)"
    "subs_of (drop_expired b') = (\<lambda>k. if k \<in> set ?gone then None else subs_of b' k)"
    "map_ok (fb_fetchMap (drop_expired b'))" "map_ok (fb_publicationFetchStates (drop_expired b'))"
    using clean_all [OF maps, of ?gone] unfolding drop_expired_def by blast+
  have F: "fetch_of (drop_expired b') = (\<lambda>key. if state_with (overdue now) b key then None else fetch_of b key)"
  proof
    fix key show "fetch_of (drop_expired b') key = (if state_with (overdue now) b key then None else fetch_of b key)"
      unfolding after(1) gone states
      by (cases "fetch_of b key") (auto simp: state_with_def expire_def)
  qed
  have S: "subs_of (drop_expired b') = (\<lambda>key. if state_with (overdue now) b key then None else subs_of b key)"
    unfolding after(2) gone by (simp only: b'(2))
  have "fetches_ok opts (drop_expired b')"
    using assms after(3,4) unfolding fetches_ok_def F S by simp
  moreover have "fetching_keys (drop_expired b') = fetching_keys b"
    unfolding fetching_keys_def F by (auto simp: state_with_def overdue_def)
  ultimately show ?thesis
    using b'(1) F unfolding count by blast
qed

section \<open>Starting and delivering\<close>

lemma start_fetch_book [simp]:
  "ps_book (start_fetch E key st P) =
     set_fetch_state key (attempt_state (ps_opts P) (pe_now E) st) (ps_book P)"
  "ps_opts (start_fetch E key st P) = ps_opts P"
  "ps_extra (start_fetch E key st P) = ps_extra P"
  by (simp_all add: start_fetch_def with_book_def emit_ps_def Let_def split_beta)

lemma attempt_state_ok:
  "fetch_state_ok opts st \<Longrightarrow> waits st \<Longrightarrow> fetch_state_ok opts (attempt_state opts now st)"
  by (auto simp: fetch_state_ok_def attempt_state_def attempts_ok_def)

lemma observe_book:
  "\<exists>st. fb_fetchMap (ps_book (observePublicationFetchSuccess E key P)) = fb_fetchMap (ps_book P) \<and>
     (fetch_of (ps_book (observePublicationFetchSuccess E key P)) = fetch_of (ps_book P) \<or>
      fetch_of (ps_book (observePublicationFetchSuccess E key P)) = (fetch_of (ps_book P))(key \<mapsto> st)) \<and>
     (map_ok (fb_publicationFetchStates (ps_book P)) \<longrightarrow>
      map_ok (fb_publicationFetchStates (ps_book (observePublicationFetchSuccess E key P))))"
  by (auto simp: observePublicationFetchSuccess_def Let_def split: option.split)

lemma deliver_cached_book:
  assumes "fetches_ok opts (ps_book P)"
  shows "fetch_of (ps_book (deliver_cached E key name packet P)) = (fetch_of (ps_book P))(key := None)"
    and "subs_of (ps_book (deliver_cached E key name packet P)) = (subs_of (ps_book P))(key := None)"
proof -
  let ?Q = "with_extra (rememberPiggyDeliveredPublication key)
    (emit_ps (map (\<lambda>sub. Call (su_callback sub) (packet_data (pe_ndn E) name key packet))
            (map_at key [] (fb_fetchMap (ps_book P)))) P)"
  let ?b = "ps_book (observePublicationFetchSuccess E key ?Q)"
  have maps: "map_ok (fb_fetchMap ?b)" "map_ok (fb_publicationFetchStates ?b)"
    using fetches_okD(1,2) [OF assms] observe_book [of E key ?Q] by auto
  have "fetch_of ?b k = fetch_of (ps_book P) k" if "k \<noteq> key" for k
    using observe_book [of E key ?Q] that by auto
  moreover have "fb_fetchMap ?b = fb_fetchMap (ps_book P)"
    using observe_book [of E key ?Q] by auto
  moreover have "ps_book (deliver_cached E key name packet P) = cleanUpFetch key ?b"
    by (simp add: deliver_cached_def Let_def)
  ultimately show "fetch_of (ps_book (deliver_cached E key name packet P)) = (fetch_of (ps_book P))(key := None)"
    "subs_of (ps_book (deliver_cached E key name packet P)) = (subs_of (ps_book P))(key := None)"
    using cleanUpFetch_fields [OF maps, of key] by (auto simp: fun_eq_iff)
qed

lemma deliver_cached_opts [simp]: "ps_opts (deliver_cached E key name packet P) = ps_opts P"
  by (simp add: deliver_cached_def Let_def)

lemma fetch_safe_deliver:
  "fetch_safe (ps_opts P) (ps_book P) (ps_book (deliver_cached E key name packet P))"
proof -
  let ?Q = "with_extra (rememberPiggyDeliveredPublication key)
    (emit_ps (map (\<lambda>sub. Call (su_callback sub) (packet_data (pe_ndn E) name key packet))
            (map_at key [] (fb_fetchMap (ps_book P)))) P)"
  have "fetch_safe (ps_opts P) (ps_book P) (ps_book (observePublicationFetchSuccess E key ?Q))"
    using fetch_safe_observe [of ?Q E key] by simp
  then show ?thesis
    unfolding deliver_cached_def Let_def with_book_book
    by (rule fetch_safe_trans [OF _ fetch_safe_clean])
qed

section \<open>The third loop\<close>

text \<open>
  The loop starts from the publications that are due. It keeps the invariant, fills the window, and
  touches nothing but the publications it was given.
\<close>

definition settled :: "nat \<Rightarrow> 'n publication_key list \<Rightarrow> ('n :: linorder, 'f, 'r) fetch_book \<Rightarrow> bool" where
  "settled window ready b \<longleftrightarrow>
     card (fetching_keys b) = window \<or>
     (\<forall>key \<in> set ready. \<not> state_with (\<lambda>st. fs_status st \<noteq> Fetching) b key)"

definition untouched ::
    "'n publication_key set \<Rightarrow> ('n, 'f, 'r) fetch_book \<Rightarrow> ('n, 'f, 'r) fetch_book \<Rightarrow> bool" where
  "untouched keys b b' \<longleftrightarrow>
     (\<forall>key. key \<notin> keys \<or> state_with (\<lambda>st. fs_status st \<noteq> Fetching) b' key \<longrightarrow>
        fetch_of b' key = fetch_of b key)"

lemma untouchedD: "untouched keys b b' \<Longrightarrow> key \<notin> keys \<Longrightarrow> fetch_of b' key = fetch_of b key"
  by (simp add: untouched_def)

lemma untouched_trans:
  fixes b b' b'' :: "('a, 'b, 'c) fetch_book"
  assumes "untouched {key} b b'" and "untouched (set ready) b' b''"
  shows "untouched (set (key # ready)) b b''"
  unfolding untouched_def
proof (intro allI impI)
  fix k
  let ?Q = "\<lambda>b :: ('a, 'b, 'c) fetch_book. state_with (\<lambda>st. fs_status st \<noteq> Fetching) b k"
  assume k: "k \<notin> set (key # ready) \<or> ?Q b''"
  then have eq: "fetch_of b'' k = fetch_of b' k"
    using assms(2) by (auto simp: untouched_def)
  then have "?Q b'' = ?Q b'"
    by (simp add: state_with_def)
  then show "fetch_of b'' k = fetch_of b k"
    using k eq assms(1) by (auto simp: untouched_def)
qed

lemma state_with_untouched:
  "untouched keys b b' \<Longrightarrow> key \<notin> keys \<Longrightarrow> state_with Q b' key = state_with Q b key"
  by (simp add: untouched_def state_with_def)

lemma settled_Cons:
  "settled window ready b \<Longrightarrow> \<not> state_with (\<lambda>st. fs_status st \<noteq> Fetching) b key \<Longrightarrow>
     settled window (key # ready) b"
  by (simp add: settled_def)

definition ready_outcome ::
    "pubsub_options \<Rightarrow> nat \<Rightarrow> 'n publication_key list \<Rightarrow> ('n :: linorder, 'f, 'r) fetch_book
      \<Rightarrow> ('n, 'b, 'd, 'i, 's, 'f, 'r) svspubsub \<Rightarrow> bool" where
  "ready_outcome opts window ready b P' \<longleftrightarrow>
     fetches_ok opts (ps_book P') \<and> ps_opts P' = opts \<and>
     card (fetching_keys (ps_book P')) \<le> window \<and>
     settled window ready (ps_book P') \<and> untouched (set ready) b (ps_book P')"

lemma ready_outcome_Cons:
  assumes "ready_outcome opts window ready b1 P'" and "untouched {key} b b1"
    and "key \<notin> set ready" and "\<not> state_with (\<lambda>st. fs_status st \<noteq> Fetching) b1 key"
  shows "ready_outcome opts window (key # ready) b P'"
proof -
  have "\<not> state_with (\<lambda>st. fs_status st \<noteq> Fetching) (ps_book P') key"
    using assms(1,3,4) state_with_untouched [of "set ready" b1 "ps_book P'" key]
    by (simp add: ready_outcome_def)
  then show ?thesis
    using assms(1) untouched_trans [OF assms(2)] settled_Cons [of window ready "ps_book P'" key]
    unfolding ready_outcome_def by blast
qed

text \<open>One round, whatever it does, gives the next one a good start.\<close>

definition due_all ::
    "int \<Rightarrow> 'n publication_key list \<Rightarrow> ('n, 'f, 'r) fetch_book \<Rightarrow> bool" where
  "due_all now ready b \<longleftrightarrow>
     (\<forall>key \<in> set ready. state_with (\<lambda>st. waits st \<and> fs_nextAttempt st \<le> now) b key)"

lemma due_all_untouched:
  assumes "due_all now (key # ready) b" and "untouched {key} b b1" and "key \<notin> set ready"
  shows "due_all now ready b1"
  unfolding due_all_def
proof
  fix k assume k: "k \<in> set ready"
  then have "k \<notin> {key}"
    using assms(3) by blast
  then show "state_with (\<lambda>st. waits st \<and> fs_nextAttempt st \<le> now) b1 k"
    using state_with_untouched [OF assms(2)] assms(1) k by (simp add: due_all_def)
qed

lemma fetch_ready_run:
  "fetches_ok (ps_opts P) (ps_book P) \<Longrightarrow> distinct ready \<Longrightarrow> due_all (pe_now E) ready (ps_book P) \<Longrightarrow>
    card (fetching_keys (ps_book P)) \<le> window \<Longrightarrow>
    ready_outcome (ps_opts P) window ready (ps_book P)
      (fetch_ready E window (card (fetching_keys (ps_book P))) ready P)"
proof (induction ready arbitrary: P)
  case Nil
  then show ?case by (simp add: ready_outcome_def settled_def untouched_def)
next
  case (Cons key ready)
  let ?b = "ps_book P"
  have key: "key \<notin> set ready" "distinct ready"
    using Cons.prems(2) by simp_all
  obtain st where st: "fetch_of ?b key = Some st" "waits st" "fs_nextAttempt st \<le> pe_now E"
    using Cons.prems(3) by (auto simp: state_with_def due_all_def)
  obtain subs where subs: "subs_of ?b key = Some subs"
    using fetches_okD(3) [OF Cons.prems(1), of key] st(1) by auto
  have notin: "key \<notin> fetching_keys ?b"
    using st(1,2) by (auto simp: fetching_keys_def)
  have go: "ready_outcome (ps_opts P) window (key # ready) ?b
        (fetch_ready E window (card (fetching_keys (ps_book P1))) ready P1)"
    if "ps_opts P1 = ps_opts P" "fetches_ok (ps_opts P) (ps_book P1)" "untouched {key} ?b (ps_book P1)"
      "\<not> state_with (\<lambda>st. fs_status st \<noteq> Fetching) (ps_book P1) key"
      "card (fetching_keys (ps_book P1)) \<le> window" for P1
  proof (rule ready_outcome_Cons [OF _ that(3) key(1) that(4)])
    show "ready_outcome (ps_opts P) window ready (ps_book P1)
        (fetch_ready E window (card (fetching_keys (ps_book P1))) ready P1)"
      using Cons.IH [of P1] that(1,2,5) key(2) due_all_untouched [OF Cons.prems(3) that(3) key(1)]
      by simp
  qed
  consider "window = card (fetching_keys ?b)"
    | (start) "card (fetching_keys ?b) < window" "cached_publication (pe_ndn E) key P = None"
    | (hit) name packet where "card (fetching_keys ?b) < window"
        "cached_publication (pe_ndn E) key P = Some (name, packet)"
    using Cons.prems(4) by (metis le_neq_implies_less option.exhaust prod.exhaust)
  then show ?case
  proof cases
    case 1
    then show ?thesis
      using Cons.prems(1) by (simp add: ready_outcome_def settled_def untouched_def)
  next
    case start
    let ?P = "start_fetch E key st P"
    have "fetching_keys (ps_book ?P) = insert key (fetching_keys ?b)"
      by (simp add: fetching_set attempt_state_def)
    then have card: "card (fetching_keys (ps_book ?P)) = card (fetching_keys ?b) + 1"
      using notin by simp
    have "fetches_ok (ps_opts P) (ps_book ?P)"
      using fetches_ok_set [OF Cons.prems(1) st(1)]
        attempt_state_ok [OF fetches_okD(4) [OF Cons.prems(1) st(1)] st(2)] by simp
    then have "ready_outcome (ps_opts P) window (key # ready) ?b
        (fetch_ready E window (card (fetching_keys (ps_book ?P))) ready ?P)"
      using go [of ?P] start(1) unfolding card
      by (auto simp: untouched_def state_with_def attempt_state_def)
    then show ?thesis
      using start subs st card by auto
  next
    case hit
    let ?P = "deliver_cached E key name packet P"
    note after = deliver_cached_book [OF Cons.prems(1), of E key name packet]
    have keys: "fetching_keys (ps_book ?P) = fetching_keys ?b"
      using notin unfolding fetching_keys_def after(1) by auto
    have "fetches_ok (ps_opts P) (ps_book ?P)"
      using fetch_safe_deliver [of P E key name packet] Cons.prems(1) by (simp add: fetch_safe_def)
    then have "ready_outcome (ps_opts P) window (key # ready) ?b
        (fetch_ready E window (card (fetching_keys (ps_book ?P))) ready ?P)"
      using go [of ?P] hit(1) unfolding keys
      by (auto simp: untouched_def state_with_def after(1))
    then show ?thesis
      using hit subs st keys by auto
  qed
qed

section \<open>One call of fetchAll\<close>

text \<open>
  What one call achieves: the invariant is kept, the publications in flight are no more than the
  window, what is overdue is dropped, and when there is room left, nothing that is due waits.
\<close>

lemma fetchAll_run:
  assumes "fetches_ok (ps_opts P) (ps_book P)" and "window_ok (ps_opts P) (ps_book P)" and "sort_laws E"
  defines "b' \<equiv> ps_book (fetchAll E P)"
  shows "fetches_ok (ps_opts P) b'" and "window_ok (ps_opts P) b'" and "ps_opts (fetchAll E P) = ps_opts P"
    and "\<not> state_with (overdue (pe_now E)) b' key"
    and "card (fetching_keys b') < fetch_window (ps_opts P) \<Longrightarrow> \<not> state_with (due (pe_now E)) b' key"
    and "state_with (\<lambda>st. \<not> due (pe_now E) st \<and> \<not> overdue (pe_now E) st) (ps_book P) key \<Longrightarrow>
      fetch_of b' key = fetch_of (ps_book P) key"
proof -
  let ?b = "ps_book P" and ?now = "pe_now E" and ?w = "fetch_window (ps_opts P)"
  let ?due = "filter (state_with (due ?now) ?b) (map fst (fb_fetchMap ?b))"
  obtain b1 where b1: "fold (survey_fetch (ps_opts P) ?now) (map fst (fb_fetchMap ?b)) (0, [], ?b) =
      (card (fetching_keys ?b), ?due, b1)" "fetches_ok (ps_opts P) (drop_expired b1)"
    "fetch_of (drop_expired b1) = (\<lambda>key. if state_with (overdue ?now) ?b key then None else fetch_of ?b key)"
    "fetching_keys (drop_expired b1) = fetching_keys ?b"
    using survey_drop [OF assms(1)] by blast
  define b2 where "b2 = drop_expired b1"
  define ready where "ready = pe_sort E (fetch_before b2) ?due"
  let ?P = "P\<lparr>ps_book := b2\<rparr>"
  have ready: "set ready = set ?due" "distinct ready"
  proof -
    have m: "mset ready = mset ?due"
      using assms(3) by (simp add: ready_def sort_laws_def)
    show "set ready = set ?due"
      using m by (rule mset_eq_setD)
    show "distinct ready"
      using mset_eq_imp_distinct_iff [OF m] map_ok_distinct [OF fetches_okD(1) [OF assms(1)]] by simp
  qed
  have not_over: "due ?now st \<Longrightarrow> \<not> overdue ?now st" for st
    by (simp add: due_def overdue_def)
  have due_all: "due_all ?now ready b2"
    unfolding due_all_def
  proof
    fix k assume "k \<in> set ready"
    then have "state_with (due ?now) ?b k"
      unfolding ready(1) by simp
    then show "state_with (\<lambda>st. waits st \<and> fs_nextAttempt st \<le> ?now) b2 k"
      using not_over by (auto simp: state_with_def b2_def b1(3) due_def)
  qed
  have run: "fetchAll E P = fetch_ready E ?w (card (fetching_keys b2)) ready ?P"
    by (simp add: fetchAll_def b1(1,4) Let_def b2_def ready_def)
  have out: "ready_outcome (ps_opts P) ?w ready b2 (fetchAll E P)"
    using fetch_ready_run [of ?P ready E ?w] b1(2,4) ready(2) due_all assms(2)
    by (simp add: run b2_def window_ok_def)
  note out = out [unfolded ready_outcome_def, folded b'_def]
  show "fetches_ok (ps_opts P) b'" "window_ok (ps_opts P) b'" "ps_opts (fetchAll E P) = ps_opts P"
    using out by (simp_all add: window_ok_def)
  have in_ready: "k \<in> set ready" if "state_with (due ?now) ?b k" for k
  proof -
    have "k \<in> fst ` set (fb_fetchMap ?b)"
      using that fetches_okD(3) [OF assms(1), of k] map_of_key [of "fb_fetchMap ?b" k]
      by (auto simp: state_with_def)
    then show ?thesis
      using that unfolding ready(1) by simp
  qed
  have rest: "fetch_of b' k = fetch_of b2 k" if "k \<notin> set ready" for k
    using out that by (simp add: untouched_def)
  have waiting: "state_with Q b' k \<Longrightarrow> k \<in> set ready \<Longrightarrow> card (fetching_keys b') < ?w \<Longrightarrow>
      state_with (\<lambda>st. Q st \<and> fs_status st = Fetching) b' k" for Q k
    using out by (auto simp: settled_def state_with_def)
  show "card (fetching_keys b') < ?w \<Longrightarrow> \<not> state_with (due ?now) b' key"
  proof
    assume room: "card (fetching_keys b') < ?w" and d: "state_with (due ?now) b' key"
    show False
    proof (cases "key \<in> set ready")
      case True
      then show False
        using waiting [OF d True room] by (auto simp: state_with_def due_def)
    next
      case False
      then have "state_with (due ?now) ?b key"
        using d rest [OF False] by (auto simp: state_with_def b2_def b1(3) split: if_splits)
      then show False
        using in_ready False by blast
    qed
  qed
  show "\<not> state_with (overdue ?now) b' key"
  proof
    assume o: "state_with (overdue ?now) b' key"
    then have "state_with (\<lambda>st. fs_status st \<noteq> Fetching) b' key"
      by (auto simp: state_with_def overdue_def)
    then have "fetch_of b' key = fetch_of b2 key"
      using out by (simp add: untouched_def)
    then show False
      using o by (auto simp: state_with_def b2_def b1(3) split: if_splits)
  qed
  show "state_with (\<lambda>st. \<not> due ?now st \<and> \<not> overdue ?now st) ?b key \<Longrightarrow>
      fetch_of b' key = fetch_of ?b key"
    using rest [of key] ready(1) by (auto simp: state_with_def b2_def b1(3))
qed

section \<open>Every operation keeps the queue\<close>

text \<open>An operation that leaves the options and keeps the invariant of the queue.\<close>

definition book_ok :: "('n :: linorder, 'b, 'd, 'i, 's, 'f, 'r) svspubsub \<Rightarrow> bool" where
  "book_ok P \<longleftrightarrow> fetches_ok (ps_opts P) (ps_book P) \<and> window_ok (ps_opts P) (ps_book P)"

definition book_safe ::
    "('n :: linorder, 'b, 'd, 'i, 's, 'f, 'r) svspubsub \<Rightarrow> ('n, 'b, 'd, 'i, 's, 'f, 'r) svspubsub \<Rightarrow> bool"
where
  "book_safe P P' \<longleftrightarrow> ps_opts P' = ps_opts P \<and> (book_ok P \<longrightarrow> book_ok P')"

named_theorems book_safety \<open>operations that keep the queue of publications\<close>

lemma book_safe_refl [simp, intro]: "book_safe P P"
  by (simp add: book_safe_def)

lemma book_safe_trans: "book_safe P P' \<Longrightarrow> book_safe P' P'' \<Longrightarrow> book_safe P P''"
  by (simp add: book_safe_def)

lemma book_safe_fetch:
  "ps_opts P' = ps_opts P \<Longrightarrow> fetch_safe (ps_opts P) (ps_book P) (ps_book P') \<Longrightarrow> book_safe P P'"
  by (simp add: book_safe_def book_ok_def fetch_safe_def)

text \<open>The books of what else the object does are not looked at.\<close>

lemma book_safe_same:
  assumes "ps_opts P' = ps_opts P" and "fb_fetchMap (ps_book P') = fb_fetchMap (ps_book P)"
    and "fb_publicationFetchStates (ps_book P') = fb_publicationFetchStates (ps_book P)"
  shows "book_safe P P'"
  using assms
  by (simp add: book_safe_def book_ok_def fetches_ok_def window_ok_def fetching_keys_def)

lemma book_safe_simps [simp]:
  "book_safe P (emit_ps outs P') \<longleftrightarrow> book_safe P P'"
  "book_safe P (with_extra g P') \<longleftrightarrow> book_safe P P'"
  "book_safe P (P'\<lparr>ps_svsync := S\<rparr>) \<longleftrightarrow> book_safe P P'"
  "book_safe P (P'\<lparr>ps_mappingProvider := mp\<rparr>) \<longleftrightarrow> book_safe P P'"
  "book_safe P (P'\<lparr>ps_mappingFetcher := mf\<rparr>) \<longleftrightarrow> book_safe P P'"
  by (auto simp: book_safe_def book_ok_def)

lemma book_safe_clean: "book_safe P P' \<Longrightarrow> book_safe P (with_book (cleanUpFetch key) P')"
  by (erule book_safe_trans) (simp add: book_safe_fetch fetch_safe_clean)

lemma book_safe_clean_alive [book_safety]: "book_safe P (clean_up_alive key P)"
  by (simp add: clean_up_alive_def book_safe_clean)

lemma book_safe_failed [book_safety]: "book_safe P (markPublicationFetchFailed E key P)"
  by (simp add: book_safe_fetch fetch_safe_failed)

lemma book_safe_observe [book_safety]: "book_safe P (observePublicationFetchSuccess E key P)"
  by (simp add: book_safe_fetch fetch_safe_observe)

lemma book_safe_add: "pe_now E \<noteq> 0 \<Longrightarrow>
    book_safe P (with_book (addPublicationFetch (ps_opts P) (pe_now E) key sub) P)"
  by (simp add: book_safe_fetch fetch_safe_add)

text \<open>What the environment provides.\<close>

definition env_ok :: "('n, 'c, 'b, 'd, 'i, 's, 'r) pubsub_env \<Rightarrow> bool" where
  "env_ok E \<longleftrightarrow> pe_now E \<noteq> 0 \<and> sort_laws E"

lemma fetch_ready_opts [simp]: "ps_opts (fetch_ready E window n ready P) = ps_opts P"
  by (induction ready arbitrary: n P) (auto split: option.split)

lemma fetchAll_opts [simp]: "ps_opts (fetchAll E P) = ps_opts P"
  by (simp add: fetchAll_def split_beta Let_def)

lemma book_safe_fetchAll: "env_ok E \<Longrightarrow> book_safe P (fetchAll E P)"
  using fetchAll_run(1-3) [of P E]
  by (simp add: book_safe_def book_ok_def env_ok_def)


section \<open>Mappings\<close>

lemma book_safe_queueOrDeliver:
  assumes "env_ok E"
  shows "book_safe (snd (snd acc)) (snd (snd (queueOrDeliver E name publication sub acc)))"
  using assms book_safe_add [of E "snd (snd acc)" publication sub]
  by (auto simp: queueOrDeliver_def env_ok_def split: prod.split option.split)

lemma book_safe_fold:
  assumes "\<And>x acc. book_safe (part acc) (part (f x acc))"
  shows "book_safe (part acc) (part (fold f xs acc))"
proof (induction xs arbitrary: acc)
  case (Cons x xs)
  then show ?case using book_safe_trans [OF assms [of acc x]] by simp
qed simp

lemma book_safe_processMapping:
  assumes "env_ok E" and "processMapping E publication P = Inr (queued, P')"
  shows "book_safe P P'"
proof -
  obtain nid bootstrapTime seqNo where key: "publication = (nid, bootstrapTime, seqNo)"
    by (cases publication)
  have "book_safe P (snd (snd (fold (queueOrDeliver E name publication) subs (False, False, P))))" for name subs
    using book_safe_fold [of "\<lambda>acc. snd (snd acc)", OF book_safe_queueOrDeliver [OF assms(1)],
        of "(False, False, P)"] by simp
  then show ?thesis
    using assms(2) unfolding processMapping_def key
    by (auto simp: res_bind_def Let_def split_beta split: if_splits sum.splits)
qed

lemma book_safe_with_mapping_fetcher [simp]:
  "book_safe P (with_mapping_fetcher f P') \<longleftrightarrow> book_safe P P'"
  by (simp add: with_mapping_fetcher_def split_beta)

lemma book_safe_schedule: "book_safe P (snd (scheduleMappingFetch E requested streamName P))"
  by (simp add: scheduleMappingFetch_def Let_def book_safe_same)

lemma book_safe_missing: "book_safe P (fetchMissingRange E requested streamName low high P)"
  by (simp add: fetchMissingRange_def book_safe_schedule)

lemma book_safe_marks [book_safety]:
  "book_safe P (with_book (markMappingFetchComplete key) P)"
  "book_safe P (with_book (markMappingFetchFailed opts now key) P)"
  by (simp_all add: book_safe_same markMappingFetchComplete_def markMappingFetchFailed_def Let_def)

lemma seq_loop_fold:
  assumes "seq_loop f low high s = Some t"
  obtains xs where "t = fold f xs s"
proof (cases "high = - 1")
  case True
  then show ?thesis using assms seq_loop_diverges [of f low s] by simp
next
  case False
  then show ?thesis
    using that [of "seq_span low high"] assms seq_loop_returns [OF False, of f low s] by simp
qed

lemma book_safe_seq_loop:
  assumes "seq_loop f low high s = Some t" and "\<And>x acc. book_safe (part acc) (part (f x acc))"
  shows "book_safe (part s) (part t)"
proof -
  obtain xs where "t = fold f xs s"
    by (rule seq_loop_fold [OF assms(1)])
  then show ?thesis
    using book_safe_fold [of part f, OF assms(2)] by simp
qed

lemma book_safe_note:
  assumes "env_ok E" and "note_mapping E requested streamName entry acc = (acc', e)"
  shows "book_safe (snd (snd acc)) (snd (snd acc'))"
  using assms(2) book_safe_processMapping [OF assms(1)]
  by (auto simp: note_mapping_def Let_def split: prod.splits sum.splits)

lemma book_safe_notes:
  assumes "env_ok E" and "note_mappings E requested streamName entries acc = (acc', e)"
  shows "book_safe (snd (snd acc)) (snd (snd acc'))"
  using assms(2)
proof (induction entries arbitrary: acc)
  case (Cons entry entries)
  obtain acc1 e1 where n: "note_mapping E requested streamName entry acc = (acc1, e1)"
    by (metis prod.exhaust)
  note first = book_safe_note [OF assms(1) n]
  show ?case
    using Cons.prems first Cons.IH [of acc1] book_safe_trans [OF first]
    by (cases e1) (auto simp: n)
qed simp

lemma book_safe_gap:
  "book_safe (snd acc) (snd (gap_step (fetchMissingRange E requested streamName) returned seq acc))"
  by (auto simp: gap_step_def book_safe_missing split: prod.split option.split)

lemma book_safe_close:
  "book_safe (snd acc) (close_gap (fetchMissingRange E requested streamName) high acc)"
  by (auto simp: close_gap_def book_safe_missing split: prod.split option.split)

lemma book_safe_fetched [book_safety]:
  assumes "env_ok E" and "onFetchedNameMappings E requested streamName list P = Some (P', e)"
  shows "book_safe P P'"
proof (cases "ml_pairs list = []")
  case True
  then show ?thesis using assms(2) by (simp add: onFetchedNameMappings_def)
next
  case False
  obtain returned queued P1 e1 where n:
    "note_mappings E requested streamName (ml_pairs list) ({}, False, P) = ((returned, queued, P1), e1)"
    by (metis prod.exhaust)
  then have noted: "book_safe P P1"
    using book_safe_notes [OF assms(1) n] by simp
  let ?P2 = "if queued then fetchAll E P1 else P1"
  have P2: "book_safe P ?P2"
    using noted book_safe_trans [OF noted book_safe_fetchAll [OF assms(1)]] by simp
  show ?thesis
  proof (cases e1)
    case None
    let ?fetch = "fetchMissingRange E requested streamName"
    obtain acc where acc: "seq_loop (gap_step ?fetch returned) (md_low requested)
        (max (md_high requested) (md_low requested)) (None, ?P2) = Some acc"
      and P': "P' = close_gap ?fetch (max (md_high requested) (md_low requested)) acc"
      using assms(2) False n None by (auto simp: onFetchedNameMappings_def Let_def)
    have "book_safe ?P2 (snd acc)"
      using book_safe_seq_loop [OF acc, of snd] book_safe_gap by force
    then show ?thesis
      unfolding P' using book_safe_trans [OF P2] book_safe_trans book_safe_close by blast
  next
    case (Some x)
    then show ?thesis using assms(2) False n noted by (simp add: onFetchedNameMappings_def)
  qed
qed


section \<open>Missing data\<close>

lemma book_safe_ranges:
  assumes "fetch_ranges fetch low high P = Some P'"
    and "\<And>low high P. book_safe P (fetch low high P)"
  shows "book_safe P P'"
proof -
  have "(\<forall>low high P. book_safe P (fetch low high P)) \<longrightarrow> book_safe P P'"
  proof (rule fetch_ranges.raw_induct [where P = "\<lambda>fetch low high P P'.
      (\<forall>low high P. book_safe P (fetch low high P)) \<longrightarrow> book_safe P P'", OF _ assms(1)], intro impI)
    fix loop and fetch :: "seq_no \<Rightarrow> seq_no \<Rightarrow> ('a, 'b, 'c, 'd, 'e, 'f, 'g) svspubsub \<Rightarrow> _"
      and low high P P'
    assume IH: "\<And>fetch low high P P'. loop fetch low high P = Some P' \<Longrightarrow>
        (\<forall>low high P. book_safe P (fetch low high P)) \<longrightarrow> book_safe P P'"
      and step: "(if low \<le> high
        then loop fetch (low + 11) high (fetch low (if 10 < high - low then low + 10 else high) P)
        else Some P) = Some P'"
      and safe: "\<forall>low high P. book_safe P (fetch low high P)"
    show "book_safe P P'"
    proof (cases "low \<le> high")
      case True
      then show ?thesis
        using IH [of fetch "low + 11" high _ P'] step safe book_safe_trans by (metis (no_types))
    next
      case False
      then show ?thesis using step by simp
    qed
  qed
  then show ?thesis using assms(2) by blast
qed

lemma seq_scan_steps:
  assumes "seq_scan f low high s = Some t"
  obtains xs where "t = scan_list f xs s"
proof -
  have "\<exists>xs. t = scan_list f xs s"
  proof (rule seq_scan.raw_induct [where P = "\<lambda>f low high s t. \<exists>xs. t = scan_list f xs s", OF _ assms])
    fix loop and f :: "seq_no \<Rightarrow> 'a \<Rightarrow> 'a option" and low high s t
    assume IH: "\<And>f low high s t. loop f low high s = Some t \<Longrightarrow> \<exists>xs. t = scan_list f xs s"
      and step: "(if low \<le> high then case f low s of None \<Rightarrow> Some s | Some t \<Rightarrow> loop f (low + 1) high t
        else Some s) = Some t"
    show "\<exists>xs. t = scan_list f xs s"
    proof (cases "low \<le> high \<and> f low s \<noteq> None")
      case True
      then obtain u where u: "f low s = Some u" "loop f (low + 1) high u = Some t"
        using step by auto
      then obtain xs where "t = scan_list f xs u"
        using IH by blast
      then show ?thesis
        using u(1) by (intro exI [of _ "low # xs"]) simp
    next
      case False
      then show ?thesis
        using step by (intro exI [of _ "[]"]) (auto split: if_splits)
    qed
  qed
  then show ?thesis using that by blast
qed

lemma book_safe_known:
  assumes "env_ok E"
  shows "book_safe (snd acc) (snd (scan_list (process_known E stream) xs acc))"
proof (induction xs arbitrary: acc)
  case (Cons x xs)
  show ?case
  proof (cases "process_known E stream x acc")
    case (Some acc')
    then have "book_safe (snd acc) (snd acc')"
      using book_safe_processMapping [OF assms]
      by (auto simp: process_known_def split: prod.splits sum.splits)
    then show ?thesis
      using Some Cons.IH [of acc'] book_safe_trans by auto
  qed simp
qed simp

lemma book_safe_prefetch: "book_safe P (prefetch_next E stream P)"
  by (simp add: prefetch_next_def split_beta)

lemma book_safe_producers:
  assumes "env_ok E" and "queue_producers E stream subs P = Some P'"
  shows "book_safe P P'"
  using assms(2)
proof (induction subs arbitrary: P)
  case (Cons sub subs)
  show ?case
  proof (cases "nm_is_prefix (pe_ndn E) (su_prefix sub) (md_nodeId stream)")
    case False
    then show ?thesis using Cons by simp
  next
    case True
    let ?add = "\<lambda>i. with_book (addPublicationFetch (ps_opts P) (pe_now E)
      (md_nodeId stream, md_bootstrapTime stream, i) sub)"
    obtain P1 where P1: "seq_loop ?add (md_low stream) (md_high stream) P = Some P1"
      and P': "queue_producers E stream subs (if su_prefetch sub then prefetch_next E stream P1 else P1) = Some P'"
      using Cons.prems True by (auto simp: bind_eq_Some_conv)
    obtain xs where xs: "P1 = fold ?add xs P"
      by (rule seq_loop_fold [OF P1])
    have "ps_opts (fold ?add xs P) = ps_opts P \<and> fetch_safe (ps_opts P) (ps_book P) (ps_book (fold ?add xs P))"
      for xs
    proof (induction xs rule: rev_induct)
      case (snoc x xs)
      then show ?case
        using assms(1) fetch_safe_trans [OF _ fetch_safe_add] by (auto simp: env_ok_def)
    qed simp
    then have safe: "book_safe P P1"
      unfolding xs by (intro book_safe_fetch) auto
    then have "book_safe P (if su_prefetch sub then prefetch_next E stream P1 else P1)"
      using book_safe_trans [OF safe book_safe_prefetch [of P1 E stream]] by simp
    then show ?thesis
      using book_safe_trans Cons.IH [OF P'] by blast
  qed
qed simp

lemma book_safe_mapped:
  assumes "env_ok E" and "queue_mapped E stream P = Some P'"
  shows "book_safe P P'"
proof (cases "fb_prefixSubscriptions (ps_book P) = [] \<and> fb_regexSubscriptions (ps_book P) = []")
  case True
  then show ?thesis using assms(2) by (simp add: queue_mapped_def)
next
  case False
  then obtain low P1 where
    scan: "seq_scan (process_known E stream) (md_low stream) (md_high stream) (md_low stream, P) = Some (low, P1)"
    and ranges: "fetch_ranges (fetchMissingRange E stream (md_nodeId stream)) low (md_high stream) P1 = Some P'"
    using assms(2) by (auto simp: queue_mapped_def bind_eq_Some_conv)
  obtain xs where "(low, P1) = scan_list (process_known E stream) xs (md_low stream, P)"
    by (rule seq_scan_steps [OF scan])
  then have "book_safe P P1"
    using book_safe_known [OF assms(1), of "(md_low stream, P)" stream xs] by (metis snd_conv)
  then show ?thesis
    using book_safe_trans book_safe_ranges [OF ranges book_safe_missing] by blast
qed

lemma book_safe_streams:
  assumes "env_ok E" and "update_streams E info P = Some P'"
  shows "book_safe P P'"
  using assms(2)
proof (induction info arbitrary: P)
  case (Cons stream info)
  then obtain P1 P2 where "queue_producers E stream (fb_producerSubscriptions (ps_book P)) P = Some P1"
    "queue_mapped E stream P1 = Some P2" "update_streams E info P2 = Some P'"
    by (auto simp: bind_eq_Some_conv)
  then show ?case
    using book_safe_producers [OF assms(1)] book_safe_mapped [OF assms(1)] Cons.IH book_safe_trans
    by metis
qed simp

lemma book_safe_update [book_safety]:
  assumes "env_ok E" and "updateCallbackInternal E info P = Some P'"
  shows "book_safe P P'"
proof -
  obtain P1 where "update_streams E info P = Some P1" "P' = emit_ps [OnUpdate info] (fetchAll E P1)"
    using assms(2) by (auto simp: updateCallbackInternal_def)
  then show ?thesis
    using book_safe_trans [OF book_safe_streams [OF assms(1)] book_safe_fetchAll [OF assms(1)]] by simp
qed


section \<open>Delivery\<close>

lemma book_safe_return [book_safety]: "book_safe P (returnData E firstData inner publication P)"
  by (simp add: returnData_def Let_def book_safe_clean split: option.split)

lemma book_safe_validated [book_safety]: "book_safe P (inner_validated E firstData inner publication P)"
  by (simp add: inner_validated_def book_safe_return)

lemma book_safe_sync_data [book_safety]: "book_safe P (onSyncData E firstData publication P)"
  by (auto simp: onSyncData_def Let_def book_safe_failed split: sum.split
      intro: book_safe_clean book_safe_observe book_safe_trans [OF book_safe_observe book_safe_return])

lemma book_safe_deliver_assembly [simp]:
  "book_safe P (deliver_assembly v publication P') \<longleftrightarrow> book_safe P P'"
  by (simp add: deliver_assembly_def split: option.split)

lemma book_safe_finish [book_safety]: "book_safe (snd st) (snd (finishOne publication failed st))"
  by (simp add: finishOne_def Let_def book_safe_clean split: prod.split)

lemma book_safe_validate_blocks:
  "book_safe (snd st) (snd (validate_inner_blocks E publication blocks st))"
proof (induction blocks arbitrary: st)
  case (Cons block blocks)
  obtain v P where st: "st = (v, P)"
    by (cases st)
  let ?next = "\<lambda>packet. if ps_hasEncapsulatedValidator P
    then (v, emit_ps [ValidateSegment packet publication] P) else finishOne publication False (v, P)"
  have "book_safe P (snd (?next packet))" for packet
    using book_safe_finish [of "(v, P)" publication False] by simp
  then show ?case
    using book_safe_trans [OF _ Cons.IH] unfolding st
    by (simp add: book_safe_clean_alive split: option.split)
qed simp

lemma book_safe_segments [book_safety]:
  assumes "segments_complete E publication buffer P = Some (v, P')"
  shows "book_safe P P'"
  using assms book_safe_validate_blocks [of "(_, P)" E publication]
  by (auto simp: segments_complete_def Let_def book_safe_clean_alive book_safe_clean
      split: if_splits option.splits prod.splits) (metis snd_conv)

lemma book_safe_svsync [simp]: "book_safe P (fst (with_svsync f P))"
  by (simp add: with_svsync_def split_beta)

lemma book_safe_data_fetch [book_safety]:
  assumes "on_data_fetch E out P = (P', e)"
  shows "book_safe P P'"
proof (cases out)
  case (Satisfied k data)
  obtain P1 e1 where s: "with_svsync (sb_onDataValidated (pe_base E) data) P = (P1, e1)"
    by (metis prod.exhaust)
  then have P1: "book_safe P P1"
    using book_safe_svsync [of P "sb_onDataValidated (pe_base E) data"] by simp
  show ?thesis
    using assms P1 book_safe_trans [OF P1 book_safe_sync_data]
    by (cases e1; cases k) (auto simp: on_data_fetch_def Satisfied s)
qed (use assms in \<open>auto simp: on_data_fetch_def book_safe_failed split: data_fetch.splits\<close>)

lemma book_safe_mapping_fetch [book_safety]:
  assumes "env_ok E" and "on_mapping_fetch E out P = Some (P', e)"
  shows "book_safe P P'"
proof (cases out)
  case (Satisfied m data)
  show ?thesis
  proof (cases "mp_onDataValidated (pe_ndn E) (mf_query m) data (ps_mappingProvider P)")
    case (Inl e)
    then show ?thesis using assms(2) by (simp add: on_mapping_fetch_def on_mapping_data_def Satisfied)
  next
    case (Inr r)
    let ?P = "with_book (markMappingFetchComplete (mf_key m)) (P\<lparr>ps_mappingProvider := fst r\<rparr>)"
    have "book_safe P ?P"
      by (simp add: book_safe_same markMappingFetchComplete_def)
    moreover have "book_safe ?P P'"
      using assms(2) Inr
      by (cases r) (auto simp: on_mapping_fetch_def on_mapping_data_def Satisfied
          intro: book_safe_fetched [OF assms(1)])
    ultimately show ?thesis by (rule book_safe_trans)
  qed
qed (use assms(2) in \<open>auto simp: on_mapping_fetch_def book_safe_marks\<close>)

section \<open>Extra blocks\<close>

lemma book_safe_repair_publication: "book_safe P (enqueueRepairPublication E key P)"
  by (simp add: enqueueRepairPublication_def Let_def split: prod.split sum.split option.split)

lemma book_safe_piggy:
  "book_safe P (snd (satisfyPendingFetchFromPiggyData N data P))"
proof -
  have step: "book_safe P (deliver_piggy N data ready P)" for ready P
    by (simp add: deliver_piggy_def book_safe_clean split: prod.split)
  then show ?thesis
    using book_safe_fold [of "\<lambda>P. P" "deliver_piggy N data", OF step]
    by (simp add: satisfyPendingFetchFromPiggyData_def Let_def)
qed

lemma book_safe_take_list:
  assumes "take_mapping_list N block acc = (acc', e)"
  shows "book_safe (snd acc) (snd acc')"
proof -
  have step: "book_safe (snd acc) (snd (take_mapping N nid entry acc))" for nid entry acc
    by (simp add: take_mapping_def split: prod.split)
  have "book_safe (snd acc) (snd (fold (take_mapping N nid) entries acc))" for nid entries
    by (rule book_safe_fold [of snd, OF step])
  then show ?thesis
    using assms by (auto simp: take_mapping_list_def split: sum.splits)
qed

lemma book_safe_repairs:
  "take_repairs E requests P = Some P' \<Longrightarrow> book_safe P P'"
proof (induction requests arbitrary: P)
  case (Cons request requests)
  let ?f = "\<lambda>seq. enqueueRepairPublication E (md_nodeId request, md_bootstrapTime request, seq)"
  obtain P1 where P1: "seq_loop ?f (md_low request) (md_high request) P = Some P1"
    and P': "take_repairs E requests P1 = Some P'"
    using Cons.prems by (auto simp: bind_eq_Some_conv)
  have "book_safe P P1"
    using book_safe_seq_loop [OF P1, of "\<lambda>P. P"] book_safe_repair_publication [of _ E] by blast
  then show ?case
    using book_safe_trans Cons.IH [OF P'] by blast
qed simp

lemma book_safe_child:
  assumes "take_child E child acc = Some (acc', e)"
  shows "book_safe (snd acc) (snd acc')"
  using assms book_safe_take_list [of "pe_ndn E" child acc] book_safe_repairs [of E _ "snd acc"]
    book_safe_piggy [of "snd acc" "pe_ndn E"]
  by (auto simp: take_child_def take_data_def Let_def split: if_splits option.splits sum.splits)

lemma book_safe_children:
  "take_children E children acc = Some acc' \<Longrightarrow> book_safe (snd acc) (snd acc')"
proof (induction children arbitrary: acc)
  case (Cons child children)
  obtain acc1 e1 where c: "take_child E child acc = Some (acc1, e1)"
    using Cons.prems by (auto simp: bind_eq_Some_conv)
  show ?case
    using Cons.prems book_safe_child [OF c] Cons.IH [of acc1] book_safe_trans [OF book_safe_child [OF c]]
    by (cases e1) (auto simp: c)
qed simp

lemma book_safe_finish_received:
  assumes "env_ok E"
  shows "book_safe (snd acc) (finish_received E acc)"
proof -
  have step: "book_safe (snd acc) (snd (process_received E key acc))" for key acc
    using book_safe_processMapping [OF assms, of key "snd acc"]
    by (auto simp: process_received_def split: sum.split)
  have "book_safe (snd acc) (snd (fold (process_received E) (fst acc) (False, snd acc)))"
    using book_safe_fold [of snd "process_received E" "(False, snd acc)", OF step] by simp
  then show ?thesis
    using book_safe_trans book_safe_fetchAll [OF assms]
    by (auto simp: finish_received_def Let_def split_beta)
qed

lemma book_safe_recv_data [book_safety]:
  assumes "env_ok E" and "onRecvExtraData E block P = Some (P', e)"
  shows "book_safe P P'"
proof (cases "is_known_extension (pe_ndn E) block \<and> validate_tree (pe_ndn E) block = Inr ()")
  case False
  then have "P' = P"
    using assms(2) by (auto simp: onRecvExtraData_def Let_def split: sum.splits if_splits)
  then show ?thesis by simp
next
  case True
  let ?N = "pe_ndn E"
  obtain acc e1 where l: "take_mapping_list ?N block ([], P) = (acc, e1)"
    by (metis prod.exhaust)
  have start: "book_safe P (snd acc)"
    using book_safe_take_list [OF l] by simp
  have rest: "book_safe P P'" if safe: "book_safe P (snd acc)"
    and result: "map_option (\<lambda>acc. (finish_received E acc, None))
       (case parse_elems ?N block of Inl _ \<Rightarrow> Some acc | Inr es \<Rightarrow> take_children E es acc) = Some (P', e)" for acc
  proof -
    obtain acc' where "P' = finish_received E acc'"
      "(case parse_elems ?N block of Inl _ \<Rightarrow> Some acc | Inr es \<Rightarrow> take_children E es acc) = Some acc'"
      using result by auto
    moreover from this(2) have "book_safe (snd acc) (snd acc')"
      using book_safe_children [of E _ acc acc'] by (auto split: sum.splits)
    ultimately show ?thesis
      using safe book_safe_trans book_safe_finish_received [OF assms(1), of acc'] by blast
  qed
  show ?thesis
  proof (cases "block_type ?N block = tlv_RepairData")
    case False
    then show ?thesis
      using assms(2) True l rest [OF start] by (simp add: onRecvExtraData_def Let_def)
  next
    case repair: True
    show ?thesis
    proof (cases "decodeRepairRequests ?N block")
      case (Inl e2)
      then show ?thesis
        using assms(2) True l repair start by (simp add: onRecvExtraData_def Let_def)
    next
      case (Inr requests)
      then obtain P1 where "take_repairs E requests (snd acc) = Some P1"
        and last: "map_option (\<lambda>acc. (finish_received E acc, None))
          (case parse_elems ?N block of Inl _ \<Rightarrow> Some (fst acc, P1)
           | Inr es \<Rightarrow> take_children E es (fst acc, P1)) = Some (P', e)"
        using assms(2) True l repair by (auto simp: onRecvExtraData_def Let_def bind_eq_Some_conv)
      then have "book_safe P (snd (fst acc, P1))"
        using book_safe_trans [OF start book_safe_repairs] by simp
      then show ?thesis
        by (rule rest [OF _ last])
    qed
  qed
qed

lemma book_safe_recv_blocks:
  assumes "env_ok E"
  shows "recv_blocks E blocks P = Some (P', e) \<Longrightarrow> book_safe P P'"
proof (induction blocks arbitrary: P)
  case (Cons block blocks)
  obtain P1 e1 where one: "onRecvExtraData E block P = Some (P1, e1)"
    using Cons.prems by (auto simp: bind_eq_Some_conv)
  show ?case
    using Cons.prems Cons.IH [of P1] book_safe_recv_data [OF assms one]
      book_safe_trans [OF book_safe_recv_data [OF assms one]]
    by (cases e1) (auto simp: one)
qed simp

lemma book_safe_recv [book_safety]:
  assumes "env_ok E" and "onRecvExtraBlocks E blocks P = Some (P', e)"
  shows "book_safe P P'"
  using assms(2) book_safe_recv_blocks [OF assms(1), of blocks P P' e]
  by (auto simp: onRecvExtraBlocks_def split: sum.splits)


section \<open>Publishing\<close>

text \<open>Publishing does not touch the queue of fetches.\<close>

definition same_book ::
    "('n, 'b, 'd, 'i, 's, 'f, 'r) svspubsub \<Rightarrow> ('n, 'b, 'd, 'i, 's, 'f, 'r) svspubsub \<Rightarrow> bool" where
  "same_book P P' \<longleftrightarrow> ps_book P' = ps_book P \<and> ps_opts P' = ps_opts P"

lemma same_book_safe: "same_book P P' \<Longrightarrow> book_safe P P'"
  by (simp add: same_book_def book_safe_same)

lemma same_book_refl [simp, intro]: "same_book P P"
  by (simp add: same_book_def)

lemma same_book_trans: "same_book P P' \<Longrightarrow> same_book P' P'' \<Longrightarrow> same_book P P''"
  by (simp add: same_book_def)

lemma same_book_with [simp]:
  "same_book P (with_publisher f P') \<longleftrightarrow> same_book P P'"
  "same_book P (P'\<lparr>ps_publisher := b\<rparr>) \<longleftrightarrow> same_book P P'"
  "same_book P (push_piggy publication P') \<longleftrightarrow> same_book P P'"
  "same_book P (fst (with_svsync g P')) \<longleftrightarrow> same_book P P'"
  by (simp_all add: same_book_def with_publisher_def push_piggy_def with_svsync_def split_beta
      split: option.split)

lemma same_book_from [simp]:
  "same_book (with_publisher f P) P' \<longleftrightarrow> same_book P P'"
  "same_book (P\<lparr>ps_publisher := b\<rparr>) P' \<longleftrightarrow> same_book P P'"
  "same_book (push_piggy publication P) P' \<longleftrightarrow> same_book P P'"
  by (simp_all add: same_book_def with_publisher_def push_piggy_def split: option.split)

lemma same_book_store [simp]: "same_book P (fst (store_batch E packets P')) \<longleftrightarrow> same_book P P'"
  by (simp add: store_batch_def)

lemma same_book_announce [simp]: "same_book P (fst (announce E s n P')) \<longleftrightarrow> same_book P P'"
  by (simp add: announce_def)

lemma same_book_put [simp]: "same_book P (put_first E publication P') \<longleftrightarrow> same_book P P'"
  by (simp add: put_first_def caught_def split: list.split)

lemma same_book_unstore [simp]: "same_book P (fst (unstore_batch E packets P')) \<longleftrightarrow> same_book P P'"
  by (simp add: unstore_batch_def same_book_def split_beta)

lemma same_book_insert [simp]:
  "same_book P (fst (insertMapping E nid b s name blocks P')) \<longleftrightarrow> same_book P P'"
  by (simp add: insertMapping_def same_book_def Let_def split: sum.split)

lemma same_book_and_then:
  assumes "same_book P (part (fst r))" and "\<And>s. same_book P (part s) \<Longrightarrow> same_book P (part (fst (f s)))"
  shows "same_book P (part (fst (and_then r f)))"
  using assms by (cases r; cases "snd r") auto

lemma same_book_store_eq: "store_batch E packets P = (P', e) \<Longrightarrow> same_book P P'"
  using same_book_store [of P E packets P] by simp

lemma same_book_insert_eq: "insertMapping E nid b s name blocks P = (P', e) \<Longrightarrow> same_book P P'"
  using same_book_insert [of P E nid b s name blocks P] by simp

lemma same_book_unstore_eq: "unstore_batch E packets P = (P', r) \<Longrightarrow> same_book P P'"
  using same_book_unstore [of P E packets P] by simp

lemma same_book_commit: "same_book P (snd (fst (commitPreparedPublication E publication P)))"
  by (auto simp: commitPreparedPublication_def rollback_commit_def and_then_def
      split: prod.split option.split bool.split
      dest!: same_book_store_eq same_book_insert_eq same_book_unstore_eq
      intro: same_book_trans)

lemma same_book_attempt: "same_book P (snd (fst (commit_attempt E nid publication P)))"
proof -
  obtain p P' e where c: "commitPreparedPublication E publication P = ((p, P'), e)"
    by (metis prod.exhaust)
  have safe: "same_book P P'"
    using same_book_commit [of P E publication] c by simp
  show ?thesis
    using safe by (cases e) (auto simp: commit_attempt_def c split_beta split: option.split)
qed

lemma same_book_loop: "same_book P (commit_loop E nid rounds P)"
proof (induction rounds arbitrary: P)
  case (Suc rounds)
  show ?case
  proof (cases "take_ready nid (ps_publisher P)")
    case (Some taken)
    obtain publication b where taken: "taken = (publication, b)"
      by (cases taken)
    obtain p P1 e where a: "commit_attempt E nid publication (P\<lparr>ps_publisher := b\<rparr>) = ((p, P1), e)"
      by (metis prod.exhaust)
    have "same_book (P\<lparr>ps_publisher := b\<rparr>) P1"
      using same_book_attempt [of "P\<lparr>ps_publisher := b\<rparr>" E nid publication] a by simp
    then have safe: "same_book P P1"
      by (simp add: same_book_def)
    show ?thesis
    proof (cases e)
      case None
      have "same_book P (with_publisher (advance_next nid (pp_seqNo p)) P1)"
        using safe by simp
      then show ?thesis
        using Some taken a None same_book_trans Suc.IH by fastforce
    qed (use Some taken a safe in simp)
  qed simp
qed simp

lemma same_book_ready: "same_book P (commitReadyPreparedPublications E nid P)"
  unfolding commitReadyPreparedPublications_def by (rule same_book_loop)

lemma same_book_posted: "same_book P (run_posted E publication P)"
  by (auto simp: run_posted_def onPreparedPublication_def Let_def
      intro!: same_book_trans [OF _ same_book_ready])

lemma same_book_retry: "same_book P (fire_retry E timer P)"
  by (auto simp: fire_retry_def Let_def split: prod.split option.split
      intro!: same_book_trans [OF _ same_book_ready])

lemma same_book_stage:
  "same_book P (fst (snd (prepareAndStageAsyncPublication E publication P)))"
  by (auto simp: prepareAndStageAsyncPublication_def Let_def and_then_def
      split: sum.split prod.split option.split dest!: same_book_store_eq intro: same_book_trans)

lemma same_book_with_eq: "with_svsync g P = (P', e) \<Longrightarrow> same_book P P'"
  using same_book_with(4) [of P g P] by simp

lemma same_book_announce_eq: "announce E s nid P = (P', e) \<Longrightarrow> same_book P P'"
  using same_book_announce [of P E s nid P] by simp

lemma same_book_commit_eq:
  "commitPreparedPublication E publication P = ((p, P'), e) \<Longrightarrow> same_book P P'"
  using same_book_commit [of P E publication] by simp

lemma same_book_publish: "same_book P (fst (snd (publish E name v nodePrefix freshness blocks P)))"
  by (auto simp: publish_def Let_def and_then_def split: sum.split prod.split option.split
      dest!: same_book_commit_eq same_book_announce_eq intro: same_book_trans)

lemma same_book_name: "same_book P (fst (snd (publishName E name nodePrefix blocks P)))"
  by (auto simp: publishName_def reserveSeqNo_def Let_def and_then_def
      split: prod.split option.split dest!: same_book_announce_eq same_book_insert_eq
      intro: same_book_trans)

lemma same_book_packet: "same_book P (fst (snd (publishPacket E data nodePrefix blocks P)))"
  by (auto simp: publishPacket_def reserveSeqNo_def Let_def and_then_def
      split: prod.split option.split
      dest!: same_book_with_eq same_book_announce_eq same_book_insert_eq intro: same_book_trans)

end
