(* ===== verification/Publish_Properties.thy ===== *)
theory Publish_Properties
  imports Fetch_Queue
begin

text \<open>
  What a commit of a publication (\<^verbatim>\<open>commitPreparedPublication\<close> of
  \<^verbatim>\<open>svspubsub.cpp\<close>) leaves behind when it fails, and what happens to a node that publishes
  both synchronously and asynchronously.
\<close>

section \<open>A commit is all or nothing\<close>

abbreviation store_of :: "('n, 'b, 'd, 'i, 's, 'f, 'r) svspubsub \<Rightarrow> 's" where
  "store_of P \<equiv> sb_dataStore (ps_svsync P)"

abbreviation env_store :: "('n, 'c, 'b, 'd, 'i, 's, 'r) pubsub_env \<Rightarrow> ('s, 'n, 'd) data_store" where
  "env_store E \<equiv> be_store (pe_base E)"

text \<open>Everything but the store.\<close>

definition same_but_store ::
    "('n, 'b, 'd, 'i, 's, 'f, 'r) svspubsub \<Rightarrow> ('n, 'b, 'd, 'i, 's, 'f, 'r) svspubsub \<Rightarrow> bool" where
  "same_but_store P P' \<longleftrightarrow> (\<exists>s. P' = P\<lparr>ps_svsync := (ps_svsync P)\<lparr>sb_dataStore := s\<rparr>\<rparr>)"

lemma same_but_store_refl: "same_but_store P P"
  by (auto simp: same_but_store_def intro: exI [of _ "store_of P"])

lemma same_but_store_trans: "same_but_store P P' \<Longrightarrow> same_but_store P' P'' \<Longrightarrow> same_but_store P P''"
  by (auto simp: same_but_store_def)

lemma same_but_storeD: "same_but_store P P' \<Longrightarrow> P' = P\<lparr>ps_svsync := (ps_svsync P)\<lparr>sb_dataStore := store_of P'\<rparr>\<rparr>"
  by (auto simp: same_but_store_def)

lemma store_batch_run:
  assumes "store_laws (pe_ndn E) (env_store E) look" and "erases (env_store E)"
    and "\<forall>p \<in> set packets. look (store_of P) (data_name (pe_ndn E) p) = None"
    and "store_batch E packets P = (P', e)"
  shows "same_but_store P P'" and "look (store_of P') =
    (if e = None then put_all (pe_ndn E) packets (look (store_of P)) else look (store_of P))"
proof -
  obtain s' r where i: "insertPreparedDataBatch (pe_ndn E) (env_store E) packets (store_of P) = (s', r)"
    by (metis prod.exhaust)
  have P': "P' = P\<lparr>ps_svsync := (ps_svsync P)\<lparr>sb_dataStore := s'\<rparr>\<rparr>" "e = r"
    using assms(4) i by (auto simp: store_batch_def with_svsync_def with_store_def Let_def split_beta)
  show "same_but_store P P'"
    by (auto simp: P' same_but_store_def)
  show "look (store_of P') =
      (if e = None then put_all (pe_ndn E) packets (look (store_of P)) else look (store_of P))"
    using batch_outcome [OF assms(1-3) i] by (auto simp: P' put_all_def split: option.splits)
qed

lemma unstore_batch_run:
  assumes "store_laws (pe_ndn E) (env_store E) look" and "unstore_batch E packets P = (P', True)"
  shows "same_but_store P P'" and "look (store_of P') =
    (\<lambda>n. if n \<in> data_name (pe_ndn E) ` set packets then None else look (store_of P) n)"
  using assms erase_names_look [OF assms(1)]
  by (auto simp: unstore_batch_def removePreparedDataBatch_def same_but_store_def Let_def
      split: prod.splits option.splits if_splits)

lemma insertMapping_run:
  assumes "insertMapping E nid b s name blocks P = (P', e)"
  shows "ps_svsync P' = ps_svsync P" and "e \<noteq> None \<Longrightarrow> P' = P"
    and "e = None \<Longrightarrow> \<exists>blocks'. mp_getMapping (pe_ndn E) nid b s (ps_mappingProvider P') = Inr (name, blocks')"
  using assms
  by (auto simp: insertMapping_def Let_def mp_getMapping_def mp_insertMapping_def split: sum.splits if_splits)


lemma face_put_store [simp]: "sb_dataStore (fst (face_put B d S)) = sb_dataStore S"
  by (simp add: face_put_def split: option.split)

lemma put_first_store [simp]: "store_of (put_first E p P) = store_of P"
  by (simp add: put_first_def with_svsync_def caught_def split_beta split: list.split)

lemma put_first_provider [simp]: "ps_mappingProvider (put_first E p P) = ps_mappingProvider P"
  by (simp add: put_first_def with_svsync_def caught_def split_beta split: list.split)

lemma push_piggy_parts [simp]:
  "ps_svsync (push_piggy p P) = ps_svsync P" "ps_mappingProvider (push_piggy p P) = ps_mappingProvider P"
  by (simp_all add: push_piggy_def split: option.split)

lemma unstore_stored:
  assumes "store_batch E packets P = (P1, None)" and "packets \<noteq> []" and "erases (env_store E)"
  obtains P' where "unstore_batch E packets P2 = (P', True)"
proof -
  have "ds_supportsErase (env_store E)"
    using assms(1,2) by (auto simp: store_batch_def with_svsync_def with_store_def insertPreparedDataBatch_def Let_def
        split: if_splits prod.splits)
  then have "\<forall>n s. snd (ds_erase (env_store E) n s) = None"
    using assms(3) by (simp add: erases_def)
  then obtain s where "erase_names (env_store E) (rev (map (data_name (pe_ndn E)) packets)) (store_of P2) = (s, None)"
    using erase_names_total by (metis prod.collapse)
  then show thesis
    using that \<open>ds_supportsErase (env_store E)\<close> by (simp add: unstore_batch_def removePreparedDataBatch_def)
qed

lemma commit_failed:
  assumes laws: "store_laws (pe_ndn E) (env_store E) look" "erases (env_store E)"
    and fresh: "\<forall>packet \<in> set (pp_outerPackets p). look (store_of P) (data_name (pe_ndn E) packet) = None"
    and "\<not> pp_stored p" and run: "commitPreparedPublication E p P = ((p', P'), Some e)"
  shows "same_but_store P P' \<and> look (store_of P') = look (store_of P) \<and> \<not> pp_stored p'"
proof (cases "pp_ok p")
  case False
  then show ?thesis
    using run assms(4) by (simp add: commitPreparedPublication_def same_but_store_refl)
next
  case ok: True
  obtain P1 e1 where s: "store_batch E (pp_outerPackets p) P = (P1, e1)"
    by (metis prod.exhaust)
  note stored = store_batch_run [OF laws fresh s]
  show ?thesis
  proof (cases e1)
    case (Some x)
    then show ?thesis
      using run ok assms(4) s stored by (simp add: commitPreparedPublication_def)
  next
    case None
    let ?p = "p\<lparr>pp_stored := pp_outerPackets p \<noteq> []\<rparr>"
    obtain P2 e2 where i: "insertMapping E (pp_nodePrefix p) (pp_bootstrapTime p) (pp_seqNo p) (pp_mappingName p)
        (pp_mappingBlocks p) P1 = (P2, e2)"
      by (metis prod.exhaust)
    obtain x where e2: "e2 = Some x"
      using run ok assms(4) s None i by (cases e2) (simp_all add: commitPreparedPublication_def)
    then have P2: "P2 = P1"
      using insertMapping_run(2) [OF i] by simp
    have undo: "rollback_commit E x ?p P1 = ((p', P'), Some e)"
      using run ok assms(4) s None i e2 P2 by (simp add: commitPreparedPublication_def)
    show ?thesis
    proof (cases "pp_outerPackets p = []")
      case True
      then show ?thesis
        using undo stored None by (auto simp: rollback_commit_def put_all_def)
    next
      case False
      obtain P3 where u: "unstore_batch E (pp_outerPackets p) P1 = (P3, True)"
        by (rule unstore_stored [OF _ False laws(2)]) (use s None in simp_all)
      have "P' = P3" "\<not> pp_stored p'"
        using undo False u by (auto simp: rollback_commit_def)
      moreover have "same_but_store P P3"
        using same_but_store_trans [OF stored(1) unstore_batch_run(1) [OF laws(1) u]] .
      moreover have "look (store_of P3) = look (store_of P)"
        using unstore_batch_run(2) [OF laws(1) u] stored(2) None erase_put_all [OF fresh]
        by (simp cong: if_cong)
      ultimately show ?thesis
        by blast
    qed
  qed
qed



text \<open>A packet whose commit fails because the clock does.\<close>

definition sample_stopped_clock ::
    "(i_name, i_comp, i_block, i_data, i_interest, (i_name \<times> i_data) list, nat) pubsub_env" where
  "sample_stopped_clock = sample_pubsub_env\<lparr>pe_timestamp := Inl (RuntimeError ''clock'')\<rparr>"

definition sample_packets_prepared :: "(i_name, i_block, i_data) prepared_publication" where
  "sample_packets_prepared = sample_prepared\<lparr>pp_outerPackets := [sample_packet 1]\<rparr>"

lemma sample_commit_fails:
  "snd (commitPreparedPublication sample_stopped_clock sample_packets_prepared sample_pubsub) =
     Some (RuntimeError ''clock'')"
  by (simp add: commitPreparedPublication_def sample_packets_prepared_def sample_prepared_def
      sample_stopped_clock_def sample_pubsub_env_def sample_base_env_def sample_env_def sample_pubsub_def
      default_pubsub_options_def store_batch_def with_svsync_def with_store_def insertPreparedDataBatch_def
      sample_store_def sample_packet_def i_eval i_data_wire_def i_meta_wire_def i_meta_blocks_def
      MAX_NDN_PACKET_SIZE_def insertMapping_def rollback_commit_def unstore_batch_def removePreparedDataBatch_def
      Let_def)


section \<open>Mixing the two ways of publishing\<close>

text \<open>The number to be committed next is held by no publication.\<close>

definition stalled :: "'n \<Rightarrow> seq_no \<Rightarrow> ('n :: linorder, 'b, 'd) publisher \<Rightarrow> bool" where
  "stalled nid s b \<longleftrightarrow> map_of (pb_nextAsyncCommitSeq b) nid = Some s \<and>
     map_of (inner_map nid (pb_preparedPublications b)) s = None"

lemma stalled_ready: "stalled nid s b \<Longrightarrow> take_ready nid b = None"
  by (simp add: stalled_def take_ready_def)

lemma stalled_posted:
  assumes "stalled nid s (ps_publisher P)" and "pp_nodePrefix p = nid" and "pp_seqNo p \<noteq> s"
  shows "stalled nid s (ps_publisher (run_posted E p P)) \<and> ps_core (run_posted E p P) = ps_core P"
proof -
  let ?f = "\<lambda>b. b\<lparr>pb_posted := remove1 p (pb_posted b)\<rparr>"
  let ?g = "\<lambda>b. b\<lparr>pb_stagedPublicationPackets := nested_erase nid (pp_seqNo p) (pb_stagedPublicationPackets b),
    pb_preparedPublications := nested_put nid (pp_seqNo p) p (pb_preparedPublications b)\<rparr>"
  have held: "stalled nid s (?g (?f (ps_publisher P)))"
    using assms(1,3) by (simp add: stalled_def inner_map_nested_put)
  show ?thesis
  proof (cases "pb_asyncPublishAlive (ps_publisher P)")
    case True
    have "run_posted E p P = with_publisher ?g (with_publisher ?f P)"
      using True assms(2) stalled_ready [OF held]
      by (simp add: run_posted_def onPreparedPublication_def Let_def commitReadyPreparedPublications_def with_publisher_def)
    then show ?thesis
      using held by (simp add: with_publisher_def ps_core_def)
  next
    case False
    then show ?thesis
      using assms(1) by (simp add: run_posted_def with_publisher_def stalled_def ps_core_def)
  qed
qed

lemma stalled_fold:
  assumes "stalled nid s (ps_publisher P)" and "\<forall>p \<in> set ps. pp_nodePrefix p = nid \<and> pp_seqNo p \<noteq> s"
  shows "ps_core (fold (run_posted E) ps P) = ps_core P \<and> stalled nid s (ps_publisher (fold (run_posted E) ps P))"
  using assms
proof (induction ps arbitrary: P)
  case (Cons p ps)
  then show ?case
    using stalled_posted [of nid s P p E] by simp
qed simp

lemma publishName_publisher:
  assumes "publishName E name nodePrefix blocks P = (s, P1, None)"
  shows "ps_publisher P1 = (let nid = or_dataPrefix E nodePrefix P in
    (ps_publisher P)\<lparr>pb_reservedSeqNo := map_put nid s (pb_reservedSeqNo (ps_publisher P)),
      pb_nextAsyncCommitSeq := map_touch nid s (pb_nextAsyncCommitSeq (ps_publisher P))\<rparr>)"
proof -
  define nid where "nid = or_dataPrefix E nodePrefix P"
  obtain P0 where r: "reserveSeqNo E nid P = (s, P0)"
    using assms by (auto simp: publishName_def nid_def Let_def split: prod.splits)
  have P0: "ps_publisher P0 = (ps_publisher P)\<lparr>pb_reservedSeqNo := map_put nid s (pb_reservedSeqNo (ps_publisher P)),
      pb_nextAsyncCommitSeq := map_touch nid s (pb_nextAsyncCommitSeq (ps_publisher P))\<rparr>"
    using r by (auto simp: reserveSeqNo_def with_publisher_def Let_def)
  obtain P2 e where m: "insertMapping E nid (m_bootstrapTime (ps_core P0)) s name blocks P0 = (P2, e)"
    by (metis prod.exhaust)
  have "ps_publisher P2 = ps_publisher P0"
    using insertMapping_publisher by (metis m fst_conv)
  moreover have "ps_publisher P1 = ps_publisher P2"
    using assms r m by (cases e) (auto simp: publishName_def nid_def [symmetric] announce_def with_svsync_def split: prod.splits)
  ultimately show ?thesis
    using P0 by (simp add: nid_def Let_def)
qed

text \<open>
  After a name or a packet has been published synchronously with a number that the application
  did not choose, the asynchronous publications of the same node are never committed: whatever
  publications are handed over with later numbers, the node to advertise and the number to commit
  next stay as they were.
\<close>

theorem mixed_publication_stalls:
  assumes "publishName E name nodePrefix blocks P = (s, P1, None)"
    and "nid = or_dataPrefix E nodePrefix P"
    and "map_of (pb_nextAsyncCommitSeq (ps_publisher P)) nid = None"
    and "map_of (inner_map nid (pb_preparedPublications (ps_publisher P))) s = None"
    and "\<forall>p \<in> set ps. pp_nodePrefix p = nid \<and> pp_seqNo p \<noteq> s"
  shows "ps_core (fold (run_posted E) ps P1) = ps_core P1 \<and>
    map_of (pb_nextAsyncCommitSeq (ps_publisher (fold (run_posted E) ps P1))) nid = Some s"
proof -
  have "ps_publisher P1 = (ps_publisher P)\<lparr>pb_reservedSeqNo := map_put nid s (pb_reservedSeqNo (ps_publisher P)),
      pb_nextAsyncCommitSeq := map_touch nid s (pb_nextAsyncCommitSeq (ps_publisher P))\<rparr>"
    using publishName_publisher [OF assms(1)] by (simp add: assms(2) Let_def)
  then have "stalled nid s (ps_publisher P1)"
    using assms(3,4) by (simp add: stalled_def map_touch_def)
  then show ?thesis
    using stalled_fold [OF _ assms(5)] by (auto simp: stalled_def)
qed

definition sample_second :: "(i_name, i_block, i_data) prepared_publication" where
  "sample_second = sample_prepared\<lparr>pp_seqNo := 2\<rparr>"

lemma sample_publishName:
  "\<exists>P. publishName sample_pubsub_env [(8, [78])] [] [] sample_pubsub = (1, P, None)"
proof -
  have m: "\<exists>Q. insertMapping sample_pubsub_env nid b s name blocks P = (Q, None)" for nid b s name blocks P
    by (simp add: insertMapping_def sample_pubsub_env_def Let_def)
  have "\<exists>Q. announce sample_pubsub_env 1 [(8, [66])] P = (Q, None)" for P
    using announce_effect [of 1 "[(8, [66])]" sample_pubsub_env P] by (simp add: sample_pubsub_ndn i_names)
  then have "\<exists>Q. and_then (insertMapping sample_pubsub_env nid b s name blocks P)
      (announce sample_pubsub_env 1 [(8, [66])]) = (Q, None)" for nid b s name blocks P
    using m [of nid b s name blocks P] by (auto simp: and_then_def)
  then show ?thesis
    by (simp add: publishName_def reserveSeqNo_def or_dataPrefix_def sample_pubsub_ndn sample_pubsub_fields i_names
        sample_seqNo publisher_new_def map_read_def with_publisher_def Let_def)
qed

theorem mixed_publication_stalls_witness:
  "\<exists>P. publishName sample_pubsub_env [(8, [78])] [] [] sample_pubsub = (1, P, None) \<and>
     ps_core (run_posted sample_pubsub_env sample_second P) = ps_core P \<and>
     map_of (pb_nextAsyncCommitSeq (ps_publisher (run_posted sample_pubsub_env sample_second P))) [(8, [66])] = Some 1"
proof -
  obtain P where p: "publishName sample_pubsub_env [(8, [78])] [] [] sample_pubsub = (1, P, None)"
    using sample_publishName by blast
  have nid: "[(8, [66])] = or_dataPrefix sample_pubsub_env [] sample_pubsub"
    by (simp add: or_dataPrefix_def sample_pubsub_ndn sample_pubsub_fields i_names)
  have "ps_core (fold (run_posted sample_pubsub_env) [sample_second] P) = ps_core P \<and>
      map_of (pb_nextAsyncCommitSeq (ps_publisher (fold (run_posted sample_pubsub_env) [sample_second] P)))
        [(8, [66])] = Some 1"
    using mixed_publication_stalls [OF p nid, of "[sample_second]"]
    by (simp add: sample_pubsub_fields publisher_new_def inner_map_def sample_second_def sample_prepared_def)
  then show ?thesis
    using p by auto
qed

end
