(* ===== verification/Fetch_Properties.thy ===== *)
theory Fetch_Properties
  imports Fetch_Queue
begin

text \<open>
  What the queue of publications guarantees: the steps of the object, the invariant of every
  state it can reach, and what one call of \<^verbatim>\<open>fetchAll\<close> achieves.
\<close>

section \<open>Reachable states\<close>

text \<open>
  What happens to the object after its construction: calls of the application, what the core
  tells it, the ends of its fetches and validations, its timer, the posted lambdas and retries,
  and whatever its fetchers and the core do on their own. The environment changes from step to
  step.
\<close>

definition runs :: "('n, 'c, 'b, 'd, 'i) ndn \<Rightarrow> ('n :: linorder, 'c, 'b, 'd, 'i, 's, 'r) pubsub_env \<Rightarrow> bool" where
  "runs N E \<longleftrightarrow> env_ok E \<and> pe_ndn E = N"

inductive pubsub_step ::
    "('n, 'c, 'b, 'd, 'i) ndn \<Rightarrow> ('n :: linorder, 'b, 'd, 'i, 's, 'f, 'r) svspubsub \<Rightarrow> ('n, 'b, 'd, 'i, 's, 'f, 'r) svspubsub \<Rightarrow> bool"
  for N
where
  step_update: "runs N E \<Longrightarrow> updateCallbackInternal E info P = Some P' \<Longrightarrow> pubsub_step N P P'"
| step_timer: "runs N E \<Longrightarrow> pubsub_step N P (fetchAll E P)"
| step_data: "runs N E \<Longrightarrow> on_data_fetch E out P = (P', e) \<Longrightarrow> pubsub_step N P P'"
| step_mapping: "runs N E \<Longrightarrow> on_mapping_fetch E mout P = Some (P', e) \<Longrightarrow> pubsub_step N P P'"
| step_validated: "runs N E \<Longrightarrow> pubsub_step N P (inner_validated E firstData inner key P)"
| step_clean: "pubsub_step N P (clean_up_alive key P)"
| step_finish: "finishOne key failed (v, P) = (v', P') \<Longrightarrow> pubsub_step N P P'"
| step_segments: "runs N E \<Longrightarrow> segments_complete E key buffer P = Some (v', P') \<Longrightarrow> pubsub_step N P P'"
| step_send: "pubsub_step N P (with_extra (\<lambda>x. snd (onGetExtraBlocks N (ps_opts P) limit x)) P)"
| step_receive: "runs N E \<Longrightarrow> onRecvExtraBlocks E blocks P = Some (P', e) \<Longrightarrow> pubsub_step N P P'"
| step_subscribe: "pubsub_step N P (with_book (\<lambda>b. snd (subscribe prefix f packets b)) P)"
| step_regex: "pubsub_step N P (with_book (\<lambda>b. snd (subscribeWithRegex N r f autofetch packets b)) P)"
| step_producer: "pubsub_step N P (with_book (\<lambda>b. snd (subscribeToProducer prefix f prefetch packets b)) P)"
| step_unsubscribe: "pubsub_step N P (with_book (unsubscribe handle) P)"
| step_publish: "runs N E \<Longrightarrow> publish E name value nodePrefix freshness mblocks P = (seqNo, P', e) \<Longrightarrow> pubsub_step N P P'"
| step_name: "runs N E \<Longrightarrow> publishName E name nodePrefix mblocks P = (seqNo, P', e) \<Longrightarrow> pubsub_step N P P'"
| step_packet: "runs N E \<Longrightarrow> publishPacket E data nodePrefix mblocks P = (seqNo, P', e) \<Longrightarrow> pubsub_step N P P'"
| step_stage: "runs N E \<Longrightarrow> prepareAndStageAsyncPublication E publication P = (seqNo, P', e) \<Longrightarrow> pubsub_step N P P'"
| step_posted: "runs N E \<Longrightarrow> pubsub_step N P (run_posted E prepared P)"
| step_retry: "runs N E \<Longrightarrow> pubsub_step N P (fire_retry E timer P)"
| step_destroy: "runs N E \<Longrightarrow> pubsub_step N P (svspubsub_destroy E P)"
| step_svsync: "pubsub_step N P (P\<lparr>ps_svsync := S\<rparr>)"
| step_fetcher: "pubsub_step N P (P\<lparr>ps_mappingFetcher := F\<rparr>)"

inductive pubsub_reachable ::
    "('n, 'c, 'b, 'd, 'i) ndn \<Rightarrow> ('n :: linorder, 'b, 'd, 'i, 's, 'f, 'r) svspubsub \<Rightarrow> bool"
  for N where
  reach_new: "svspubsub_new N syncPrefix nodePrefix options hasValidator vfRetries
      hasEncapsulatedValidator subscriptionCount svsync = Inr P \<Longrightarrow> pubsub_reachable N P"
| reach_step: "pubsub_reachable N P \<Longrightarrow> pubsub_step N P P' \<Longrightarrow> pubsub_reachable N P'"

lemma book_safe_with_book_same:
  assumes "\<And>b. fb_fetchMap (f b) = fb_fetchMap b"
    and "\<And>b. fb_publicationFetchStates (f b) = fb_publicationFetchStates b"
  shows "book_safe P (with_book f P)"
  using assms by (intro book_safe_same) simp_all

lemma same_book_result:
  "same_book P (fst (snd r)) \<Longrightarrow> r = (seqNo, P', e) \<Longrightarrow> book_safe P P'"
  by (simp add: same_book_safe)

lemma same_book_destroy: "same_book P (svspubsub_destroy E P)"
proof -
  have fold: "same_book Q (fold (\<lambda>batch P. fst (unstore_batch E batch P)) packets Q')"
    if "same_book Q Q'" for packets Q Q'
    using that by (induction packets arbitrary: Q') simp_all
  show ?thesis
    unfolding svspubsub_destroy_def Let_def by (rule fold) simp
qed

lemma book_safe_step: "pubsub_step N P P' \<Longrightarrow> book_safe P P'"
proof (induction rule: pubsub_step.induct)
  case (step_update E info P P')
  then show ?case by (auto simp: runs_def intro: book_safe_update)
next
  case (step_mapping E mout P P' e)
  then show ?case by (auto simp: runs_def intro: book_safe_mapping_fetch)
next
  case (step_receive E blocks P P' e)
  then show ?case by (auto simp: runs_def intro: book_safe_recv)
next
  case (step_finish key failed v P v' P')
  then show ?case using book_safe_finish [of "(v, P)" key failed] by simp
next
  case (step_publish E name v nodePrefix freshness mblocks P seqNo P' e)
  then show ?case using same_book_result [OF same_book_publish] by blast
next
  case (step_name E name nodePrefix mblocks P seqNo P' e)
  then show ?case using same_book_result [OF same_book_name] by blast
next
  case (step_packet E data nodePrefix mblocks P seqNo P' e)
  then show ?case using same_book_result [OF same_book_packet step_packet(2)] by simp
next
  case (step_stage E publication P seqNo P' e)
  then show ?case using same_book_result [OF same_book_stage] by blast
qed (simp_all add: runs_def book_safe_fetchAll same_book_safe same_book_posted same_book_retry same_book_destroy
      book_safe_with_book_same subscribe_def subscribeWithRegex_def subscribeToProducer_def
      unsubscribe_def Let_def book_safety)

lemma book_ok_new: "ps_book P = fetch_book_new handles \<Longrightarrow> book_ok P"
  by (simp add: book_ok_def fetches_ok_def window_ok_def fetching_keys_def fetch_book_new_def)

lemma reachable_book_ok: "pubsub_reachable N P \<Longrightarrow> book_ok P"
proof (induction rule: pubsub_reachable.induct)
  case (reach_new syncPrefix nodePrefix options hasValidator vfRetries enc handles svsync P)
  have "ps_book P = fetch_book_new handles"
    using reach_new by (cases svsync) (auto simp: svspubsub_new_def Let_def split_beta)
  then show ?case by (rule book_ok_new)
next
  case (reach_step P P')
  then show ?case
    using book_safe_step [of N P P'] by (simp add: book_safe_def)
qed



type_synonym i_pubsub = "(i_name, i_block, i_data, i_interest, (i_name \<times> i_data) list, nat, nat) svspubsub"

text \<open>An object that watches a producer, and learns of two of its publications.\<close>

definition sample_new :: "i_pubsub result" where
  "sample_new = svspubsub_new i_ndn sample_group [(8, [66])]
     ((default_pubsub_options sample_protocol)\<lparr>so_publicationFetchWindow := 1\<rparr>) False 0 False 0
     (Inr (ps_svsync sample_pubsub))"

definition sample_watcher :: i_pubsub where
  "sample_watcher = with_book (\<lambda>b. snd (subscribeToProducer [(8, [65])] 7 False False b))
     (case sample_new of Inl _ \<Rightarrow> sample_pubsub | Inr P \<Rightarrow> P)"

definition sample_stream :: "i_name missing_data_info" where
  "sample_stream = \<lparr>md_nodeId = [(8, [65])], md_low = 1, md_high = 2, md_incomingFace = 0,
     md_bootstrapTime = 100\<rparr>"

lemma sample_watcher_reachable: "pubsub_reachable i_ndn sample_watcher"
proof -
  obtain P where P: "sample_new = Inr P"
    by (simp add: sample_new_def svspubsub_new_def Let_def split_beta)
  then have "pubsub_reachable i_ndn P"
    unfolding sample_new_def by (rule reach_new)
  then show ?thesis
    using reach_step [OF _ step_producer] by (simp add: sample_watcher_def P)
qed

lemma sample_watcher_updated:
  "map_option (\<lambda>P. (map_option fs_status (fetch_of (ps_book P) ([(8, [65])], 100, 1)),
       map_option fs_status (fetch_of (ps_book P) ([(8, [65])], 100, 2))))
     (updateCallbackInternal sample_pubsub_env [sample_stream] sample_watcher) =
   Some (Some Queued, Some Fetching)"
  by code_simp


lemma sample_env_runs: "runs i_ndn sample_pubsub_env"
  by (simp add: runs_def env_ok_def sort_laws_def sample_pubsub_ndn) (simp add: sample_pubsub_env_def)

lemma sample_watcher_update:
  obtains P :: i_pubsub where "pubsub_reachable i_ndn P"
    "map_option fs_status (fetch_of (ps_book P) ([(8, [65])], 100, 1)) = Some Queued"
    "map_option fs_status (fetch_of (ps_book P) ([(8, [65])], 100, 2)) = Some Fetching"
proof -
  obtain P where u: "updateCallbackInternal sample_pubsub_env [sample_stream] sample_watcher = Some P"
    and s: "map_option fs_status (fetch_of (ps_book P) ([(8, [65])], 100, 1)) = Some Queued"
      "map_option fs_status (fetch_of (ps_book P) ([(8, [65])], 100, 2)) = Some Fetching"
    using sample_watcher_updated by auto
  have "pubsub_reachable i_ndn P"
    using reach_step [OF sample_watcher_reachable step_update [OF sample_env_runs u]] .
  then show ?thesis
    using s that by blast
qed

lemma finite_status_keys [simp]: "finite {k. \<exists>st. fetch_of b k = Some st \<and> fs_status st = Fetching}"
  using finite_fetching_keys [of b] by (simp only: fetching_keys_def)




end
