(* ===== verification/Fetch_Ranges.thy ===== *)
theory Fetch_Ranges
  imports Fetch_Queue
begin

text \<open>
  Mappings are asked for exactly once: the ranges that \<^verbatim>\<open>updateCallbackInternal\<close> makes of what is
  missing, and those that \<^verbatim>\<open>onFetchedNameMappings\<close> makes of what a reply does not hold.
\<close>

section \<open>Ranges of sequence numbers\<close>

text \<open>The numbers of a list of ranges, and the calls of a function over them.\<close>

definition range_numbers :: "(seq_no \<times> seq_no) list \<Rightarrow> seq_no list" where
  "range_numbers ranges = concat (map (\<lambda>(l, h). seq_span l h) ranges)"

definition call_ranges :: "(seq_no \<Rightarrow> seq_no \<Rightarrow> 's \<Rightarrow> 's) \<Rightarrow> (seq_no \<times> seq_no) list \<Rightarrow> 's \<Rightarrow> 's" where
  "call_ranges f ranges = fold (\<lambda>(l, h). f l h) ranges"

lemma range_numbers_simps [simp]:
  "range_numbers [] = []"
  "range_numbers ((l, h) # ranges) = seq_span l h @ range_numbers ranges"
  "range_numbers (xs @ ys) = range_numbers xs @ range_numbers ys"
  by (simp_all add: range_numbers_def)

lemma call_ranges_simps [simp]:
  "call_ranges f [] s = s"
  "call_ranges f ((l, h) # ranges) s = call_ranges f ranges (f l h s)"
  "call_ranges f (xs @ ys) s = call_ranges f ys (call_ranges f xs s)"
  by (simp_all add: call_ranges_def)

lemma u64_unat_plus: "unat (x :: u64) + unat y < 2 ^ 64 \<Longrightarrow> unat (x + y) = unat x + unat y"
  by (simp add: unat_plus_if')

text \<open>A range is its first part and the rest.\<close>

lemma seq_span_split:
  assumes "low \<le> mid" and "mid \<le> high" and "mid \<noteq> - 1"
  shows "seq_span low high = seq_span low mid @ seq_span (mid + 1) high"
proof -
  have "unat (mid + 1) = Suc (unat mid)"
    using seq_succ_unat [of mid mid] assms(3) by simp
  moreover have "[unat low..<Suc (unat high)] = [unat low..<Suc (unat mid)] @ [Suc (unat mid)..<Suc (unat high)]"
  proof -
    have "Suc (unat high) = Suc (unat mid) + (unat high - unat mid)" "unat low \<le> Suc (unat mid)"
      using assms(1,2) by (simp_all add: word_le_nat_alt)
    then show ?thesis
      using upt_add_eq_append [of "unat low" "Suc (unat mid)" "unat high - unat mid"] by simp
  qed
  ultimately show ?thesis
    by (simp add: seq_span_def del: upt_Suc)
qed

lemma seq_span_single: "seq_span i i = [i]"
  by (simp add: seq_span_def)

section \<open>Fetching in ranges of at most 11\<close>

lemma fetch_ranges_run:
  assumes "unat high + 11 < 2 ^ 64"
  shows "\<exists>ranges. fetch_ranges f low high s = Some (call_ranges f ranges s) \<and>
    range_numbers ranges = seq_span low high \<and> (\<forall>(l, h) \<in> set ranges. l \<le> h \<and> h - l \<le> 10)"
proof (induction "Suc (unat high) - unat low" arbitrary: low s rule: less_induct)
  case less
  show ?case
  proof (cases "low \<le> high")
    case False
    then show ?thesis
      by (subst fetch_ranges.simps) (auto simp: seq_span_empty intro!: exI [of _ "[]"])
  next
    case True
    then have le: "unat low \<le> unat high"
      by (simp add: word_le_nat_alt)
    define mid where "mid = (if high - low > 10 then low + 10 else high)"
    have succ: "unat (low + 11) = unat low + 11"
      using assms le by (intro u64_unat_plus [of low 11, simplified]) simp
    obtain ranges where ih: "fetch_ranges f (low + 11) high (f low mid s) =
        Some (call_ranges f ranges (f low mid s))"
      "range_numbers ranges = seq_span (low + 11) high" "\<forall>(l, h) \<in> set ranges. l \<le> h \<and> h - l \<le> 10"
      using less [of "low + 11" "f low mid s"] le succ by force
    have part: "low \<le> mid \<and> mid - low \<le> 10 \<and> seq_span low high = seq_span low mid @ seq_span (low + 11) high"
    proof (cases "high - low > 10")
      case big: True
      have diff: "unat (high - low) = unat high - unat low"
        using True by (simp add: unat_sub)
      have ten: "unat (low + 10) = unat low + 10"
        using assms le by (intro u64_unat_plus [of low 10, simplified]) simp
      have "10 < unat high - unat low"
        using big diff by (simp add: word_less_nat_alt)
      moreover have "low + 10 < high"
        using ten calculation by (simp add: word_less_nat_alt)
      moreover have "low + 10 \<noteq> - 1"
        using \<open>low + 10 < high\<close> word_order.extremum_strict [of high] by metis
      ultimately have "low \<le> low + 10" "low + 10 \<le> high" "low + 10 \<noteq> - 1"
        using ten by (simp_all add: word_le_nat_alt [of low])
      then show ?thesis
        using big seq_span_split [of low "low + 10" high] by (simp add: mid_def add.assoc)
    next
      case False
      have diff: "unat (high - low) = unat high - unat low"
        using True by (simp add: unat_sub)
      have "unat high - unat low \<le> 10"
        using False diff by (simp add: word_less_nat_alt)
      then have "high < low + 11"
        using succ by (simp add: word_less_nat_alt)
      then show ?thesis
        using True \<open>unat high - unat low \<le> 10\<close> diff 
        by (auto simp: mid_def seq_span_empty word_less_nat_alt word_le_nat_alt)
    qed
    show ?thesis
    proof (intro exI conjI)
      show "fetch_ranges f low high s = Some (call_ranges f ((low, mid) # ranges) s)"
        using ih(1) True by (subst fetch_ranges.simps) (simp add: mid_def)
      show "range_numbers ((low, mid) # ranges) = seq_span low high"
        using ih(2) part by simp
      show "\<forall>(l, h) \<in> set ((low, mid) # ranges). l \<le> h \<and> h - l \<le> 10"
        using ih(3) part by simp
    qed
  qed
qed

section \<open>Fetching the gaps again\<close>

text \<open>The ranges are those between the numbers that were returned.\<close>

definition gap_ranges_ok :: "seq_no set \<Rightarrow> seq_no \<Rightarrow> seq_no \<Rightarrow> (seq_no \<times> seq_no) list \<Rightarrow> bool" where
  "gap_ranges_ok returned low high ranges \<longleftrightarrow>
     (\<forall>(l, h) \<in> set ranges. l \<le> h \<and> (l = low \<or> l - 1 \<in> returned) \<and> (h = high \<or> h + 1 \<in> returned))"

text \<open>The loop up to a number: the gaps closed so far and the one that is open.\<close>

lemma gap_loop:
  assumes "low \<le> i" and "i \<le> high" and "high \<noteq> - 1"
  shows "\<exists>ranges open. fold (gap_step f returned) (seq_span low i) (None, s) = (open, call_ranges f ranges s) \<and>
    (case open of
       None \<Rightarrow> range_numbers ranges = filter (\<lambda>n. n \<notin> returned) (seq_span low i) \<and> i \<in> returned
     | Some l \<Rightarrow> low \<le> l \<and> l \<le> i \<and> (l = low \<or> l - 1 \<in> returned) \<and>
         range_numbers ranges @ seq_span l i = filter (\<lambda>n. n \<notin> returned) (seq_span low i)) \<and>
    gap_ranges_ok returned low high ranges"
  using assms(1,2)
proof (induction "unat i - unat low" arbitrary: i)
  case 0
  then have "i = low"
    by (simp add: word_le_nat_alt word_unat_eq_iff)
  then show ?case
    by (auto simp: seq_span_single gap_step_def gap_ranges_ok_def intro!: exI [of _ "[]"])
next
  case (Suc n)
  let ?i = "i - 1"
  have "i \<noteq> 0"
    using Suc.hyps(2) by auto
  then have i: "unat ?i = unat i - 1" "unat low < unat i"
    using Suc.hyps(2) unat_minus_one [of i] by auto
  have "low \<le> ?i" "?i \<le> high" "?i \<le> i" "?i \<noteq> - 1"
    using i Suc.prems by (auto simp: word_le_nat_alt)
  moreover have "n = unat ?i - unat low"
    using Suc.hyps(2) i by simp
  ultimately obtain ranges op where ih:
      "fold (gap_step f returned) (seq_span low ?i) (None, s) = (op, call_ranges f ranges s)"
      "case op of
         None \<Rightarrow> range_numbers ranges = filter (\<lambda>n. n \<notin> returned) (seq_span low ?i) \<and> ?i \<in> returned
       | Some l \<Rightarrow> low \<le> l \<and> l \<le> ?i \<and> (l = low \<or> l - 1 \<in> returned) \<and>
           range_numbers ranges @ seq_span l ?i = filter (\<lambda>n. n \<notin> returned) (seq_span low ?i)"
      "gap_ranges_ok returned low high ranges"
    using Suc.hyps(1) [of ?i] by blast
  have span: "seq_span low i = seq_span low ?i @ [i]" "\<And>l. l \<le> ?i \<Longrightarrow> seq_span l i = seq_span l ?i @ [i]"
    using seq_span_split [of _ ?i i] \<open>low \<le> ?i\<close> \<open>?i \<le> i\<close> \<open>?i \<noteq> - 1\<close> by (simp_all add: seq_span_single)
  show ?case
  proof (cases op)
    case None
    show ?thesis
    proof (cases "i \<in> returned")
      case True
      then show ?thesis
        using ih None by (auto simp: span gap_step_def intro!: exI [of _ ranges])
    next
      case False
      then show ?thesis
        using ih None Suc.prems(1)
        by (auto simp: span gap_step_def seq_span_single intro!: exI [of _ ranges] exI [of _ "Some i"])
    qed
  next
    case (Some l)
    show ?thesis
    proof (cases "i \<in> returned")
      case True
      then show ?thesis
        using ih Some
        by (auto simp: span gap_step_def gap_ranges_ok_def intro!: exI [of _ "ranges @ [(l, ?i)]"] exI [of _ None])
    next
      case False
      have "l \<le> i"
        using ih(2) Some \<open>?i \<le> i\<close> by (auto intro: order_trans)
      then show ?thesis
        using False ih Some by (auto simp: span gap_step_def intro!: exI [of _ ranges] exI [of _ "Some l"])
    qed
  qed
qed


lemma refetch_run:
  assumes "high \<noteq> - 1"
  shows "\<exists>ranges. map_option (close_gap f high) (seq_loop (gap_step f returned) low high (None, s)) =
      Some (call_ranges f ranges s) \<and>
    range_numbers ranges = filter (\<lambda>n. n \<notin> returned) (seq_span low high) \<and>
    gap_ranges_ok returned low high ranges"
proof (cases "low \<le> high")
  case False
  then have "seq_span low high = []"
    by (simp add: seq_span_empty)
  then show ?thesis
    by (auto simp: seq_loop_returns [OF assms] close_gap_def gap_ranges_ok_def intro!: exI [of _ "[]"])
next
  case True
  obtain ranges op where run:
      "fold (gap_step f returned) (seq_span low high) (None, s) = (op, call_ranges f ranges s)"
      "case op of
         None \<Rightarrow> range_numbers ranges = filter (\<lambda>n. n \<notin> returned) (seq_span low high) \<and> high \<in> returned
       | Some l \<Rightarrow> low \<le> l \<and> l \<le> high \<and> (l = low \<or> l - 1 \<in> returned) \<and>
           range_numbers ranges @ seq_span l high = filter (\<lambda>n. n \<notin> returned) (seq_span low high)"
      "gap_ranges_ok returned low high ranges"
    using gap_loop [OF True order_refl assms, of f returned s] by blast
  show ?thesis
  proof (cases op)
    case None
    then show ?thesis
      using run by (auto simp: seq_loop_returns [OF assms] close_gap_def)
  next
    case (Some l)
    then show ?thesis
      using run by (auto simp: seq_loop_returns [OF assms] close_gap_def gap_ranges_ok_def
          intro!: exI [of _ "ranges @ [(l, high)]"])
  qed
qed

text \<open>The numbers a reply returns.\<close>

lemma note_mappings_returned:
  "note_mappings E requested streamName entries (returned, queued, P) = ((returned', queued', P'), None) \<Longrightarrow>
   returned' = returned \<union> {me_seqNo entry |entry. entry \<in> set entries \<and>
     me_bootstrapTime entry = md_bootstrapTime requested \<and> md_low requested \<le> me_seqNo entry \<and>
     me_seqNo entry \<le> max (md_high requested) (md_low requested)}"
proof (induction entries arbitrary: returned queued P)
  case (Cons entry entries)
  obtain q P1 where p: "processMapping E (streamName, me_bootstrapTime entry, me_seqNo entry) P = Inr (q, P1)"
    using Cons.prems by (auto simp: note_mapping_def and_then_def Let_def split: sum.splits)
  show ?case
    using Cons.prems Cons.IH
    by (fastforce simp: note_mapping_def p and_then_def Let_def split: if_splits)
qed simp

text \<open>
  C19: When a reply to a mapping query arrives that holds some of the mappings asked for, the
  numbers of the query that it does not hold, and no others, are asked for again, each once, in
  increasing order and in the longest possible ranges of consecutive numbers; the function
  returns unless the query ends at the largest sequence number.
\<close>

theorem refetch_exact:
  assumes "ml_pairs list \<noteq> []" and "max (md_high requested) (md_low requested) \<noteq> - 1"
    and "note_mappings E requested streamName (ml_pairs list) ({}, False, P) = ((returned, queued, P1), None)"
  shows "\<exists>ranges.
    onFetchedNameMappings E requested streamName list P =
      Some (call_ranges (fetchMissingRange E requested streamName) ranges
        (if queued then fetchAll E P1 else P1), None) \<and>
    range_numbers ranges =
      filter (\<lambda>n. \<not> (\<exists>entry \<in> set (ml_pairs list).
          me_bootstrapTime entry = md_bootstrapTime requested \<and> me_seqNo entry = n))
        (seq_span (md_low requested) (max (md_high requested) (md_low requested))) \<and>
    gap_ranges_ok returned (md_low requested) (max (md_high requested) (md_low requested)) ranges"
proof -
  let ?high = "max (md_high requested) (md_low requested)"
  let ?P = "if queued then fetchAll E P1 else P1"
  obtain ranges where ranges:
    "map_option (close_gap (fetchMissingRange E requested streamName) ?high)
       (seq_loop (gap_step (fetchMissingRange E requested streamName) returned) (md_low requested) ?high (None, ?P)) =
     Some (call_ranges (fetchMissingRange E requested streamName) ranges ?P)"
    "range_numbers ranges = filter (\<lambda>n. n \<notin> returned) (seq_span (md_low requested) ?high)"
    "gap_ranges_ok returned (md_low requested) ?high ranges"
    using refetch_run [OF assms(2), of "fetchMissingRange E requested streamName" returned "md_low requested" ?P]
    by (elim exE conjE)
  have "filter (\<lambda>n. n \<notin> returned) (seq_span (md_low requested) ?high) =
      filter (\<lambda>n. \<not> (\<exists>entry \<in> set (ml_pairs list).
          me_bootstrapTime entry = md_bootstrapTime requested \<and> me_seqNo entry = n))
        (seq_span (md_low requested) ?high)"
    using note_mappings_returned [OF assms(3)]
    by (intro filter_cong) (auto simp: set_seq_span)
  moreover have "onFetchedNameMappings E requested streamName list P =
      map_option (\<lambda>P. (P, None)) (map_option (close_gap (fetchMissingRange E requested streamName) ?high)
        (seq_loop (gap_step (fetchMissingRange E requested streamName) returned) (md_low requested) ?high (None, ?P)))"
    using assms(1) by (simp add: onFetchedNameMappings_def assms(3) Let_def option.map_comp o_def)
  ultimately show ?thesis
    using ranges(3) by (intro exI [of _ ranges]) (simp only: ranges(1,2) option.map simp_thms)
qed


section \<open>Missing mappings\<close>

text \<open>The object after the mapping of a number has been processed, if it is known.\<close>

definition processed ::
    "('n :: linorder, 'c, 'b, 'd, 'i, 's, 'r) pubsub_env \<Rightarrow> 'n missing_data_info \<Rightarrow> seq_no
      \<Rightarrow> ('n, 'b, 'd, 'i, 's, 'f, 'r) svspubsub \<Rightarrow> ('n, 'b, 'd, 'i, 's, 'f, 'r) svspubsub" where
  "processed E stream n P =
     (case processMapping E (md_nodeId stream, md_bootstrapTime stream, n) P of
        Inl _ \<Rightarrow> P
      | Inr (_, P) \<Rightarrow> P)"

lemma scan_known:
  assumes "high \<noteq> - 1"
  shows "\<exists>known low'. scan_list (process_known E stream) (seq_span low high) (low, P) =
      (low', fold (processed E stream) known P) \<and>
    known @ seq_span low' high = seq_span low high \<and>
    (seq_span low' high \<noteq> [] \<longrightarrow>
       (\<exists>e. processMapping E (md_nodeId stream, md_bootstrapTime stream, hd (seq_span low' high))
          (fold (processed E stream) known P) = Inl e))"
proof (induction "length (seq_span low high)" arbitrary: low P)
  case 0
  then show ?case
    by (auto intro!: exI [of _ "[]"] exI [of _ low])
next
  case (Suc n)
  have le: "low \<le> high"
    using Suc.hyps(2) by (intro leI notI) (simp add: seq_span_empty)
  note step = seq_span_step [OF le assms]
  show ?case
  proof (cases "processMapping E (md_nodeId stream, md_bootstrapTime stream, low) P")
    case (Inl e)
    then show ?thesis
      by (intro exI [of _ "[]"] exI [of _ low]) (simp add: step process_known_def)
  next
    case (Inr r)
    have "processed E stream low P = snd r"
      by (simp add: processed_def Inr split_beta)
    moreover obtain known low' where ih:
        "scan_list (process_known E stream) (seq_span (low + 1) high) (low + 1, snd r) =
           (low', fold (processed E stream) known (snd r))"
        "known @ seq_span low' high = seq_span (low + 1) high"
        "seq_span low' high \<noteq> [] \<longrightarrow>
           (\<exists>e. processMapping E (md_nodeId stream, md_bootstrapTime stream, hd (seq_span low' high))
              (fold (processed E stream) known (snd r)) = Inl e)"
      using Suc.hyps(1) [of "low + 1" "snd r"] Suc.hyps(2) step by auto
    ultimately show ?thesis
      by (intro exI [of _ "low # known"] exI [of _ low']) (simp add: step process_known_def Inr split_beta)
  qed
qed



text \<open>A subscription by name, and the mapping of the second of three publications.\<close>

definition sample_query :: "i_name missing_data_info" where
  "sample_query = \<lparr>md_nodeId = [(8, [65])], md_low = 1, md_high = 3, md_incomingFace = 0,
     md_bootstrapTime = 100\<rparr>"

definition sample_reply :: "(i_name, i_block) mapping_list" where
  "sample_reply = \<lparr>ml_nodeId = [(8, [65])], ml_pairs = [\<lparr>me_bootstrapTime = 100, me_seqNo = 2,
     me_mapping = ([(8, [78])], [])\<rparr>], ml_version = V3\<rparr>"

definition sample_learned ::
    "(i_name, i_block, i_data, i_interest, (i_name \<times> i_data) list, nat, nat) svspubsub" where
  "sample_learned = with_book (\<lambda>b. snd (subscribe [(8, [78])] 7 False b))
     (sample_pubsub\<lparr>ps_mappingProvider := mp_insertMapping i_ndn [(8, [65])] 100 2 ([(8, [78])], [])
        (ps_mappingProvider sample_pubsub)\<rparr>)"

lemma sample_noted:
  "(case note_mappings sample_pubsub_env sample_query [(8, [65])] (ml_pairs sample_reply) ({}, False, sample_learned) of
      ((returned, queued, P), e) \<Rightarrow> queued \<and> e = None)"
  by code_simp

theorem refetch_exact_witness:
  "\<exists>ranges P1. onFetchedNameMappings sample_pubsub_env sample_query [(8, [65])] sample_reply sample_learned =
      Some (call_ranges (fetchMissingRange sample_pubsub_env sample_query [(8, [65])]) ranges P1, None) \<and>
    range_numbers ranges = [1, 3]"
proof -
  have list: "ml_pairs sample_reply \<noteq> []" "max (md_high sample_query) (md_low sample_query) \<noteq> - 1"
    by code_simp+
  have "filter (\<lambda>n. \<not> (\<exists>entry \<in> set (ml_pairs sample_reply).
          me_bootstrapTime entry = md_bootstrapTime sample_query \<and> me_seqNo entry = n))
        (seq_span (md_low sample_query) (max (md_high sample_query) (md_low sample_query))) = [1, 3]"
    by code_simp
  moreover obtain returned P1 where
    "note_mappings sample_pubsub_env sample_query [(8, [65])] (ml_pairs sample_reply) ({}, False, sample_learned) =
       ((returned, True, P1), None)"
    using sample_noted by (auto split: prod.splits)
  ultimately show ?thesis
    using refetch_exact [OF list, of sample_pubsub_env "[(8, [65])]" sample_learned returned True P1]
    by auto
qed


end
