(* ===== verification/Fetch_Delivery.thy ===== *)
theory Fetch_Delivery
  imports Fetch_Queue
begin

text \<open>
  The delivery of publications that are cut into packets: the verdicts on the packets of one
  publication, and the way from the publisher's segments to the receiver's subscriptions.
\<close>

section \<open>All or nothing\<close>

text \<open>The verdicts on the packets of a publication, in the order in which they arrive.\<close>

definition verdicts ::
    "('n :: linorder) publication_key \<Rightarrow> bool list
      \<Rightarrow> 'n validation_state \<times> ('n, 'b, 'd, 'i, 's, 'f, 'r) svspubsub
      \<Rightarrow> 'n validation_state \<times> ('n, 'b, 'd, 'i, 's, 'f, 'r) svspubsub" where
  "verdicts key failures = fold (finishOne key) failures"

definition count_failed :: "bool list \<Rightarrow> nat" where
  "count_failed failures = length (filter (\<lambda>failed. failed) failures)"

definition counted :: "bool list \<Rightarrow> 'n validation_state \<Rightarrow> 'n validation_state" where
  "counted failures v =
     v\<lparr>vs_completed := vs_completed v + length failures, vs_failed := vs_failed v + count_failed failures\<rparr>"

lemma counted_simps [simp]:
  "counted [] v = v"
  "vs_terminal (counted failures v) = vs_terminal v"
  "vs_completed (counted failures v) = vs_completed v + length failures"
  "vs_failed (counted failures v) = vs_failed v + count_failed failures"
  "vs_expected (counted failures v) = vs_expected v"
  "vs_name (counted failures v) = vs_name v"
  "vs_payload (counted failures v) = vs_payload v"
  by (simp_all add: counted_def count_failed_def)

lemma counted_snoc: "counted (failures @ [failed]) v = counted [failed] (counted failures v)"
  by (simp add: counted_def count_failed_def)

lemma verdicts_snoc: "verdicts key (failures @ [failed]) st = finishOne key failed (verdicts key failures st)"
  by (simp add: verdicts_def)

lemma verdicts_wait:
  assumes "\<not> vs_terminal v"
  shows "vs_completed v + length failures < vs_expected v \<Longrightarrow>
    verdicts key failures (v, P) = (counted failures v, P)"
proof (induction failures rule: rev_induct)
  case (snoc failed failures)
  then have "verdicts key failures (v, P) = (counted failures v, P)"
    by simp
  moreover have "vs_completed v + length failures + 1 \<noteq> vs_expected v"
    using snoc.prems by simp
  ultimately show ?case
    using assms by (simp add: verdicts_snoc finishOne_def Let_def counted_snoc)
      (simp add: counted_def count_failed_def)
qed (simp add: verdicts_def)

lemma verdicts_terminal: "vs_terminal v \<Longrightarrow> verdicts key failures (v, P) = (v, P)"
  unfolding verdicts_def by (induction failures) (simp_all add: finishOne_def)

text \<open>What the subscriptions to a publication get of its assembly.\<close>

definition delivered ::
    "'n validation_state \<Rightarrow> ('n :: linorder) publication_key
      \<Rightarrow> ('n, 'b, 'd, 'i, 's, 'f, 'r) svspubsub \<Rightarrow> ('n, 'd, 'f) pubsub_output list" where
  "delivered v key P =
     map (\<lambda>sub. Call (su_callback sub) (assembly_data v key))
       (filter (\<lambda>sub. \<not> su_isPacketSubscription sub) (map_at key [] (fb_fetchMap (ps_book P))))"

lemma deliver_assembly_eq: "deliver_assembly v key P = emit_ps (delivered v key P) P"
  by (simp add: deliver_assembly_def delivered_def map_at_def emit_ps_def split: option.split)

lemma assembly_counted [simp]:
  "assembly_data (counted failures v) key = assembly_data v key"
  "assembly_data (v\<lparr>vs_terminal := t\<rparr>) key = assembly_data v key"
  by (simp_all add: assembly_data_def)

lemma delivered_counted [simp]:
  "delivered (counted failures v) key P = delivered v key P"
  "delivered (v\<lparr>vs_terminal := t\<rparr>) key P = delivered v key P"
  by (simp_all add: delivered_def)

lemma finishOne_last:
  assumes "\<not> vs_terminal v" and "Suc (vs_completed v) = vs_expected v"
    and "pb_asyncPublishAlive (ps_publisher P)"
  shows "finishOne key failed (v, P) = ((counted [failed] v)\<lparr>vs_terminal := True\<rparr>,
    with_book (cleanUpFetch key)
      (if vs_failed v = 0 \<and> \<not> failed then emit_ps (delivered v key P) P else P))"
proof -
  have "delivered (v\<lparr>vs_completed := c, vs_failed := f, vs_terminal := t\<rparr>) key P = delivered v key P" for c f t
    by (simp add: delivered_def assembly_data_def)
  then show ?thesis
    using assms by (simp add: finishOne_def Let_def deliver_assembly_eq) (simp add: counted_def count_failed_def)
qed

lemma verdicts_complete:
  assumes "\<not> vs_terminal v" and "vs_completed v < vs_expected v"
    and "vs_completed v + length failures = vs_expected v" and "pb_asyncPublishAlive (ps_publisher P)"
  shows "verdicts key failures (v, P) = ((counted failures v)\<lparr>vs_terminal := True\<rparr>,
    with_book (cleanUpFetch key)
      (if vs_failed v = 0 \<and> True \<notin> set failures then emit_ps (delivered v key P) P else P))"
proof -
  obtain fs failed where fs: "failures = fs @ [failed]"
    using assms(2,3) by (cases failures rule: rev_cases) auto
  have before: "verdicts key fs (v, P) = (counted fs v, P)"
    by (rule verdicts_wait) (use assms fs in auto)
  have none: "count_failed fs = 0 \<longleftrightarrow> True \<notin> set fs"
    by (auto simp: count_failed_def filter_empty_conv)
  have "finishOne key failed (counted fs v, P) = ((counted [failed] (counted fs v))\<lparr>vs_terminal := True\<rparr>,
      with_book (cleanUpFetch key) (if vs_failed (counted fs v) = 0 \<and> \<not> failed
        then emit_ps (delivered (counted fs v) key P) P else P))"
    by (rule finishOne_last) (use assms fs in simp_all)
  then show ?thesis
    using none by (simp add: fs verdicts_snoc before counted_snoc)
qed

text \<open>
  C15: A publication of several packets is delivered as a whole or not at all. Until a verdict on
  every one of its packets has arrived, whatever their order, nothing happens; when the last one
  arrives the publication leaves the queue, and exactly when all packets have passed, every
  subscription to payloads is called once with the assembled name and payload; verdicts that
  arrive later change nothing.
\<close>

theorem delivery_all_or_nothing:
  assumes "vs_completed v = 0" and "vs_failed v = 0" and "\<not> vs_terminal v" and "0 < vs_expected v"
    and "pb_asyncPublishAlive (ps_publisher P)"
  shows "snd (fold (finishOne key) failures (v, P)) =
    (if length failures < vs_expected v then P
     else with_book (cleanUpFetch key)
       (if True \<in> set (take (vs_expected v) failures) then P
        else emit_ps (map (\<lambda>sub. Call (su_callback sub)
            \<lparr>sd_name = vs_name v, sd_data = vs_payload v, sd_producerPrefix = fst key,
             sd_seqNo = snd (snd key), sd_packet = None\<rparr>)
          (filter (\<lambda>sub. \<not> su_isPacketSubscription sub)
            (case map_of (fb_fetchMap (ps_book P)) key of None \<Rightarrow> [] | Some subs \<Rightarrow> subs))) P))"
proof (cases "length failures < vs_expected v")
  case True
  then show ?thesis
    using verdicts_wait [OF assms(3), of failures key P] assms(1) by (simp add: verdicts_def)
next
  case False
  define early late where "early = take (vs_expected v) failures" and "late = drop (vs_expected v) failures"
  have split: "failures = early @ late" "length early = vs_expected v"
    using False by (simp_all add: early_def late_def)
  have "verdicts key failures (v, P) = verdicts key early (v, P)"
    using verdicts_complete [OF assms(3), of early P key] assms split(2)
    by (simp add: split(1) verdicts_def) (simp add: verdicts_terminal [unfolded verdicts_def])
  then show ?thesis
    using verdicts_complete [OF assms(3), of early P key] assms split(2) False
    by (simp add: verdicts_def early_def delivered_def assembly_data_def map_at_def)
qed


text \<open>An assembly of two packets: the second verdict delivers it.\<close>

definition sample_assembly :: "i_name validation_state" where
  "sample_assembly = \<lparr>vs_name = [(8, [78])], vs_payload = [1, 2], vs_completed = 0, vs_failed = 0,
     vs_expected = 2, vs_terminal = False\<rparr>"

definition sample_waiting ::
    "(i_name, i_block, i_data, i_interest, (i_name \<times> i_data) list, nat, nat) svspubsub" where
  "sample_waiting = with_book (addPublicationFetch (ps_opts sample_pubsub) 1000000 ([(8, [65])], 100, 1)
     \<lparr>su_id = 1, su_prefix = [(8, [78])], su_callback = 7, su_isPacketSubscription = False,
       su_prefetch = False, su_autofetch = True, su_regex = None\<rparr>) sample_pubsub"

lemma sample_waiting_fields:
  "pb_asyncPublishAlive (ps_publisher sample_waiting)" "\<not> ps_hasEncapsulatedValidator sample_waiting"
  "map_of (fb_fetchMap (ps_book sample_waiting)) ([(8, [65])], 100, 1) =
     Some [\<lparr>su_id = 1, su_prefix = [(8, [78])], su_callback = 7, su_isPacketSubscription = False,
       su_prefetch = False, su_autofetch = True, su_regex = None\<rparr>]"
  "ps_out sample_waiting = []"
  by (simp_all add: sample_waiting_def sample_pubsub_def publisher_new_def with_book_def
      addPublicationFetch_def Let_def map_at_def fetch_book_new_def)

theorem delivery_all_or_nothing_witness:
  "ps_out (snd (fold (finishOne ([(8, [65])], 100, 1)) [False, False] (sample_assembly, sample_waiting))) =
     [Call 7 \<lparr>sd_name = [(8, [78])], sd_data = [1, 2], sd_producerPrefix = [(8, [65])], sd_seqNo = 1,
        sd_packet = None\<rparr>] \<and>
   ps_out (snd (fold (finishOne ([(8, [65])], 100, 1)) [False, True] (sample_assembly, sample_waiting))) = []"
proof -
  have v: "vs_completed sample_assembly = 0" "vs_failed sample_assembly = 0" "\<not> vs_terminal sample_assembly"
    "0 < vs_expected sample_assembly" "vs_expected sample_assembly = 2"
    by (simp_all add: sample_assembly_def)
  note fact = delivery_all_or_nothing [OF v(1-4) sample_waiting_fields(1)]
  show ?thesis
    unfolding fact v(5) by (simp add: sample_waiting_fields with_book_def emit_ps_def) (simp add: sample_assembly_def)
qed

section \<open>From the publisher to the subscriptions\<close>

lemma finishOne_validator [simp]:
  "ps_hasEncapsulatedValidator (snd (finishOne key failed st)) = ps_hasEncapsulatedValidator (snd st)"
  by (simp add: finishOne_def Let_def with_book_def deliver_assembly_eq emit_ps_def split: prod.split)

lemma validate_without:
  assumes "\<not> ps_hasEncapsulatedValidator (snd st)"
    and "\<forall>inner \<in> set inners. data_of_block (pe_ndn E) (data_wire (pe_ndn E) inner) = Some inner"
  shows "validate_inner_blocks E key (map (data_wire (pe_ndn E)) inners) st =
    verdicts key (replicate (length inners) False) st"
  using assms
proof (induction inners arbitrary: st)
  case (Cons inner inners)
  obtain v P where st: "st = (v, P)"
    by (cases st)
  show ?case
    using Cons.prems Cons.IH [of "finishOne key False (v, P)"] by (simp add: st verdicts_def)
qed (cases st; simp add: verdicts_def)

lemma validate_with:
  assumes "ps_hasEncapsulatedValidator P"
    and "\<forall>inner \<in> set inners. data_of_block (pe_ndn E) (data_wire (pe_ndn E) inner) = Some inner"
  shows "validate_inner_blocks E key (map (data_wire (pe_ndn E)) inners) (v, P) =
    (v, emit_ps (map (\<lambda>inner. ValidateSegment inner key) inners) P)"
  using assms
proof (induction inners arbitrary: P)
  case (Cons inner inners)
  then show ?case
    by (simp add: emit_ps_def)
qed (simp add: emit_ps_def)

text \<open>
  C14: What a publisher cuts into packets reaches the subscriptions of a receiver. When the segment
  fetcher completes with the contents of the packets of a publication, the receiver recovers its
  name and payload; without a validator of encapsulated packets, it calls every subscription to
  payloads that waits for the publication once, with that name and payload, and the publication
  leaves the queue; with one, every inner packet is given to it, and the delivery waits for as
  many verdicts.
\<close>

theorem blob_delivery:
  assumes "name_laws (pe_ndn E)" and "packet_laws (pe_ndn E)" and "signer_laws (pe_ndn E) sign"
    and "prepareSegmentedPackets (pe_ndn E) sign S pub = Inr packets"
    and "fits (concat (map (data_value (pe_ndn E)) packets))"
    and "pb_asyncPublishAlive (ps_publisher P)"
  shows "\<exists>v inners. length inners = length packets \<and>
    segments_complete E key (concat (map (data_value (pe_ndn E)) packets)) P =
      Some (Some v,
        if ps_hasEncapsulatedValidator P
        then emit_ps (map (\<lambda>inner. ValidateSegment inner key) inners) P
        else with_book (cleanUpFetch key)
          (emit_ps (map (\<lambda>sub. Call (su_callback sub)
              \<lparr>sd_name = ap_name pub, sd_data = ap_value pub, sd_producerPrefix = fst key,
               sd_seqNo = snd (snd key), sd_packet = None\<rparr>)
            (filter (\<lambda>sub. \<not> su_isPacketSubscription sub)
              (case map_of (fb_fetchMap (ps_book P)) key of None \<Rightarrow> [] | Some subs \<Rightarrow> subs))) P)) \<and>
    vs_name v = ap_name pub \<and> vs_payload v = ap_value pub \<and> vs_expected v = length packets \<and>
    (ps_hasEncapsulatedValidator P \<longrightarrow>
       vs_completed v = 0 \<and> vs_failed v = 0 \<and> \<not> vs_terminal v \<and> 0 < vs_expected v)"
proof -
  let ?N = "pe_ndn E"
  obtain inners where inners: "length inners = length packets"
      "\<forall>inner \<in> set inners. data_of_block ?N (data_wire ?N inner) = Some inner"
      "block_elems ?N (block_with_value ?N tlv_Data (concat (map (data_value ?N) packets))) =
         Some (map (data_wire ?N) inners)"
      "decodeInnerSegments ?N (map (data_wire ?N) inners) = Some (Some (ap_name pub, ap_value pub))"
    using prepared_reassembly [OF assms(1-5)] by blast
  define v :: "'a validation_state" where "v = \<lparr>vs_name = ap_name pub, vs_payload = ap_value pub, vs_completed = 0,
    vs_failed = 0, vs_expected = length packets, vs_terminal = False\<rparr>"
  have some: "0 < length inners"
    using inners(4) by (cases inners) (simp_all add: decodeInnerSegments_def)
  have run: "segments_complete E key (concat (map (data_value ?N) packets)) P =
      (let (v, P) = validate_inner_blocks E key (map (data_wire ?N) inners) (v, P) in Some (Some v, P))"
    using assms(6) by (simp add: segments_complete_def inners(1,3,4) v_def Let_def split: prod.split)
  show ?thesis
  proof (cases "ps_hasEncapsulatedValidator P")
    case True
    then show ?thesis
      using some inners(1)
      by (intro exI [of _ v] exI [of _ inners]) (simp add: run validate_with [OF True inners(2)] v_def)
  next
    case False
    have "verdicts key (replicate (length inners) False) (v, P) =
        ((counted (replicate (length inners) False) v)\<lparr>vs_terminal := True\<rparr>,
         with_book (cleanUpFetch key) (emit_ps (delivered v key P) P))"
      using verdicts_complete [of v "replicate (length inners) False" P key] some inners(1) assms(6)
      by (simp add: v_def)
    then show ?thesis
      using False inners(1)
      by (intro exI [of _ "(counted (replicate (length inners) False) v)\<lparr>vs_terminal := True\<rparr>"]
          exI [of _ inners])
        (simp add: run validate_without [OF _ inners(2)] delivered_def assembly_data_def map_at_def v_def)
  qed
qed


theorem blob_delivery_witness:
  "\<exists>packets. prepareSegmentedPackets i_ndn i_sign sample_svsync (sample_publication (replicate 9000 7)) = Inr packets \<and>
     map_option (\<lambda>(v, P). ps_out P)
       (segments_complete sample_pubsub_env ([(8, [65])], 100, 1) (concat (map (data_value i_ndn) packets)) sample_waiting) =
     Some [Call 7 \<lparr>sd_name = [(8, [78])], sd_data = replicate 9000 7, sd_producerPrefix = [(8, [65])],
       sd_seqNo = 1, sd_packet = None\<rparr>]"
proof -
  let ?pub = "sample_publication (replicate 9000 7)"
  obtain packets where p: "prepareSegmentedPackets i_ndn i_sign sample_svsync ?pub = Inr packets"
    and len: "length packets = 2" and size: "\<forall>p \<in> set packets. wire_size i_ndn p \<le> MAX_NDN_PACKET_SIZE"
    using sample_segments .
  have "fits (concat (map (data_value i_ndn) packets))"
    using prepared_total [OF i_packet_laws size] len by (simp add: fits_def MAX_NDN_PACKET_SIZE_def)
  note run = blob_delivery [of sample_pubsub_env, unfolded sample_pubsub_ndn,
      OF i_name_laws i_packet_laws i_signer_laws p this sample_waiting_fields(1), of "([(8, [65])], 100, 1)"]
  have pub: "ap_name ?pub = [(8, [78])]" "ap_value ?pub = replicate 9000 7"
    by (simp_all add: sample_publication_def)
  have out: "ps_out (with_book f P) = ps_out P" for f and P :: "('x, 'y, 'z, 'u, 'v, 'w, 't) svspubsub"
    by (simp add: with_book_def)
  show ?thesis
    using run p by (auto simp: sample_waiting_fields pub out emit_ps_def)
qed

end
