(* ===== verification/Fetch_Mappings.thy ===== *)
theory Fetch_Mappings
  imports Fetch_Queue
begin

text \<open>
  The life of a query for mappings: under way, failed and suppressed for a while, answered.
\<close>

section \<open>Mapping queries\<close>

lemma mapping_key_ordered: "mapping_key (q\<lparr>md_high := max (md_high q) (md_low q)\<rparr>) = mapping_key (ordered_range q)"
  by (simp add: ordered_range_def)

lemma with_mapping_fetcher_book [simp]:
  "ps_book (with_mapping_fetcher f P) = ps_book P" "ps_opts (with_mapping_fetcher f P) = ps_opts P"
  by (simp_all add: with_mapping_fetcher_def emit_ps_def split_beta)

lemma schedule_gate:
  "fst (scheduleMappingFetch E q streamName P) \<longleftrightarrow>
     map_of (fb_mappingFetchInFlight (ps_book P)) (mapping_key (ordered_range q)) = None \<and>
     \<not> fetch_suppressed (pe_now E) (mapping_key (ordered_range q)) (ps_book P)"
  by (simp add: scheduleMappingFetch_def Let_def mapping_key_ordered)

lemma schedule_refused:
  "\<not> fst (scheduleMappingFetch E q streamName P) \<Longrightarrow> scheduleMappingFetch E q streamName P = (False, P)"
  by (auto simp: scheduleMappingFetch_def Let_def split: if_splits)

lemma schedule_sent:
  assumes "scheduleMappingFetch E q streamName P = (True, P1)"
  shows "fb_mappingFetchInFlight (ps_book P1) =
      map_put (mapping_key (ordered_range q)) True (fb_mappingFetchInFlight (ps_book P))"
    and "fb_mappingFetchSuppressUntil (ps_book P1) =
      map_erase (mapping_key (ordered_range q)) (fb_mappingFetchSuppressUntil (ps_book P))"
    and "ps_opts P1 = ps_opts P"
  using assms
  by (auto simp: scheduleMappingFetch_def Let_def mapping_key_ordered with_book_def split: if_splits)

text \<open>
  C28: A query for mappings that is under way is not sent again; when it has failed, it is sent
  again exactly from the end of the configured backoff on (at once, if there is none); and when a
  reply has arrived that cannot be decoded, the error leaves the handler with the query still
  counted as under way, so that it is never sent again.
\<close>

theorem mapping_query_lifecycle:
  assumes "map_ok (fb_mappingFetchInFlight (ps_book P))"
    and "map_ok (fb_mappingFetchSuppressUntil (ps_book P))"
    and "scheduleMappingFetch E q streamName P = (True, P1)"
    and "mf_key m = mapping_key (ordered_range q)"
    and "on_mapping_fetch E2 (TimedOut m) P1 = Some (P2, e2)"
    and "mp_onDataValidated (pe_ndn E3) (mf_query m) data (ps_mappingProvider P1) = Inl error"
    and "on_mapping_fetch E3 (Satisfied m data) P1 = Some (P3, e3)"
  shows "scheduleMappingFetch E' q streamName P1 = (False, P1) \<and>
    fst (scheduleMappingFetch E' q streamName P2) =
      (so_mappingFetchFailureBackoff (ps_opts P) \<le> 0 \<or>
       pe_now E2 + toStdDuration (so_mappingFetchFailureBackoff (ps_opts P)) \<le> pe_now E') \<and>
    e3 = Some error \<and> scheduleMappingFetch E' q streamName P3 = (False, P3)"
proof (intro conjI)
  let ?key = "mapping_key (ordered_range q)"
  note sent = schedule_sent [OF assms(3)]
  have flight: "map_of (fb_mappingFetchInFlight (ps_book P1)) ?key = Some True"
    using assms(1) by (simp add: sent)
  then show refused: "scheduleMappingFetch E' q streamName P1 = (False, P1)"
    by (intro schedule_refused) (simp add: schedule_gate)
  have P2: "P2 = with_book (markMappingFetchFailed (ps_opts P1) (pe_now E2) ?key) P1"
    using assms(4,5) by (simp add: on_mapping_fetch_def)
  show "fst (scheduleMappingFetch E' q streamName P2) =
      (so_mappingFetchFailureBackoff (ps_opts P) \<le> 0 \<or>
       pe_now E2 + toStdDuration (so_mappingFetchFailureBackoff (ps_opts P)) \<le> pe_now E')"
    using assms(1,2)
    by (auto simp: schedule_gate P2 with_book_def markMappingFetchFailed_def Let_def sent fetch_suppressed_def)
  have P3: "P3 = P1" "e3 = Some error"
    using assms(6,7) by (simp_all add: on_mapping_fetch_def on_mapping_data_def)
  then show "e3 = Some error" "scheduleMappingFetch E' q streamName P3 = (False, P3)"
    using refused by simp_all
qed


text \<open>A query of the sample object, and a reply without content.\<close>

definition sample_asked :: "i_name missing_data_info" where
  "sample_asked = \<lparr>md_nodeId = [(8, [65])], md_low = 1, md_high = 3, md_incomingFace = 0,
     md_bootstrapTime = 100\<rparr>"

definition sample_pending :: "i_name mapping_fetch" where
  "sample_pending = \<lparr>mf_query = sample_asked, mf_streamName = [(8, [65])],
     mf_key = mapping_key sample_asked\<rparr>"

lemma sample_asked_sent:
  "fst (scheduleMappingFetch sample_pubsub_env sample_asked [(8, [65])] sample_pubsub)"
  by (simp add: schedule_gate fetch_suppressed_def sample_pubsub_def fetch_book_new_def)

lemma sample_reply_refused:
  "\<exists>error. mp_onDataValidated i_ndn sample_asked (data_default i_ndn) P = Inl error"
proof -
  have "block_from_value i_ndn (data_default i_ndn) = Inl (TlvError ''blockFromValue'')"
    by code_simp
  then show ?thesis
    by (simp add: mp_onDataValidated_def)
qed

theorem mapping_query_lifecycle_witness:
  "\<exists>P1. scheduleMappingFetch sample_pubsub_env sample_asked [(8, [65])] sample_pubsub = (True, P1) \<and>
     scheduleMappingFetch sample_pubsub_env sample_asked [(8, [65])] P1 = (False, P1)"
proof -
  let ?schedule = "scheduleMappingFetch sample_pubsub_env sample_asked [(8, [65])]"
  obtain P1 where sent: "?schedule sample_pubsub = (True, P1)"
    using sample_asked_sent by (cases "?schedule sample_pubsub") simp
  obtain error where bad: "mp_onDataValidated (pe_ndn sample_pubsub_env) (mf_query sample_pending)
      (data_default i_ndn) (ps_mappingProvider P1) = Inl error"
    using sample_reply_refused by (auto simp: sample_pubsub_ndn sample_pending_def)
  have ok: "map_ok (fb_mappingFetchInFlight (ps_book sample_pubsub))"
    "map_ok (fb_mappingFetchSuppressUntil (ps_book sample_pubsub))"
    by (simp_all add: sample_pubsub_def fetch_book_new_def)
  have key: "mf_key sample_pending = mapping_key (ordered_range sample_asked)"
    by (simp add: sample_pending_def sample_asked_def ordered_range_def)
  have timeout: "on_mapping_fetch sample_pubsub_env (TimedOut sample_pending) P1 = Some
      (with_book (markMappingFetchFailed (ps_opts P1) (pe_now sample_pubsub_env) (mf_key sample_pending)) P1, None)"
    by (simp add: on_mapping_fetch_def)
  have reply: "on_mapping_fetch sample_pubsub_env (Satisfied sample_pending (data_default i_ndn)) P1 =
      Some (P1, Some error)"
    using bad by (simp add: on_mapping_fetch_def on_mapping_data_def)
  show ?thesis
    using mapping_query_lifecycle [OF ok sent key timeout bad reply] sent by blast
qed

end
