(* ===== verification/Extra_Memory.thy ===== *)
theory Extra_Memory
  imports PubSub_Extra
begin

text \<open>
  The memories of piggybacked packets and of the publications delivered from them: what they hold
  after an insertion, and their bound.
\<close>

section \<open>Bounded memories\<close>

text \<open>
  The map and the queue of its keys, in the order of insertion: \<^verbatim>\<open>m_piggyDataCache\<close> and
  \<^verbatim>\<open>m_piggyDeliveredPublications\<close>.
\<close>

definition memory_ok :: "'k :: linorder list \<times> ('k, 'v) std_map \<Rightarrow> bool" where
  "memory_ok c \<longleftrightarrow> map_ok (snd c) \<and> distinct (fst c) \<and> set (fst c) = fst ` set (snd c)"

lemma memory_ok_keys: "memory_ok c \<Longrightarrow> k \<in> set (fst c) \<longleftrightarrow> map_of (snd c) k \<noteq> None"
  by (simp add: memory_ok_def map_of_eq_None_iff)

lemma memory_ok_length: "memory_ok c \<Longrightarrow> length (snd c) = length (fst c)"
  using map_ok_distinct [of "snd c"] distinct_card [of "fst c"] distinct_card [of "map fst (snd c)"]
  by (simp add: memory_ok_def)

text \<open>The order of the keys after an insertion.\<close>

definition order_with :: "'k list \<Rightarrow> 'k \<Rightarrow> 'k list" where
  "order_with ks k = (if k \<in> set ks then ks else ks @ [k])"

lemma remember_key_ok:
  assumes "memory_ok c"
  shows "memory_ok (remember_key k v c)" and "fst (remember_key k v c) = order_with (fst c) k"
    and "map_of (snd (remember_key k v c)) = (map_of (snd c))(k \<mapsto> v)"
  using assms memory_ok_keys [OF assms, of k]
  by (auto simp: remember_key_def memory_ok_def order_with_def keys_map_put)

text \<open>The oldest keys are dropped.\<close>

lemma evict_run:
  assumes "memory_ok (ks, m)"
  shows "fst (evict limit ks m) = drop (length ks - limit) ks \<and>
    map_of (snd (evict limit ks m)) = map_of m |` set (drop (length ks - limit) ks) \<and>
    memory_ok (evict limit ks m)"
  using assms
proof (induction limit ks m rule: evict.induct)
  case (1 limit m)
  then show ?case
    by (auto simp: memory_ok_def)
next
  case (2 limit k ks m)
  have len: "length m = Suc (length ks)"
    using memory_ok_length [OF 2(2)] by simp
  show ?case
  proof (cases "length m > limit")
    case True
    have "fst ` set (map_erase k m) = fst ` set m - {k}"
      using 2(2) by (simp add: memory_ok_def flip: dom_map_of_conv_image_fst)
    then have ok: "memory_ok (ks, map_erase k m)"
      using 2(2) by (auto simp: memory_ok_def)
    have "map_of (map_erase k m) |` set (drop (length ks - limit) ks) =
        map_of m |` set (drop (length ks - limit) ks)"
      using 2(2) by (auto simp: memory_ok_def restrict_map_def fun_eq_iff dest: in_set_dropD)
    then show ?thesis
      using 2(1) [OF True ok] True len by (simp add: Suc_diff_le)
  next
    case False
    then have "length (k # ks) - limit = 0"
      using len by simp
    moreover have "map_of m |` set (k # ks) = map_of m"
      using memory_ok_keys [OF 2(2)] by (auto simp: restrict_map_def fun_eq_iff)
    ultimately show ?thesis
      using False 2(2) by simp
  qed
qed

definition filed :: "('k \<times> 'v) list \<Rightarrow> 'k list \<Rightarrow> 'k list" where
  "filed entries ks = fold (\<lambda>(k, v) ks. order_with ks k) entries ks"

text \<open>An operation that inserts entries and drops the oldest: what both memories have in common.\<close>

locale bounded_memory =
  fixes memory :: "'s \<Rightarrow> 'k :: linorder list \<times> ('k, 'v) std_map" and limit :: "'s \<Rightarrow> nat"
    and add :: "'x \<Rightarrow> 's \<Rightarrow> 's" and entries :: "'x \<Rightarrow> ('k \<times> 'v) list"
  assumes add_memory: "memory (add x s) =
      (let c = fold (\<lambda>(k, v). remember_key k v) (entries x) (memory s) in evict (limit s) (fst c) (snd c))"
    and add_limit: "limit (add x s) = limit s"
begin

lemma remembered:
  "memory_ok c \<Longrightarrow> memory_ok (fold (\<lambda>(k, v). remember_key k v) es c) \<and>
     fst (fold (\<lambda>(k, v). remember_key k v) es c) = fold (\<lambda>(k, v) ks. order_with ks k) es (fst c) \<and>
     map_of (snd (fold (\<lambda>(k, v). remember_key k v) es c)) = fold (\<lambda>(k, v) m. m(k \<mapsto> v)) es (map_of (snd c))"
proof (induction es arbitrary: c)
  case (Cons e es)
  then show ?case
    using Cons.IH [of "remember_key (fst e) (snd e) c"]
    by (simp add: remember_key_ok split_beta)
qed simp

lemma added:
  assumes "memory_ok (memory s)"
  shows "memory_ok (memory (add x s)) \<and>
    fst (memory (add x s)) = drop (length (filed (entries x) (fst (memory s))) - limit s) (filed (entries x) (fst (memory s))) \<and>
    map_of (snd (memory (add x s))) =
      fold (\<lambda>(k, v) m. m(k \<mapsto> v)) (entries x) (map_of (snd (memory s))) |`
        set (drop (length (filed (entries x) (fst (memory s))) - limit s) (filed (entries x) (fst (memory s))))"
proof -
  obtain ks m where c: "fold (\<lambda>(k, v). remember_key k v) (entries x) (memory s) = (ks, m)"
    by (metis prod.exhaust)
  have run: "memory_ok (ks, m)" "ks = filed (entries x) (fst (memory s))"
    "map_of m = fold (\<lambda>(k, v) m. m(k \<mapsto> v)) (entries x) (map_of (snd (memory s)))"
    using remembered [OF assms(1), of "entries x"] unfolding c filed_def fst_conv snd_conv by blast+
  show ?thesis
    using evict_run [OF run(1), of "limit s"] by (simp add: add_memory c run(3) flip: run(2))
qed

lemma bounded:
  assumes "memory_ok (memory s)"
  shows "length (snd (memory (add x s))) \<le> limit s"
proof -
  have "memory_ok (memory (add x s))" "fst (memory (add x s)) = drop (length (filed (entries x) (fst (memory s))) - limit s) (filed (entries x) (fst (memory s)))"
    using added [OF assms] by blast+
  then show ?thesis
    using memory_ok_length [of "memory (add x s)"] by simp
qed

end

abbreviation delivered_memory :: "('n, 'b, 'd) extra_data \<Rightarrow> 'n publication_key list \<times> ('n publication_key, bool) std_map" where
  "delivered_memory x \<equiv> (ex_piggyDeliveredPublicationOrder x, ex_piggyDeliveredPublications x)"

abbreviation data_memory :: "('n, 'b, 'd) extra_data \<Rightarrow> 'n list \<times> ('n, 'd) std_map" where
  "data_memory x \<equiv> (ex_piggyDataCacheOrder x, ex_piggyDataCache x)"

interpretation delivered_publications:
  bounded_memory delivered_memory ex_piggyDeliveredPublicationLimit
    rememberPiggyDeliveredPublication "\<lambda>key. [(key, True)]"
  by unfold_locales (simp_all add: rememberPiggyDeliveredPublication_def Let_def split_beta)

interpretation data_cache:
  bounded_memory data_memory ex_piggyDataCacheLimit "cache_piggy_data N"
    "\<lambda>data. [(data_name N data, data), (data_full_name N data, data)]" for N
  by unfold_locales (simp_all add: cache_piggy_data_def Let_def split_beta)

text \<open>
  C40: The memories of piggybacked packets are bounded. Taking a packet files it under its name and
  its full name, and remembering a delivered publication files its key; then the oldest entries
  are dropped, so that a memory holds at most as many as its limit allows, exactly those of the
  keys that were filed last, each once, with its latest content.
\<close>

theorem piggy_memories_bounded:
  fixes N :: "('n :: linorder, 'c, 'b, 'd, 'i) ndn" and x :: "('n, 'b, 'd) extra_data"
    and data :: 'd and key :: "'n publication_key"
  assumes "memory_ok (data_memory x)" and "memory_ok (delivered_memory x)"
  defines "names \<equiv> order_with (order_with (ex_piggyDataCacheOrder x) (data_name N data)) (data_full_name N data)"
    and "keys \<equiv> order_with (ex_piggyDeliveredPublicationOrder x) key"
    and "x1 \<equiv> cache_piggy_data N data x" and "x2 \<equiv> rememberPiggyDeliveredPublication key x"
  shows "memory_ok (data_memory x1) \<and> length (ex_piggyDataCache x1) \<le> ex_piggyDataCacheLimit x \<and>
    ex_piggyDataCacheOrder x1 = drop (length names - ex_piggyDataCacheLimit x) names \<and>
    map_of (ex_piggyDataCache x1) =
      (map_of (ex_piggyDataCache x))(data_name N data \<mapsto> data, data_full_name N data \<mapsto> data) |`
        set (ex_piggyDataCacheOrder x1) \<and>
    memory_ok (delivered_memory x2) \<and>
    length (ex_piggyDeliveredPublications x2) \<le> ex_piggyDeliveredPublicationLimit x \<and>
    ex_piggyDeliveredPublicationOrder x2 = drop (length keys - ex_piggyDeliveredPublicationLimit x) keys \<and>
    (\<forall>k. hasPiggyDeliveredPublication k x2 \<longleftrightarrow> k \<in> set (ex_piggyDeliveredPublicationOrder x2))"
proof -
  have names: "filed [(data_name N data, data), (data_full_name N data, data)] (ex_piggyDataCacheOrder x) = names"
    and keys: "filed [(key, True)] (ex_piggyDeliveredPublicationOrder x) = keys"
    by (simp_all add: filed_def names_def keys_def)
  note cached = data_cache.added [OF assms(1), of N data, unfolded fst_conv names, folded x1_def]
    and told = delivered_publications.added [OF assms(2), of key, unfolded fst_conv keys, folded x2_def]
  have cache: "memory_ok (data_memory x1)"
      "ex_piggyDataCacheOrder x1 = drop (length names - ex_piggyDataCacheLimit x) names"
      "map_of (ex_piggyDataCache x1) =
         (map_of (ex_piggyDataCache x))(data_name N data \<mapsto> data, data_full_name N data \<mapsto> data) |`
           set (drop (length names - ex_piggyDataCacheLimit x) names)"
    using cached unfolding fst_conv snd_conv fold_simps prod.case id_apply by blast+
  have delivered: "memory_ok (delivered_memory x2)"
      "ex_piggyDeliveredPublicationOrder x2 = drop (length keys - ex_piggyDeliveredPublicationLimit x) keys"
    using told unfolding fst_conv by blast+
  have "length (ex_piggyDataCache x1) \<le> ex_piggyDataCacheLimit x"
    "length (ex_piggyDeliveredPublications x2) \<le> ex_piggyDeliveredPublicationLimit x"
    using data_cache.bounded [OF assms(1), of N data] delivered_publications.bounded [OF assms(2), of key]
    by (simp_all add: x1_def x2_def)
  moreover have "hasPiggyDeliveredPublication k x2 \<longleftrightarrow> k \<in> set (ex_piggyDeliveredPublicationOrder x2)" for k
    using memory_ok_keys [OF delivered(1), of k] by (simp add: hasPiggyDeliveredPublication_def)
  ultimately show ?thesis
    using cache delivered by (simp only: simp_thms)
qed

theorem piggy_memories_bounded_witness:
  "let x = (extra_data_new i_ndn 1) :: (i_name, i_block, i_data) extra_data in
     memory_ok (data_memory x) \<and> memory_ok (delivered_memory x) \<and>
     length (ex_piggyDataCache (cache_piggy_data i_ndn (data_default i_ndn) x)) \<le> 1"
proof -
  let ?x = "(extra_data_new i_ndn 1) :: (i_name, i_block, i_data) extra_data"
  have "memory_ok (data_memory ?x)" "memory_ok (delivered_memory ?x)" "ex_piggyDataCacheLimit ?x = 1"
    by (simp_all add: extra_data_new_def memory_ok_def)
  then show ?thesis
    using piggy_memories_bounded [of ?x i_ndn "data_default i_ndn"] by simp
qed

end
