(* ===== verification/Extra_Exchange.thy ===== *)
theory Extra_Exchange
  imports PubSub_Extra "HOL-Library.Sublist"
begin

text \<open>
  The extra blocks from the sender's side: the packing of the three queues within the limit, the
  rounds after which entries leave them, and the acceptance by every receiver of what was built.
\<close>

section \<open>Packing a queue\<close>

definition pack_start :: "'b list \<times> nat \<Rightarrow> ('e, 'b) pack_state" where
  "pack_start acc = \<lparr>pk_blocks = fst acc, pk_size = snd acc, pk_retained = [], pk_counted = []\<rparr>"

definition wires :: "('n, 'c, 'b, 'd, 'i) ndn \<Rightarrow> 'b list \<Rightarrow> bytes" where
  "wires N bs = concat (map (block_wire N) bs)"

lemma wires_simps [simp]:
  "wires N [] = []" "wires N (b # bs) = block_wire N b @ wires N bs" "wires N (xs @ ys) = wires N xs @ wires N ys"
  by (simp_all add: wires_def)

text \<open>What a loop appends: blocks of the entries, within the limit.\<close>

definition packed ::
    "('n, 'c, 'b, 'd, 'i) ndn \<Rightarrow> nat \<Rightarrow> ('e, 'b) piggy_ops \<Rightarrow> 'e list \<Rightarrow> 'b list \<times> nat \<Rightarrow> 'b list \<times> nat
      \<Rightarrow> bool" where
  "packed N limit ops entries acc acc' \<longleftrightarrow>
     (\<exists>bs. fst acc' = fst acc @ bs \<and> snd acc' = snd acc + length (wires N bs) \<and>
       (bs \<noteq> [] \<longrightarrow> snd acc' \<le> limit) \<and>
       (\<forall>b \<in> set bs. \<exists>entry \<in> set entries. po_encode ops entry = Inr b))"

lemma pack_entry_packed:
  assumes "po_encode ops entry = Inr block" and "entry \<in> set entries"
    and "packed N limit ops entries acc (pk_blocks s, pk_size s)"
  shows "packed N limit ops entries acc
    (pk_blocks (pack_entry N limit missLimit ops entry block s),
     pk_size (pack_entry N limit missLimit ops entry block s))"
proof (cases "pk_size s + length (block_wire N block) > limit")
  case True
  then show ?thesis
    using assms(3) by (simp add: pack_entry_def Let_def)
next
  case False
  obtain bs where bs: "pk_blocks s = fst acc @ bs" "pk_size s = snd acc + length (wires N bs)"
    "\<forall>b \<in> set bs. \<exists>entry \<in> set entries. po_encode ops entry = Inr b"
    using assms(3) by (auto simp: packed_def)
  show ?thesis
    unfolding packed_def
    by (rule exI [of _ "bs @ [block]"]) (use False bs assms(1,2) in \<open>auto simp: pack_entry_def Let_def\<close>)
qed

lemma pack_loop_packed:
  assumes "pack_loop N limit missLimit ops entries s = (s', None)" and "set entries \<subseteq> set all"
    and "packed N limit ops all acc (pk_blocks s, pk_size s)"
  shows "packed N limit ops all acc (pk_blocks s', pk_size s')"
  using assms
proof (induction entries arbitrary: s)
  case (Cons entry entries)
  then show ?case
    using pack_entry_packed [of ops entry _ all N limit acc s missLimit]
    by (auto split: sum.splits)
qed simp

lemma pack_queue_packed:
  assumes "pack_queue N limit missLimit ops queue acc = (acc', q, None)"
  shows "packed N limit ops queue acc acc'"
proof -
  obtain s where s: "pack_loop N limit missLimit ops (rev queue) (pack_start acc) = (s, None)"
    "acc' = (pk_blocks s, pk_size s)"
    using assms by (auto simp: pack_queue_def pack_start_def split: prod.splits option.splits)
  have "packed N limit ops queue acc (pk_blocks (pack_start acc), pk_size (pack_start acc))"
    by (auto simp: packed_def pack_start_def intro!: exI [of _ "[]"])
  then show ?thesis
    using pack_loop_packed [OF s(1), of queue acc] s(2) by simp
qed

text \<open>
  What a loop leaves of the queue: entries that were sent or missed once more, and neither often
  enough to be dropped.
\<close>

definition kept :: "nat \<Rightarrow> ('e, 'b) piggy_ops \<Rightarrow> 'e \<Rightarrow> 'e \<Rightarrow> bool" where
  "kept missLimit ops entry entry' \<longleftrightarrow>
     entry' = po_incSent ops entry \<and> po_sent ops entry' < po_repeat ops \<or>
     entry' = po_incMissed ops entry \<and> po_missed ops entry' < missLimit"

definition kept_of :: "nat \<Rightarrow> ('e, 'b) piggy_ops \<Rightarrow> 'e list \<Rightarrow> 'e list \<Rightarrow> bool" where
  "kept_of missLimit ops queue queue' \<longleftrightarrow>
     (\<exists>entries. subseq entries queue \<and> list_all2 (kept missLimit ops) entries queue')"

lemma subseq_set: "subseq xs ys \<Longrightarrow> set xs \<subseteq> set ys"
  by (induction rule: list_emb.induct) auto

lemma kept_of_Cons:
  "kept_of missLimit ops queue queue' \<Longrightarrow> kept_of missLimit ops (entry # queue) queue'"
  "kept_of missLimit ops queue queue' \<Longrightarrow> kept missLimit ops entry entry' \<Longrightarrow>
     kept_of missLimit ops (entry # queue) (entry' # queue')"
  unfolding kept_of_def by (blast intro: list_emb.intros, metis list_all2_Cons subseq_Cons2)

lemma pack_entry_kept:
  assumes "kept_of missLimit ops queue (pk_retained s)"
  shows "kept_of missLimit ops (entry # queue) (pk_retained (pack_entry N limit missLimit ops entry block s))"
  using assms
  by (auto simp: pack_entry_def Let_def kept_def intro: kept_of_Cons)

lemma pack_loop_kept:
  assumes "pack_loop N limit missLimit ops entries s = (s', None)"
    and "kept_of missLimit ops queue (pk_retained s)"
  shows "kept_of missLimit ops (rev entries @ queue) (pk_retained s')"
  using assms
proof (induction entries arbitrary: s queue)
  case (Cons entry entries)
  then show ?case
    using pack_entry_kept [of missLimit ops queue s entry N limit] Cons.IH [of _ "entry # queue"]
    by (auto split: sum.splits)
qed simp

lemma pack_queue_kept:
  assumes "pack_queue N limit missLimit ops queue acc = (acc', q, None)"
  shows "kept_of missLimit ops queue q"
proof -
  obtain s where s: "pack_loop N limit missLimit ops (rev queue) (pack_start acc) = (s, None)" "q = pk_retained s"
    using assms by (auto simp: pack_queue_def pack_start_def split: prod.splits option.splits)
  have "kept_of missLimit ops [] (pk_retained (pack_start acc))"
    by (auto simp: kept_of_def pack_start_def)
  then show ?thesis
    using pack_loop_kept [OF s(1), of "[]"] s(2) by simp
qed

section \<open>The three queues\<close>

lemma onGetExtraData_run:
  assumes "onGetExtraData N opts limit x = (Inr composite, x')"
  obtains block es acc1 acc2 acc3 where
    "initial_block N limit (ex_notificationMappingList x) = Inr (block, es)"
    and "packed N limit (mapping_ops N opts) (ex_piggyMappingQueue x) (es, length (block_wire N block)) acc1"
    and "packed N limit (data_ops N opts) (ex_piggyDataQueue x) acc1 acc2"
    and "packed N limit (repair_ops N opts) (ex_repairRequestQueue x) acc2 acc3"
    and "composite = (if fst acc3 = es then block else block_nested N (block_type N block) (fst acc3))"
    and "kept_of (so_piggybackMissLimit opts) (mapping_ops N opts) (ex_piggyMappingQueue x) (ex_piggyMappingQueue x')"
    and "kept_of (so_piggybackMissLimit opts) (data_ops N opts) (ex_piggyDataQueue x) (ex_piggyDataQueue x')"
    and "kept_of (so_piggybackMissLimit opts) (repair_ops N opts) (ex_repairRequestQueue x) (ex_repairRequestQueue x')"
proof -
  let ?miss = "so_piggybackMissLimit opts"
  obtain block es where i: "initial_block N limit (ex_notificationMappingList x) = Inr (block, es)"
    using assms by (auto simp: onGetExtraData_def split: sum.splits)
  obtain acc1 q1 e1 where m: "pack_queue N limit ?miss (mapping_ops N opts) (ex_piggyMappingQueue x)
      (es, length (block_wire N block)) = (acc1, q1, e1)"
    by (metis prod.exhaust)
  obtain acc2 q2 e2 where d: "pack_queue N limit ?miss (data_ops N opts) (ex_piggyDataQueue x) acc1 = (acc2, q2, e2)"
    by (metis prod.exhaust)
  obtain acc3 q3 e3 where r: "pack_queue N limit ?miss (repair_ops N opts) (ex_repairRequestQueue x) acc2 = (acc3, q3, e3)"
    by (metis prod.exhaust)
  have run: "e1 = None" "e2 = None" "e3 = None"
    "composite = (if fst acc3 = es then block else block_nested N (block_type N block) (fst acc3))"
    "x' = x\<lparr>ex_piggyMappingQueue := q1, ex_piggyDataQueue := q2, ex_repairRequestQueue := q3,
       ex_notificationMappingList := mapping_list_new (nm_empty N) V3\<rparr>"
    using assms by (auto simp: onGetExtraData_def i m d r Let_def split: option.splits)
  show thesis
    by (rule that [OF i pack_queue_packed [OF m [unfolded run(1)]] pack_queue_packed [OF d [unfolded run(2)]]
          pack_queue_packed [OF r [unfolded run(3)]] run(4)])
      (simp_all add: run(5) pack_queue_kept [OF m [unfolded run(1)]] pack_queue_kept [OF d [unfolded run(2)]]
        pack_queue_kept [OF r [unfolded run(3)]])
qed


section \<open>Entries leave the queues\<close>

text \<open>The counters of an entry after so many rounds.\<close>

definition after_rounds :: "('e, 'b) piggy_ops \<Rightarrow> nat \<Rightarrow> nat \<Rightarrow> 'e \<Rightarrow> bool" where
  "after_rounds ops missLimit n entry \<longleftrightarrow>
     po_sent ops entry + po_missed ops entry = n \<and>
     (po_sent ops entry = 0 \<or> po_sent ops entry < po_repeat ops) \<and>
     (po_missed ops entry = 0 \<or> po_missed ops entry < missLimit)"

text \<open>The three kinds of entries count alike.\<close>

locale counted_entries =
  fixes ops :: "('e, 'b) piggy_ops"
  assumes sent_sent: "po_sent ops (po_incSent ops entry) = Suc (po_sent ops entry)"
    and sent_missed: "po_missed ops (po_incSent ops entry) = po_missed ops entry"
    and missed_sent: "po_sent ops (po_incMissed ops entry) = po_sent ops entry"
    and missed_missed: "po_missed ops (po_incMissed ops entry) = Suc (po_missed ops entry)"
begin

lemma kept_rounds:
  "kept missLimit ops entry entry' \<Longrightarrow> after_rounds ops missLimit n entry \<Longrightarrow> after_rounds ops missLimit (Suc n) entry'"
  by (auto simp: kept_def after_rounds_def sent_sent sent_missed missed_sent missed_missed)

lemma kept_of_rounds:
  assumes "kept_of missLimit ops queue queue'" and "\<forall>entry \<in> set queue. after_rounds ops missLimit n entry"
  shows "\<forall>entry \<in> set queue'. after_rounds ops missLimit (Suc n) entry"
proof -
  obtain entries where "set entries \<subseteq> set queue" "list_all2 (kept missLimit ops) entries queue'"
    using assms(1) by (auto simp: kept_of_def dest: subseq_set)
  then show ?thesis
    using assms(2) kept_rounds by (fastforce simp: list_all2_conv_all_nth in_set_conv_nth)
qed

lemma rounds_over:
  assumes "\<forall>entry \<in> set queue. after_rounds ops missLimit n entry" and "0 < n" and "po_repeat ops + missLimit \<le> n"
  shows "queue = []"
proof (cases queue)
  case (Cons entry entries)
  then have "after_rounds ops missLimit n entry"
    using assms(1) by simp
  then show ?thesis
    using assms(2,3) by (auto simp: after_rounds_def)
qed simp

end

interpretation mapping_entries: counted_entries "mapping_ops N opts" for N opts
  by unfold_locales (simp_all add: mapping_ops_def)

interpretation data_entries: counted_entries "data_ops N opts" for N opts
  by unfold_locales (simp_all add: data_ops_def)

interpretation repair_entries: counted_entries "repair_ops N opts" for N opts
  by unfold_locales (simp_all add: repair_ops_def)

text \<open>The Sync Interests a node sends one after the other, each with its limit.\<close>

fun send_extras ::
    "('n, 'c, 'b, 'd, 'i) ndn \<Rightarrow> pubsub_options \<Rightarrow> nat list \<Rightarrow> ('n, 'b, 'd) extra_data
      \<Rightarrow> ('n, 'b, 'd) extra_data option" where
  "send_extras N opts [] x = Some x"
| "send_extras N opts (limit # limits) x =
     (case onGetExtraBlocks N opts limit x of
        (Inl _, _) \<Rightarrow> None
      | (Inr _, x) \<Rightarrow> send_extras N opts limits x)"

lemma onGetExtraBlocks_data:
  assumes "onGetExtraBlocks N opts limit x = (Inr blocks, x')"
  obtains composite where "onGetExtraData N opts limit x = (Inr composite, x')"
    and "split_composite N composite = Inr blocks"
proof -
  obtain r y where r: "onGetExtraData N opts limit x = (r, y)"
    by (cases "onGetExtraData N opts limit x")
  then have "res_bind r (split_composite N) = Inr blocks" "y = x'"
    using assms by (simp_all add: onGetExtraBlocks_def)
  then show thesis
    using that r by (cases r) simp_all
qed

lemma send_extras_rounds:
  assumes "send_extras N opts limits x = Some x'" and "miss = so_piggybackMissLimit opts"
    and "\<forall>entry \<in> set (ex_piggyMappingQueue x). after_rounds (mapping_ops N opts) miss n entry"
    and "\<forall>entry \<in> set (ex_piggyDataQueue x). after_rounds (data_ops N opts) miss n entry"
    and "\<forall>entry \<in> set (ex_repairRequestQueue x). after_rounds (repair_ops N opts) miss n entry"
  shows "(\<forall>entry \<in> set (ex_piggyMappingQueue x'). after_rounds (mapping_ops N opts) miss (length limits + n) entry) \<and>
    (\<forall>entry \<in> set (ex_piggyDataQueue x'). after_rounds (data_ops N opts) miss (length limits + n) entry) \<and>
    (\<forall>entry \<in> set (ex_repairRequestQueue x'). after_rounds (repair_ops N opts) miss (length limits + n) entry)"
  using assms
proof (induction limits arbitrary: x n)
  case (Cons limit limits)
  obtain blocks y where y: "onGetExtraBlocks N opts limit x = (Inr blocks, y)"
    "send_extras N opts limits y = Some x'"
    using Cons.prems(1) by (auto split: prod.splits sum.splits)
  obtain composite where "onGetExtraData N opts limit x = (Inr composite, y)"
    by (rule onGetExtraBlocks_data [OF y(1)])
  then have k: "kept_of miss (mapping_ops N opts) (ex_piggyMappingQueue x) (ex_piggyMappingQueue y)"
    "kept_of miss (data_ops N opts) (ex_piggyDataQueue x) (ex_piggyDataQueue y)"
    "kept_of miss (repair_ops N opts) (ex_repairRequestQueue x) (ex_repairRequestQueue y)"
    unfolding Cons.prems(2) by (rule onGetExtraData_run, blast)+
  show ?case
    using Cons.IH [OF y(2) Cons.prems(2) mapping_entries.kept_of_rounds [OF k(1) Cons.prems(3)]
        data_entries.kept_of_rounds [OF k(2) Cons.prems(4)] repair_entries.kept_of_rounds [OF k(3) Cons.prems(5)]]
    by simp
qed simp

text \<open>
  C24: What waits to be piggybacked does not wait for ever, and is not repeated without end. After as
  many Sync Interests as the configured repetitions and misses together (and at least one), no
  entry that was in a queue before, of a mapping, of a packet or of a repair request, is left in
  it, whatever fitted into the Interests.
\<close>

theorem extra_entries_leave:
  assumes "send_extras N opts limits x = Some x'" and "limits \<noteq> []"
    and "\<forall>entry \<in> set (ex_piggyMappingQueue x). pm_sent entry = 0 \<and> pm_missed entry = 0"
    and "\<forall>entry \<in> set (ex_piggyDataQueue x). pd_sent entry = 0 \<and> pd_missed entry = 0"
    and "\<forall>entry \<in> set (ex_repairRequestQueue x). rr_sent entry = 0 \<and> rr_missed entry = 0"
    and "so_piggybackRepeatCount opts + so_piggybackMissLimit opts \<le> length limits"
    and "so_repairRequestRepeatCount opts + so_piggybackMissLimit opts \<le> length limits"
  shows "ex_piggyMappingQueue x' = [] \<and> ex_piggyDataQueue x' = [] \<and> ex_repairRequestQueue x' = []"
proof -
  have "\<forall>entry \<in> set (ex_piggyMappingQueue x). after_rounds (mapping_ops N opts) (so_piggybackMissLimit opts) 0 entry"
    "\<forall>entry \<in> set (ex_piggyDataQueue x). after_rounds (data_ops N opts) (so_piggybackMissLimit opts) 0 entry"
    "\<forall>entry \<in> set (ex_repairRequestQueue x). after_rounds (repair_ops N opts) (so_piggybackMissLimit opts) 0 entry"
    using assms(3-5)
    by (simp_all add: after_rounds_def mapping_ops_def data_ops_def repair_ops_def)
  note run = send_extras_rounds [OF assms(1) refl this]
  have "0 < length limits + 0" "po_repeat (mapping_ops N opts) + so_piggybackMissLimit opts \<le> length limits + 0"
    "po_repeat (data_ops N opts) + so_piggybackMissLimit opts \<le> length limits + 0"
    "po_repeat (repair_ops N opts) + so_piggybackMissLimit opts \<le> length limits + 0"
    using assms(2,6,7) by (simp_all add: mapping_ops_def data_ops_def repair_ops_def)
  then show ?thesis
    using run mapping_entries.rounds_over data_entries.rounds_over repair_entries.rounds_over by blast
qed


section \<open>What is sent is accepted\<close>

text \<open>The framing of what is within the limit can be represented.\<close>

definition framed :: "('n, 'c, 'b, 'd, 'i) ndn \<Rightarrow> nat \<Rightarrow> bool" where
  "framed N limit \<longleftrightarrow> (\<forall>t v. length v \<le> limit \<longrightarrow> fits (tlv_bytes N t v))"

lemma framed_fits: "framed N limit \<Longrightarrow> length v \<le> limit \<Longrightarrow> fits v"
  using fits_tlv_value [of N _ v] by (auto simp: framed_def)

lemma encoded_wire:
  assumes "tlv_laws N" and "mapping_list_encode N l = Inr b"
  shows "block_wire N b = mapping_list_bytes N l"
  using assms tlv_law_wire [OF assms(1)]
  by (auto simp: mapping_list_encode_bytes res_of_option_def split: option.splits)

lemma encoded_repair_wire:
  assumes "tlv_laws N" and "encodeRepairRequests N rs = Inr b"
  shows "block_wire N b = repair_list_bytes N rs"
  using assms tlv_law_wire [OF assms(1)]
  by (auto simp: encodeRepairRequests_bytes res_of_option_def split: option.splits)

text \<open>The mappings that are included are some of those waiting, in their order.\<close>

lemma include_chosen:
  "include_mappings N limit entries included = Inr l \<Longrightarrow>
   \<exists>chosen. subseq chosen entries \<and> l = included\<lparr>ml_pairs := ml_pairs included @ chosen\<rparr>"
proof (induction entries arbitrary: included)
  case (Cons entry entries)
  let ?candidate = "included\<lparr>ml_pairs := ml_pairs included @ [entry]\<rparr>"
  consider "include_mappings N limit entries ?candidate = Inr l" | "include_mappings N limit entries included = Inr l"
    using Cons.prems by (auto simp: Let_def res_bind_eq_Inr split: if_splits)
  then show ?case
  proof cases
    case 1
    then obtain chosen where "subseq chosen entries" "l = ?candidate\<lparr>ml_pairs := ml_pairs ?candidate @ chosen\<rparr>"
      using Cons.IH by blast
    then show ?thesis
      by (intro exI [of _ "entry # chosen"]) simp
  next
    case 2
    then show ?thesis
      using Cons.IH [of included] by (auto intro: list_emb_Cons)
  qed
qed (auto intro!: exI [of _ "[]"])

lemma include_size:
  assumes "tlv_laws N" and "include_mappings N limit entries included = Inr l"
    and "length (mapping_list_bytes N included) \<le> limit"
  shows "length (mapping_list_bytes N l) \<le> limit"
  using assms(2,3)
proof (induction entries arbitrary: included)
  case (Cons entry entries)
  let ?candidate = "included\<lparr>ml_pairs := ml_pairs included @ [entry]\<rparr>"
  obtain b where b: "mapping_list_encode N ?candidate = Inr b"
    using Cons.prems(1) by (auto simp: Let_def res_bind_eq_Inr)
  show ?case
    using Cons.prems Cons.IH [of ?candidate] Cons.IH [of included] b encoded_wire [OF assms(1) b]
    by (auto simp: Let_def split: if_splits)
qed simp

lemma include_all:
  assumes "tlv_laws N" and "include_mappings N limit entries included = Inr l"
    and "\<forall>k. length (mapping_list_bytes N (included\<lparr>ml_pairs := ml_pairs included @ take k entries\<rparr>)) \<le> limit"
  shows "l = included\<lparr>ml_pairs := ml_pairs included @ entries\<rparr>"
  using assms(2,3)
proof (induction entries arbitrary: included)
  case (Cons entry entries)
  let ?candidate = "included\<lparr>ml_pairs := ml_pairs included @ [entry]\<rparr>"
  obtain b where b: "mapping_list_encode N ?candidate = Inr b"
    using Cons.prems(1) by (auto simp: Let_def res_bind_eq_Inr)
  have sizes: "length (mapping_list_bytes N (?candidate\<lparr>ml_pairs := ml_pairs ?candidate @ take k entries\<rparr>)) \<le> limit" for k
    using spec [OF Cons.prems(2), of "Suc k"] by simp
  then have "length (block_wire N b) \<le> limit"
    using sizes [of 0] encoded_wire [OF assms(1) b] by simp
  then have "include_mappings N limit entries ?candidate = Inr l"
    using Cons.prems(1) b by (simp add: Let_def)
  then show ?case
    using Cons.IH [of ?candidate] sizes by simp
qed simp

text \<open>
  What is chosen of the notification list: a selection, and all of it when the node is named and the
  list and all its beginnings fit.
\<close>

definition selected :: "('n, 'c, 'b, 'd, 'i) ndn \<Rightarrow> nat \<Rightarrow> ('n, 'b) mapping_list \<Rightarrow> ('n, 'b) mapping_entry list \<Rightarrow> bool" where
  "selected N limit notification chosen \<longleftrightarrow>
     subseq chosen (ml_pairs notification) \<and>
     (ml_nodeId notification \<noteq> nm_empty N \<and>
        (\<forall>k. length (mapping_list_bytes N \<lparr>ml_nodeId = ml_nodeId notification,
           ml_pairs = take k (ml_pairs notification), ml_version = V3\<rparr>) \<le> limit)
      \<longrightarrow> chosen = ml_pairs notification)"

text \<open>The sub-elements of what is sent.\<close>

definition child_ok :: "('n, 'c, 'b, 'd, 'i) ndn \<Rightarrow> 'b \<Rightarrow> bool" where
  "child_ok N child \<longleftrightarrow>
     block_type N child \<in> {tlv_Name, tlv_MappingEntry} \<or>
     block_type N child = tlv_MappingData \<and> (\<exists>l. mapping_list_decode N V3 child = Inr l) \<or>
     block_type N child = tlv_Data \<and> data_of_block N child \<noteq> None \<or>
     block_type N child = tlv_RepairData \<and> (\<exists>rs. decodeRepairRequests N child = Inr rs)"

lemma validate_children:
  "\<forall>child \<in> set children. child_ok N child \<Longrightarrow> res_fold (validate_child N) children u = Inr ()"
proof (induction children arbitrary: u)
  case (Cons child children)
  have "validate_child N child u = Inr ()"
    using Cons.prems by (auto simp: child_ok_def validate_child_def discard_def svs_simps)
  then show ?case
    using Cons by simp
qed simp

definition requests_of :: "('n, 'c, 'b, 'd, 'i) ndn \<Rightarrow> 'b \<Rightarrow> 'n missing_data_info list" where
  "requests_of N child = (case decodeRepairRequests N child of Inl _ \<Rightarrow> [] | Inr rs \<Rightarrow> rs)"

lemma split_children:
  assumes "\<forall>child \<in> set children. child_ok N child"
  shows "res_fold (split_child N) children (as, rs) =
    Inr (as @ filter (\<lambda>b. block_type N b \<noteq> tlv_RepairData) children,
      rs @ concat (map (requests_of N) (filter (\<lambda>b. block_type N b = tlv_RepairData) children)))"
  using assms
proof (induction children arbitrary: as rs)
  case (Cons child children)
  have "child_ok N child"
    using Cons.prems by simp
  then show ?case
    using Cons by (auto simp: split_child_def child_ok_def requests_of_def svs_simps)
qed simp

text \<open>Blocks of other types are skipped by the decoder of lists.\<close>

lemma decode_skips:
  assumes "\<forall>b \<in> set bs. block_type N b \<notin> {tlv_Name, tlv_MappingEntry}"
  shows "res_fold (decode_mapping_elem N) bs l = Inr l"
  using assms by (induction bs) (simp_all add: decode_mapping_elem_def)

lemma wires_filter: "length (wires N (filter Q bs)) \<le> length (wires N bs)"
  by (induction bs) simp_all

lemma wires_member: "b \<in> set bs \<Longrightarrow> length (block_wire N b) \<le> length (wires N bs)"
  by (induction bs) auto

text \<open>What each queue contributes.\<close>

lemma packed_mapping_ok:
  assumes "tlv_laws N" and "po_encode (mapping_ops N opts) entry = Inr b" and "fits (block_wire N b)"
  shows "block_type N b = tlv_MappingData" and "child_ok N b"
proof -
  let ?l = "\<lparr>ml_nodeId = pm_nodeId entry, ml_pairs = [pm_mapping entry], ml_version = V3\<rparr>"
  have e: "mapping_list_encode N ?l = Inr b"
    using assms(2) by (simp add: mapping_ops_def)
  have fits: "fits (mapping_list_bytes N ?l)"
    using assms(3) encoded_wire [OF assms(1) e] by simp
  obtain b' where b': "mapping_list_encode N ?l = Inr b'" "block_type N b' = tlv_MappingData"
    "mapping_list_decode N (ml_version ?l) b' = Inr (mapping_list_sent ?l)"
    by (rule mapping_list_decode_encode [OF assms(1) fits])
  then show "block_type N b = tlv_MappingData"
    using e by simp
  then show "child_ok N b"
    using b' e by (simp add: child_ok_def)
qed

lemma packed_data_ok:
  assumes "packet_laws N" and "po_encode (data_ops N opts) entry = Inr b" and "fits (block_wire N b)"
  shows "block_type N b = tlv_Data" and "child_ok N b"
  using assms packet_law_data(1,2) [OF assms(1)] by (auto simp: data_ops_def child_ok_def)

lemma packed_repair_ok:
  assumes "tlv_laws N" and "po_encode (repair_ops N opts) entry = Inr b" and "fits (block_wire N b)"
    and "repair_range_ok (rr_info entry)"
  shows "block_type N b = tlv_RepairData" and "child_ok N b"
    and "requests_of N b = [(rr_info entry)\<lparr>md_incomingFace := 0\<rparr>]"
    and "length (repair_bytes N ((rr_info entry)\<lparr>md_incomingFace := 0\<rparr>)) \<le> length (block_wire N b)"
proof -
  have e: "encodeRepairRequests N [rr_info entry] = Inr b"
    using assms(2) by (simp add: repair_ops_def)
  have wire: "block_wire N b = repair_list_bytes N [rr_info entry]"
    by (rule encoded_repair_wire [OF assms(1) e])
  have "fits (repair_list_bytes N [rr_info entry])"
    using assms(3) wire by simp
  then have d: "block_type N b = tlv_RepairData"
    "decodeRepairRequests N b = Inr [(rr_info entry)\<lparr>md_incomingFace := 0\<rparr>]"
    using repair_list_exchange [OF assms(1), of "[rr_info entry]"] assms(4) e
    by (auto simp: repair_range_ok_def)
  then show "block_type N b = tlv_RepairData" "child_ok N b"
    "requests_of N b = [(rr_info entry)\<lparr>md_incomingFace := 0\<rparr>]"
    by (simp_all add: child_ok_def requests_of_def)
  have "repair_bytes N ((rr_info entry)\<lparr>md_incomingFace := 0\<rparr>) = repair_bytes N (rr_info entry)"
    by (simp add: repair_bytes_def repair_value_def)
  then show "length (repair_bytes N ((rr_info entry)\<lparr>md_incomingFace := 0\<rparr>)) \<le> length (block_wire N b)"
    by (simp add: wire repair_list_bytes_def tlv_bytes_def)
qed


lemma initial_block_run:
  assumes "tlv_laws N" and "framed N limit" and "initial_block N limit notification = Inr (block, es)"
    and "length (mapping_list_bytes N (mapping_list_new (ml_nodeId notification) V3)) \<le> limit"
  shows "\<exists>chosen l. selected N limit notification chosen \<and>
    l = \<lparr>ml_nodeId = ml_nodeId notification, ml_pairs = chosen, ml_version = V3\<rparr> \<and>
    block_type N block = tlv_MappingData \<and> block_elems N block = Some es \<and>
    length (wires N es) \<le> length (block_wire N block) \<and> length (block_wire N block) \<le> limit \<and>
    (\<forall>e \<in> set es. block_type N e \<in> {tlv_Name, tlv_MappingEntry}) \<and>
    res_fold (decode_mapping_elem N) es (mapping_list_new (nm_empty N) V3) = Inr (mapping_list_sent l)"
proof -
  let ?new = "mapping_list_new (ml_nodeId notification) V3"
  obtain included where inc: "(if ml_nodeId notification \<noteq> nm_empty N
      then include_mappings N limit (ml_pairs notification) ?new else Inr ?new) = Inr included"
    and enc: "mapping_list_encode N included = Inr block" and parse: "block_elems N block = Some es"
    using assms(3)
    by (auto simp: initial_block_def res_bind_eq_Inr parse_elems_def res_of_option_def split: option.splits)
  have run: "length (mapping_list_bytes N included) \<le> limit \<and> ml_nodeId included = ml_nodeId notification \<and>
      ml_version included = V3 \<and> selected N limit notification (ml_pairs included)"
  proof (cases "ml_nodeId notification = nm_empty N")
    case True
    then show ?thesis
      using inc assms(4) by (auto simp: mapping_list_new_def selected_def)
  next
    case False
    then show ?thesis
      using include_size [OF assms(1), of limit "ml_pairs notification" ?new included]
        include_chosen [of N limit "ml_pairs notification" ?new included] inc assms(4)
        include_all [OF assms(1), of limit "ml_pairs notification" ?new included]
      by (auto simp: mapping_list_new_def selected_def)
  qed
  then have fits: "fits (mapping_list_bytes N included)"
    using framed_fits [OF assms(2)] by blast
  obtain b es' where b: "mapping_list_encode N included = Inr b" "block_type N b = tlv_MappingData"
    "block_wire N b = mapping_list_bytes N included" "block_elems N b = Some es'"
    "concat (map (block_wire N) es') = block_wire N (name_wire N (ml_nodeId included)) @
      concat (map (mapping_entry_bytes N (ml_version included)) (rev (ml_pairs included)))"
    "\<forall>e \<in> set es'. block_type N e \<in> {tlv_Name, tlv_MappingEntry}"
    "res_fold (decode_mapping_elem N) es' (mapping_list_new (nm_empty N) (ml_version included)) =
      Inr (mapping_list_sent included)"
    by (rule mapping_list_elems [OF assms(1) fits])
  have "length (wires N es) \<le> length (block_wire N block)"
    using b enc parse by (simp add: wires_def mapping_list_bytes_def tlv_bytes_def)
  moreover have "included = \<lparr>ml_nodeId = ml_nodeId notification, ml_pairs = ml_pairs included, ml_version = V3\<rparr>"
    using run by simp
  ultimately show ?thesis
    using run b enc parse by (intro exI [of _ "ml_pairs included"] exI [of _ included]) auto
qed

lemma packed_sizes:
  assumes "packed N limit ops entries acc acc'" and "snd acc \<le> limit"
  shows "snd acc' \<le> limit"
  using assms by (auto simp: packed_def)

definition repair_child :: "('n, 'c, 'b, 'd, 'i) ndn \<Rightarrow> 'n repair_request_entry list \<Rightarrow> 'b \<Rightarrow> bool" where
  "repair_child N queue b \<longleftrightarrow> (\<exists>entry \<in> set queue. repair_range_ok (rr_info entry) \<and>
     requests_of N b = [(rr_info entry)\<lparr>md_incomingFace := 0\<rparr>] \<and>
     length (repair_bytes N ((rr_info entry)\<lparr>md_incomingFace := 0\<rparr>)) \<le> length (block_wire N b))"

lemma composite_run:
  assumes laws: "tlv_laws N" "packet_laws N" "framed N limit"
    and name: "length (mapping_list_bytes N (mapping_list_new (ml_nodeId (ex_notificationMappingList x)) V3)) \<le> limit"
    and ranges: "\<forall>entry \<in> set (ex_repairRequestQueue x). repair_range_ok (rr_info entry)"
    and run: "onGetExtraData N opts limit x = (Inr composite, x')"
  obtains chosen es bs where "selected N limit (ex_notificationMappingList x) chosen"
    and "block_elems N composite = Some (es @ bs)"
    and "length (wires N (es @ bs)) \<le> limit"
    and "\<forall>e \<in> set es. block_type N e \<in> {tlv_Name, tlv_MappingEntry}"
    and "\<forall>b \<in> set bs. child_ok N b \<and> block_type N b \<in> {tlv_MappingData, tlv_Data, tlv_RepairData} \<and>
      (block_type N b = tlv_RepairData \<longrightarrow> repair_child N (ex_repairRequestQueue x) b)"
    and "res_fold (decode_mapping_elem N) es (mapping_list_new (nm_empty N) V3) =
      Inr (mapping_list_sent \<lparr>ml_nodeId = ml_nodeId (ex_notificationMappingList x), ml_pairs = chosen, ml_version = V3\<rparr>)"
proof -
  obtain block es acc1 acc2 acc3 where
    init: "initial_block N limit (ex_notificationMappingList x) = Inr (block, es)"
    and m: "packed N limit (mapping_ops N opts) (ex_piggyMappingQueue x) (es, length (block_wire N block)) acc1"
    and d: "packed N limit (data_ops N opts) (ex_piggyDataQueue x) acc1 acc2"
    and r: "packed N limit (repair_ops N opts) (ex_repairRequestQueue x) acc2 acc3"
    and composite: "composite = (if fst acc3 = es then block else block_nested N (block_type N block) (fst acc3))"
    by (rule onGetExtraData_run [OF run])
  obtain chosen l where i: "selected N limit (ex_notificationMappingList x) chosen"
    "l = \<lparr>ml_nodeId = ml_nodeId (ex_notificationMappingList x), ml_pairs = chosen, ml_version = V3\<rparr>"
    "block_type N block = tlv_MappingData" "block_elems N block = Some es"
    "length (wires N es) \<le> length (block_wire N block)" "length (block_wire N block) \<le> limit"
    "\<forall>e \<in> set es. block_type N e \<in> {tlv_Name, tlv_MappingEntry}"
    "res_fold (decode_mapping_elem N) es (mapping_list_new (nm_empty N) V3) = Inr (mapping_list_sent l)"
    using initial_block_run [OF laws(1,3) init name] by blast
  obtain ms where ms: "fst acc1 = es @ ms" "snd acc1 = length (block_wire N block) + length (wires N ms)"
    "\<forall>b \<in> set ms. \<exists>entry \<in> set (ex_piggyMappingQueue x). po_encode (mapping_ops N opts) entry = Inr b"
    using m by (auto simp: packed_def)
  obtain ds where ds: "fst acc2 = fst acc1 @ ds" "snd acc2 = snd acc1 + length (wires N ds)"
    "\<forall>b \<in> set ds. \<exists>entry \<in> set (ex_piggyDataQueue x). po_encode (data_ops N opts) entry = Inr b"
    using d by (auto simp: packed_def)
  obtain rs where rs: "fst acc3 = fst acc2 @ rs" "snd acc3 = snd acc2 + length (wires N rs)"
    "\<forall>b \<in> set rs. \<exists>entry \<in> set (ex_repairRequestQueue x). po_encode (repair_ops N opts) entry = Inr b"
    using r by (auto simp: packed_def)
  let ?bs = "ms @ ds @ rs"
  have "snd acc3 \<le> limit"
    using packed_sizes [OF m] packed_sizes [OF d] packed_sizes [OF r] i(6) by simp
  then have size: "length (wires N (es @ ?bs)) \<le> limit"
    using ms(2) ds(2) rs(2) i(5) by simp
  have fits: "fits (block_wire N b)" if "b \<in> set ?bs" for b
    using framed_fits [OF laws(3)] wires_member [OF that, of N] size by simp
  have children: "child_ok N b \<and> block_type N b \<in> {tlv_MappingData, tlv_Data, tlv_RepairData} \<and>
      (block_type N b = tlv_RepairData \<longrightarrow> repair_child N (ex_repairRequestQueue x) b)" if b: "b \<in> set ?bs" for b
  proof -
    consider (ms) "b \<in> set ms" | (ds) "b \<in> set ds" | (rs) "b \<in> set rs"
      using b by auto
    then show ?thesis
    proof cases
      case ms': ms
      then obtain entry where "po_encode (mapping_ops N opts) entry = Inr b"
        using ms(3) by blast
      then show ?thesis
        using packed_mapping_ok [OF laws(1) _ fits [OF b]] by (auto simp: svs_simps)
    next
      case ds': ds
      then obtain entry where "po_encode (data_ops N opts) entry = Inr b"
        using ds(3) by blast
      then show ?thesis
        using packed_data_ok [OF laws(2) _ fits [OF b]] by (auto simp: svs_simps)
    next
      case rs': rs
      then obtain entry where "entry \<in> set (ex_repairRequestQueue x)" "po_encode (repair_ops N opts) entry = Inr b"
        using rs(3) by blast
      then show ?thesis
        using packed_repair_ok [OF laws(1) _ fits [OF b]] ranges by (auto simp: repair_child_def)
    qed
  qed
  have "block_elems N composite = Some (es @ ?bs)"
  proof (cases "fst acc3 = es")
    case True
    then show ?thesis
      using composite i(4) ms(1) ds(1) rs(1) by simp
  next
    case False
    have "fits (block_wire N (block_nested N (block_type N block) (es @ ?bs)))"
      using laws(3) size by (simp add: packet_law_nested(2) [OF laws(2)] framed_def wires_def)
    moreover have "composite = block_nested N (block_type N block) (es @ ?bs)"
      using ms(1) ds(1) rs(1) unfolding composite if_not_P [OF False] by simp
    ultimately show ?thesis
      using packet_law_nested(3) [OF laws(2)] by simp
  qed
  then show thesis
    using that [OF i(1) _ size i(7)] children i(2,8) by blast
qed


text \<open>Nothing throws when no list is larger than a length field can tell.\<close>

definition extra_fits :: "('n, 'c, 'b, 'd, 'i) ndn \<Rightarrow> ('n, 'b, 'd) extra_data \<Rightarrow> bool" where
  "extra_fits N x \<longleftrightarrow>
     (\<forall>chosen. subseq chosen (ml_pairs (ex_notificationMappingList x)) \<longrightarrow>
        fits (mapping_list_bytes N \<lparr>ml_nodeId = ml_nodeId (ex_notificationMappingList x), ml_pairs = chosen, ml_version = V3\<rparr>)) \<and>
     (\<forall>entry \<in> set (ex_piggyMappingQueue x).
        fits (mapping_list_bytes N \<lparr>ml_nodeId = pm_nodeId entry, ml_pairs = [pm_mapping entry], ml_version = V3\<rparr>)) \<and>
     (\<forall>entry \<in> set (ex_repairRequestQueue x). fits (repair_list_bytes N [rr_info entry]))"

lemma encode_total:
  "tlv_laws N \<Longrightarrow> fits (mapping_list_bytes N l) \<Longrightarrow> \<exists>b. mapping_list_encode N l = Inr b"
  by (metis mapping_list_decode_encode)

lemma include_total:
  assumes "tlv_laws N" and "\<And>chosen. subseq chosen entries \<Longrightarrow>
      fits (mapping_list_bytes N (included\<lparr>ml_pairs := ml_pairs included @ chosen\<rparr>))"
  shows "\<exists>l. include_mappings N limit entries included = Inr l"
  using assms(2)
proof (induction entries arbitrary: included)
  case (Cons entry entries)
  let ?candidate = "included\<lparr>ml_pairs := ml_pairs included @ [entry]\<rparr>"
  have "fits (mapping_list_bytes N ?candidate)"
    using Cons.prems [of "[entry]"] by simp
  then obtain b where b: "mapping_list_encode N ?candidate = Inr b"
    using encode_total [OF assms(1)] by blast
  have "\<exists>l. include_mappings N limit entries ?candidate = Inr l"
    using Cons.prems [of "entry # _"] by (intro Cons.IH) simp
  moreover have "\<exists>l. include_mappings N limit entries included = Inr l"
    using Cons.prems by (intro Cons.IH) (simp add: list_emb_Cons)
  ultimately show ?case
    using b by (simp add: Let_def)
qed simp

lemma pack_loop_total:
  "\<forall>entry \<in> set entries. \<exists>b. po_encode ops entry = Inr b \<Longrightarrow>
   \<exists>s'. pack_loop N limit missLimit ops entries s = (s', None)"
  by (induction entries arbitrary: s) auto

lemma pack_queue_total:
  assumes "\<forall>entry \<in> set queue. \<exists>b. po_encode ops entry = Inr b"
  obtains acc' q where "pack_queue N limit missLimit ops queue acc = (acc', q, None)"
proof -
  obtain s where "pack_loop N limit missLimit ops (rev queue)
      \<lparr>pk_blocks = fst acc, pk_size = snd acc, pk_retained = [], pk_counted = []\<rparr> = (s, None)"
    using pack_loop_total [of "rev queue" ops N limit missLimit
        "\<lparr>pk_blocks = fst acc, pk_size = snd acc, pk_retained = [], pk_counted = []\<rparr>"] assms by auto
  then show thesis
    using that by (simp add: pack_queue_def)
qed

lemma initial_block_total:
  assumes "tlv_laws N" and "extra_fits N x"
  shows "\<exists>block es. initial_block N limit (ex_notificationMappingList x) = Inr (block, es)"
proof -
  let ?notification = "ex_notificationMappingList x"
  let ?new = "mapping_list_new (ml_nodeId ?notification) V3"
  have fits: "fits (mapping_list_bytes N (?new\<lparr>ml_pairs := ml_pairs ?new @ chosen\<rparr>))"
    if "subseq chosen (ml_pairs ?notification)" for chosen
    using assms(2) that by (simp add: extra_fits_def mapping_list_new_def)
  obtain l where l: "include_mappings N limit (ml_pairs ?notification) ?new = Inr l"
    using include_total [OF assms(1) fits] by blast
  have member: "\<exists>chosen. subseq chosen (ml_pairs ?notification) \<and> l = ?new\<lparr>ml_pairs := ml_pairs ?new @ chosen\<rparr>"
    using include_chosen [OF l] .
  then have "fits (mapping_list_bytes N l)" "fits (mapping_list_bytes N ?new)"
    using fits fits [of "[]"] by auto
  then obtain b es b' es' where "mapping_list_encode N l = Inr b" "block_elems N b = Some es"
    "mapping_list_encode N ?new = Inr b'" "block_elems N b' = Some es'"
    using mapping_list_elems [OF assms(1)] by metis
  then show ?thesis
    using l by (auto simp: initial_block_def parse_elems_def)
qed

lemma onGetExtraData_total:
  assumes "tlv_laws N" and "extra_fits N x" and "\<forall>entry \<in> set (ex_repairRequestQueue x). repair_range_ok (rr_info entry)"
  obtains composite x' where "onGetExtraData N opts limit x = (Inr composite, x')"
proof -
  let ?miss = "so_piggybackMissLimit opts"
  obtain block es where i: "initial_block N limit (ex_notificationMappingList x) = Inr (block, es)"
    using initial_block_total [OF assms(1,2)] by blast
  have m: "\<forall>entry \<in> set (ex_piggyMappingQueue x). \<exists>b. po_encode (mapping_ops N opts) entry = Inr b"
    using assms(2) encode_total [OF assms(1)] by (simp add: mapping_ops_def extra_fits_def)
  have d: "\<forall>entry \<in> set (ex_piggyDataQueue x). \<exists>b. po_encode (data_ops N opts) entry = Inr b"
    by (simp add: data_ops_def)
  have r: "\<forall>entry \<in> set (ex_repairRequestQueue x). \<exists>b. po_encode (repair_ops N opts) entry = Inr b"
  proof
    fix entry
    assume "entry \<in> set (ex_repairRequestQueue x)"
    then have "fits (repair_list_bytes N [rr_info entry])" "\<forall>info \<in> set [rr_info entry]. md_low info \<noteq> 0 \<and> md_low info \<le> md_high info"
      using assms(2,3) by (auto simp: extra_fits_def repair_range_ok_def)
    from repair_list_exchange [OF assms(1) this] show "\<exists>b. po_encode (repair_ops N opts) entry = Inr b"
      by (auto simp: repair_ops_def)
  qed
  obtain acc1 q1 where 1: "pack_queue N limit ?miss (mapping_ops N opts) (ex_piggyMappingQueue x)
      (es, length (block_wire N block)) = (acc1, q1, None)"
    by (rule pack_queue_total [OF m])
  obtain acc2 q2 where 2: "pack_queue N limit ?miss (data_ops N opts) (ex_piggyDataQueue x) acc1 = (acc2, q2, None)"
    by (rule pack_queue_total [OF d])
  obtain acc3 q3 where 3: "pack_queue N limit ?miss (repair_ops N opts) (ex_repairRequestQueue x) acc2 = (acc3, q3, None)"
    by (rule pack_queue_total [OF r])
  show thesis
    using that by (simp add: onGetExtraData_def i 1 2 3 Let_def)
qed

lemma extra_blocks_run:
  assumes "tlv_laws N" and "packet_laws N" and "framed N limit"
    and "length (mapping_list_bytes N (mapping_list_new (ml_nodeId (ex_notificationMappingList x)) V3)) \<le> limit"
    and "\<forall>entry \<in> set (ex_repairRequestQueue x). md_low (rr_info entry) \<noteq> 0 \<and> md_low (rr_info entry) \<le> md_high (rr_info entry)"
    and "extra_fits N x"
  shows "\<exists>blocks x'. onGetExtraBlocks N opts limit x = (Inr blocks, x') \<and> validate_blocks N blocks = Inr () \<and>
    (\<exists>mappings rest chosen children requests. blocks = mappings # rest \<and>
       block_type N mappings = tlv_MappingData \<and> (\<forall>b \<in> set rest. block_type N b = tlv_RepairData) \<and>
       (\<forall>child \<in> set children. block_type N child \<noteq> tlv_RepairData) \<and>
       block_elems N mappings = Some children \<and> length (concat (map (block_wire N) children)) \<le> limit \<and>
       selected N limit (ex_notificationMappingList x) chosen \<and>
       mapping_list_decode N V3 mappings = Inr (mapping_list_sent
         \<lparr>ml_nodeId = ml_nodeId (ex_notificationMappingList x), ml_pairs = chosen, ml_version = V3\<rparr>) \<and>
       (rest = [] \<and> requests = [] \<or> (\<exists>b. rest = [b] \<and> decodeRepairRequests N b = Inr requests)) \<and>
       set requests \<subseteq> (\<lambda>entry. (rr_info entry)\<lparr>md_incomingFace := 0\<rparr>) ` set (ex_repairRequestQueue x))"
proof -
  have ranges: "\<forall>entry \<in> set (ex_repairRequestQueue x). repair_range_ok (rr_info entry)"
    using assms(5) by (simp add: repair_range_ok_def)
  obtain composite x' where data: "onGetExtraData N opts limit x = (Inr composite, x')"
    by (rule onGetExtraData_total [OF assms(1,6) ranges])
  let ?sent = "\<lambda>chosen. mapping_list_sent
    \<lparr>ml_nodeId = ml_nodeId (ex_notificationMappingList x), ml_pairs = chosen, ml_version = V3\<rparr>"
  obtain chosen es bs where c: "selected N limit (ex_notificationMappingList x) chosen"
    "block_elems N composite = Some (es @ bs)" "length (wires N (es @ bs)) \<le> limit"
    "\<forall>e \<in> set es. block_type N e \<in> {tlv_Name, tlv_MappingEntry}"
    "\<forall>b \<in> set bs. child_ok N b \<and> block_type N b \<in> {tlv_MappingData, tlv_Data, tlv_RepairData} \<and>
      (block_type N b = tlv_RepairData \<longrightarrow> repair_child N (ex_repairRequestQueue x) b)"
    "res_fold (decode_mapping_elem N) es (mapping_list_new (nm_empty N) V3) = Inr (?sent chosen)"
    by (rule composite_run [OF assms(1-4) ranges data])
  let ?others = "filter (\<lambda>b. block_type N b \<noteq> tlv_RepairData) bs"
  let ?repairs = "filter (\<lambda>b. block_type N b = tlv_RepairData) bs"
  define requests where "requests = concat (map (requests_of N) ?repairs)"
  let ?mappings = "block_nested N tlv_MappingData (es @ ?others)"
  have types: "filter (\<lambda>b. block_type N b \<noteq> tlv_RepairData) es = es" "filter (\<lambda>b. block_type N b = tlv_RepairData) es = []"
    using c(4) by (auto simp: filter_id_conv filter_empty_conv svs_simps)
  have ok: "\<forall>child \<in> set (es @ bs). child_ok N child"
    using c(4,5) by (auto simp: child_ok_def)
  have run: "onGetExtraBlocks N opts limit x = (Inr blocks, x')"
    if "(if requests = [] then Inr [?mappings]
      else res_bind (encodeRepairRequests N requests) (\<lambda>b. Inr [?mappings, b])) = Inr blocks" for blocks
    using that by (simp add: onGetExtraBlocks_def data split_composite_def parse_elems_def c(2) split_children [OF ok]
        types Let_def flip: requests_def)
  have size: "length (wires N (es @ ?others)) \<le> limit"
    using c(3) wires_filter [of N "\<lambda>b. block_type N b \<noteq> tlv_RepairData" bs] by simp
  have elems: "block_elems N ?mappings = Some (es @ ?others)" and type: "block_type N ?mappings = tlv_MappingData"
    using packet_law_nested [OF assms(2)] size assms(3) by (simp_all add: framed_def wires_def)
  have "\<forall>b \<in> set ?others. block_type N b \<notin> {tlv_Name, tlv_MappingEntry}"
    using c(5) by (auto simp: svs_simps)
  then have decoded: "mapping_list_decode N V3 ?mappings = Inr (?sent chosen)"
    by (simp add: mapping_list_decode_def parse_elems_def elems res_fold_append c(6) decode_skips)
  have tree: "validate_tree N ?mappings = Inr ()"
  proof -
    have "\<forall>child \<in> set (es @ ?others). child_ok N child"
      using ok by auto
    from validate_children [OF this] show ?thesis
      by (simp add: validate_tree_def parse_elems_def elems type decoded discard_def)
  qed
  have member: "\<exists>entry \<in> set (ex_repairRequestQueue x). repair_range_ok (rr_info entry) \<and>
      request = (rr_info entry)\<lparr>md_incomingFace := 0\<rparr>" if req: "request \<in> set requests" for request
  proof -
    obtain b where "b \<in> set bs" "block_type N b = tlv_RepairData" "request \<in> set (requests_of N b)"
      using req by (auto simp: requests_def)
    moreover from this have "repair_child N (ex_repairRequestQueue x) b"
      using c(5) by blast
    ultimately show ?thesis
      by (auto simp: repair_child_def)
  qed
  have plain: "\<forall>child \<in> set (es @ ?others). block_type N child \<noteq> tlv_RepairData"
    using c(4) by (auto simp: svs_simps)
  have known: "is_known_extension N ?mappings"
    by (simp add: is_known_extension_def type)
  show ?thesis
  proof (cases "requests = []")
    case True
    have "validate_blocks N [?mappings] = Inr ()"
      by (simp add: validate_blocks_def MAX_EXTENSION_BLOCKS_def validate_block_def known tree discard_def)
    show ?thesis
    proof (intro exI conjI)
      show "onGetExtraBlocks N opts limit x = (Inr [?mappings], x')"
        using run [of "[?mappings]"] True by simp
      show "validate_blocks N [?mappings] = Inr ()"
        by (rule \<open>validate_blocks N [?mappings] = Inr ()\<close>)
    qed (rule refl type elems c(1) decoded plain | use size True in \<open>simp add: wires_def\<close>)+
  next
    case False
    have each: "length (concat (map (repair_bytes N) (requests_of N b))) \<le> length (block_wire N b)" if "b \<in> set ?repairs" for b
    proof -
      have "repair_child N (ex_repairRequestQueue x) b"
        using that c(5) by simp
      then show ?thesis
        by (auto simp: repair_child_def)
    qed
    have sub: "length (concat (map (repair_bytes N) (concat (map (requests_of N) rs)))) \<le> length (wires N rs)"
      if "set rs \<subseteq> set ?repairs" for rs
      using that
    proof (induction rs)
      case (Cons b rs)
      then have "b \<in> set ?repairs" "set rs \<subseteq> set ?repairs"
        by simp_all
      then show ?case
        using Cons.IH each [of b] by simp
    qed simp
    have "length (concat (map (repair_bytes N) requests)) \<le> length (wires N ?repairs)"
      unfolding requests_def by (rule sub) simp
    also have "\<dots> \<le> length (wires N bs)"
      by (rule wires_filter)
    also have "\<dots> \<le> limit"
      using c(3) by simp
    finally have "length (concat (map (repair_bytes N) requests)) \<le> limit" .
    then have fits: "fits (repair_list_bytes N requests)"
      using assms(3) by (simp add: repair_list_bytes_def framed_def)
    have valid: "\<forall>info \<in> set requests. md_low info \<noteq> 0 \<and> md_low info \<le> md_high info"
      using member by (fastforce simp: repair_range_ok_def)
    have zero: "map (\<lambda>info. info\<lparr>md_incomingFace := 0\<rparr>) requests = requests"
      using member by (intro map_idI) fastforce
    obtain b where d: "block_type N b = tlv_RepairData" "decodeRepairRequests N b = Inr requests"
      and b: "encodeRepairRequests N requests = Inr b"
      using repair_list_exchange [OF assms(1) fits valid] zero by auto
    obtain rs where rs: "block_elems N b = Some rs" "\<forall>e \<in> set rs. block_type N e = tlv_RepairEntry"
      by (rule repair_block_elems [OF d(2)])
    have "res_fold (validate_child N) rs () = Inr ()"
      using rs(2) by (induction rs) (simp_all add: validate_child_def svs_simps)
    then have "validate_tree N b = Inr ()"
      using d rs(1) by (simp add: validate_tree_def parse_elems_def discard_def svs_simps)
    moreover have "tlv_RepairData \<noteq> tlv_MappingData" "is_known_extension N b"
      using d by (simp_all add: svs_simps is_known_extension_def)
    ultimately have "validate_blocks N [?mappings, b] = Inr ()"
      using d by (simp add: validate_blocks_def MAX_EXTENSION_BLOCKS_def validate_block_def known tree discard_def
          type)
    show ?thesis
    proof (intro exI conjI)
      show "onGetExtraBlocks N opts limit x = (Inr [?mappings, b], x')"
        using run [of "[?mappings, b]"] False b by simp
      show "validate_blocks N [?mappings, b] = Inr ()"
        by (rule \<open>validate_blocks N [?mappings, b] = Inr ()\<close>)
      show "[b] = [] \<and> requests = [] \<or> (\<exists>b'. [b] = [b'] \<and> decodeRepairRequests N b' = Inr requests)"
        using d(2) by simp
      show "set requests \<subseteq> (\<lambda>entry. (rr_info entry)\<lparr>md_incomingFace := 0\<rparr>) ` set (ex_repairRequestQueue x)"
        using member by blast
    qed (rule refl type elems c(1) decoded plain | use size d(1) in \<open>simp add: wires_def\<close>)+
  qed
qed


section \<open>Witnesses\<close>

text \<open>One entry in each of the queues.\<close>

definition sample_extra :: "(i_name, i_block, i_data) extra_data" where
  "sample_extra = (extra_data_new i_ndn 4)\<lparr>
     ex_piggyMappingQueue := [\<lparr>pm_nodeId = [(8, [65])], pm_mapping = \<lparr>me_bootstrapTime = 100,
       me_seqNo = 1, me_mapping = ([(8, [78])], [])\<rparr>, pm_sent = 0, pm_missed = 0\<rparr>],
     ex_piggyDataQueue := [\<lparr>pd_data = data_default i_ndn, pd_sent = 0, pd_missed = 0\<rparr>],
     ex_repairRequestQueue := [\<lparr>rr_info = \<lparr>md_nodeId = [(8, [65])], md_low = 1, md_high = 2,
       md_incomingFace = 0, md_bootstrapTime = 100\<rparr>, rr_sent = 0, rr_missed = 0\<rparr>]\<rparr>"

definition sample_repeats :: pubsub_options where
  "sample_repeats = (default_pubsub_options sample_protocol)\<lparr>so_piggybackRepeatCount := 1,
     so_piggybackMissLimit := 0, so_repairRequestRepeatCount := 1\<rparr>"

lemma subseq_Nil: "subseq xs [] \<longleftrightarrow> xs = []"
  by (auto dest: list_emb_Nil2)

lemma sample_extra_fits: "extra_fits i_ndn sample_extra"
proof -
  have "ml_pairs (ex_notificationMappingList sample_extra) = []"
    by (simp add: sample_extra_def extra_data_new_def mapping_list_new_def)
  then show ?thesis
    by (simp add: extra_fits_def subseq_Nil) (simp add: sample_extra_def extra_data_new_def mapping_list_new_def fits_def
        mapping_list_bytes_def mapping_entry_bytes_def mapping_entry_value_def mapping_seq_bytes_def
        seq_entry_bytes_def nni_bytes_def repair_list_bytes_def repair_bytes_def repair_value_def
        i_eval svs_simps)
qed

lemma sample_extra_ranges:
  "\<forall>entry \<in> set (ex_repairRequestQueue sample_extra). md_low (rr_info entry) \<noteq> 0 \<and> md_low (rr_info entry) \<le> md_high (rr_info entry)"
  by (simp add: sample_extra_def)

lemma i_var_num_length: "length (i_var_num n) \<le> 9"
  by (simp add: i_var_num_def)

lemma i_tlv_length: "length (tlv_bytes i_ndn t v) \<le> 9 + (9 + length v)"
  unfolding tlv_bytes_def i_blocks length_append by (intro add_mono i_var_num_length order_refl)

lemma i_framed:
  assumes "limit < 2 ^ 63"
  shows "framed i_ndn limit"
proof -
  have "length (tlv_bytes i_ndn t v) < 2 ^ 64" if "length v \<le> limit" for t v
    using assms that le_less_trans [OF i_tlv_length, of v "2 ^ 64" t] by simp
  then show ?thesis
    by (simp add: framed_def fits_def)
qed

lemma sample_extra_blocks:
  obtains blocks x' where "onGetExtraBlocks i_ndn sample_repeats 300 sample_extra = (Inr blocks, x')"
proof -
  have framed: "framed i_ndn 300"
    by (rule i_framed) simp
  have name: "length (mapping_list_bytes i_ndn (mapping_list_new (ml_nodeId (ex_notificationMappingList sample_extra)) V3)) \<le> 300"
    by (simp add: sample_extra_def extra_data_new_def mapping_list_new_def mapping_list_bytes_def i_eval svs_simps)
  show thesis
    using extra_blocks_run [OF i_tlv_laws i_packet_laws framed name sample_extra_ranges sample_extra_fits,
        of sample_repeats] that by blast
qed

theorem extra_entries_leave_witness:
  "\<exists>x'. send_extras i_ndn sample_repeats [300] sample_extra = Some x' \<and>
     ex_piggyMappingQueue x' = [] \<and> ex_piggyDataQueue x' = [] \<and> ex_repairRequestQueue x' = []"
proof -
  obtain blocks x' where "onGetExtraBlocks i_ndn sample_repeats 300 sample_extra = (Inr blocks, x')"
    by (rule sample_extra_blocks)
  then have x': "send_extras i_ndn sample_repeats [300] sample_extra = Some x'"
    by simp
  have "[300 :: nat] \<noteq> []"
    "\<forall>entry \<in> set (ex_piggyMappingQueue sample_extra). pm_sent entry = 0 \<and> pm_missed entry = 0"
    "\<forall>entry \<in> set (ex_piggyDataQueue sample_extra). pd_sent entry = 0 \<and> pd_missed entry = 0"
    "\<forall>entry \<in> set (ex_repairRequestQueue sample_extra). rr_sent entry = 0 \<and> rr_missed entry = 0"
    "so_piggybackRepeatCount sample_repeats + so_piggybackMissLimit sample_repeats \<le> length [300 :: nat]"
    "so_repairRequestRepeatCount sample_repeats + so_piggybackMissLimit sample_repeats \<le> length [300 :: nat]"
    by (simp_all add: sample_extra_def sample_repeats_def)
  from extra_entries_leave [OF x' this] show ?thesis
    using x' by blast
qed


end
