(* ===== verification/Extra_Reception.thy ===== *)
theory Extra_Reception
  imports Extra_Exchange
begin

text \<open>
  The extra blocks from the receiver's side: what the validation promises to the processing, and
  when the processing returns.
\<close>

section \<open>What validation promises\<close>

text \<open>Ranges of repair requests that a loop over them leaves.\<close>

definition requests_end :: "('n, 'c, 'b, 'd, 'i) ndn \<Rightarrow> 'b \<Rightarrow> bool" where
  "requests_end N block \<longleftrightarrow>
     (case decodeRepairRequests N block of
        Inl _ \<Rightarrow> True
      | Inr requests \<Rightarrow> \<forall>request \<in> set requests. md_high request \<noteq> - 1)"

definition ranges_end :: "('n, 'c, 'b, 'd, 'i) ndn \<Rightarrow> 'b \<Rightarrow> bool" where
  "ranges_end N block \<longleftrightarrow>
     (block_type N block = tlv_RepairData \<longrightarrow> requests_end N block) \<and>
     (case block_elems N block of
        None \<Rightarrow> True
      | Some children \<Rightarrow>
          \<forall>child \<in> set children. block_type N child = tlv_RepairData \<longrightarrow> requests_end N child)"

lemma validate_block_fold:
  "res_fold (validate_block N) blocks known = Inr known' \<Longrightarrow>
   \<forall>block \<in> set blocks. is_known_extension N block \<longrightarrow> validate_tree N block = Inr ()"
proof (induction blocks arbitrary: known)
  case (Cons block blocks)
  obtain known1 where one: "validate_block N block known = Inr known1" "res_fold (validate_block N) blocks known1 = Inr known'"
    using Cons.prems by (auto simp: res_bind_eq_Inr)
  have "is_known_extension N block \<longrightarrow> validate_tree N block = Inr ()"
    using one(1) by (auto simp: validate_block_def res_bind_eq_Inr split: if_splits)
  then show ?case
    using Cons.IH [OF one(2)] by simp
qed simp

lemma validate_blocks_tree:
  assumes "validate_blocks N blocks = Inr ()" and "block \<in> set blocks" and "is_known_extension N block"
  shows "validate_tree N block = Inr ()"
  using assms validate_block_fold [of N blocks "[]"]
  by (auto simp: validate_blocks_def discard_def res_bind_eq_Inr split: if_splits)

lemma validate_tree_parts:
  assumes "validate_tree N block = Inr ()"
  obtains children where "block_elems N block = Some children"
    and "res_fold (validate_child N) children () = Inr ()"
    and "block_type N block \<noteq> tlv_MappingData \<longrightarrow> (\<exists>requests. decodeRepairRequests N block = Inr requests)"
  using assms
  by (auto simp: validate_tree_def parse_elems_def res_bind_eq_Inr res_of_option_def discard_def
      split: option.splits if_splits)

section \<open>Reception\<close>

lemma take_repairs_total:
  "\<forall>request \<in> set requests. md_high request \<noteq> - 1 \<Longrightarrow> \<exists>P'. take_repairs E requests P = Some P'"
  by (induction requests arbitrary: P) (simp_all add: seq_loop_returns)

lemma take_child_total:
  assumes "validate_child (pe_ndn E) child u = Inr u'"
    and "block_type (pe_ndn E) child = tlv_RepairData \<longrightarrow> requests_end (pe_ndn E) child"
  shows "\<exists>acc'. take_child E child acc = Some (acc', None)"
proof -
  let ?N = "pe_ndn E"
  consider (mapping) l where "block_type ?N child = tlv_MappingData" "mapping_list_decode ?N V3 child = Inr l"
    | (data) d where "block_type ?N child = tlv_Data" "data_of_block ?N child = Some d"
    | (repair) rs where "block_type ?N child = tlv_RepairData" "decodeRepairRequests ?N child = Inr rs"
    | (other) "block_type ?N child \<notin> {tlv_MappingData, tlv_Data, tlv_RepairData}"
    using assms(1)
    by (fastforce simp: validate_child_def discard_def res_bind_eq_Inr res_of_option_def split: if_splits option.splits)
  then show ?thesis
  proof cases
    case mapping
    then show ?thesis by (simp add: take_child_def Let_def take_mapping_list_def)
  next
    case data
    then show ?thesis by (simp add: take_child_def Let_def svs_simps)
  next
    case repair
    have "md_high (ordered_range request) = md_high request" if "request \<in> set rs" for request
      using decode_repair_sound [OF repair(2)] that
      by (simp add: ordered_range_def repair_range_ok_def max_absorb1)
    then have "\<forall>request \<in> set (map ordered_range rs). md_high request \<noteq> - 1"
      using assms(2) repair by (simp add: requests_end_def)
    then obtain P' where "take_repairs E (map ordered_range rs) (snd acc) = Some P'"
      using take_repairs_total by blast
    then show ?thesis
      using repair by (simp add: take_child_def Let_def svs_simps)
  next
    case other
    then show ?thesis by (simp add: take_child_def Let_def)
  qed
qed

lemma take_children_total:
  assumes "res_fold (validate_child (pe_ndn E)) children u = Inr u'"
    and "\<forall>child \<in> set children. block_type (pe_ndn E) child = tlv_RepairData \<longrightarrow> requests_end (pe_ndn E) child"
  shows "\<exists>acc'. take_children E children acc = Some acc'"
  using assms
proof (induction children arbitrary: u acc)
  case (Cons child children)
  obtain u1 where u1: "validate_child (pe_ndn E) child u = Inr u1"
    "res_fold (validate_child (pe_ndn E)) children u1 = Inr u'"
    using Cons.prems(1) by (auto simp: res_bind_eq_Inr)
  have "block_type (pe_ndn E) child = tlv_RepairData \<longrightarrow> requests_end (pe_ndn E) child"
    using Cons.prems(2) by simp
  then obtain acc1 where "take_child E child acc = Some (acc1, None)"
    using take_child_total [OF u1(1)] by blast
  then show ?case
    using Cons.IH [OF u1(2)] Cons.prems(2) by simp
qed simp

lemma onRecvExtraData_total:
  assumes "is_known_extension (pe_ndn E) block \<longrightarrow> validate_tree (pe_ndn E) block = Inr ()"
    and "ranges_end (pe_ndn E) block"
  shows "\<exists>P'. onRecvExtraData E block P = Some (P', None)"
proof (cases "is_known_extension (pe_ndn E) block")
  case True
  let ?N = "pe_ndn E"
  let ?acc = "fst (take_mapping_list ?N block ([], P))"
  have tree: "validate_tree ?N block = Inr ()"
    using assms(1) True by simp
  obtain children where c: "block_elems ?N block = Some children" "res_fold (validate_child ?N) children () = Inr ()"
    "block_type ?N block \<noteq> tlv_MappingData \<longrightarrow> (\<exists>requests. decodeRepairRequests ?N block = Inr requests)"
    by (rule validate_tree_parts [OF tree])
  have ends: "\<forall>child \<in> set children. block_type ?N child = tlv_RepairData \<longrightarrow> requests_end ?N child"
    using assms(2) c(1) by (simp add: ranges_end_def)
  have rest: "\<exists>P'. map_option (\<lambda>acc. (finish_received E acc, None))
      (case parse_elems ?N block of Inl _ \<Rightarrow> Some acc | Inr es \<Rightarrow> take_children E es acc) = Some (P', None)" for acc
    using take_children_total [OF c(2) ends, of acc] c(1) by (auto simp: parse_elems_def)
  show ?thesis
  proof (cases "block_type ?N block = tlv_RepairData")
    case False
    then show ?thesis
      using True tree rest [of ?acc] by (simp add: onRecvExtraData_def Let_def)
  next
    case repair: True
    then obtain requests where r: "decodeRepairRequests ?N block = Inr requests"
      using c(3) by (auto simp: svs_simps)
    then obtain P1 where "take_repairs E requests (snd ?acc) = Some P1"
      using take_repairs_total [of requests E "snd ?acc"] assms(2) repair
      by (auto simp: ranges_end_def requests_end_def)
    then show ?thesis
      using True tree repair r rest [of "(fst ?acc, P1)"] by (simp add: onRecvExtraData_def Let_def)
  qed
qed (simp add: onRecvExtraData_def Let_def)

lemma recv_blocks_total:
  assumes "\<forall>block \<in> set blocks. is_known_extension (pe_ndn E) block \<longrightarrow> validate_tree (pe_ndn E) block = Inr ()"
    and "\<forall>block \<in> set blocks. ranges_end (pe_ndn E) block"
  shows "\<exists>P'. recv_blocks E blocks P = Some (P', None)"
  using assms
proof (induction blocks arbitrary: P)
  case (Cons block blocks)
  obtain P1 where "onRecvExtraData E block P = Some (P1, None)"
    using onRecvExtraData_total [of E block P] Cons.prems by auto
  then show ?case
    using Cons.IH [of P1] Cons.prems by simp
qed simp


lemma take_repairs_diverges:
  "request \<in> set requests \<Longrightarrow> md_high request = - 1 \<Longrightarrow> take_repairs E requests P = None"
proof (induction requests arbitrary: P)
  case (Cons r requests)
  show ?case
  proof (cases "md_high r = - 1")
    case True
    then show ?thesis by (simp add: seq_loop_diverges)
  next
    case False
    then show ?thesis
      using Cons by (auto simp: seq_loop_returns)
  qed
qed simp

text \<open>
  A single repair request of a peer whose range ends at the largest sequence number, which the
  decoder and the validation accept, keeps the receiver in a loop for ever.
\<close>

theorem repair_request_hangs:
  assumes "tlv_laws (pe_ndn E)" and "fits (repair_list_bytes (pe_ndn E) [\<lparr>md_nodeId = nid, md_low = 1,
      md_high = - 1, md_incomingFace = 0, md_bootstrapTime = bootstrapTime\<rparr>])"
  shows "\<exists>block. encodeRepairRequests (pe_ndn E) [\<lparr>md_nodeId = nid, md_low = 1, md_high = - 1,
      md_incomingFace = 0, md_bootstrapTime = bootstrapTime\<rparr>] = Inr block \<and>
    validate_blocks (pe_ndn E) [block] = Inr () \<and> onRecvExtraBlocks E [block] P = None"
proof -
  let ?N = "pe_ndn E"
  let ?request = "\<lparr>md_nodeId = nid, md_low = 1, md_high = - 1, md_incomingFace = 0, md_bootstrapTime = bootstrapTime\<rparr>"
  obtain block where b: "encodeRepairRequests ?N [?request] = Inr block" "block_type ?N block = tlv_RepairData"
    "decodeRepairRequests ?N block = Inr [?request]"
    using repair_list_exchange [OF assms] by auto
  obtain es where es: "block_elems ?N block = Some es" "\<forall>e \<in> set es. block_type ?N e = tlv_RepairEntry"
    by (rule repair_block_elems [OF b(3)])
  have "res_fold (validate_child ?N) es () = Inr ()"
    using es(2) by (induction es) (simp_all add: validate_child_def svs_simps)
  then have tree: "validate_tree ?N block = Inr ()"
    using b es(1) by (simp add: validate_tree_def parse_elems_def discard_def svs_simps)
  moreover have known: "is_known_extension ?N block"
    using b(2) by (simp add: is_known_extension_def)
  ultimately have valid: "validate_blocks ?N [block] = Inr ()"
    by (simp add: validate_blocks_def MAX_EXTENSION_BLOCKS_def validate_block_def discard_def)
  have "onRecvExtraData E block P = None"
    using b tree known by (simp add: onRecvExtraData_def Let_def seq_loop_diverges)
  then have "onRecvExtraBlocks E [block] P = None"
    by (simp add: onRecvExtraBlocks_def valid)
  with b(1) valid show ?thesis
    by blast
qed

section \<open>Witnesses\<close>



lemma i_nni_bytes_length: "length (nni_bytes i_ndn t x) \<le> 26"
proof -
  have "length (i_nni x) \<le> 8"
    by (simp add: i_nni_def)
  then show ?thesis
    using i_tlv_length [of t "i_nni x"] by (simp add: nni_bytes_def i_blocks)
qed

theorem repair_request_hangs_witness:
  "\<exists>block. validate_blocks i_ndn [block] = Inr () \<and>
     onRecvExtraBlocks sample_pubsub_env [block] sample_pubsub = None"
proof -
  let ?request = "\<lparr>md_nodeId = [(8, [65])], md_low = 1, md_high = - 1, md_incomingFace = 0,
    md_bootstrapTime = 100\<rparr> :: i_name missing_data_info"
  have "length (block_wire i_ndn (name_wire i_ndn (md_nodeId ?request))) \<le> 5"
    by (simp add: i_eval svs_simps)
  then have "length (repair_value i_ndn ?request) \<le> 5 + (26 + (26 + 26))"
    unfolding repair_value_def length_append by (intro add_mono i_nni_bytes_length) simp
  then have "length (repair_bytes i_ndn ?request) \<le> 101"
    using i_tlv_length [of tlv_RepairEntry "repair_value i_ndn ?request"] by (simp add: repair_bytes_def)
  then have "length (repair_list_bytes i_ndn [?request]) \<le> 119"
    using i_tlv_length [of tlv_RepairData "repair_bytes i_ndn ?request"] by (simp add: repair_list_bytes_def)
  then have "fits (repair_list_bytes (pe_ndn sample_pubsub_env) [?request])"
    by (simp add: fits_def sample_pubsub_ndn)
  from repair_request_hangs [OF _ this, of sample_pubsub] show ?thesis
    by (auto simp: sample_pubsub_ndn i_tlv_laws)
qed

end
