(* ===== verification/Group_Sync.thy ===== *)
theory Group_Sync
  imports Core_Properties
begin

text \<open>
  A group of members running the Sync protocol of \<^verbatim>\<open>ndn-svs/core.cpp\<close> over a network that loses, delays,
  repeats and reorders their Interests: what an encoded V3 Interest says to whoever decodes it, what
  every operation of a core keeps true of what its member knows, and that no member ever learns of,
  or reports to its application, a publication that was never made.
\<close>

section \<open>What an Interest on the wire says\<close>

text \<open>An Interest whose parameters can be sent: fewer than \<open>2 ^ 64\<close> bytes.\<close>

definition sendable :: "('n, 'c, 'b, 'd, 'i) ndn \<Rightarrow> 'i \<Rightarrow> bool" where
  "sendable N i \<longleftrightarrow> (\<forall>params. interest_params N i = Some params \<longrightarrow> fits (block_wire N params))"

text \<open>A clock that refuses no epoch; what any clock decodes, it decodes to the same vector.\<close>

definition relaxed :: "sys_clock \<Rightarrow> sys_clock" where
  "relaxed clk = clk\<lparr>clk_seconds := - 86401\<rparr>"

lemma relaxed_accepts [simp]: "epoch_accepted (relaxed clk) b"
  by (simp add: epoch_accepted_def isBootstrapTimeTooFarInFuture_def relaxed_def word_order.extremum)

lemma relaxed_point [simp]: "clk_point (relaxed clk) = clk_point clk"
  by (simp add: relaxed_def)

lemma not_too_far_relaxed [simp]: "\<not> isBootstrapTimeTooFarInFuture (relaxed clk) b"
  using relaxed_accepts [of clk b] by (simp add: epoch_accepted_def)

lemma decode_seq_entry_relaxed:
  "decode_seq_entry N clk nid e v = Inr w \<Longrightarrow> decode_seq_entry N (relaxed clk) nid e v = Inr w"
  by (auto simp: decode_seq_entry_def res_bind_eq_Inr split: if_splits option.splits list.splits)

lemma res_fold_mono:
  assumes "\<And>x s s'. f x s = Inr s' \<Longrightarrow> g x s = Inr s'" and "res_fold f xs s = Inr s'"
  shows "res_fold g xs s = Inr s'"
  using assms(2)
proof (induction xs arbitrary: s)
  case (Cons x xs)
  then show ?case
    using assms(1) by (auto simp: res_bind_eq_Inr)
qed simp

lemma decode_entry_relaxed:
  "decode_entry N clk e v = Inr w \<Longrightarrow> decode_entry N (relaxed clk) e v = Inr w"
  by (auto simp: decode_entry_def res_bind_eq_Inr split: if_splits option.splits list.splits
      elim!: res_fold_mono [rotated] intro: decode_seq_entry_relaxed)

lemma vv_decode_relaxed: "vv_decode N clk block = Inr v \<Longrightarrow> vv_decode N (relaxed clk) block = Inr v"
  by (auto simp: vv_decode_def split: if_splits option.splits
      elim!: res_fold_mono [rotated] intro: decode_entry_relaxed)

lemma decodeStateVector_relaxed:
  "decodeStateVector N clk e V3 = Inr v \<Longrightarrow> decodeStateVector N (relaxed clk) e V3 = Inr v"
  by (auto simp: decodeStateVector_def split: if_splits option.splits list.splits intro: vv_decode_relaxed)

lemma decode_V3_relaxed:
  assumes "decode_V3 N clk p semantic first = Inr e"
  shows "decode_V3 N (relaxed clk) p semantic first = Inr e"
proof -
  obtain d where d: "block_type N first = tlv_Data" "data_of_block N first = Some d"
    using assms by (cases "data_of_block N first") (simp_all add: decode_V3_def split: if_splits)
  obtain c cs where c: "block_elems N (data_content N d) = Some (c # cs)" "block_type N c = tlv_StateVector"
    "\<not> (data_name N d \<noteq> p \<or> \<not> data_signed N d)"
    using assms by (auto simp: decode_V3_def d split: if_splits option.splits list.splits)
  obtain exts where exts: "scan_extensions N [] [] cs = Inr exts"
    using assms c by (cases "scan_extensions N [] [] cs") (simp_all add: decode_V3_def d)
  show ?thesis
    using assms c exts decodeStateVector_relaxed
    by (cases semantic) (auto simp: decode_V3_def d res_bind_eq_Inr Let_def)
qed

lemma decode_relaxed:
  assumes "decode N cmp clk i p V3 semantic = Inr e"
  shows "decode N cmp (relaxed clk) i p V3 semantic = Inr e"
proof -
  have name: "sync_name_ok N (makeSyncName N p V3) i"
    using assms by (auto simp: decode_def Let_def split: if_splits)
  obtain params where params: "interest_params N i = Some params"
    using assms name by (cases "interest_params N i") (simp_all add: decode_def)
  obtain elems where elems: "decode_elements N cmp V3 params = Inr elems"
    using assms name params by (cases "decode_elements N cmp V3 params") (simp_all add: decode_def)
  obtain first rest where first: "elems = first # rest"
    using assms name params elems by (cases elems) (simp_all add: decode_def)
  show ?thesis
    using assms name params elems first decode_V3_relaxed
    by (auto simp: decode_def res_bind_eq_Inr split: if_splits)
qed

text \<open>The parameters of a V3 Interest that can be sent, as \<^verbatim>\<open>encode\<close> has built them.\<close>

lemma sendable_encoded:
  assumes "tlv_laws N" and "packet_laws N" and v3: "ro_version opts = V3"
    and enc: "encode N cmp p v es opts (Some sign) = Inr i" and "sendable N i"
  obtains bytes where "encode_parameters N p v es opts (Some sign) = Inr bytes" and "fits bytes"
proof -
  obtain bytes params where bytes: "encode_parameters N p v es opts (Some sign) = Inr bytes"
    and params: "block_of N bytes = Some params"
    and i: "i = interest_new N (makeSyncName N p V3) (Some params) (ro_syncInterestLifetime opts)"
    using enc v3 by (auto simp: encode_def res_bind_eq_Inr Let_def res_of_option_def split: option.splits)
  obtain content where "bytes = tlv_bytes N tlv_ApplicationParameters content"
    using encode_parameters_V3 [OF v3 bytes] by metis
  then have type: "block_type N params = tlv_ApplicationParameters"
    using assms(1) params unfolding tlv_laws_def by blast
  have "interest_params N i = Some params"
    unfolding i by (rule packet_law_interest(3) [OF assms(2) type])
  then have "fits bytes"
    using assms(5) tlv_law_wire [OF assms(1) params] by (simp add: sendable_def)
  with bytes show thesis
    by (rule that)
qed

text \<open>
  Whoever decodes a V3 Interest that \<^verbatim>\<open>encode\<close> has built from a vector, in whatever group and
  with whatever clock, finds that vector and the extension blocks in it, if anything.
\<close>

lemma decode_of_encoded:
  assumes laws: "tlv_laws N" "name_laws N" "packet_laws N" "signer_laws N sign"
    and ok: "vv_ok v" and v3: "ro_version opts = V3"
    and enc: "encode N cmp p v es opts (Some sign) = Inr i" and "sendable N i"
    and dec: "decode N cmp' clk i q V3 True = Inr e"
  shows "env_extensions e = es" and "vv_get n b (env_stateVector e) = vv_get n b v"
proof -
  obtain bytes where bytes: "encode_parameters N p v es opts (Some sign) = Inr bytes" and fits: "fits bytes"
    using sendable_encoded [OF laws(1,3) v3 enc \<open>sendable N i\<close>] .
  obtain i' d w where r: "encode N cmp p v es opts (Some sign) = Inr i'"
    "decode N cmp' (relaxed clk) i' p V3 True =
      Inr \<lparr>env_stateVector = (if True then w else vv_empty), env_stateVectorDecoded = True,
           env_extensions = es, env_stateVectorData = Some d\<rparr>"
    "m_entries w = m_entries v"
    using decode_encode_V3 [OF laws ok _ v3 bytes fits, of "relaxed clk" cmp cmp' True] by fastforce
  have "q = p"
    using decode_other_name [OF laws(2,3) enc, of q V3 cmp' clk True] dec by fastforce
  then have "decode N cmp' (relaxed clk) i p V3 True = Inr e"
    using decode_relaxed [OF dec] by simp
  then have e: "e = \<lparr>env_stateVector = w, env_stateVectorDecoded = True,
           env_extensions = es, env_stateVectorData = Some d\<rparr>"
    using r(1,2) enc by simp
  show "env_extensions e = es"
    by (simp add: e)
  show "vv_get n b (env_stateVector e) = vv_get n b v"
    using r(3) by (simp add: e vv_get_def)
qed

text \<open>Who accepts the epochs in the vector does decode the Interest.\<close>

lemma encoded_decodes:
  assumes laws: "tlv_laws N" "name_laws N" "packet_laws N" "signer_laws N sign"
    and "vv_ok v" and "\<forall>(n, b, s) \<in> set (vv_all v). epoch_accepted clk b" and v3: "ro_version opts = V3"
    and enc: "encode N cmp p v es opts (Some sign) = Inr i" and "sendable N i"
  shows "\<exists>e. decode N cmp' clk i p V3 semantic = Inr e \<and> env_stateVectorData e \<noteq> None \<and>
    (semantic \<longrightarrow> (\<forall>n b. vv_get n b (env_stateVector e) = vv_get n b v))"
proof -
  obtain bytes where bytes: "encode_parameters N p v es opts (Some sign) = Inr bytes" and fits: "fits bytes"
    using sendable_encoded [OF laws(1,3) v3 enc assms(9)] .
  obtain i' d w where r: "encode N cmp p v es opts (Some sign) = Inr i'"
    "decode N cmp' clk i' p V3 semantic =
      Inr \<lparr>env_stateVector = (if semantic then w else vv_empty), env_stateVectorDecoded = semantic,
           env_extensions = es, env_stateVectorData = Some d\<rparr>"
    "m_entries w = m_entries v"
    using decode_encode_V3 [OF laws assms(5,6) v3 bytes fits, of cmp cmp' semantic] by fastforce
  have "decode N cmp' clk i p V3 semantic =
      Inr \<lparr>env_stateVector = (if semantic then w else vv_empty), env_stateVectorDecoded = semantic,
           env_extensions = es, env_stateVectorData = Some d\<rparr>"
    using r(1,2) enc by simp
  then show ?thesis
    using r(3) by (simp add: vv_get_def)
qed

section \<open>What a member knows\<close>

text \<open>
  \<open>pub n b\<close> is the highest number published for the epoch \<open>b\<close> of the node \<open>n\<close>. A member is sound if
  nothing it holds, has sent, has been given or has told its application goes beyond that.
\<close>

type_synonym 'n published = "'n \<Rightarrow> bootstrap_time \<Rightarrow> seq_no"

definition below :: "'n published \<Rightarrow> 'n version_vector \<Rightarrow> bool" where
  "below pub v \<longleftrightarrow> (\<forall>n b. vv_get n b v \<le> pub n b)"

definition known :: "'n :: linorder published \<Rightarrow> 'n version_vector \<Rightarrow> bool" where
  "known pub v \<longleftrightarrow> vv_ok v \<and> below pub v"

definition truthful :: "('n :: linorder, 'c, 'b, 'd, 'i) ndn \<Rightarrow> 'n published \<Rightarrow> 'i \<Rightarrow> bool" where
  "truthful N pub i \<longleftrightarrow> (\<forall>cmp clk p e. decode N cmp clk i p V3 True = Inr e \<longrightarrow> below pub (env_stateVector e))"

definition event_ok ::
    "('n :: linorder, 'c, 'b, 'd, 'i) ndn \<Rightarrow> 'n published \<Rightarrow> ('n, 'b, 'd, 'i) core_event \<Rightarrow> bool" where
  "event_ok N pub event \<longleftrightarrow>
     (case event of
        Express i \<Rightarrow> sendable N i \<longrightarrow> truthful N pub i
      | OnUpdate missing \<Rightarrow> \<forall>m \<in> set missing. md_high m \<le> pub (md_nodeId m) (md_bootstrapTime m)
      | _ \<Rightarrow> True)"

definition pending_production :: "('n, 'b, 'd, 'i) sync_core \<Rightarrow> ('n, 'b) production_job set" where
  "pending_production c =
     set (m_runningProduction c) \<union>
     (case m_syncProductionWorkerPool c of None \<Rightarrow> {} | Some p \<Rightarrow> set (wp_queue p))"

definition sound ::
    "('n :: linorder, 'c, 'b, 'd, 'i) ndn \<Rightarrow> 'n published \<Rightarrow> ('n, 'b, 'd, 'i) sync_core \<Rightarrow> bool" where
  "sound N pub c \<longleftrightarrow>
     ro_version (m_protocolOptions c) = V3 \<and> known pub (m_vv c) \<and>
     (\<forall>r. m_recordedVv c = Some r \<longrightarrow> known pub r) \<and>
     (\<forall>j \<in> pending_jobs c. known pub (sj_localVector j) \<and> truthful N pub (sj_interest j)) \<and>
     (\<forall>j \<in> pending_production c. known pub (pj_localVector j)) \<and>
     (\<forall>event \<in> set (m_out c). event_ok N pub event)"

lemma known_empty [simp]: "known pub vv_empty"
  using vv_ok_empty by (simp add: known_def below_def vv_get_def vv_empty_def)

lemma known_join: "known pub l \<Longrightarrow> known pub r \<Longrightarrow> known pub (vv_join t l r)"
  by (simp add: known_def below_def vv_ok_join vv_get_join)

lemma known_put: "known pub v \<Longrightarrow> s \<noteq> 0 \<Longrightarrow> s \<le> pub n b \<Longrightarrow> known pub (vv_put t n b s v)"
  by (simp add: known_def below_def vv_ok_put vv_get_put)

lemma known_decoded:
  "truthful N pub i \<Longrightarrow> decode N cmp clk i p V3 True = Inr e \<Longrightarrow> known pub (env_stateVector e)"
  using decode_vector_ok unfolding known_def truthful_def by fast

text \<open>More publications make nothing unsound.\<close>

lemma below_mono: "below pub v \<Longrightarrow> pub \<le> pub' \<Longrightarrow> below pub' v"
  unfolding below_def le_fun_def using order_trans by blast

lemma event_ok_mono:
  assumes "event_ok N pub event" and "pub \<le> pub'"
  shows "event_ok N pub' event"
proof (cases event)
  case (OnUpdate missing)
  have "pub n b \<le> pub' n b" for n b
    using assms(2) by (simp add: le_fun_def)
  then show ?thesis
    using assms(1) unfolding event_ok_def OnUpdate by (auto intro: order_trans)
next
  case (Express i)
  have "truthful N pub i \<Longrightarrow> truthful N pub' i"
    unfolding truthful_def using below_mono [OF _ assms(2)] by fast
  then show ?thesis
    using assms(1) by (simp add: event_ok_def Express)
qed (use assms in \<open>simp_all add: event_ok_def\<close>)

lemma sound_mono:
  assumes "sound N pub c" and "pub \<le> pub'"
  shows "sound N pub' c"
  using assms event_ok_mono below_mono unfolding sound_def known_def truthful_def by blast

lemma soundD:
  assumes "sound N pub c"
  shows "ro_version (m_protocolOptions c) = V3" and "known pub (m_vv c)"
    and "m_recordedVv c = Some r \<Longrightarrow> known pub r"
    and "j \<in> pending_jobs c \<Longrightarrow> known pub (sj_localVector j) \<and> truthful N pub (sj_interest j)"
    and "pj \<in> pending_production c \<Longrightarrow> known pub (pj_localVector pj)"
    and "event \<in> set (m_out c) \<Longrightarrow> event_ok N pub event"
  using assms unfolding sound_def by blast+

section \<open>Sending\<close>

text \<open>The libraries a member's environment runs on: the network's, with its keys.\<close>

definition on_network :: "('n, 'c, 'b, 'd, 'i) ndn \<Rightarrow> ('n, 'c, 'b, 'd, 'i) core_env \<Rightarrow> bool" where
  "on_network N E \<longleftrightarrow>
     ce_ndn E = N \<and> signer_laws N (ce_signSha256 E) \<and> signer_laws N (ce_signData E)"

text \<open>Operations that keep every member sound, whatever is published.\<close>

definition keeps ::
    "('n :: linorder, 'c, 'b, 'd, 'i) ndn \<Rightarrow> 'n published \<Rightarrow> ('n, 'b, 'd, 'i) sync_core
      \<Rightarrow> ('n, 'b, 'd, 'i) sync_core \<Rightarrow> bool" where
  "keeps N pub c c' \<longleftrightarrow> (sound N pub c \<longrightarrow> sound N pub c')"

named_theorems keeps_intros \<open>operations that keep a member sound\<close>

lemma keeps_refl [keeps_intros]: "keeps N pub c c"
  by (simp add: keeps_def)

lemma keeps_trans: "keeps N pub c c' \<Longrightarrow> keeps N pub c' c'' \<Longrightarrow> keeps N pub c c''"
  by (simp add: keeps_def)

lemma keeps_then:
  assumes "keeps N pub c (fst r)" and "\<And>c'. keeps N pub c' (fst (f c'))"
  shows "keeps N pub c (fst (and_then r f))"
proof (cases r)
  case (Pair c' e)
  then show ?thesis
    using assms keeps_trans [of N pub c c'] by (cases e) auto
qed

lemma keeps_same:
  assumes "m_protocolOptions c' = m_protocolOptions c" and "m_vv c' = m_vv c"
    and "m_recordedVv c' = m_recordedVv c" and "m_out c' = m_out c"
    and "pending_jobs c' \<subseteq> pending_jobs c" and "pending_production c' \<subseteq> pending_production c"
  shows "keeps N pub c c'"
  using assms unfolding keeps_def sound_def by (metis subsetD)

lemma keeps_emit: "event_ok N pub event \<Longrightarrow> keeps N pub c (emit event c)"
  by (simp add: keeps_def sound_def emit_def pending_jobs_def pending_production_def)

lemma keeps_stat [keeps_intros]: "keeps N pub c (stat f c)"
  by (rule keeps_same) (simp_all add: stat_def pending_jobs_def pending_production_def)

lemma keeps_status [keeps_intros]: "keeps N pub c (set_status v c)"
  by (rule keeps_same) (simp_all add: set_status_def pending_jobs_def pending_production_def)

lemma keeps_forget [keeps_intros]: "keeps N pub c (c\<lparr>m_recordedVv := None\<rparr>)"
  by (simp add: keeps_def sound_def pending_jobs_def pending_production_def)

lemma keeps_timer [keeps_intros]: "keeps N pub c (c\<lparr>m_nextSyncInterest := x, m_retxEvent := y\<rparr>)"
  by (rule keeps_same) (simp_all add: pending_jobs_def pending_production_def)

lemma keeps_vector: "(sound N pub c \<Longrightarrow> known pub v) \<Longrightarrow> keeps N pub c (c\<lparr>m_vv := v, m_stateGeneration := g\<rparr>)"
  by (simp add: keeps_def sound_def pending_jobs_def pending_production_def)

text \<open>An Interest encoded from what a member knows is truthful.\<close>

lemma encoded_truthful:
  assumes "tlv_laws N" and "name_laws N" and "packet_laws N" and "on_network N E"
    and "ro_version (m_protocolOptions c) = V3" and "known pub v" and "encode_interest E c v es = Inr i"
  shows "event_ok N pub (Express i)"
proof -
  have "signer_laws N (data_signer E c)"
    using assms(4) by (auto simp: on_network_def data_signer_def [abs_def] signer_laws_def)
  from decode_of_encoded(2) [OF assms(1-3) this _ assms(5)] show ?thesis
    using assms(4,6,7)
    by (auto simp: event_ok_def truthful_def below_def known_def encode_interest_def on_network_def)
qed

text \<open>A network whose library obeys its laws.\<close>

definition lawful :: "('n, 'c, 'b, 'd, 'i) ndn \<Rightarrow> bool" where
  "lawful N \<longleftrightarrow> tlv_laws N \<and> name_laws N \<and> packet_laws N"

lemma keeps_express:
  assumes "lawful N" and "on_network N E" and "known pub v" and "encode_interest E c v es = Inr i"
  shows "keeps N pub c (emit (Express i) c)"
proof -
  have "event_ok N pub (Express i)" if "sound N pub c"
    using encoded_truthful [of N E c pub v es i] assms soundD(1) [OF that] by (simp add: lawful_def)
  then show ?thesis
    unfolding keeps_def using keeps_emit [unfolded keeps_def] by blast
qed

lemma sync_interest_encoded:
  assumes "sync_interest E c = Inr i" and "ro_version (m_protocolOptions c) = V3"
  obtains es where "extra_blocks E c (m_vv c) = Inr es" and "encode_interest E c (m_vv c) es = Inr i"
  using assms by (auto simp: sync_interest_def res_bind_eq_Inr)

lemma keeps_sendSerial:
  assumes "lawful N" and "on_network N E"
  shows "keeps N pub c (fst (sendSyncInterestSerial E c))"
proof (cases "m_initialized c \<and> sound N pub c")
  case True
  then have c: "ro_version (m_protocolOptions c) = V3" "known pub (m_vv c)"
    using soundD by blast+
  show ?thesis
  proof (cases "sync_interest E c")
    case (Inr i)
    then obtain es where "encode_interest E c (m_vv c) es = Inr i"
      using sync_interest_encoded [OF _ c(1)] by blast
    from keeps_trans [OF keeps_express [OF assms c(2) this] keeps_stat] show ?thesis
      using True Inr by (simp add: sendSyncInterestSerial_def)
  qed (use True in \<open>simp add: sendSyncInterestSerial_def keeps_refl\<close>)
qed (auto simp: sendSyncInterestSerial_def keeps_def)

lemma keeps_production_pool:
  assumes "m_syncProductionWorkerPool c = Some pool" and "pool_post job pool = (queued, d, pool')"
    and "pj_localVector job = m_vv c"
  shows "keeps N pub c (c\<lparr>m_syncProductionWorkerPool := Some pool'\<rparr>)"
proof -
  have "pending_production (c\<lparr>m_syncProductionWorkerPool := Some pool'\<rparr>) \<subseteq> insert job (pending_production c)"
    using assms by (auto simp: pending_production_def pool_post_def Let_def split: if_splits)
  then show ?thesis
    using assms(3) unfolding keeps_def sound_def by (auto simp: pending_jobs_def)
qed

lemma keeps_send:
  assumes "lawful N" and "on_network N E"
  shows "keeps N pub c (fst (sendSyncInterest E c))"
proof (cases "m_initialized c \<and> m_syncProductionWorkerPool c \<noteq> None \<and> m_parallelSyncProduction c")
  case False
  then show ?thesis
    by (auto simp: sendSyncInterest_def keeps_sendSerial [OF assms] keeps_refl split: option.split)
next
  case True
  then obtain pool where pool: "m_syncProductionWorkerPool c = Some pool"
    by blast
  show ?thesis
  proof (cases "if m_parallelSyncProductionExtraBlock c then Inr [] else extra_blocks E c (m_vv c)")
    case (Inl e)
    then show ?thesis
      using True by (simp add: sendSyncInterest_def pool keeps_refl)
  next
    case (Inr bs)
    obtain queued d p where post: "pool_post \<lparr>pj_localVector = m_vv c, pj_extraBlocks = bs,
        pj_stateGeneration = m_stateGeneration c, pj_alive = m_syncProductionAlive c\<rparr> pool = (queued, d, p)"
      by (metis prod_cases3)
    have "keeps N pub c (stat f (stat g (c\<lparr>m_syncProductionWorkerPool := Some p\<rparr>)))" for f g
      by (rule keeps_trans [OF keeps_production_pool [OF pool post] keeps_trans [OF keeps_stat keeps_stat]]) simp
    then show ?thesis
      using True keeps_trans [OF _ keeps_sendSerial [OF assms]]
      by (cases queued) (simp_all add: sendSyncInterest_def pool Inr post)
  qed
qed

lemma keeps_after_merge: "known pub r \<Longrightarrow> keeps N pub c (after_merge t r c)"
  unfolding after_merge_def by (rule keeps_vector) (blast intro: known_join soundD(2))

lemma keeps_merge:
  assumes "sound N pub c \<Longrightarrow> known pub r" and "vv_ok r"
  shows "keeps N pub c (snd (mergeStateVector t r c))"
  using keeps_after_merge [of pub r N c t] assms by (auto simp: mergeStateVector_report keeps_def)

lemma keeps_retx:
  assumes "lawful N" and "on_network N E"
  shows "keeps N pub c (fst (retxSyncInterest E send delay c))"
proof -
  have timer: "keeps N pub c' (fst (let delay = if delay = 0 then word_of_int (ce_retxDraw E (m_retxDist c')) else delay
      in (c'\<lparr>m_nextSyncInterest := ce_schedNow E + uint (1000 * delay), m_retxEvent := Some delay\<rparr>, None)))" for c'
    by (simp add: Let_def keeps_timer)
  have sending: "keeps N pub c (fst (case m_recordedVv c of
      None \<Rightarrow> sendSyncInterest E c
    | Some recorded \<Rightarrow>
       (case mergeStateVector (clk_point (ce_clk E)) recorded c of
          (Inl e, c) \<Rightarrow> (c, Some e)
        | (Inr result, c) \<Rightarrow> if mc_myVectorNew result then sendSyncInterest E c else (c, None))))"
  proof (cases "sound N pub c \<and> m_recordedVv c \<noteq> None")
    case False
    then show ?thesis
      by (auto simp: keeps_send [OF assms]) (simp add: keeps_def)
  next
    case True
    then obtain r where r: "m_recordedVv c = Some r" "known pub r"
      using soundD(3) by blast
    then have "mergeStateVector (clk_point (ce_clk E)) r c =
        (Inr (merge_report (clk_point (ce_clk E)) (m_vv c) r), after_merge (clk_point (ce_clk E)) r c)"
      by (simp add: mergeStateVector_report known_def)
    then show ?thesis
      using keeps_after_merge [OF r(2), of N c] keeps_trans [OF keeps_after_merge [OF r(2), of N c] keeps_send [OF assms]]
      by (simp add: r(1))
  qed
  show ?thesis
    unfolding retxSyncInterest_def
    by (intro keeps_then timer) (auto intro!: keeps_then sending keeps_forget simp: keeps_refl)
qed

lemma keeps_local_sync:
  assumes "lawful N" and "on_network N E"
  shows "keeps N pub c (fst (sendLocalPublicationSyncInterest E c))"
  unfolding sendLocalPublicationSyncInterest_def caught_simps
  by (rule keeps_then [OF keeps_trans [OF keeps_forget keeps_send [OF assms]]]) (simp add: Let_def keeps_timer)

section \<open>Receiving\<close>

lemma keeps_recv_each: "keeps N pub c (recv_each E bs v c)"
proof (induction E bs v c rule: recv_each.induct)
  case (2 E b bs v c)
  have "keeps N pub c (emit (RecvBlock b v) c)"
    by (rule keeps_emit) (simp add: event_ok_def)
  then show ?case
    using 2 keeps_trans [of N pub c] by (simp add: Let_def)
qed (simp add: keeps_refl)

lemma keeps_recv_extensions: "keeps N pub c (recv_extensions E es v c)"
  by (simp add: recv_extensions_def keeps_refl keeps_recv_each keeps_emit event_ok_def split: extra_callback.split)

lemma keeps_report:
  assumes "known pub r"
  shows "keeps N pub c (report_missing face (mc_missingData (merge_report t l r)) c)"
proof -
  have "md_high m \<le> pub (md_nodeId m) (md_bootstrapTime m)" if m: "m \<in> set (mc_missingData (merge_report t l r))" for m
  proof -
    obtain n b s where e: "(n, b, s) \<in> set (vv_all r)" "m = missing_of l (n, b, s)"
      using m by (force simp: merge_report_def)
    then have "s = vv_get n b r"
      using vv_all_mem [of r n b s] assms by (simp add: known_def)
    then show ?thesis
      using assms e(2) by (simp add: missing_of_def known_def below_def)
  qed
  then show ?thesis
    by (simp add: report_missing_def keeps_refl keeps_emit event_ok_def)
qed

lemma keeps_suppression: "known pub r \<Longrightarrow> keeps N pub c (enterSuppressionState r c)"
  by (simp add: enterSuppressionState_def keeps_def sound_def pending_jobs_def pending_production_def
      split: option.split)

lemma keeps_record:
  assumes "known pub r"
  shows "keeps N pub c (fst (snd (recordVector t r c)))"
  using assms
  by (auto simp: recordVector_def record_merge_eq keeps_def sound_def pending_jobs_def pending_production_def
      intro: known_join split: option.split)

lemma keeps_react:
  assumes "lawful N" and "on_network N E" and "known pub r"
  shows "keeps N pub c (fst (react E new r c))"
  using keeps_retx [OF assms(1,2), of pub c] keeps_suppression [OF assms(3), of N c]
    keeps_trans [OF keeps_suppression [OF assms(3)] keeps_retx [OF assms(1,2)]]
  by (simp add: react_def Let_def split: option.split)

lemma keeps_conclude:
  assumes "lawful N" and "on_network N E" and "known pub r"
  shows "keeps N pub c (fst (conclude_sync E new r f g c))"
proof -
  obtain rec c' e where rec: "recordVector (clk_point (ce_clk E)) r c = (rec, c', e)"
    by (metis prod_cases3)
  have r: "keeps N pub c c'"
    using keeps_record [OF assms(3), of N c "clk_point (ce_clk E)"] by (simp add: rec)
  then show ?thesis
    by (cases rec) (simp_all add: conclude_sync_def rec keeps_then keeps_react [OF assms] keeps_stat)
qed

lemma keeps_rest:
  assumes "lawful N" and "on_network N E" and "known pub r"
  shows "keeps N pub c (fst (conclude_sync E new r f g
    (report_missing face (mc_missingData (merge_report t l r)) (recv_extensions E es r c))))"
  by (rule keeps_trans [OF keeps_recv_extensions keeps_trans [OF keeps_report [OF assms(3)] keeps_conclude [OF assms]]])

lemma keeps_serial:
  assumes "lawful N" and "on_network N E" and "truthful N pub i"
  shows "keeps N pub c (fst (onSyncInterestValidatedSerial E i f count c))"
proof (cases "ro_version (m_protocolOptions c) = V3")
  case True
  show ?thesis
  proof (cases "decode (ce_ndn E) (ce_compression E) (ce_clk E) i (m_syncPrefix c)
      (ro_version (m_protocolOptions c)) True")
    case (Inl e)
    then show ?thesis
      by (simp add: onSyncInterestValidatedSerial_def keeps_stat)
  next
    case (Inr e)
    have r: "known pub (env_stateVector e)"
      using known_decoded [OF assms(3)] Inr assms(2) True by (simp add: on_network_def)
    obtain g where "onSyncInterestValidatedSerial E i f count c =
      conclude_sync E (mc_myVectorNew (merge_report (clk_point (ce_clk E)) (m_vv c) (env_stateVector e)))
        (env_stateVector e) id g
        (report_missing (value_or f 0)
          (mc_missingData (merge_report (clk_point (ce_clk E)) (m_vv c) (env_stateVector e)))
          (recv_extensions E (env_extensions e) (env_stateVector e)
            (after_merge (clk_point (ce_clk E)) (env_stateVector e) c)))"
      using serial_eq [OF Inr] by blast
    then show ?thesis
      using keeps_trans [OF keeps_after_merge [OF r] keeps_rest [OF assms(1,2) r]] by simp
  qed
qed (simp add: keeps_def sound_def)

lemma keeps_post:
  assumes "m_syncWorkerPool c = Some pool" and "pool_post job pool = (queued, d, pool')"
    and "sj_localVector job = m_vv c" and "truthful N pub (sj_interest job)"
  shows "keeps N pub c (c\<lparr>m_syncWorkerPool := Some pool'\<rparr>)"
proof -
  have "pending_jobs (c\<lparr>m_syncWorkerPool := Some pool'\<rparr>) \<subseteq> insert job (pending_jobs c)"
    using assms by (auto simp: pending_jobs_def pool_post_def Let_def split: if_splits)
  then show ?thesis
    using assms(3,4) unfolding keeps_def sound_def by (auto simp: pending_production_def)
qed

lemma keeps_validated:
  assumes "lawful N" and "on_network N E" and "truthful N pub i"
  shows "keeps N pub c (fst (onSyncInterestValidated E i f c))"
proof (cases "m_syncWorkerPool c")
  case None
  then show ?thesis
    by (simp add: onSyncInterestValidated_def keeps_serial [OF assms])
next
  case (Some pool)
  obtain queued d p where post: "pool_post \<lparr>sj_interest = i, sj_localVector = m_vv c,
      sj_stateGeneration = m_stateGeneration c, sj_incomingFace = value_or f 0,
      sj_alive = m_syncProcessingAlive c\<rparr> pool = (queued, d, p)"
    by (metis prod_cases3)
  have "keeps N pub c (stat g (stat h (c\<lparr>m_syncWorkerPool := Some p\<rparr>)))" for g h
    by (rule keeps_trans [OF keeps_post [OF Some post] keeps_trans [OF keeps_stat keeps_stat]]) (simp_all add: assms(3))
  then show ?thesis
    using keeps_serial [OF assms, of c] keeps_trans [OF _ keeps_serial [OF assms]]
    by (cases queued) (simp_all add: onSyncInterestValidated_def Some post)
qed

lemma keeps_received:
  assumes "lawful N" and "on_network N E" and "truthful N pub i"
  shows "keeps N pub c (fst (onSyncInterest E i f c))"
proof (cases "ro_version (m_protocolOptions c) = V3")
  case True
  have "keeps N pub c (stat g (set_status v c))" for g v
    by (rule keeps_trans [OF keeps_status keeps_stat])
  moreover have "keeps N pub c (emit (ValidateData d i) c)" for d
    by (rule keeps_emit) (simp add: event_ok_def)
  ultimately show ?thesis
    using True keeps_trans [OF keeps_status [of N pub c] keeps_validated [OF assms]] keeps_status [of N pub c]
    by (auto simp: onSyncInterest_def split: sum.split option.split)
qed (simp add: keeps_def sound_def)

lemma keeps_data_validated:
  assumes "lawful N" and "on_network N E" and "truthful N pub i"
  shows "keeps N pub c (fst (data_validated E i f c))"
  using keeps_trans [OF keeps_status [of N pub c] keeps_validated [OF assms]]
  by (simp add: data_validated_def keeps_refl)

lemma keeps_data_rejected: "keeps N pub c (data_rejected c)"
  using keeps_trans [OF keeps_status [of N pub c] keeps_stat] by (simp add: data_rejected_def keeps_refl)

section \<open>Workers\<close>

lemma keeps_take_job: "keeps N pub c (take_sync_job c)"
  by (rule keeps_same) (auto simp: take_sync_job_def pool_take_def pending_jobs_def pending_production_def
      split: option.splits list.splits)

lemma keeps_take_production: "keeps N pub c (take_production_job c)"
  by (rule keeps_same) (auto simp: take_production_job_def pool_take_def pending_jobs_def pending_production_def
      split: option.splits list.splits)

lemma keeps_result:
  assumes "lawful N" and "on_network N W" and "on_network N E"
    and "known pub (sj_localVector job)" and "truthful N pub (sj_interest job)"
  shows "keeps N pub c (fst (processSyncInterestResult E (process_sync_job W p V3 job) c))"
proof -
  let ?res = "process_sync_job W p V3 job"
  consider "\<not> sr_ok ?res \<or> sr_decodeFailed ?res"
    | "sr_ok ?res" "\<not> sr_decodeFailed ?res" "m_stateGeneration c \<noteq> sj_stateGeneration job"
    | "sr_ok ?res" "\<not> sr_decodeFailed ?res" "m_stateGeneration c = sj_stateGeneration job"
    by blast
  then show ?thesis
  proof cases
    case 1
    then show ?thesis
      by (simp add: processSyncInterestResult_def keeps_stat)
  next
    case 2
    then show ?thesis
      using keeps_trans [OF keeps_stat keeps_serial [OF assms(1,3,5)]] by (simp add: processSyncInterestResult_def)
  next
    case 3
    obtain e where e: "decode (ce_ndn W) (ce_compression W) (ce_clk W) (sj_interest job) p V3 True = Inr e"
      and res: "?res = \<lparr>sr_job = job, sr_ok = True, sr_decodeFailed = False,
        sr_remoteVector = env_stateVector e, sr_extensions = env_extensions e,
        sr_merge = merge_report (clk_point (ce_clk W)) (sj_localVector job) (env_stateVector e),
        sr_myVectorNew = mc_myVectorNew
          (merge_report (clk_point (ce_clk W)) (sj_localVector job) (env_stateVector e)),
        sr_missingData = mc_missingData
          (merge_report (clk_point (ce_clk W)) (sj_localVector job) (env_stateVector e))\<rparr>"
      using process_sync_job_ok [OF 3(1)] .
    have r: "known pub (env_stateVector e)"
      using known_decoded [OF assms(5)] e assms(2) by (simp add: on_network_def)
    have merged: "keeps N pub c (c\<lparr>m_vv := mc_mergedVector (merge_report (clk_point (ce_clk W))
        (sj_localVector job) (env_stateVector e)), m_stateGeneration := g\<rparr>)" for g
      by (rule keeps_vector) (simp add: merge_report_def known_join [OF assms(4) r])
    show ?thesis
      unfolding processSyncInterestResult_def res
      using 3(3) keeps_trans [OF merged keeps_rest [OF assms(1,3) r]] by (simp add: Let_def)
  qed
qed

lemma keeps_deliver:
  assumes "lawful N" and "on_network N W" and "on_network N E"
  shows "keeps N pub c (fst (deliver_sync_result W E job c))"
proof (cases "job \<in> set (m_runningJobs c) \<and> sound N pub c")
  case True
  let ?c = "c\<lparr>m_runningJobs := remove1 job (m_runningJobs c)\<rparr>"
  have q: "keeps N pub c ?c"
    using set_remove1_subset [of job "m_runningJobs c"]
    by (intro keeps_same) (auto simp: pending_jobs_def pending_production_def)
  have "known pub (sj_localVector job)" "truthful N pub (sj_interest job)"
    "ro_version (m_protocolOptions c) = V3"
    using True soundD [of N pub c] by (auto simp: pending_jobs_def)
  then show ?thesis
    using q keeps_trans [OF q keeps_result [OF assms]] by (simp add: deliver_sync_result_def Let_def keeps_refl)
qed (auto simp: deliver_sync_result_def keeps_def)

lemma worker_interest_ok:
  assumes "lawful N" and "on_network N W" and "known pub (pj_localVector job)"
    and "ro_version (m_protocolOptions c) = V3" and "pr_interest (process_production_job W c job) = Some i"
  shows "event_ok N pub (Express i)"
proof -
  have "encode_interest W c (pj_localVector job) es = Inr i \<Longrightarrow> event_ok N pub (Express i)" for es
    using encoded_truthful [of N W c pub "pj_localVector job" es i] assms(1-4) by (simp add: lawful_def)
  then show ?thesis
    using assms(4,5)
    by (auto simp: process_production_job_def res_bind_eq_Inr Let_def split: sum.splits prod.splits if_splits)
qed

lemma keeps_production_result:
  assumes "lawful N" and "on_network N E" and "known pub (pj_localVector (pr_job res))"
    and "ro_version (m_protocolOptions c) = V3"
    and "\<And>i. pr_interest res = Some i \<Longrightarrow> event_ok N pub (Express i)"
  shows "keeps N pub c (fst (processSyncProductionResult E res c))"
proof -
  have express: "event_ok N pub (Express i)"
    if "(case pr_interest res of Some i \<Rightarrow> Inr i
      | None \<Rightarrow> encode_interest E c' (pj_localVector (pr_job res)) (pj_extraBlocks (pr_job res))) = Inr i"
      and "m_protocolOptions c' = m_protocolOptions c" for i c'
  proof (cases "pr_interest res")
    case None
    then show ?thesis
      using that encoded_truthful [of N E c' pub "pj_localVector (pr_job res)" "pj_extraBlocks (pr_job res)" i]
        assms(1-4) by (simp add: lawful_def)
  qed (use that assms(5) in simp)
  let ?enc = "\<lambda>c'. case pr_interest res of Some i \<Rightarrow> Inr i
      | None \<Rightarrow> encode_interest E c' (pj_localVector (pr_job res)) (pj_extraBlocks (pr_job res))"
  have counted: "keeps N pub c (stat g c)" "keeps N pub c c" for g
    by (rule keeps_stat keeps_refl)+
  have sending: "keeps N pub c (fst (case ?enc c' of Inl e \<Rightarrow> (c', Some e)
      | Inr i \<Rightarrow> (stat g (emit (Express i) c'), None)))"
    if c': "keeps N pub c c'" "m_protocolOptions c' = m_protocolOptions c" for g c'
  proof (cases "?enc c'")
    case (Inr i)
    from keeps_trans [OF c'(1) keeps_trans [OF keeps_emit [OF express [OF Inr c'(2)]] keeps_stat]] show ?thesis
      by (simp add: Inr)
  qed (use c'(1) in simp)
  have opts: "m_protocolOptions (stat h c) = m_protocolOptions c" for h
    by (simp add: stat_def)
  have bind: "res_bind r Inr = r" for r :: "svs_error + 'e"
    by (cases r) simp_all
  show ?thesis
    using assms(4) counted sending [OF counted(1) opts] sending [OF counted(2) refl]
    by (simp add: processSyncProductionResult_def Let_def opts bind cong: if_cong)
qed

lemma keeps_deliver_production:
  assumes "lawful N" and "on_network N W" and "on_network N E"
  shows "keeps N pub c (fst (deliver_production_result W E job c))"
proof (cases "job \<in> set (m_runningProduction c) \<and> sound N pub c")
  case True
  let ?c = "c\<lparr>m_runningProduction := remove1 job (m_runningProduction c)\<rparr>"
  have q: "keeps N pub c ?c"
    using set_remove1_subset [of job "m_runningProduction c"]
    by (intro keeps_same) (auto simp: pending_jobs_def pending_production_def)
  have job: "known pub (pj_localVector job)" and v3: "ro_version (m_protocolOptions c) = V3"
    using True soundD [of N pub c] by (auto simp: pending_production_def)
  have "pr_job (process_production_job W c job) = job"
    by (simp add: process_production_job_def Let_def split: sum.split prod.split)
  then have "keeps N pub ?c (fst (processSyncProductionResult E (process_production_job W c job) ?c))"
    using job v3 worker_interest_ok [OF assms(1,2) job v3] by (intro keeps_production_result [OF assms(1,3)]) simp_all
  then show ?thesis
    using q keeps_trans [OF q] by (simp add: deliver_production_result_def Let_def keeps_refl)
qed (auto simp: deliver_production_result_def keeps_def)

section \<open>Timers, publications and configuration\<close>

lemma keeps_fire_retx:
  assumes "lawful N" and "on_network N E"
  shows "keeps N pub c (fst (fire_retx E c))"
proof -
  have "keeps N pub c (c\<lparr>m_retxEvent := None\<rparr>)"
    by (rule keeps_same) (simp_all add: pending_jobs_def pending_production_def)
  from keeps_trans [OF this keeps_retx [OF assms]] show ?thesis
    by (simp add: fire_retx_def)
qed

lemma keeps_fire_initial:
  assumes "lawful N" and "on_network N E"
  shows "keeps N pub c (fst (fire_initial E c))"
proof -
  have "keeps N pub c (c\<lparr>m_initialEvents := m_initialEvents c - 1, m_initialized := True\<rparr>)"
    by (rule keeps_same) (simp_all add: pending_jobs_def pending_production_def)
  from keeps_trans [OF this keeps_retx [OF assms]] show ?thesis
    by (simp add: fire_initial_def)
qed

lemma keeps_fire_publication:
  assumes "lawful N" and "on_network N E"
  shows "keeps N pub c (fst (fire_publication_sync E c))"
proof -
  have "keeps N pub c (c\<lparr>m_publicationSyncEvent := None, m_publicationSyncPending := False\<rparr>)"
    by (rule keeps_same) (simp_all add: pending_jobs_def pending_production_def)
  from keeps_trans [OF this keeps_local_sync [OF assms]] show ?thesis
    by (simp add: fire_publication_sync_def)
qed

lemma keeps_schedule: "keeps N pub c (schedulePublicationSync c)"
  by (rule keeps_same) (simp_all add: schedulePublicationSync_def pending_jobs_def pending_production_def)

text \<open>A publication stays within what is published once it is counted.\<close>

lemma keeps_update:
  assumes "lawful N" and "on_network N E" and "s \<le> pub (own_or E c nid) b"
  shows "keeps N pub c (fst (updateSeqNoAt E s b nid c))"
proof (cases "s = 0")
  case True
  then show ?thesis
    by (simp add: updateSeqNoAt_def vv_set_eq keeps_refl)
next
  case False
  have put: "keeps N pub c (c\<lparr>m_vv := vv_put t (own_or E c nid) b s (m_vv c), m_stateGeneration := g\<rparr>)" for t g
    by (rule keeps_vector) (use assms(3) False in \<open>blast intro: known_put soundD(2)\<close>)
  have unchanged: "c'\<lparr>m_stateGeneration := m_stateGeneration c'\<rparr> = c'" for c' :: "('a, 'c, 'd, 'e) sync_core"
    by simp
  have old: "keeps N pub c (c\<lparr>m_vv := vv_put t (own_or E c nid) b s (m_vv c)\<rparr>)" for t
    using put [of "m_stateGeneration c" t] unchanged [of "c\<lparr>m_vv := vv_put t (own_or E c nid) b s (m_vv c)\<rparr>"]
    by simp
  show ?thesis
    using False put old keeps_trans [OF put keeps_schedule] keeps_trans [OF put keeps_local_sync [OF assms(1,2)]]
    unfolding updateSeqNoAt_def vv_set_eq Let_def
    by (cases "s > vv_get (own_or E c nid) b (m_vv c)"; cases "m_syncInterestBatching c") simp_all
qed

lemma keeps_configuration:
  "keeps N pub c (setParallelSyncProcessing on k m c)"
  "keeps N pub c (setParallelSyncProduction on k m sw bw c)"
  "keeps N pub c (setSyncInterestBatching on w c)"
  "keeps N pub c (setMaxSuppressionTime d c)"
  "keeps N pub c (setPeriodicSyncTime d jitter c)"
  "keeps N pub c (setGetExtra cb c)"
  "keeps N pub c (setRecvExtra cb c)"
  "keeps N pub c (sendInitialInterest c)"
  by (rule keeps_same; auto simp: pending_jobs_def pending_production_def setParallelSyncProcessing_def
      setParallelSyncProduction_def setSyncInterestBatching_def setMaxSuppressionTime_def
      setPeriodicSyncTime_def setGetExtra_def setRecvExtra_def sendInitialInterest_def drain_def
      pool_shutdown_def pool_new_def Let_def split: option.splits)+

lemma keeps_destroy: "keeps N pub c (core_destroy c)"
proof -
  have "keeps N pub c (c\<lparr>m_gateOpen := False\<rparr>)"
    by (rule keeps_same) (simp_all add: pending_jobs_def pending_production_def)
  then show ?thesis
    unfolding core_destroy_def by (rule keeps_trans [OF _ keeps_trans [OF keeps_configuration(2,1)]])
qed

section \<open>The group\<close>

text \<open>
  Members exchange Interests over a network that may lose, delay, duplicate and reorder them, but
  does not make them up: a member receives what some member, itself included, has expressed.
\<close>

type_synonym ('p, 'n, 'b, 'd, 'i) group = "'p \<Rightarrow> ('n, 'b, 'd, 'i) sync_core"

definition in_transit ::
    "('n, 'c, 'b, 'd, 'i) ndn \<Rightarrow> ('p, 'n, 'b, 'd, 'i) group \<Rightarrow> 'i set" where
  "in_transit N g = {i. sendable N i \<and> (\<exists>p. Express i \<in> set (m_out (g p)))}"

text \<open>What one member does, given the Interests it may receive.\<close>

inductive member_step ::
    "('n :: linorder, 'c, 'b, 'd, 'i) ndn \<Rightarrow> 'i set \<Rightarrow> ('n, 'b, 'd, 'i) sync_core
      \<Rightarrow> ('n, 'b, 'd, 'i) sync_core \<Rightarrow> bool"
  for N :: "('n, 'c, 'b, 'd, 'i) ndn" and arriving :: "'i set"
where
  receive: "i \<in> arriving \<Longrightarrow> on_network N E \<Longrightarrow> member_step N arriving c (fst (onSyncInterest E i f c))"
| validated: "i \<in> arriving \<Longrightarrow> on_network N E \<Longrightarrow> member_step N arriving c (fst (data_validated E i f c))"
| rejected: "member_step N arriving c (data_rejected c)"
| take_job: "member_step N arriving c (take_sync_job c)"
| deliver: "on_network N W \<Longrightarrow> on_network N E \<Longrightarrow>
    member_step N arriving c (fst (deliver_sync_result W E job c))"
| take_production: "member_step N arriving c (take_production_job c)"
| deliver_production: "on_network N W \<Longrightarrow> on_network N E \<Longrightarrow>
    member_step N arriving c (fst (deliver_production_result W E pjob c))"
| retx: "on_network N E \<Longrightarrow> member_step N arriving c (fst (fire_retx E c))"
| registered: "member_step N arriving c (sendInitialInterest c)"
| initial: "on_network N E \<Longrightarrow> member_step N arriving c (fst (fire_initial E c))"
| publication_timer: "on_network N E \<Longrightarrow> member_step N arriving c (fst (fire_publication_sync E c))"
| parallel: "member_step N arriving c (setParallelSyncProcessing on k m c)"
| production: "member_step N arriving c (setParallelSyncProduction on k m sw bw c)"
| batching: "member_step N arriving c (setSyncInterestBatching on w c)"
| suppression: "member_step N arriving c (setMaxSuppressionTime d c)"
| periodic: "member_step N arriving c (setPeriodicSyncTime d jitter c)"
| get_extra: "member_step N arriving c (setGetExtra cb c)"
| recv_extra: "member_step N arriving c (setRecvExtra cb c)"
| destroy: "member_step N arriving c (core_destroy c)"

text \<open>
  The group with the highest numbers published so far: a member publishes with
  \<^verbatim>\<open>updateSeqNo\<close>, for any node and epoch, also lower numbers than before.
\<close>

definition count_published ::
    "'n \<Rightarrow> bootstrap_time \<Rightarrow> seq_no \<Rightarrow> 'n published \<Rightarrow> 'n published" where
  "count_published n b s pub = pub(n := (pub n)(b := max (pub n b) s))"

inductive group_reachable ::
    "('n :: linorder, 'c, 'b, 'd, 'i) ndn \<Rightarrow> ('p, 'n, 'b, 'd, 'i) group \<Rightarrow> 'n published \<Rightarrow> bool"
  for N :: "('n, 'c, 'b, 'd, 'i) ndn"
where
  formed: "(\<And>p. \<exists>clk si sd v nid opts. po_version opts = V3 \<and> core_new clk prefix si sd v nid opts = Inr (g p)) \<Longrightarrow>
    group_reachable N g (\<lambda>_ _. 0)"
| act: "group_reachable N g pub \<Longrightarrow> member_step N (in_transit N g) (g p) c \<Longrightarrow>
    group_reachable N (g(p := c)) pub"
| publish: "group_reachable N g pub \<Longrightarrow> on_network N E \<Longrightarrow>
    group_reachable N (g(p := fst (updateSeqNoAt E s b nid (g p))))
      (count_published (own_or E (g p) nid) b s pub)"

lemma member_step_keeps:
  assumes "member_step N arriving c c'" and "lawful N" and "\<forall>i \<in> arriving. truthful N pub i"
  shows "keeps N pub c c'"
  using assms(1)
proof (induction rule: member_step.induct)
qed (use assms(2,3) in \<open>simp_all add: keeps_received keeps_data_validated keeps_data_rejected keeps_take_job
    keeps_deliver keeps_take_production keeps_deliver_production keeps_fire_retx keeps_fire_initial
    keeps_fire_publication keeps_configuration keeps_destroy\<close>)

lemma sound_new:
  assumes "core_new clk prefix si sd v nid opts = Inr c" and "po_version opts = V3"
  shows "sound N pub c"
  using assms
  by (auto simp: core_new_def resolve_def resolve_timers_def res_bind_eq_Inr Let_def sound_def pending_jobs_def
      pending_production_def split: if_splits option.splits)

lemma group_sound:
  assumes "group_reachable N g pub" and "lawful N"
  shows "sound N pub (g p)"
  using assms(1)
proof (induction arbitrary: p rule: group_reachable.induct)
  case (formed prefix g)
  then show ?case
    using sound_new by metis
next
  case (act g pub q c)
  have "truthful N pub i" if "i \<in> in_transit N g" for i
    using that soundD(6) [OF act.IH] by (fastforce simp: in_transit_def event_ok_def)
  then have "keeps N pub (g q) c"
    using member_step_keeps [OF act(2) assms(2)] by blast
  then show ?case
    using act.IH by (simp add: keeps_def)
next
  case (publish g pub E q s b nid)
  let ?pub = "count_published (own_or E (g q) nid) b s pub"
  have le: "pub \<le> ?pub"
    by (simp add: count_published_def le_fun_def)
  have "keeps N ?pub (g q) (fst (updateSeqNoAt E s b nid (g q)))"
    by (rule keeps_update [OF assms(2) publish(2)]) (simp add: count_published_def)
  then show ?case
    using sound_mono [OF publish.IH le] by (simp add: keeps_def)
qed

text \<open>
  C1: Nobody learns of a publication that was never made. In every state a V3 group can reach, over
  a network that loses, repeats and reorders Interests, with workers, suppression, timers and
  extension blocks in any interleaving, every register of every member, and the end of every range
  of missing data a member has reported to its application, is at most the highest number that some
  member has published for that node and epoch.
\<close>

theorem no_phantom_publications:
  assumes "group_reachable N g pub" and "tlv_laws N" and "name_laws N" and "packet_laws N"
  shows "vv_get n b (m_vv (g p)) \<le> pub n b \<and>
    (\<forall>missing. OnUpdate missing \<in> set (m_out (g p)) \<longrightarrow>
      (\<forall>m \<in> set missing. md_high m \<le> pub (md_nodeId m) (md_bootstrapTime m)))"
proof -
  have s: "sound N pub (g p)"
    using group_sound [OF assms(1)] assms(2-4) by (simp add: lawful_def)
  have "\<forall>m \<in> set missing. md_high m \<le> pub (md_nodeId m) (md_bootstrapTime m)"
    if "OnUpdate missing \<in> set (m_out (g p))" for missing
    using soundD(6) [OF s that] by (simp add: event_ok_def)
  then show ?thesis
    using soundD(2) [OF s] by (simp add: known_def below_def)
qed

text \<open>A group of two sample members, one of which has published.\<close>

lemma sample_on_network: "on_network i_ndn sample_env"
  by (simp add: on_network_def sample_env_def i_signer_laws)

lemma sample_group_reachable:
  "group_reachable i_ndn ((\<lambda>_ :: bool. sample_core)(True := fst (updateSeqNoAt sample_env 1 100 [(8, [66])] sample_core)))
    (count_published [(8, [66])] 100 1 (\<lambda>_ _. 0))"
proof -
  have "group_reachable i_ndn (\<lambda>_ :: bool. sample_core) (\<lambda>_ _. 0)"
    by (rule group_reachable.formed [of sample_group]) (intro exI, rule conjI [rotated], rule sample_core_new, simp)
  from group_reachable.publish [OF this sample_on_network, of True 1 100 "[(8, [66])]"] show ?thesis
    by (simp add: own_or_def sample_env_def i_names)
qed

theorem no_phantom_publications_witness:
  "vv_get [(8, [66])] 100 (m_vv (fst (updateSeqNoAt sample_env 1 100 [(8, [66])] sample_core))) \<le>
     count_published [(8, [66])] 100 1 (\<lambda>_ _. 0) ([(8, [66])] :: i_name) 100"
  using no_phantom_publications [OF sample_group_reachable i_tlv_laws i_name_laws i_packet_laws,
      of "[(8, [66])]" 100 True]
  by simp

end
