(* ===== verification/Group_Convergence.thy ===== *)
theory Group_Convergence
  imports Group_Sync
begin

text \<open>
  Eventual agreement of a group: what a member makes of the Interests it hears, and that one round
  in which every member hears of every other leaves all of them with the same registers. The
  receiving path is \<^verbatim>\<open>SVSyncCore::onSyncInterest\<close> and \<^verbatim>\<open>onSyncInterestValidatedSerial\<close>, the Interests
  are those that \<^verbatim>\<open>sendSyncInterest\<close> builds (\<^verbatim>\<open>ndn-svs/core.cpp\<close>).
\<close>

section \<open>Hearing the others\<close>

text \<open>What no Interest changes in a member: its configuration.\<close>

definition same_setup :: "('n, 'b, 'd, 'i) sync_core \<Rightarrow> ('n, 'b, 'd, 'i) sync_core \<Rightarrow> bool" where
  "same_setup c c' \<longleftrightarrow>
     m_protocolOptions c' = m_protocolOptions c \<and> m_syncPrefix c' = m_syncPrefix c \<and>
     m_hasValidator c' = m_hasValidator c \<and> m_syncWorkerPool c' = m_syncWorkerPool c"

lemma same_setup_trans: "same_setup c c' \<Longrightarrow> same_setup c' c'' \<Longrightarrow> same_setup c c''"
  by (simp add: same_setup_def)

lemma same_setup_simple [simp]:
  "same_setup c c" "same_setup c (stat f c)" "same_setup c (emit event c)" "same_setup c (set_status v c)"
  "same_setup c (enterSuppressionState r c)" "same_setup c (report_missing face ms c)"
  by (simp_all add: same_setup_def stat_def emit_def set_status_def enterSuppressionState_def
      report_missing_def split: option.split)

lemma same_setup_merge [simp]: "same_setup c (after_merge t r c)"
  by (simp add: same_setup_def after_merge_def)

lemma same_setup_retx [simp]: "same_setup c (fst (retxSyncInterest E False d c))"
  by (simp add: same_setup_def retxSyncInterest_def Let_def)

lemma same_setup_then:
  assumes "same_setup c (fst r)" and "\<And>c'. same_setup c' (fst (f c'))"
  shows "same_setup c (fst (and_then r f))"
proof (cases r)
  case (Pair c' e)
  then show ?thesis
    using assms same_setup_trans by (cases e) auto
qed

lemma same_setup_recv_each [simp]: "same_setup c (recv_each E bs v c)"
proof (induction E bs v c rule: recv_each.induct)
  case (2 E b bs v c)
  then show ?case
    using same_setup_trans [OF same_setup_simple(3) [of c "RecvBlock b v"]] by (simp add: Let_def)
qed simp

lemma same_setup_extensions [simp]: "same_setup c (recv_extensions E es v c)"
  by (simp add: recv_extensions_def split: extra_callback.split)

lemma same_setup_react: "same_setup c (fst (react E new r c))"
  using same_setup_trans [OF same_setup_simple(5) [of c r] same_setup_retx [of _ E]]
  by (simp add: react_def Let_def split: option.split)

lemma same_setup_conclude: "same_setup c (fst (conclude_sync E new r f g c))"
proof (cases "m_recordedVv c")
  case None
  have "same_setup c (fst (and_then (and_then (c, None) (react E new r)) (\<lambda>c. (stat g c, None))))"
    by (intro same_setup_then) (simp_all add: same_setup_react)
  then show ?thesis
    by (simp add: conclude_sync_def recordVector_def None)
next
  case (Some p)
  then show ?thesis
    by (simp add: conclude_sync_def recordVector_def record_merge_eq same_setup_def stat_def)
qed

text \<open>
  A member that handles Sync Interests by itself: V3, the group's prefix, no validator and no
  worker pool for incoming Interests.
\<close>

definition listening :: "'n \<Rightarrow> ('n :: linorder, 'b, 'd, 'i) sync_core \<Rightarrow> bool" where
  "listening prefix c \<longleftrightarrow>
     ro_version (m_protocolOptions c) = V3 \<and> m_syncPrefix c = prefix \<and> \<not> m_hasValidator c \<and>
     m_syncWorkerPool c = None"

lemma listening_same: "same_setup c c' \<Longrightarrow> listening prefix c \<Longrightarrow> listening prefix c'"
  by (simp add: same_setup_def listening_def)

lemma hear_serial:
  assumes "decode (ce_ndn E) (ce_compression E) (ce_clk E) i (m_syncPrefix c)
      (ro_version (m_protocolOptions c)) True = Inr e"
  shows "same_setup c (fst (onSyncInterestValidatedSerial E i f count c))"
    and "vv_get n b (m_vv (fst (onSyncInterestValidatedSerial E i f count c))) =
      max (vv_get n b (m_vv c)) (vv_get n b (env_stateVector e))"
proof -
  let ?t = "clk_point (ce_clk E)" and ?r = "env_stateVector e"
  let ?c1 = "recv_extensions E (env_extensions e) ?r (after_merge ?t ?r c)"
  let ?c2 = "report_missing (value_or f 0) (mc_missingData (merge_report ?t (m_vv c) ?r)) ?c1"
  obtain g where s: "onSyncInterestValidatedSerial E i f count c =
      conclude_sync E (mc_myVectorNew (merge_report ?t (m_vv c) ?r)) ?r id g ?c2"
    using serial_eq [OF assms] by blast
  show "same_setup c (fst (onSyncInterestValidatedSerial E i f count c))"
    unfolding s
    by (rule same_setup_trans [OF same_setup_merge same_setup_trans [OF same_setup_extensions
        same_setup_trans [OF same_setup_simple(6) same_setup_conclude]]])
  have "quiet (after_merge ?t ?r c) ?c2"
    by (rule quiet_trans [OF quiet_recv_extensions quiet_report])
  moreover have "same_log ?c2 (fst (onSyncInterestValidatedSerial E i f count c))"
    unfolding s by (rule same_log_conclude)
  ultimately have "m_vv (fst (onSyncInterestValidatedSerial E i f count c)) = m_vv (after_merge ?t ?r c)"
    by (simp add: quiet_def same_log_def)
  then show "vv_get n b (m_vv (fst (onSyncInterestValidatedSerial E i f count c))) =
      max (vv_get n b (m_vv c)) (vv_get n b ?r)"
    by (simp add: after_merge_def vv_get_join decode_vector_ok [OF assms])
qed

text \<open>
  \<open>hear\<close> is the handling of a sequence of Interests, each with the face it came from, in the
  environment of its moment.
\<close>

fun hear ::
    "(('n :: linorder, 'c, 'b, 'd, 'i) core_env \<times> 'i \<times> u64 option) list
      \<Rightarrow> ('n, 'b, 'd, 'i) sync_core \<Rightarrow> ('n, 'b, 'd, 'i) sync_core" where
  "hear [] c = c"
| "hear ((E, i, face) # is) c = hear is (fst (onSyncInterest E i face c))"

text \<open>An Interest that says \<open>v\<close> to a listener: it decodes, and to that vector's registers.\<close>

definition says ::
    "('n :: linorder, 'c, 'b, 'd, 'i) core_env \<Rightarrow> 'n \<Rightarrow> 'i \<Rightarrow> 'n version_vector \<Rightarrow> bool" where
  "says E prefix i v \<longleftrightarrow>
     (\<exists>e. decode (ce_ndn E) (ce_compression E) (ce_clk E) i prefix V3 False = Inr e \<and> env_stateVectorData e \<noteq> None) \<and>
     (\<exists>e. decode (ce_ndn E) (ce_compression E) (ce_clk E) i prefix V3 True = Inr e \<and>
       (\<forall>n b. vv_get n b (env_stateVector e) = vv_get n b v))"

lemma says_unique: "says E prefix i v \<Longrightarrow> says E prefix i w \<Longrightarrow> vv_get n b v = vv_get n b w"
  by (auto simp: says_def)

lemma hear_one:
  assumes "listening prefix c" and "says E prefix i v"
  shows "listening prefix (fst (onSyncInterest E i face c))"
    and "vv_get n b (m_vv (fst (onSyncInterest E i face c))) = max (vv_get n b (m_vv c)) (vv_get n b v)"
proof -
  obtain e d where e: "decode (ce_ndn E) (ce_compression E) (ce_clk E) i prefix V3 False = Inr e"
      "env_stateVectorData e = Some d"
    using assms(2) unfolding says_def by blast
  obtain w where w: "decode (ce_ndn E) (ce_compression E) (ce_clk E) i prefix V3 True = Inr w"
      "\<And>n b. vv_get n b (env_stateVector w) = vv_get n b v"
    using assms(2) unfolding says_def by blast
  let ?c = "set_status StructuralUnverified c"
  have c: "listening prefix ?c" "m_vv ?c = m_vv c"
    using listening_same [OF same_setup_simple(4) assms(1)] by (simp_all add: set_status_def)
  have eq: "onSyncInterest E i face c = onSyncInterestValidatedSerial E i face True ?c"
    using assms(1) e c(1) by (simp add: onSyncInterest_def onSyncInterestValidated_def listening_def)
  have d: "decode (ce_ndn E) (ce_compression E) (ce_clk E) i (m_syncPrefix ?c)
      (ro_version (m_protocolOptions ?c)) True = Inr w"
    using c(1) w(1) by (simp add: listening_def)
  show "listening prefix (fst (onSyncInterest E i face c))"
    unfolding eq by (rule listening_same [OF hear_serial(1) [OF d] c(1)])
  show "vv_get n b (m_vv (fst (onSyncInterest E i face c))) = max (vv_get n b (m_vv c)) (vv_get n b v)"
    unfolding eq by (simp add: hear_serial(2) [OF d] c(2) w(2))
qed

lemma hear_all:
  assumes "listening prefix c" and "\<forall>(E, i, face) \<in> set is. says E prefix i (v i)"
  shows "vv_get n b (m_vv (hear is c)) =
    Max (insert (vv_get n b (m_vv c)) ((\<lambda>(E, i, face). vv_get n b (v i)) ` set is))"
  using assms
proof (induction "is" c rule: hear.induct)
  case (2 E i face "is" c)
  let ?vs = "(\<lambda>(E, i, face). vv_get n b (v i)) ` set is"
  have s: "says E prefix i (v i)"
    using 2(3) by simp
  have "vv_get n b (m_vv (hear is (fst (onSyncInterest E i face c)))) =
      Max (insert (max (vv_get n b (m_vv c)) (vv_get n b (v i))) ?vs)"
    using 2 hear_one [OF 2(2) s] by simp
  also have "\<dots> = Max (insert (vv_get n b (m_vv c)) (insert (vv_get n b (v i)) ?vs))"
    by (cases "is = []") (simp_all add: max.assoc)
  finally show ?case
    by simp
qed simp

text \<open>What a V3 member sends says its vector to every listener of the same group whose clock accepts its epochs.\<close>

definition epochs_fine :: "sys_clock \<Rightarrow> 'n version_vector \<Rightarrow> bool" where
  "epochs_fine clk v \<longleftrightarrow> (\<forall>(n, b, s) \<in> set (vv_all v). epoch_accepted clk b)"

lemma sent_says:
  assumes "lawful N" and "on_network N S" and "on_network N E" and "listening prefix c" and "vv_ok (m_vv c)"
    and "sync_interest S c = Inr i" and "sendable N i" and "epochs_fine (ce_clk E) (m_vv c)"
  shows "says E prefix i (m_vv c)"
proof -
  have c: "ro_version (m_protocolOptions c) = V3" "m_syncPrefix c = prefix"
    using assms(4) by (simp_all add: listening_def)
  obtain es where "encode_interest S c (m_vv c) es = Inr i"
    using sync_interest_encoded [OF assms(6) c(1)] .
  then have enc: "encode N (ce_compression S) prefix (m_vv c) es (m_protocolOptions c) (Some (data_signer S c)) = Inr i"
    using assms(2) by (simp add: encode_interest_def on_network_def c(2))
  have signs: "signer_laws N (data_signer S c)"
    using assms(2) by (auto simp: on_network_def data_signer_def [abs_def] signer_laws_def)
  have laws: "tlv_laws N" "name_laws N" "packet_laws N"
    using assms(1) by (simp_all add: lawful_def)
  note decodes = encoded_decodes [OF laws signs assms(5) assms(8) [unfolded epochs_fine_def] c(1) enc assms(7)]
  obtain e where e: "decode N (ce_compression E) (ce_clk E) i prefix V3 False = Inr e" "env_stateVectorData e \<noteq> None"
    using decodes [of "ce_compression E" False] by blast
  obtain w where w: "decode N (ce_compression E) (ce_clk E) i prefix V3 True = Inr w"
    "\<forall>n b. vv_get n b (env_stateVector w) = vv_get n b (m_vv c)"
    using decodes [of "ce_compression E" True] by blast
  then show ?thesis
    using e w assms(3) by (auto simp: says_def on_network_def)
qed

section \<open>A round\<close>

text \<open>
  C2: One round of exchange brings a group together. Every member sends one Sync Interest built
  from its own vector, and every member receives those of all the others, perhaps its own too, in
  any order, with any repetitions, over any faces, while the clocks go on, whether it is suppressed
  or not. Then every register of every member is the highest that any of them had: all members
  agree, and nobody's publications are missed.
\<close>

theorem round_converges:
  fixes g :: "'p \<Rightarrow> ('n :: linorder, 'b, 'd, 'i) sync_core"
  assumes "tlv_laws N" and "name_laws N" and "packet_laws N" and "finite members"
    and "\<And>p. p \<in> members \<Longrightarrow> on_network N (E p) \<and> listening prefix (g p) \<and> vv_ok (m_vv (g p))"
    and "\<And>p. p \<in> members \<Longrightarrow> sync_interest (E p) (g p) = Inr (sent p) \<and> sendable N (sent p)"
    and "\<And>H i face p. (H, i, face) \<in> set heard \<Longrightarrow> p \<in> members \<Longrightarrow>
      on_network N H \<and> epochs_fine (ce_clk H) (m_vv (g p))"
    and "(\<lambda>(H, i, face). i) ` set heard \<subseteq> sent ` members"
    and "sent ` (members - {q}) \<subseteq> (\<lambda>(H, i, face). i) ` set heard" and "q \<in> members"
  shows "vv_get n b (m_vv (hear heard (g q))) = Max ((\<lambda>p. vv_get n b (m_vv (g p))) ` members)"
proof -
  have law: "lawful N"
    using assms(1-3) by (simp add: lawful_def)
  have said: "says H prefix (sent p) (m_vv (g p))" if "(H, i, face) \<in> set heard" and p: "p \<in> members" for H i face p
    using sent_says [OF law, of "E p" H prefix "g p" "sent p"] assms(5,6) [OF p] assms(7) [OF that] by blast
  let ?who = "inv_into members sent"
  have who: "?who i \<in> members" "says H prefix i (m_vv (g (?who i)))" if h: "(H, i, face) \<in> set heard" for H i face
  proof -
    have i: "i \<in> sent ` members"
      using assms(8) h by force
    then show m: "?who i \<in> members"
      by (rule inv_into_into)
    show "says H prefix i (m_vv (g (?who i)))"
      using said [OF h m] f_inv_into_f [OF i] by simp
  qed
  have heard: "vv_get n b (m_vv (hear heard (g q))) =
      Max (insert (vv_get n b (m_vv (g q))) ((\<lambda>(H, i, face). vv_get n b (m_vv (g (?who i)))) ` set heard))"
    by (rule hear_all [of prefix]) (use assms(5) [OF assms(10)] who(2) in auto)
  let ?all = "(\<lambda>p. vv_get n b (m_vv (g p))) ` members"
  let ?got = "insert (vv_get n b (m_vv (g q))) ((\<lambda>(H, i, face). vv_get n b (m_vv (g (?who i)))) ` set heard)"
  have "vv_get n b (m_vv (g p)) \<in> ?got" if p: "p \<in> members" "p \<noteq> q" for p
  proof -
    obtain H face where h: "(H, sent p, face) \<in> set heard"
      using assms(9) p by force
    have "vv_get n b (m_vv (g p)) = vv_get n b (m_vv (g (?who (sent p))))"
      by (rule says_unique [OF said [OF h] who(2) [OF h]]) (use p in simp)
    then show ?thesis
      using h by force
  qed
  then have "?all \<subseteq> ?got"
    by blast
  moreover have "?got \<subseteq> ?all"
    using who(1) assms(10) by clarsimp
  ultimately show ?thesis
    using heard by (metis subset_antisym)
qed

text \<open>Two members: one with the sample vector, one that knows nothing and hears of it.\<close>

lemma empty_bytes: "vv_encode_buffer i_ndn vv_empty = [201, 0]"
  by (simp add: vv_encode_buffer_def vv_empty_def i_eval svs_simps)

lemma empty_encoded: "vv_encode i_ndn vv_empty = Inr (201, [])"
  by (simp add: vv_encode_def empty_bytes i_eval)

lemma empty_data:
  "i_data_new \<lparr>da_name = makeSyncName i_ndn sample_group V3,
      da_content = PayloadBlock (block_nested i_ndn tlv_Content [(201, [])]),
      da_freshness = 0, da_content_type = None, da_final_block = None\<rparr> =
    ([(8, [71]), (54, [3])], (21, [201, 0]), False, (0, 0, None))"
  by (simp add: makeSyncName_def version_number_def sample_group_def i_eval svs_simps)

lemma empty_data_parts:
  "i_name_wire [(8, [71]), (54, [3])] = (7, [8, 1, 71, 54, 1, 3])"
  "i_meta_wire (0, 0, None) = (20, [24, 1, 0, 25, 1, 0])"
  by (simp_all add: i_eval svs_simps)

lemma empty_body:
  "encode_body_V3 i_ndn (makeSyncName i_ndn sample_group V3) vv_empty [] (Some i_sign) =
     Inr ([6, 23, 7, 6, 8, 1, 71, 54, 1, 3, 20, 6, 24, 1, 0, 25, 1, 0, 21, 2, 201, 0, 23, 1, 1], 25)"
  unfolding encode_body_V3_def empty_encoded res_bind_Inr Let_def i_packets empty_data option.case i_sign_def fst_conv snd_conv
  by (simp add: i_data_wire_def empty_data_parts
      prepend_block_def i_blocks i_wire_def i_var_num_def be_bytes_def upt_conv_Cons svs_simps)

lemma sample_empty_parameters:
  "encode_parameters i_ndn sample_group vv_empty [] (sample_options V3) (Some i_sign) =
     Inr [36, 25, 6, 23, 7, 6, 8, 1, 71, 54, 1, 3, 20, 6, 24, 1, 0, 25, 1, 0, 21, 2, 201, 0, 23, 1, 1]"
  by (simp add: encode_parameters_def sample_options_def empty_body MAX_EXTENSION_BLOCKS_def prepend_header_def
      prepend_var_number_def i_eval svs_simps)

definition sample_empty_interest :: i_interest where
  "sample_empty_interest =
     (sample_group @ [i_typed 54 3, (2, [])],
      Some (36, [6, 23, 7, 6, 8, 1, 71, 54, 1, 3, 20, 6, 24, 1, 0, 25, 1, 0, 21, 2, 201, 0, 23, 1, 1]))"

lemma sample_empty_sent: "sync_interest sample_env sample_core = Inr sample_empty_interest"
proof -
  have "encode i_ndn False sample_group vv_empty [] (sample_options V3) (Some i_sign) = Inr sample_empty_interest"
    unfolding encode_def sample_empty_parameters
    by (simp add: sample_empty_interest_def i_eval i_interest_new_def svs_simps makeSyncName_def
        sample_options_def version_number_def)
  moreover have "data_signer sample_env sample_core = i_sign"
    by (rule ext) (simp add: data_signer_def sample_env_def)
  ultimately show ?thesis
    by (simp add: sync_interest_def extra_blocks_def encode_interest_def sample_core_def sample_env_def
        sample_options_def)
qed

lemma sample_ready_sent: "sync_interest sample_env sample_ready = Inr sample_interest"
proof -
  have "sample_ready\<lparr>m_retxEvent := None\<rparr> = sample_ready"
    by (simp add: sample_ready_def sample_core_def)
  with sample_ready_interest show ?thesis
    by simp
qed

lemma sample_sendable: "sendable i_ndn sample_interest" "sendable i_ndn sample_empty_interest"
  by (simp_all add: sendable_def sample_interest_def sample_empty_interest_def fits_def i_eval)

definition sample_pair :: "bool \<Rightarrow> (i_name, i_block, i_data, i_interest) sync_core" where
  "sample_pair p = (if p then sample_ready else sample_core)"

definition sample_sent :: "bool \<Rightarrow> i_interest" where
  "sample_sent p = (if p then sample_interest else sample_empty_interest)"

lemma sample_pair_listening: "listening sample_group (sample_pair p) \<and> vv_ok (m_vv (sample_pair p))"
  using sample_vector_ok vv_ok_empty
  by (simp add: sample_pair_def listening_def sample_ready_def sample_core_def sample_options_def)

lemma sample_pair_sends:
  "sync_interest sample_env (sample_pair p) = Inr (sample_sent p) \<and> sendable i_ndn (sample_sent p)"
  using sample_ready_sent sample_empty_sent sample_sendable by (simp add: sample_pair_def sample_sent_def)

lemma sample_pair_epochs: "epochs_fine (ce_clk sample_env) (m_vv (sample_pair p))"
proof (cases p)
  case True
  then show ?thesis
    using sample_vector_epochs by (simp add: sample_pair_def sample_ready_def sample_env_def epochs_fine_def)
next
  case False
  then show ?thesis
    by (simp add: sample_pair_def sample_core_def epochs_fine_def vv_all_def vv_empty_def)
qed

theorem round_converges_witness:
  "vv_get [(8, [65])] 100 (m_vv (hear [(sample_env, sample_interest, Some 3)] (sample_pair False))) =
     Max ((\<lambda>p. vv_get [(8, [65])] 100 (m_vv (sample_pair p))) ` UNIV)"
proof (rule round_converges [OF i_tlv_laws i_name_laws i_packet_laws finite_class.finite_UNIV,
      of "\<lambda>_. sample_env" sample_group sample_pair sample_sent])
  show "(\<lambda>(H, i, face). i) ` set [(sample_env, sample_interest, Some 3)] \<subseteq> range sample_sent"
    using rangeI [of sample_sent True] by (simp add: sample_sent_def)
  show "sample_sent ` (UNIV - {False}) \<subseteq> (\<lambda>(H, i, face). i) ` set [(sample_env, sample_interest, Some 3)]"
    by (auto simp: sample_sent_def)
qed (use sample_pair_listening sample_pair_sends sample_pair_epochs sample_on_network in auto)

end
