(* ===== verification/Node.thy ===== *)
theory Node
  imports Extra_Reception Fetch_Ranges Group_Convergence
begin

text \<open>
  The core and \<^verbatim>\<open>SVSPubSub\<close> put together, as the constructor of \<^verbatim>\<open>ndn-svs/svspubsub.cpp\<close> does it: what the
  core's handlers of \<^verbatim>\<open>ndn-svs/core.cpp\<close> tell their owner is passed to \<^verbatim>\<open>onRecvExtraBlocks\<close> and
  \<^verbatim>\<open>updateCallbackInternal\<close>. Shown here: which parts those callbacks leave alone, what they learn, and
  that mappings which come along with a Sync Interest save the mapping queries.
\<close>

section \<open>Callbacks of the core\<close>

text \<open>
  The owner of a core reacts to what the core's handlers tell it, one event after the other; nothing is
  the value of a reaction that does not return. The contract of an owner: it leaves the core alone, so
  that it does not matter that the reactions take place in the middle of a handler.
\<close>

fun run_all :: "('e \<Rightarrow> 's \<Rightarrow> 's option) \<Rightarrow> 'e list \<Rightarrow> 's \<Rightarrow> 's option" where
  "run_all f [] s = Some s"
| "run_all f (e # es) s = Option.bind (f e s) (run_all f es)"

lemma run_all_Nil: "run_all f [] = Some"
  by (rule ext) simp

locale callback_owner =
  fixes core_of :: "'s \<Rightarrow> 'c"
    and react_to :: "'e \<Rightarrow> 's \<Rightarrow> 's option"
  assumes leaves_core: "react_to e s = Some s' \<Longrightarrow> core_of s' = core_of s"
begin

lemma all_leave_core: "run_all react_to es s = Some s' \<Longrightarrow> core_of s' = core_of s"
proof (induction es arbitrary: s)
  case (Cons e es)
  then obtain t where "react_to e s = Some t" "run_all react_to es t = Some s'"
    by (auto simp: bind_eq_Some_conv)
  then show ?case
    using Cons.IH leaves_core by metis
qed simp

end

text \<open>
  The constructor binds \<^verbatim>\<open>updateCallbackInternal\<close> to the core's update callback and \<^verbatim>\<open>onRecvExtraBlocks\<close>
  to its extension callback. An exception of the latter is caught by the core.
\<close>

definition callback ::
    "('n :: linorder, 'c, 'b, 'd, 'i, 's, 'r) pubsub_env \<Rightarrow> ('n, 'b, 'd, 'i) core_event
      \<Rightarrow> ('n, 'b, 'd, 'i, 's, 'f, 'r) svspubsub \<Rightarrow> ('n, 'b, 'd, 'i, 's, 'f, 'r) svspubsub option" where
  "callback E event P =
     (case event of
        RecvBlocks blocks _ \<Rightarrow> map_option fst (onRecvExtraBlocks E blocks P)
      | core_event.OnUpdate info \<Rightarrow> updateCallbackInternal E info P
      | _ \<Rightarrow> Some P)"

text \<open>
  An operation of the core inside the object: the core acts, and the callbacks run on what it has added
  to its log.
\<close>

definition node_core ::
    "('n :: linorder, 'c, 'b, 'd, 'i, 's, 'r) pubsub_env
      \<Rightarrow> (('n, 'b, 'd, 'i) sync_core \<Rightarrow> ('n, 'b, 'd, 'i) sync_core outcome)
      \<Rightarrow> ('n, 'b, 'd, 'i, 's, 'f, 'r) svspubsub
      \<Rightarrow> ('n, 'b, 'd, 'i, 's, 'f, 'r) svspubsub outcome option" where
  "node_core E f P =
     (let (c, e) = f (ps_core P)
      in map_option (\<lambda>P. (P, e))
           (run_all (callback E) (drop (length (m_out (ps_core P))) (m_out c))
             (P\<lparr>ps_svsync := (ps_svsync P)\<lparr>sb_core := c\<rparr>\<rparr>)))"

definition node_receive ::
    "('n :: linorder, 'c, 'b, 'd, 'i, 's, 'r) pubsub_env \<Rightarrow> 'i \<Rightarrow> u64 option
      \<Rightarrow> ('n, 'b, 'd, 'i, 's, 'f, 'r) svspubsub
      \<Rightarrow> ('n, 'b, 'd, 'i, 's, 'f, 'r) svspubsub outcome option" where
  "node_receive E i face = node_core E (onSyncInterest (be_core (pe_base E)) i face)"

section \<open>What the callbacks leave alone\<close>

text \<open>The parts that the fetching of publications does not touch.\<close>

definition base_view where
  "base_view P = (ps_core P, ps_mappingProvider P, ps_mappingFetcher P, ps_opts P)"

lemma base_view_parts [simp]:
  "base_view (with_book f P) = base_view P" "base_view (with_extra g P) = base_view P"
  "base_view (emit_ps outs P) = base_view P" "base_view (P\<lparr>ps_book := b\<rparr>) = base_view P"
  by (simp_all add: base_view_def with_book_def with_extra_def emit_ps_def ps_core_def)

lemma base_view_fold:
  "(\<And>x P. base_view (f x P) = base_view P) \<Longrightarrow> base_view (fold f xs P) = base_view P"
  by (induction xs arbitrary: P) simp_all

lemma base_view_svsync: "sb_core S = ps_core P \<Longrightarrow> base_view (P\<lparr>ps_svsync := S\<rparr>) = base_view P"
  by (simp add: base_view_def ps_core_def)

lemma base_view_queueOrDeliver:
  "base_view (snd (snd (queueOrDeliver E name publication sub st))) = base_view (snd (snd st))"
  by (cases st) (simp add: queueOrDeliver_def split: option.split)

lemma base_view_deliveries:
  "base_view (snd (snd (fold (queueOrDeliver E name publication) subs st))) = base_view (snd (snd st))"
  by (induction subs arbitrary: st) (simp_all add: base_view_queueOrDeliver)

lemma base_view_processMapping:
  assumes "processMapping E publication P = Inr (queued, P')"
  shows "base_view P' = base_view P"
proof -
  obtain nid b s where key: "publication = (nid, b, s)"
    by (cases publication)
  show ?thesis
  proof (cases "hasPiggyDeliveredPublication publication (ps_extra P)")
    case False
    then obtain mapping too_old where m: "mp_getMapping (pe_ndn E) nid b s (ps_mappingProvider P) = Inr mapping"
      and old: "(if so_maxPubAge (ps_opts P) > 0
        then mapping_too_old E (so_maxPubAge (ps_opts P)) (snd mapping) else Inr False) = Inr too_old"
      using assms by (auto simp: processMapping_def key res_bind_eq_Inr)
    obtain queued' delivered Q where Q: "fold (queueOrDeliver E (fst mapping) publication)
        (matching_subscriptions E (fst mapping) (ps_book P)) (False, False, P) = (queued', delivered, Q)"
      by (metis prod_cases3)
    then have "base_view Q = base_view P"
      using base_view_deliveries [of E "fst mapping" publication
          "matching_subscriptions E (fst mapping) (ps_book P)" "(False, False, P)"] by simp
    then show ?thesis
      using assms False m old Q unfolding processMapping_def key prod.case m old res_bind_Inr
      by (auto simp: res_bind_def split: if_splits)
  qed (use assms in \<open>simp add: processMapping_def\<close>)
qed

lemma base_view_processed [simp]: "base_view (processed E stream n P) = base_view P"
  using base_view_processMapping
  by (fastforce simp: processed_def split: sum.split)

lemma core_of_fetch [simp]:
  "sb_core (fst (fetchData N nid b s cb retries S)) = sb_core S"
  "sb_core (setFetchInterestLifetime l S) = sb_core S"
  by (simp_all add: fetchData_def setFetchInterestLifetime_def split_beta Let_def)

lemma base_view_observe [simp]: "base_view (observePublicationFetchSuccess E key P) = base_view P"
  by (simp add: observePublicationFetchSuccess_def Let_def split: option.split)

lemma base_view_cached [simp]: "base_view (deliver_cached E key name packet P) = base_view P"
  by (simp add: deliver_cached_def Let_def)

lemma base_view_start [simp]: "base_view (start_fetch E key st P) = base_view P"
proof -
  obtain nid b s where key: "key = (nid, b, s)"
    by (cases key)
  show ?thesis
    by (simp add: start_fetch_def key Let_def split_beta base_view_def ps_core_def with_book_def emit_ps_def)
qed

lemma base_view_ready [simp]: "base_view (fetch_ready E window n ready P) = base_view P"
  by (induction ready arbitrary: n P) (auto split: option.split)

lemma base_view_fetchAll [simp]: "base_view (fetchAll E P) = base_view P"
  by (simp add: fetchAll_def split_beta Let_def)

lemma base_view_prefetch [simp]: "base_view (prefetch_next E stream P) = base_view P"
  by (simp add: prefetch_next_def split_beta Let_def base_view_svsync ps_core_def)

lemma base_view_received: "base_view (snd (process_received E publication acc)) = base_view (snd acc)"
  using base_view_processMapping by (fastforce simp: process_received_def split: sum.split)

lemma base_view_received_all: "base_view (snd (fold (process_received E) ps acc)) = base_view (snd acc)"
  by (induction ps arbitrary: acc) (simp_all add: base_view_received)

lemma base_view_finish [simp]: "base_view (finish_received E acc) = base_view (snd acc)"
  using base_view_received_all [of E "fst acc" "(False, snd acc)"]
  by (simp add: finish_received_def split_beta Let_def)

lemma base_view_piggy: "base_view (deliver_piggy N data ready P) = base_view P"
  by (simp add: deliver_piggy_def split: prod.split)

lemma base_view_take_data [simp]: "base_view (take_data E data P) = base_view P"
  by (simp add: take_data_def satisfyPendingFetchFromPiggyData_def Let_def base_view_fold base_view_piggy)

lemma base_view_repair [simp]: "base_view (enqueueRepairPublication E key P) = base_view P"
  by (simp add: enqueueRepairPublication_def Let_def split: prod.split sum.split option.split)

lemma base_view_seq_loop:
  assumes "\<And>i P. base_view (f i P) = base_view P" and "seq_loop f low high P = Some P'"
  shows "base_view P' = base_view P"
proof (cases "high = - 1")
  case True
  then show ?thesis
    using assms(2) seq_loop_diverges [of f low P] by simp
next
  case False
  then show ?thesis
    using assms(2) base_view_fold [of f, OF assms(1)] by (auto simp: seq_loop_returns)
qed

lemma base_view_take_repairs: "take_repairs E requests P = Some P' \<Longrightarrow> base_view P' = base_view P"
proof (induction requests arbitrary: P)
  case (Cons request requests)
  then show ?case
    using base_view_seq_loop [of "\<lambda>seq. enqueueRepairPublication E (md_nodeId request, md_bootstrapTime request, seq)"]
    by (fastforce simp: bind_eq_Some_conv)
qed simp

section \<open>The callbacks leave the core alone\<close>

lemma core_of_view: "base_view P' = base_view P \<Longrightarrow> ps_core P' = ps_core P"
  by (simp add: base_view_def)

lemma core_take_mapping: "ps_core (snd (take_mapping N nid entry acc)) = ps_core (snd acc)"
  by (cases acc) (simp add: take_mapping_def ps_core_def)

lemma core_take_mappings: "ps_core (snd (fold (take_mapping N nid) entries acc)) = ps_core (snd acc)"
  by (induction entries arbitrary: acc) (simp_all add: core_take_mapping)

lemma core_take_list: "ps_core (snd (fst (take_mapping_list N block acc))) = ps_core (snd acc)"
  by (simp add: take_mapping_list_def core_take_mappings split: sum.split)

lemma core_take_repairs: "take_repairs E requests P = Some P' \<Longrightarrow> ps_core P' = ps_core P"
  by (rule core_of_view [OF base_view_take_repairs])

lemma core_take_child:
  assumes "take_child E child acc = Some (acc', e)"
  shows "ps_core (snd acc') = ps_core (snd acc)"
  using assms core_take_list [of "pe_ndn E" child acc] core_take_repairs core_of_view [OF base_view_take_data]
  by (auto simp: take_child_def Let_def split: if_splits option.splits sum.splits)

lemma core_take_children:
  "take_children E children acc = Some acc' \<Longrightarrow> ps_core (snd acc') = ps_core (snd acc)"
proof (induction children arbitrary: acc)
  case (Cons child children)
  obtain acc1 e where one: "take_child E child acc = Some (acc1, e)"
    using Cons.prems by (auto simp: bind_eq_Some_conv)
  then show ?case
    using Cons.prems Cons.IH [of acc1] core_take_child [OF one] by (cases e) simp_all
qed simp

lemma core_finish: "ps_core (finish_received E acc) = ps_core (snd acc)"
  by (rule core_of_view) simp

lemma core_received:
  assumes "onRecvExtraData E block P = Some (P', e)"
  shows "ps_core P' = ps_core P"
proof (cases "is_known_extension (pe_ndn E) block \<and> validate_tree (pe_ndn E) block = Inr ()")
  case False
  then show ?thesis
    using assms by (auto simp: onRecvExtraData_def Let_def split: if_splits sum.splits)
next
  case True
  let ?acc = "fst (take_mapping_list (pe_ndn E) block ([], P))"
  have start: "ps_core (snd ?acc) = ps_core P"
    using core_take_list [of "pe_ndn E" block "([], P)"] by simp
  have rest: "ps_core Q = ps_core (snd acc)"
    if r: "map_option (\<lambda>acc. (finish_received E acc, None))
      (case parse_elems (pe_ndn E) block of Inl _ \<Rightarrow> Some acc | Inr es \<Rightarrow> take_children E es acc) = Some (Q, x)" for acc Q x
  proof (cases "parse_elems (pe_ndn E) block")
    case (Inl y)
    then show ?thesis
      using r core_finish [of E acc] by simp
  next
    case (Inr es)
    then obtain acc' where "take_children E es acc = Some acc'" "Q = finish_received E acc'"
      using r by auto
    then show ?thesis
      using core_take_children core_finish by metis
  qed
  let ?rest = "\<lambda>acc. map_option (\<lambda>acc. (finish_received E acc, None :: svs_error option))
      (case parse_elems (pe_ndn E) block of Inl _ \<Rightarrow> Some acc | Inr es \<Rightarrow> take_children E es acc)"
  show ?thesis
  proof (cases "block_type (pe_ndn E) block = tlv_RepairData")
    case False
    then have r: "?rest ?acc = Some (P', e)"
      using assms True by (simp add: onRecvExtraData_def Let_def)
    show ?thesis
      using rest [OF r] start by simp
  next
    case repair: True
    show ?thesis
    proof (cases "decodeRepairRequests (pe_ndn E) block")
      case (Inl x)
      then show ?thesis
        using assms True repair start by (simp add: onRecvExtraData_def Let_def)
    next
      case (Inr requests)
      then obtain Q where Q: "take_repairs E requests (snd ?acc) = Some Q" "?rest (fst ?acc, Q) = Some (P', e)"
        using assms True repair by (auto simp: onRecvExtraData_def Let_def bind_eq_Some_conv)
      show ?thesis
        using rest [OF Q(2)] core_take_repairs [OF Q(1)] start by simp
    qed
  qed
qed

lemma core_received_blocks:
  "recv_blocks E blocks P = Some (P', e) \<Longrightarrow> ps_core P' = ps_core P"
proof (induction blocks arbitrary: P)
  case (Cons block blocks)
  obtain P1 x where one: "onRecvExtraData E block P = Some (P1, x)"
    using Cons.prems by (auto simp: bind_eq_Some_conv)
  then show ?case
    using Cons.prems Cons.IH [of P1] core_received [OF one] by (cases x) simp_all
qed simp

text \<open>The loops over sequence numbers, which may not return.\<close>

lemma seq_scan_keeps:
  assumes "\<And>i s t. f i s = Some t \<Longrightarrow> V t = V s" and "seq_scan f i high s = Some t"
  shows "V t = V s"
proof -
  have "(\<forall>i s t. f i s = Some t \<longrightarrow> V t = V s) \<longrightarrow> V t = V s"
  proof (rule seq_scan.raw_induct [where P = "\<lambda>f i high s t. (\<forall>i s t. f i s = Some t \<longrightarrow> V t = V s) \<longrightarrow> V t = V s",
        OF _ assms(2)])
    fix loop and f :: "seq_no \<Rightarrow> 'a \<Rightarrow> 'a option" and i high :: seq_no and s t
    assume "\<And>f i high s t. loop f i high s = Some t \<Longrightarrow> (\<forall>i s t. f i s = Some t \<longrightarrow> V t = V s) \<longrightarrow> V t = V s"
      and "(if i \<le> high then case f i s of None \<Rightarrow> Some s | Some t \<Rightarrow> loop f (i + 1) high t else Some s) = Some t"
    then show "(\<forall>i s t. f i s = Some t \<longrightarrow> V t = V s) \<longrightarrow> V t = V s"
      by (fastforce split: if_splits option.splits)
  qed
  then show ?thesis
    using assms(1) by blast
qed

lemma fetch_ranges_keeps:
  assumes "\<And>l h s. V (f l h s) = V s" and "fetch_ranges f low high s = Some t"
  shows "V t = V s"
proof -
  have "(\<forall>l h s. V (f l h s) = V s) \<longrightarrow> V t = V s"
  proof (rule fetch_ranges.raw_induct [where P = "\<lambda>f low high s t. (\<forall>l h s. V (f l h s) = V s) \<longrightarrow> V t = V s",
        OF _ assms(2)])
    fix loop and f :: "seq_no \<Rightarrow> seq_no \<Rightarrow> 'a \<Rightarrow> 'a" and low high :: seq_no and s t
    assume "\<And>f low high s t. loop f low high s = Some t \<Longrightarrow> (\<forall>l h s. V (f l h s) = V s) \<longrightarrow> V t = V s"
      and "(if low \<le> high then loop f (low + 11) high (f low (if high - low > 10 then low + 10 else high) s)
        else Some s) = Some t"
    then show "(\<forall>l h s. V (f l h s) = V s) \<longrightarrow> V t = V s"
      by (fastforce split: if_splits)
  qed
  then show ?thesis
    using assms(1) by blast
qed

lemma core_fetchMissing: "ps_core (fetchMissingRange E requested name low high P) = ps_core P"
  by (simp add: fetchMissingRange_def scheduleMappingFetch_def with_mapping_fetcher_def with_book_def emit_ps_def
      ps_core_def Let_def split_beta)

lemma core_queue_mapped:
  assumes "queue_mapped E stream P = Some P'"
  shows "ps_core P' = ps_core P"
proof (cases "fb_prefixSubscriptions (ps_book P) = [] \<and> fb_regexSubscriptions (ps_book P) = []")
  case False
  obtain low Q where scan: "seq_scan (process_known E stream) (md_low stream) (md_high stream) (md_low stream, P) = Some (low, Q)"
    and fetch: "fetch_ranges (fetchMissingRange E stream (md_nodeId stream)) low (md_high stream) Q = Some P'"
    using assms False by (auto simp: queue_mapped_def bind_eq_Some_conv)
  have "ps_core (snd t) = ps_core (snd s)" if "process_known E stream i s = Some t" for i s t
    using that core_of_view [OF base_view_processMapping]
    by (auto simp: process_known_def split: prod.splits sum.splits)
  from seq_scan_keeps [where V = "\<lambda>s. ps_core (snd s)", OF this scan] have "ps_core Q = ps_core P"
    by simp
  with fetch_ranges_keeps [where V = ps_core, OF core_fetchMissing fetch] show ?thesis
    by simp
qed (use assms in \<open>simp add: queue_mapped_def\<close>)

lemma core_queue_producers:
  "queue_producers E stream subs P = Some P' \<Longrightarrow> ps_core P' = ps_core P"
proof (induction subs arbitrary: P)
  case (Cons sub subs)
  let ?f = "\<lambda>i. with_book (addPublicationFetch (ps_opts P) (pe_now E) (md_nodeId stream, md_bootstrapTime stream, i) sub)"
  have "base_view Q = base_view P" if "seq_loop ?f (md_low stream) (md_high stream) P = Some Q" for Q
    by (rule base_view_seq_loop [OF _ that]) simp
  then have loop: "ps_core Q = ps_core P" if "seq_loop ?f (md_low stream) (md_high stream) P = Some Q" for Q
    using core_of_view that by blast
  have prefetch: "ps_core (prefetch_next E stream Q) = ps_core Q" for Q
    by (rule core_of_view) simp
  show ?case
  proof (cases "nm_is_prefix (pe_ndn E) (su_prefix sub) (md_nodeId stream)")
    case True
    obtain Q where Q: "seq_loop ?f (md_low stream) (md_high stream) P = Some Q"
      "queue_producers E stream subs (if su_prefetch sub then prefetch_next E stream Q else Q) = Some P'"
      using Cons.prems True by (auto simp: bind_eq_Some_conv)
    show ?thesis
      using Cons.IH [OF Q(2)] loop [OF Q(1)] prefetch [of Q] by (simp split: if_splits)
  next
    case False
    then show ?thesis
      using Cons.prems Cons.IH [of P] by simp
  qed
qed simp

lemma core_update_streams: "update_streams E info P = Some P' \<Longrightarrow> ps_core P' = ps_core P"
proof (induction info arbitrary: P)
  case (Cons stream info)
  then obtain P1 P2 where "queue_producers E stream (fb_producerSubscriptions (ps_book P)) P = Some P1"
    "queue_mapped E stream P1 = Some P2" "update_streams E info P2 = Some P'"
    by (auto simp: bind_eq_Some_conv)
  then show ?case
    using Cons.IH [of P2] core_queue_producers core_queue_mapped by metis
qed simp

lemma core_fetch: "ps_core (emit_ps outs (fetchAll E P)) = ps_core P"
  by (rule core_of_view) simp

lemma core_callback: "callback E event P = Some P' \<Longrightarrow> ps_core P' = ps_core P"
proof (cases event)
  case (RecvBlocks blocks v)
  then show "callback E event P = Some P' \<Longrightarrow> ps_core P' = ps_core P"
    using core_received_blocks by (fastforce simp: callback_def onRecvExtraBlocks_def split: sum.splits)
next
  case (OnUpdate info)
  then show "callback E event P = Some P' \<Longrightarrow> ps_core P' = ps_core P"
    using core_update_streams by (auto simp: callback_def updateCallbackInternal_def core_fetch)
qed (simp_all add: callback_def)

interpretation pubsub_owner: callback_owner ps_core "callback E" for E
  by unfold_locales (rule core_callback)

text \<open>What an operation makes of the core inside the object is what it makes of a core by itself.\<close>

lemma node_core_core:
  assumes "node_core E f P = Some (P', e)"
  shows "ps_core P' = fst (f (ps_core P))"
  using assms pubsub_owner.all_leave_core
  by (fastforce simp: node_core_def split_beta Let_def ps_core_def)

section \<open>Mappings that come along\<close>

text \<open>The publications whose mapping the object knows.\<close>

definition knows where
  "knows N P key \<longleftrightarrow>
     (case key of (nid, b, s) \<Rightarrow> \<exists>mapping. mp_getMapping N nid b s (ps_mappingProvider P) = Inr mapping)"

text \<open>The publications whose mapping a block carries: as a list, or in a list among its sub-elements.\<close>

definition mapped :: "('n :: linorder, 'c, 'b, 'd, 'i) ndn \<Rightarrow> 'b \<Rightarrow> 'n publication_key set" where
  "mapped N block =
     (case mapping_list_decode N V3 block of
        Inl _ \<Rightarrow> {}
      | Inr list \<Rightarrow> (\<lambda>entry. (ml_nodeId list, me_bootstrapTime entry, me_seqNo entry)) ` set (ml_pairs list))"

definition mapped_child :: "('n :: linorder, 'c, 'b, 'd, 'i) ndn \<Rightarrow> 'b \<Rightarrow> 'n publication_key set" where
  "mapped_child N child = (if block_type N child = tlv_MappingData then mapped N child else {})"

definition carried :: "('n :: linorder, 'c, 'b, 'd, 'i) ndn \<Rightarrow> 'b \<Rightarrow> 'n publication_key set" where
  "carried N block =
     (if is_known_extension N block then
        mapped N block \<union>
        (case block_elems N block of None \<Rightarrow> {} | Some children \<Rightarrow> \<Union> (mapped_child N ` set children))
      else {})"

text \<open>Operations that learn at least the mappings of \<open>keys\<close>, forget none and send no query.\<close>

definition learns where
  "learns N keys P P' \<longleftrightarrow>
     ps_core P' = ps_core P \<and> ps_mappingFetcher P' = ps_mappingFetcher P \<and> ps_opts P' = ps_opts P \<and>
     (\<forall>key. key \<in> keys \<or> knows N P key \<longrightarrow> knows N P' key)"

lemma learns_view: "base_view P' = base_view P \<Longrightarrow> learns N {} P P'"
  by (simp add: learns_def base_view_def knows_def)

lemma learns_trans: "learns N K P P1 \<Longrightarrow> learns N L P1 P2 \<Longrightarrow> K' \<subseteq> K \<union> L \<Longrightarrow> learns N K' P P2"
  unfolding learns_def by fastforce

lemma learns_mapping:
  "learns N {(nid, me_bootstrapTime entry, me_seqNo entry)} (snd acc) (snd (take_mapping N nid entry acc))"
  by (cases acc)
    (auto simp: learns_def knows_def take_mapping_def ps_core_def mp_insertMapping_def mp_getMapping_def
      map_of_put res_of_option_def split: option.splits)

lemma learns_mappings:
  "learns N ((\<lambda>entry. (nid, me_bootstrapTime entry, me_seqNo entry)) ` set entries) (snd acc)
     (snd (fold (take_mapping N nid) entries acc))"
proof (induction entries arbitrary: acc)
  case Nil
  then show ?case by (simp add: learns_def)
next
  case (Cons entry entries)
  show ?case
    unfolding fold_simps by (rule learns_trans [OF learns_mapping Cons.IH]) auto
qed

lemma learns_list: "learns N (mapped N block) (snd acc) (snd (fst (take_mapping_list N block acc)))"
proof (cases "mapping_list_decode N V3 block")
  case (Inl e)
  then show ?thesis
    by (simp add: take_mapping_list_def mapped_def learns_def)
next
  case (Inr list)
  then show ?thesis
    using learns_mappings [of N "ml_nodeId list" "ml_pairs list" acc] by (simp add: take_mapping_list_def mapped_def)
qed

lemma learns_child:
  assumes "take_child E child acc = Some (acc', None)"
  shows "learns (pe_ndn E) (mapped_child (pe_ndn E) child) (snd acc) (snd acc')"
proof (cases "block_type (pe_ndn E) child = tlv_MappingData")
  case True
  then have "fst (take_mapping_list (pe_ndn E) child acc) = acc'"
    using assms by (simp add: take_child_def Let_def)
  then show ?thesis
    using learns_list [of "pe_ndn E" child acc] True by (simp add: mapped_child_def)
next
  case False
  have "base_view (snd acc') = base_view (snd acc)"
    using assms False base_view_take_repairs
    by (auto simp: take_child_def Let_def split: if_splits option.splits sum.splits)
  then show ?thesis
    using learns_view False by (simp add: mapped_child_def)
qed

lemma learns_children:
  assumes "res_fold (validate_child (pe_ndn E)) children u = Inr u'"
    and "\<forall>child \<in> set children. block_type (pe_ndn E) child = tlv_RepairData \<longrightarrow> requests_end (pe_ndn E) child"
  shows "\<exists>acc'. take_children E children acc = Some acc' \<and>
    learns (pe_ndn E) (\<Union> (mapped_child (pe_ndn E) ` set children)) (snd acc) (snd acc')"
  using assms
proof (induction children arbitrary: u acc)
  case Nil
  then show ?case by (simp add: learns_def)
next
  case (Cons child children)
  obtain u1 where u1: "validate_child (pe_ndn E) child u = Inr u1"
    "res_fold (validate_child (pe_ndn E)) children u1 = Inr u'"
    using Cons.prems(1) by (auto simp: res_bind_eq_Inr)
  have "block_type (pe_ndn E) child = tlv_RepairData \<longrightarrow> requests_end (pe_ndn E) child"
    using Cons.prems(2) by simp
  then obtain acc1 where one: "take_child E child acc = Some (acc1, None)"
    using take_child_total [OF u1(1)] by blast
  obtain acc' where rest: "take_children E children acc1 = Some acc'"
    "learns (pe_ndn E) (\<Union> (mapped_child (pe_ndn E) ` set children)) (snd acc1) (snd acc')"
    using Cons.IH [OF u1(2), of acc1] Cons.prems(2) by auto
  have "learns (pe_ndn E) (\<Union> (mapped_child (pe_ndn E) ` set (child # children))) (snd acc) (snd acc')"
    by (rule learns_trans [OF learns_child [OF one] rest(2)]) simp
  then show ?case
    using one rest(1) by simp
qed

lemma learns_block:
  assumes "is_known_extension (pe_ndn E) block \<longrightarrow> validate_tree (pe_ndn E) block = Inr ()"
    and "ranges_end (pe_ndn E) block"
  shows "\<exists>P'. onRecvExtraData E block P = Some (P', None) \<and> learns (pe_ndn E) (carried (pe_ndn E) block) P P'"
proof (cases "is_known_extension (pe_ndn E) block")
  case True
  let ?N = "pe_ndn E"
  let ?acc = "fst (take_mapping_list ?N block ([], P))"
  have tree: "validate_tree ?N block = Inr ()"
    using assms(1) True by simp
  obtain children where c: "block_elems ?N block = Some children" "res_fold (validate_child ?N) children () = Inr ()"
    "block_type ?N block \<noteq> tlv_MappingData \<longrightarrow> (\<exists>requests. decodeRepairRequests ?N block = Inr requests)"
    by (rule validate_tree_parts [OF tree])
  have ends: "\<forall>child \<in> set children. block_type ?N child = tlv_RepairData \<longrightarrow> requests_end ?N child"
    using assms(2) c(1) by (simp add: ranges_end_def)
  have carried: "carried ?N block = mapped ?N block \<union> \<Union> (mapped_child ?N ` set children)"
    using True c(1) by (simp add: carried_def)
  have rest: "\<exists>P'. map_option (\<lambda>acc. (finish_received E acc, None))
      (case parse_elems ?N block of Inl _ \<Rightarrow> Some acc | Inr es \<Rightarrow> take_children E es acc) = Some (P', None) \<and>
      learns ?N (carried ?N block) P P'" if q: "learns ?N (mapped ?N block) P (snd acc)" for acc
  proof -
    obtain acc' where a: "take_children E children acc = Some acc'"
      "learns ?N (\<Union> (mapped_child ?N ` set children)) (snd acc) (snd acc')"
      using learns_children [OF c(2) ends] by blast
    have "learns ?N (carried ?N block) P (finish_received E acc')"
      by (rule learns_trans [OF learns_trans [OF q a(2) subset_refl] learns_view]) (auto simp: carried)
    then show ?thesis
      using a(1) c(1) by (simp add: parse_elems_def)
  qed
  have list: "learns ?N (mapped ?N block) P (snd ?acc)"
    using learns_list [of ?N block "([], P)"] by simp
  show ?thesis
  proof (cases "block_type ?N block = tlv_RepairData")
    case False
    then show ?thesis
      using True tree rest [OF list] by (simp add: onRecvExtraData_def Let_def)
  next
    case repair: True
    then obtain requests where r: "decodeRepairRequests ?N block = Inr requests"
      using c(3) by (auto simp: svs_simps)
    then obtain P1 where P1: "take_repairs E requests (snd ?acc) = Some P1"
      using take_repairs_total [of requests E "snd ?acc"] assms(2) repair
      by (auto simp: ranges_end_def requests_end_def)
    have "learns ?N (mapped ?N block) P (snd (fst ?acc, P1))"
      using learns_trans [OF list learns_view [OF base_view_take_repairs [OF P1]]] by simp
    from rest [OF this] show ?thesis
      using True tree repair r P1 by (simp add: onRecvExtraData_def Let_def)
  qed
qed (simp add: onRecvExtraData_def Let_def carried_def learns_def)

lemma learns_blocks:
  assumes "\<forall>block \<in> set blocks. is_known_extension (pe_ndn E) block \<longrightarrow> validate_tree (pe_ndn E) block = Inr ()"
    and "\<forall>block \<in> set blocks. ranges_end (pe_ndn E) block"
  shows "\<exists>P'. recv_blocks E blocks P = Some (P', None) \<and> learns (pe_ndn E) (\<Union> (carried (pe_ndn E) ` set blocks)) P P'"
  using assms
proof (induction blocks arbitrary: P)
  case (Cons block blocks)
  obtain P1 where one: "onRecvExtraData E block P = Some (P1, None)" "learns (pe_ndn E) (carried (pe_ndn E) block) P P1"
    using learns_block [of E block P] Cons.prems by auto
  obtain P' where rest: "recv_blocks E blocks P1 = Some (P', None)"
    "learns (pe_ndn E) (\<Union> (carried (pe_ndn E) ` set blocks)) P1 P'"
    using Cons.IH [of P1] Cons.prems by auto
  have "learns (pe_ndn E) (\<Union> (carried (pe_ndn E) ` set (block # blocks))) P P'"
    by (rule learns_trans [OF one(2) rest(2)]) simp
  then show ?case
    using one(1) rest(1) by simp
qed (simp add: learns_def)

section \<open>The update\<close>

lemma processMapping_known:
  assumes "knows (pe_ndn E) P (nid, b, s)" and "so_maxPubAge (ps_opts P) \<le> 0"
  shows "\<exists>r. processMapping E (nid, b, s) P = Inr r"
proof (cases "hasPiggyDeliveredPublication (nid, b, s) (ps_extra P)")
  case False
  then show ?thesis
    using assms by (auto simp: processMapping_def knows_def split_beta Let_def)
qed (auto simp: processMapping_def intro: exI [of _ False])

lemma knows_view: "base_view P' = base_view P \<Longrightarrow> knows N P' = knows N P"
  by (simp add: base_view_def knows_def fun_eq_iff)

text \<open>A stream of which every mapping is known costs no query.\<close>

lemma queue_mapped_known:
  assumes high: "md_high stream \<noteq> - 1" and age: "so_maxPubAge (ps_opts P) \<le> 0"
    and known: "\<forall>s \<in> {md_low stream..md_high stream}.
      knows (pe_ndn E) P (md_nodeId stream, md_bootstrapTime stream, s)"
  shows "\<exists>P'. queue_mapped E stream P = Some P' \<and> base_view P' = base_view P"
proof (cases "fb_prefixSubscriptions (ps_book P) = [] \<and> fb_regexSubscriptions (ps_book P) = []")
  case False
  obtain handled low where s: "scan_list (process_known E stream) (seq_span (md_low stream) (md_high stream))
        (md_low stream, P) = (low, fold (processed E stream) handled P)"
      "handled @ seq_span low (md_high stream) = seq_span (md_low stream) (md_high stream)"
      "seq_span low (md_high stream) \<noteq> [] \<longrightarrow>
        (\<exists>e. processMapping E (md_nodeId stream, md_bootstrapTime stream, hd (seq_span low (md_high stream)))
          (fold (processed E stream) handled P) = Inl e)"
    using scan_known [OF high, of E stream "md_low stream" P] by blast
  let ?P = "fold (processed E stream) handled P"
  have view: "base_view ?P = base_view P"
    by (rule base_view_fold) simp
  have "seq_span low (md_high stream) = []"
  proof (rule ccontr)
    let ?s = "hd (seq_span low (md_high stream))"
    assume ne: "seq_span low (md_high stream) \<noteq> []"
    then have "?s \<in> set (seq_span (md_low stream) (md_high stream))"
      unfolding s(2) [symmetric] by simp
    then have "knows (pe_ndn E) ?P (md_nodeId stream, md_bootstrapTime stream, ?s)"
      using known by (simp add: knows_view [OF view] set_seq_span)
    moreover have "so_maxPubAge (ps_opts ?P) \<le> 0"
      using age view by (simp add: base_view_def)
    ultimately show False
      using processMapping_known s(3) ne by fastforce
  qed
  then have "\<not> low \<le> md_high stream"
    using set_seq_span [of low "md_high stream"] by fastforce
  then have "fetch_ranges f low (md_high stream) ?P = Some ?P" for f
    by (subst fetch_ranges.simps) simp
  then show ?thesis
    using False view by (simp add: queue_mapped_def seq_scan_returns [OF high] s(1))
qed (simp add: queue_mapped_def)

lemma queue_producers_view:
  assumes "md_high stream \<noteq> - 1"
  shows "\<exists>P'. queue_producers E stream subs P = Some P' \<and> base_view P' = base_view P"
proof (induction subs arbitrary: P)
  case (Cons sub subs)
  let ?f = "\<lambda>i. with_book (addPublicationFetch (ps_opts P) (pe_now E) (md_nodeId stream, md_bootstrapTime stream, i) sub)"
  let ?P = "fold ?f (seq_span (md_low stream) (md_high stream)) P"
  have "base_view ?P = base_view P"
    by (rule base_view_fold) simp
  then show ?case
    using Cons.IH [of P] Cons.IH [of ?P] Cons.IH [of "prefetch_next E stream ?P"]
    by (simp add: seq_loop_returns [OF assms])
qed simp

lemma update_streams_known:
  assumes "\<forall>stream \<in> set info. md_high stream \<noteq> - 1 \<and>
      (\<forall>s \<in> {md_low stream..md_high stream}. knows (pe_ndn E) P (md_nodeId stream, md_bootstrapTime stream, s))"
    and "so_maxPubAge (ps_opts P) \<le> 0"
  shows "\<exists>P'. update_streams E info P = Some P' \<and> base_view P' = base_view P"
  using assms
proof (induction info arbitrary: P)
  case (Cons stream info)
  obtain P1 where P1: "queue_producers E stream (fb_producerSubscriptions (ps_book P)) P = Some P1"
    "base_view P1 = base_view P"
    using queue_producers_view [of stream E "fb_producerSubscriptions (ps_book P)" P] Cons.prems(1) by auto
  have opts: "ps_opts P1 = ps_opts P"
    using P1(2) by (simp add: base_view_def)
  obtain P2 where P2: "queue_mapped E stream P1 = Some P2" "base_view P2 = base_view P1"
    using queue_mapped_known [of stream P1 E] Cons.prems by (auto simp: opts knows_view [OF P1(2)])
  have view: "base_view P2 = base_view P"
    using P1(2) P2(2) by simp
  have opts2: "ps_opts P2 = ps_opts P"
    using view by (simp add: base_view_def)
  obtain P' where "update_streams E info P2 = Some P'" "base_view P' = base_view P2"
    using Cons.IH [of P2] Cons.prems by (auto simp: opts2 knows_view [OF view])
  then show ?case
    using P1(1) P2(1) view by simp
qed simp

section \<open>Reception by a node\<close>

text \<open>The events of a received Interest: the extra blocks first, then the missing data.\<close>

definition reception :: "'b list \<Rightarrow> 'n version_vector \<Rightarrow> 'n missing_data_info list \<Rightarrow> ('n, 'b, 'd, 'i) core_event list" where
  "reception blocks v info =
     (if blocks = [] then [] else [RecvBlocks blocks v]) @ (if info = [] then [] else [core_event.OnUpdate info])"

lemma recv_extensions_collection:
  "m_recvExtra c = BlockCollection \<Longrightarrow>
   m_out (recv_extensions E es v c) = m_out c @ (if es = [] then [] else [RecvBlocks es v])"
  by (simp add: recv_extensions_def emit_def)

text \<open>What a listener of the group tells its owner about an Interest.\<close>

lemma receive_log:
  assumes c: "listening pre c" and extra: "m_recvExtra c = BlockCollection"
    and structural: "decode (ce_ndn E) (ce_compression E) (ce_clk E) i pre V3 False = Inr s" "env_stateVectorData s \<noteq> None"
    and semantic: "decode (ce_ndn E) (ce_compression E) (ce_clk E) i pre V3 True = Inr e"
    and missing: "missing = map (missing_of (m_vv c)) (filter (is_newer (m_vv c)) (vv_all (env_stateVector e)))"
  shows "m_out (fst (onSyncInterest E i face c)) = m_out c @
    reception (env_extensions e) (env_stateVector e) (map (\<lambda>d. d\<lparr>md_incomingFace := value_or face 0\<rparr>) missing)"
proof -
  obtain d where d: "env_stateVectorData s = Some d"
    using structural(2) by blast
  let ?c = "set_status StructuralUnverified c"
  let ?t = "clk_point (ce_clk E)" and ?r = "env_stateVector e"
  have s: "m_vv ?c = m_vv c" "m_out ?c = m_out c" "m_recvExtra ?c = BlockCollection" "listening pre ?c"
    using listening_same [OF same_setup_simple(4) c] extra by (simp_all add: set_status_def)
  have eq: "onSyncInterest E i face c = onSyncInterestValidatedSerial E i face True ?c"
    using c structural(1) d s(4) by (simp add: onSyncInterest_def onSyncInterestValidated_def listening_def)
  have dec: "decode (ce_ndn E) (ce_compression E) (ce_clk E) i (m_syncPrefix ?c)
      (ro_version (m_protocolOptions ?c)) True = Inr e"
    using s(4) semantic by (simp add: listening_def)
  let ?c2 = "report_missing (value_or face 0) (mc_missingData (merge_report ?t (m_vv ?c) ?r))
      (recv_extensions E (env_extensions e) ?r (after_merge ?t ?r ?c))"
  obtain g where g: "onSyncInterestValidatedSerial E i face True ?c =
      conclude_sync E (mc_myVectorNew (merge_report ?t (m_vv ?c) ?r)) ?r id g ?c2"
    using serial_eq [OF dec] by blast
  have log: "same_log ?c2 (fst (onSyncInterestValidatedSerial E i face True ?c))"
    unfolding g by (rule same_log_conclude)
  have "m_recvExtra (after_merge ?t ?r ?c) = BlockCollection" "m_out (after_merge ?t ?r ?c) = m_out c"
    using s by (simp_all add: after_merge_def)
  then show ?thesis
    using log recv_extensions_collection [of "after_merge ?t ?r ?c" E "env_extensions e" ?r]
    by (simp add: eq same_log_def report_missing_log merge_report_def missing s(1) reception_def)
qed

text \<open>A Sync Interest of a member, as another member of the group sees it.\<close>

lemma sent_decodes:
  assumes law: "lawful N" and "on_network N S" and "on_network N C" and "listening pre sc" and "vv_ok (m_vv sc)"
    and "extra_blocks S sc (m_vv sc) = Inr blocks" and "sync_interest S sc = Inr i" and "sendable N i"
    and "epochs_fine (ce_clk C) (m_vv sc)"
  shows "\<exists>s e. decode (ce_ndn C) (ce_compression C) (ce_clk C) i pre V3 False = Inr s \<and>
    env_stateVectorData s \<noteq> None \<and>
    decode (ce_ndn C) (ce_compression C) (ce_clk C) i pre V3 True = Inr e \<and> env_extensions e = blocks \<and>
    (\<forall>n b. vv_get n b (env_stateVector e) = vv_get n b (m_vv sc))"
proof -
  have c: "ro_version (m_protocolOptions sc) = V3" "m_syncPrefix sc = pre"
    using assms(4) by (simp_all add: listening_def)
  have enc: "encode N (ce_compression S) pre (m_vv sc) blocks (m_protocolOptions sc) (Some (data_signer S sc)) = Inr i"
    using assms(2,6,7) by (simp add: sync_interest_def encode_interest_def on_network_def c res_bind_eq_Inr)
  have signs: "signer_laws N (data_signer S sc)"
    using assms(2) by (auto simp: on_network_def data_signer_def [abs_def] signer_laws_def)
  have laws: "tlv_laws N" "name_laws N" "packet_laws N"
    using law by (simp_all add: lawful_def)
  note decodes = encoded_decodes [OF laws signs assms(5) assms(9) [unfolded epochs_fine_def] c(1) enc assms(8)]
  obtain s where s: "decode N (ce_compression C) (ce_clk C) i pre V3 False = Inr s" "env_stateVectorData s \<noteq> None"
    using decodes [of "ce_compression C" False] by blast
  obtain e where e: "decode N (ce_compression C) (ce_clk C) i pre V3 True = Inr e"
    "\<forall>n b. vv_get n b (env_stateVector e) = vv_get n b (m_vv sc)"
    using decodes [of "ce_compression C" True] by blast
  have "env_extensions e = blocks"
    by (rule decode_of_encoded(1) [OF laws signs assms(5) c(1) enc assms(8) e(1)])
  then show ?thesis
    using s e assms(3) by (auto simp: on_network_def)
qed

lemma blocks_taken:
  assumes valid: "validate_blocks (pe_ndn E) blocks = Inr ()" and ends: "\<forall>block \<in> set blocks. ranges_end (pe_ndn E) block"
  shows "\<exists>P1. learns (pe_ndn E) (\<Union> (carried (pe_ndn E) ` set blocks)) P P1 \<and>
    (\<forall>info. run_all (callback E) (reception blocks v info) P =
      (if info = [] then Some P1 else updateCallbackInternal E info P1))"
proof -
  have "\<forall>block \<in> set blocks. is_known_extension (pe_ndn E) block \<longrightarrow> validate_tree (pe_ndn E) block = Inr ()"
    using validate_blocks_tree [OF valid] by blast
  from learns_blocks [OF this ends, of P] obtain P1 where P1: "recv_blocks E blocks P = Some (P1, None)"
    "learns (pe_ndn E) (\<Union> (carried (pe_ndn E) ` set blocks)) P P1"
    by blast
  have "run_all (callback E) (reception blocks v info) P =
      (if info = [] then Some P1 else updateCallbackInternal E info P1)" for info
    using P1(1) valid
    by (cases "blocks = []")
      (auto simp: reception_def callback_def onRecvExtraBlocks_def run_all_Nil simp del: run_all.simps(1))
  with P1(2) show ?thesis
    by blast
qed

text \<open>Callbacks that get extra blocks, then an update all of whose mappings are known by then.\<close>

lemma callbacks_run:
  assumes valid: "validate_blocks (pe_ndn E) blocks = Inr ()" and ends: "\<forall>block \<in> set blocks. ranges_end (pe_ndn E) block"
    and age: "so_maxPubAge (ps_opts P) \<le> 0"
    and info: "\<forall>stream \<in> set info. md_high stream \<noteq> - 1 \<and>
      (\<forall>s \<in> {md_low stream..md_high stream}.
        (md_nodeId stream, md_bootstrapTime stream, s) \<in> \<Union> (carried (pe_ndn E) ` set blocks))"
  shows "\<exists>P'. run_all (callback E) (reception blocks v info) P = Some P' \<and>
    learns (pe_ndn E) (\<Union> (carried (pe_ndn E) ` set blocks)) P P'"
proof -
  obtain P1 where P1: "learns (pe_ndn E) (\<Union> (carried (pe_ndn E) ` set blocks)) P P1"
    "\<forall>info. run_all (callback E) (reception blocks v info) P =
      (if info = [] then Some P1 else updateCallbackInternal E info P1)"
    using blocks_taken [OF valid ends, of P v] by blast
  have known: "\<forall>stream \<in> set info. md_high stream \<noteq> - 1 \<and>
      (\<forall>s \<in> {md_low stream..md_high stream}. knows (pe_ndn E) P1 (md_nodeId stream, md_bootstrapTime stream, s))"
    using info P1(1) unfolding learns_def by blast
  have "so_maxPubAge (ps_opts P1) \<le> 0"
    using age P1(1) by (simp add: learns_def)
  from update_streams_known [OF known this] obtain P2 where P2: "update_streams E info P1 = Some P2"
    "base_view P2 = base_view P1"
    by blast
  have "learns (pe_ndn E) (\<Union> (carried (pe_ndn E) ` set blocks)) P (emit_ps [OnUpdate info] (fetchAll E P2))"
    by (rule learns_trans [OF P1(1) learns_view]) (simp_all add: P2(2))
  then show ?thesis
    using P1 P2(1) by (simp add: updateCallbackInternal_def)
qed

lemma missing_numbers:
  assumes "vv_ok r" and "stream \<in> set (map (missing_of l) (filter (is_newer l) (vv_all r)))"
  shows "md_high stream = vv_get (md_nodeId stream) (md_bootstrapTime stream) r"
    and "s \<in> {md_low stream..md_high stream} \<Longrightarrow>
      vv_get (md_nodeId stream) (md_bootstrapTime stream) l < s \<and>
      s \<le> vv_get (md_nodeId stream) (md_bootstrapTime stream) r"
proof -
  obtain n b h where e: "(n, b, h) \<in> set (vv_all r)" "vv_get n b l < h" "stream = missing_of l (n, b, h)"
    using assms(2) by (auto simp: is_newer_def)
  then have h: "h = vv_get n b r"
    using vv_all_mem [OF assms(1), of n b h] by simp
  show "md_high stream = vv_get (md_nodeId stream) (md_bootstrapTime stream) r"
    using e(3) h by (simp add: missing_of_def)
  show "vv_get (md_nodeId stream) (md_bootstrapTime stream) l < s \<and>
      s \<le> vv_get (md_nodeId stream) (md_bootstrapTime stream) r" if "s \<in> {md_low stream..md_high stream}"
    using that e(2,3) h by (simp add: missing_of_def u64_succ_le_iff)
qed

section \<open>Properties\<close>

text \<open>
  C27: A publication whose mapping came along costs no mapping query. A member sends its Sync Interest
  with extra blocks; another one receives it and hands blocks and missing data to the object that
  owns its core. If the blocks are valid and carry the mappings of everything the receiver misses,
  then the handler and its callbacks return, every register is the larger of the two, all those
  mappings are known, and the mapping fetcher has not been used.
\<close>

theorem piggybacked_mappings_save_queries:
  fixes P :: "('n :: linorder, 'b, 'd, 'i, 's, 'f, 'r) svspubsub"
  assumes "tlv_laws N" and "name_laws N" and "packet_laws N"
    and "on_network N S" and "on_network N (be_core (pe_base E))"
    and "listening pre sc" and "vv_ok (m_vv sc)" and "epochs_fine (ce_clk (be_core (pe_base E))) (m_vv sc)"
    and "extra_blocks S sc (m_vv sc) = Inr blocks" and "sync_interest S sc = Inr i" and "sendable N i"
    and "listening pre (ps_core P)" and "m_recvExtra (ps_core P) = BlockCollection" and "so_maxPubAge (ps_opts P) \<le> 0"
    and "validate_blocks N blocks = Inr ()" and "\<forall>block \<in> set blocks. ranges_end N block"
    and "\<And>n b s. vv_get n b (m_vv (ps_core P)) < s \<Longrightarrow> s \<le> vv_get n b (m_vv sc) \<Longrightarrow>
      (n, b, s) \<in> \<Union> (carried N ` set blocks)"
    and "\<And>n b. vv_get n b (m_vv sc) \<noteq> - 1"
  shows "\<exists>P' e. node_receive E i face P = Some (P', e) \<and>
    (\<forall>n b. vv_get n b (m_vv (ps_core P')) = max (vv_get n b (m_vv (ps_core P))) (vv_get n b (m_vv sc))) \<and>
    (\<forall>key \<in> \<Union> (carried N ` set blocks). knows N P' key) \<and>
    ps_mappingFetcher P' = ps_mappingFetcher P"
proof -
  let ?C = "be_core (pe_base E)"
  have N: "pe_ndn E = N"
    using assms(5) by (simp add: on_network_def)
  have law: "lawful N"
    using assms(1-3) by (simp add: lawful_def)
  obtain s e where s: "decode (ce_ndn ?C) (ce_compression ?C) (ce_clk ?C) i pre V3 False = Inr s" "env_stateVectorData s \<noteq> None"
    and e: "decode (ce_ndn ?C) (ce_compression ?C) (ce_clk ?C) i pre V3 True = Inr e" "env_extensions e = blocks"
      "\<forall>n b. vv_get n b (env_stateVector e) = vv_get n b (m_vv sc)"
    using sent_decodes [OF law assms(4-7,9-11,8)] by blast
  note ok = decode_vector_ok [OF e(1)]
  let ?missing = "map (missing_of (m_vv (ps_core P))) (filter (is_newer (m_vv (ps_core P))) (vv_all (env_stateVector e)))"
  let ?info = "map (\<lambda>d. d\<lparr>md_incomingFace := value_or face 0\<rparr>) ?missing"
  let ?events = "reception blocks (env_stateVector e) ?info"
  obtain c x where c: "onSyncInterest ?C i face (ps_core P) = (c, x)"
    by (cases "onSyncInterest ?C i face (ps_core P)")
  have log: "m_out c = m_out (ps_core P) @ ?events"
    using receive_log [OF assms(12,13) s e(1) refl, of face] by (simp add: c e(2))
  let ?P = "P\<lparr>ps_svsync := (ps_svsync P)\<lparr>sb_core := c\<rparr>\<rparr>"
  have info: "\<forall>stream \<in> set ?info. md_high stream \<noteq> - 1 \<and> (\<forall>s \<in> {md_low stream..md_high stream}.
      (md_nodeId stream, md_bootstrapTime stream, s) \<in> \<Union> (carried (pe_ndn E) ` set blocks))"
  proof
    fix stream
    assume "stream \<in> set ?info"
    then obtain d where d: "d \<in> set ?missing" "stream = d\<lparr>md_incomingFace := value_or face 0\<rparr>"
      by auto
    note numbers = missing_numbers [OF ok d(1)]
    have same: "md_low stream = md_low d" "md_high stream = md_high d" "md_nodeId stream = md_nodeId d"
      "md_bootstrapTime stream = md_bootstrapTime d"
      by (simp_all add: d(2))
    show "md_high stream \<noteq> - 1 \<and> (\<forall>s \<in> {md_low stream..md_high stream}.
      (md_nodeId stream, md_bootstrapTime stream, s) \<in> \<Union> (carried (pe_ndn E) ` set blocks))"
      unfolding same N using numbers e(3) assms(17,18) by simp
  qed
  obtain P' where P': "run_all (callback E) ?events ?P = Some P'" "learns N (\<Union> (carried N ` set blocks)) ?P P'"
    using callbacks_run [of E blocks ?P ?info "env_stateVector e"] assms(14-16) info by (auto simp: N)
  have "node_receive E i face P = Some (P', x)"
    using P'(1) by (simp add: node_receive_def node_core_def c log)
  moreover have "says ?C pre i (m_vv sc)"
    using s e by (auto simp: says_def)
  then have "vv_get n b (m_vv c) = max (vv_get n b (m_vv (ps_core P))) (vv_get n b (m_vv sc))" for n b
    using hear_one(2) [OF assms(12), of ?C i "m_vv sc" n b face] by (simp add: c)
  moreover have "ps_core P' = c"
    using node_core_core calculation by (fastforce simp: node_receive_def c)
  moreover have "ps_mappingFetcher P' = ps_mappingFetcher P"
    using P'(2) by (simp add: learns_def)
  moreover have "\<forall>key \<in> \<Union> (carried N ` set blocks). knows N P' key"
    using P'(2) unfolding learns_def by blast
  ultimately show ?thesis
    by (intro exI [of _ P'] exI [of _ x] conjI) (simp_all del: ball_simps UN_iff)
qed

section \<open>Witness\<close>

text \<open>
  A sender that knows three publications of a node and attaches the mapping of the third; a
  receiver that knows two of them.
\<close>

definition sample_mapping_block :: i_block where
  "sample_mapping_block =
     (205, [7, 3, 8, 1, 65, 206, 13, 210, 6, 212, 1, 100, 214, 1, 3, 7, 3, 8, 1, 78])"

lemma i_elems_of: "concat (map i_wire bs) = v \<Longrightarrow> length v < 2 ^ 64 \<Longrightarrow> i_elems v = Some bs"
  using i_elems by blast

lemma sample_elems:
  "i_elems [7, 3, 8, 1, 65, 206, 13, 210, 6, 212, 1, 100, 214, 1, 3, 7, 3, 8, 1, 78] =
     Some [(7, [8, 1, 65]), (206, [210, 6, 212, 1, 100, 214, 1, 3, 7, 3, 8, 1, 78])]"
  "i_elems [8, 1, 65] = Some [(8, [65])]"
  "i_elems [210, 6, 212, 1, 100, 214, 1, 3, 7, 3, 8, 1, 78] =
     Some [(210, [212, 1, 100, 214, 1, 3]), (7, [8, 1, 78])]"
  "i_elems [212, 1, 100, 214, 1, 3] = Some [(212, [100]), (214, [3])]"
  "i_elems [8, 1, 78] = Some [(8, [78])]"
  by (rule i_elems_of; simp add: i_wire_def i_var_num_def be_bytes_def upt_conv_Cons)+

lemma sample_mapping_type: "block_type i_ndn sample_mapping_block = 205"
  by (simp add: sample_mapping_block_def i_blocks)

lemma sample_mapping_fst: "fst sample_mapping_block = 205"
  by (simp add: sample_mapping_block_def)

lemma sample_mapping_elems:
  "block_elems i_ndn sample_mapping_block =
     Some [(7, [8, 1, 65]), (206, [210, 6, 212, 1, 100, 214, 1, 3, 7, 3, 8, 1, 78])]"
  by (simp add: sample_mapping_block_def i_blocks sample_elems)

lemma sample_mapping_decoded:
  "mapping_list_decode i_ndn V3 sample_mapping_block =
     Inr \<lparr>ml_nodeId = [(8, [65])], ml_pairs = [\<lparr>me_bootstrapTime = 100, me_seqNo = 3,
       me_mapping = ([(8, [78])], [])\<rparr>], ml_version = V3\<rparr>"
  unfolding mapping_list_decode_def parse_elems_def sample_mapping_elems
  by (simp add: mapping_list_new_def decode_mapping_elem_def decode_mapping_seq_def read_name_def read_nni_def
      elem_at_def parse_elems_def sample_elems i_blocks i_names i_name_of_def i_read_nni_def be_value_def svs_simps)

lemma sample_mapping_valid: "validate_blocks i_ndn [sample_mapping_block] = Inr ()"
proof -
  have "validate_tree i_ndn sample_mapping_block = Inr ()"
    unfolding validate_tree_def parse_elems_def sample_mapping_elems sample_mapping_type
    by (simp add: sample_mapping_decoded discard_def validate_child_def i_blocks svs_simps)
  then show ?thesis
    by (simp add: validate_blocks_def MAX_EXTENSION_BLOCKS_def validate_block_def is_known_extension_def
        sample_mapping_type discard_def svs_simps)
qed

lemma sample_mapping_ranges: "ranges_end i_ndn sample_mapping_block"
  unfolding ranges_end_def sample_mapping_elems sample_mapping_type by (simp add: i_blocks svs_simps)

lemma sample_mapping_carried: "carried i_ndn sample_mapping_block = {([(8, [65])], 100, 3)}"
  unfolding carried_def is_known_extension_def mapped_def sample_mapping_decoded sample_mapping_elems sample_mapping_type
  by (simp add: mapped_child_def i_blocks svs_simps)

definition sample_sender :: "(i_name, i_block, i_data, i_interest) sync_core" where
  "sample_sender = sample_core\<lparr>m_vv := sample_vector, m_initialized := True, m_getExtra := BlockCollection\<rparr>"

definition sample_sender_env :: "(i_name, i_comp, i_block, i_data, i_interest) core_env" where
  "sample_sender_env = sample_env\<lparr>ce_getExtraBlocks := \<lambda>_. Inr [sample_mapping_block]\<rparr>"

lemma sample_content_data:
  "i_data_new \<lparr>da_name = makeSyncName i_ndn sample_group V3,
      da_content = PayloadBlock (block_nested i_ndn tlv_Content
        [(201, [202, 13, 7, 3, 8, 1, 65, 210, 6, 212, 1, 100, 214, 1, 3]), sample_mapping_block]),
      da_freshness = 0, da_content_type = None, da_final_block = None\<rparr> =
    ([(8, [71]), (54, [3])], (21, [201, 15, 202, 13, 7, 3, 8, 1, 65, 210, 6, 212, 1, 100, 214, 1, 3,
      205, 20, 7, 3, 8, 1, 65, 206, 13, 210, 6, 212, 1, 100, 214, 1, 3, 7, 3, 8, 1, 78]), False, (0, 0, None))"
  by (simp add: makeSyncName_def version_number_def sample_group_def sample_mapping_block_def i_eval svs_simps)

lemma sample_vector_encoded:
  "vv_encode i_ndn sample_vector = Inr (201, [202, 13, 7, 3, 8, 1, 65, 210, 6, 212, 1, 100, 214, 1, 3])"
  by (simp add: vv_encode_def sample_vector_bytes i_eval)

lemma sample_content_body:
  "encode_body_V3 i_ndn (makeSyncName i_ndn sample_group V3) sample_vector [sample_mapping_block] (Some i_sign) =
     Inr ([6, 60, 7, 6, 8, 1, 71, 54, 1, 3, 20, 6, 24, 1, 0, 25, 1, 0, 21, 39,
       201, 15, 202, 13, 7, 3, 8, 1, 65, 210, 6, 212, 1, 100, 214, 1, 3,
       205, 20, 7, 3, 8, 1, 65, 206, 13, 210, 6, 212, 1, 100, 214, 1, 3, 7, 3, 8, 1, 78, 23, 1, 1], 62)"
  unfolding encode_body_V3_def sample_vector_encoded res_bind_Inr Let_def i_packets sample_content_data option.case
    i_sign_def fst_conv snd_conv
  by (simp add: i_data_wire_def empty_data_parts prepend_block_def i_blocks i_wire_def i_var_num_def be_bytes_def
      upt_conv_Cons svs_simps)

definition sample_mapping_interest :: i_interest where
  "sample_mapping_interest =
     (sample_group @ [i_typed 54 3, (2, [])],
      Some (36, [6, 60, 7, 6, 8, 1, 71, 54, 1, 3, 20, 6, 24, 1, 0, 25, 1, 0, 21, 39,
       201, 15, 202, 13, 7, 3, 8, 1, 65, 210, 6, 212, 1, 100, 214, 1, 3,
       205, 20, 7, 3, 8, 1, 65, 206, 13, 210, 6, 212, 1, 100, 214, 1, 3, 7, 3, 8, 1, 78, 23, 1, 1]))"

lemma sample_mapping_parameters:
  "encode_parameters i_ndn sample_group sample_vector [sample_mapping_block] (sample_options V3) (Some i_sign) =
     Inr (36 # 62 # [6, 60, 7, 6, 8, 1, 71, 54, 1, 3, 20, 6, 24, 1, 0, 25, 1, 0, 21, 39,
       201, 15, 202, 13, 7, 3, 8, 1, 65, 210, 6, 212, 1, 100, 214, 1, 3,
       205, 20, 7, 3, 8, 1, 65, 206, 13, 210, 6, 212, 1, 100, 214, 1, 3, 7, 3, 8, 1, 78, 23, 1, 1])"
  by (simp add: encode_parameters_def sample_options_def sample_content_body MAX_EXTENSION_BLOCKS_def
      is_known_type_def is_core_type_def sample_mapping_fst Let_def
      prepend_header_def prepend_var_number_def i_eval svs_simps)

lemma sample_mapping_sent: "sync_interest sample_sender_env sample_sender = Inr sample_mapping_interest"
proof -
  have "encode i_ndn False sample_group sample_vector [sample_mapping_block] (sample_options V3) (Some i_sign) =
      Inr sample_mapping_interest"
    unfolding encode_def sample_mapping_parameters
    by (simp add: sample_mapping_interest_def i_eval i_interest_new_def svs_simps makeSyncName_def
        sample_options_def version_number_def)
  moreover have "data_signer sample_sender_env sample_sender = i_sign"
    by (rule ext) (simp add: data_signer_def sample_env_def sample_sender_env_def)
  ultimately show ?thesis
    by (simp add: sync_interest_def extra_blocks_def encode_interest_def sample_core_def sample_env_def
        sample_sender_def sample_sender_env_def sample_options_def)
qed

definition sample_receiver :: "(i_name, i_block, i_data, i_interest, (i_name \<times> i_data) list, nat, nat) svspubsub" where
  "sample_receiver = sample_pubsub\<lparr>ps_svsync := (ps_svsync sample_pubsub)\<lparr>sb_core :=
     sample_core\<lparr>m_vv := vv_put 0 [(8, [65])] 100 2 vv_empty, m_recvExtra := BlockCollection\<rparr>\<rparr>\<rparr>"

theorem piggybacked_mappings_save_queries_witness:
  "\<exists>P' e. node_receive sample_pubsub_env sample_mapping_interest (Some 3) sample_receiver = Some (P', e) \<and>
    (\<forall>n b. vv_get n b (m_vv (ps_core P')) =
      max (vv_get n b (m_vv (ps_core sample_receiver))) (vv_get n b (m_vv sample_sender))) \<and>
    (\<forall>key \<in> \<Union> (carried i_ndn ` set [sample_mapping_block]). knows i_ndn P' key) \<and>
    ps_mappingFetcher P' = ps_mappingFetcher sample_receiver"
proof -
  have env: "be_core (pe_base sample_pubsub_env) = sample_env"
    by (simp add: sample_pubsub_env_def sample_base_env_def)
  have core: "ps_core sample_receiver =
      sample_core\<lparr>m_vv := vv_put 0 [(8, [65])] 100 2 vv_empty, m_recvExtra := BlockCollection\<rparr>"
    by (simp add: sample_receiver_def ps_core_def)
  have sender: "m_vv sample_sender = sample_vector"
    by (simp add: sample_sender_def)
  have none: "vv_get n b vv_empty = 0" for n b
    by (simp add: vv_get_def vv_empty_def)
  have register: "vv_get n b sample_vector = (if n = [(8, [65])] \<and> b = 100 then 3 else 0)" for n b
    by (simp add: sample_vector_def vv_get_put none)
  have mine: "vv_get n b (m_vv (ps_core sample_receiver)) = (if n = [(8, [65])] \<and> b = 100 then 2 else 0)" for n b
    by (simp add: core vv_get_put none)
  have last: "(2 :: u64) < s \<Longrightarrow> s \<le> 3 \<Longrightarrow> s = 3" for s
    by unat_arith
  show ?thesis
  proof (rule piggybacked_mappings_save_queries [OF i_tlv_laws i_name_laws i_packet_laws])
    show "on_network i_ndn sample_sender_env"
      using sample_on_network by (simp add: on_network_def sample_sender_env_def)
    show "on_network i_ndn (be_core (pe_base sample_pubsub_env))"
      by (simp add: env sample_on_network)
    show "listening sample_group sample_sender" "listening sample_group (ps_core sample_receiver)"
      by (simp_all add: listening_def sample_sender_def core sample_core_def sample_options_def)
    show "vv_ok (m_vv sample_sender)"
      by (simp add: sender sample_vector_ok)
    show "epochs_fine (ce_clk (be_core (pe_base sample_pubsub_env))) (m_vv sample_sender)"
      using sample_vector_epochs by (simp add: env sender epochs_fine_def sample_env_def)
    show "extra_blocks sample_sender_env sample_sender (m_vv sample_sender) = Inr [sample_mapping_block]"
      by (simp add: extra_blocks_def sample_sender_def sample_sender_env_def)
    show "sync_interest sample_sender_env sample_sender = Inr sample_mapping_interest"
      by (rule sample_mapping_sent)
    show "sendable i_ndn sample_mapping_interest"
      by (simp add: sendable_def sample_mapping_interest_def fits_def i_eval)
    show "m_recvExtra (ps_core sample_receiver) = BlockCollection"
      by (simp add: core)
    show "so_maxPubAge (ps_opts sample_receiver) \<le> 0"
      by (simp add: sample_receiver_def sample_pubsub_def default_pubsub_options_def)
    show "validate_blocks i_ndn [sample_mapping_block] = Inr ()"
      by (rule sample_mapping_valid)
    show "\<forall>block \<in> set [sample_mapping_block]. ranges_end i_ndn block"
      by (simp add: sample_mapping_ranges)
    show "(n, b, s) \<in> \<Union> (carried i_ndn ` set [sample_mapping_block])"
      if "vv_get n b (m_vv (ps_core sample_receiver)) < s" "s \<le> vv_get n b (m_vv sample_sender)" for n b s
      using that last by (simp add: mine sender register sample_mapping_carried split: if_splits)
    show "vv_get n b (m_vv sample_sender) \<noteq> - 1" for n b
      by (simp add: sender register)
  qed
qed

end
