(* ===== verification/Security_Options.thy ===== *)
theory Security_Options
  imports Core_Properties
begin

text \<open>
  The signers and validators of \<^verbatim>\<open>ndn-svs/security-options.hpp\<close> and \<^verbatim>\<open>.cpp\<close>, and what a core makes of them. The
  key chain, the Interest signer and the signing information are those of ndn-cxx, parameters here;
  the library sets one field of the latter and reads its type of signer.
\<close>

section \<open>Signers\<close>

record 'g signing_library =
  si_default :: 'g
  si_signerType :: "'g \<Rightarrow> signer_type"
  si_setFormatV03 :: "'g \<Rightarrow> 'g"

record ('d, 'i, 'g) key_chain =
  kc_sign :: "'d \<Rightarrow> 'g \<Rightarrow> 'd result"
  kc_makeSignedInterest :: "'i \<Rightarrow> 'g \<Rightarrow> 'i result"

text \<open>The virtual functions of a signer see its public signing information.\<close>

record ('d, 'i, 'g) base_signer =
  signingInfo :: 'g
  sg_signInterest :: "'g \<Rightarrow> 'i \<Rightarrow> 'i result"
  sg_signData :: "'g \<Rightarrow> 'd \<Rightarrow> 'd result"

definition BaseSigner :: "'g signing_library \<Rightarrow> ('d, 'i, 'g) base_signer" where
  "BaseSigner L = \<lparr>signingInfo = si_default L, sg_signInterest = \<lambda>_. Inr, sg_signData = \<lambda>_. Inr\<rparr>"

definition KeyChainSigner :: "'g signing_library \<Rightarrow> ('d, 'i, 'g) key_chain \<Rightarrow> ('d, 'i, 'g) base_signer" where
  "KeyChainSigner L keyChain =
     (BaseSigner L)\<lparr>sg_signInterest := \<lambda>info i. kc_makeSignedInterest keyChain i info,
       sg_signData := \<lambda>info d. kc_sign keyChain d info\<rparr>"

definition signInterest :: "('d, 'i, 'g) base_signer \<Rightarrow> 'i \<Rightarrow> 'i result" where
  "signInterest s = sg_signInterest s (signingInfo s)"

definition signData :: "('d, 'i, 'g) base_signer \<Rightarrow> 'd \<Rightarrow> 'd result" where
  "signData s = sg_signData s (signingInfo s)"

section \<open>Validators\<close>

text \<open>
  \<^verbatim>\<open>validate\<close> calls one of its two callbacks, at once or later. The base class calls the first one at once.
\<close>

datatype validation_call = CallsSuccess | CallsFailure | CallsLater

record ('d, 'i) base_validator =
  va_validateData :: "'d \<Rightarrow> validation_call"
  va_validateInterest :: "'i \<Rightarrow> validation_call"

definition BaseValidator :: "('d, 'i) base_validator" where
  "BaseValidator = \<lparr>va_validateData = \<lambda>_. CallsSuccess, va_validateInterest = \<lambda>_. CallsSuccess\<rparr>"

section \<open>The options\<close>

record ('d, 'i, 'g) security_options =
  sec_interestSigner :: "('d, 'i, 'g) base_signer"
  sec_dataSigner :: "('d, 'i, 'g) base_signer"
  sec_pubSigner :: "('d, 'i, 'g) base_signer"
  sec_validator :: "('d, 'i) base_validator option"
  sec_encapsulatedDataValidator :: "('d, 'i) base_validator option"
  sec_nRetriesOnValidationFail :: int
  sec_millisBeforeRetryOnValidationFail :: int

definition SecurityOptions ::
    "'g signing_library \<Rightarrow> ('d, 'i, 'g) key_chain \<Rightarrow> ('d, 'i, 'g) security_options" where
  "SecurityOptions L keyChain =
     (let s = KeyChainSigner L keyChain in
      \<lparr>sec_interestSigner = s\<lparr>signingInfo := si_setFormatV03 L (signingInfo s)\<rparr>, sec_dataSigner = s,
       sec_pubSigner = s, sec_validator = None, sec_encapsulatedDataValidator = None,
       sec_nRetriesOnValidationFail = 0, sec_millisBeforeRetryOnValidationFail = 300\<rparr>)"

section \<open>A core with its options\<close>

definition secure_core_new ::
    "'g signing_library \<Rightarrow> ('d, 'i, 'g) security_options \<Rightarrow> sys_clock \<Rightarrow> 'n \<Rightarrow> 'n \<Rightarrow> protocol_options
      \<Rightarrow> ('n, 'b, 'd, 'i) sync_core result" where
  "secure_core_new L so clk syncPrefix nid opts =
     core_new clk syncPrefix (si_signerType L (signingInfo (sec_interestSigner so)))
       (si_signerType L (signingInfo (sec_dataSigner so))) (sec_validator so \<noteq> None) nid opts"

definition secure_env ::
    "('d, 'i, 'g) security_options \<Rightarrow> ('n, 'c, 'b, 'd, 'i) core_env \<Rightarrow> ('n, 'c, 'b, 'd, 'i) core_env" where
  "secure_env so E =
     E\<lparr>ce_signData := signData (sec_dataSigner so), ce_signInterest := signInterest (sec_interestSigner so)\<rparr>"

text \<open>
  The validator's answer, when it comes within the call. The last event tells whether the handler has
  asked; the callbacks of a validated Interest, of V2 only, do nothing when it is rejected.
\<close>

definition answer_validation ::
    "('n :: linorder, 'c, 'b, 'd, 'i) core_env \<Rightarrow> ('d, 'i) base_validator \<Rightarrow> 'i \<Rightarrow> u64 option
      \<Rightarrow> ('n, 'b, 'd, 'i) core_event \<Rightarrow> ('n, 'b, 'd, 'i) sync_core \<Rightarrow> ('n, 'b, 'd, 'i) sync_core outcome" where
  "answer_validation E v i face event c =
     (case event of
        ValidateData d _ \<Rightarrow>
          (case va_validateData v d of
             CallsSuccess \<Rightarrow> data_validated E i face c
           | CallsFailure \<Rightarrow> (data_rejected c, None)
           | CallsLater \<Rightarrow> (c, None))
      | ValidateInterest j \<Rightarrow>
          (case va_validateInterest v j of
             CallsSuccess \<Rightarrow> onSyncInterestValidated E j face c
           | _ \<Rightarrow> (c, None))
      | _ \<Rightarrow> (c, None))"

definition secure_receive ::
    "('d, 'i, 'g) security_options \<Rightarrow> ('n :: linorder, 'c, 'b, 'd, 'i) core_env \<Rightarrow> 'i \<Rightarrow> u64 option
      \<Rightarrow> ('n, 'b, 'd, 'i) sync_core \<Rightarrow> ('n, 'b, 'd, 'i) sync_core outcome" where
  "secure_receive so E i face c =
     and_then (onSyncInterest E i face c) (\<lambda>c'.
       case sec_validator so of
         None \<Rightarrow> (c', None)
       | Some v \<Rightarrow>
           if m_out c' = m_out c then (c', None)
           else answer_validation E v i face (last (m_out c')) c')"

section \<open>What the options mean\<close>

text \<open>The default options: no validator, so that no core built with them ever asks one.\<close>

lemma default_options_no_validator:
  assumes "secure_core_new L (SecurityOptions L keyChain) clk syncPrefix nid opts = Inr c"
  shows "\<not> m_hasValidator c"
  using assms by (auto simp: secure_core_new_def SecurityOptions_def Let_def core_new_def res_bind_eq_Inr)

lemma default_options_receive:
  "secure_receive (SecurityOptions L keyChain) E i face c = onSyncInterest E i face c"
proof (cases "onSyncInterest E i face c")
  case (Pair c' e)
  then show ?thesis
    by (cases e) (simp_all add: secure_receive_def SecurityOptions_def Let_def)
qed

text \<open>A plain signer signs nothing: the Data of a V3 Interest stays as it is built.\<close>

lemma base_signer_signs_nothing:
  "signData (BaseSigner L) d = Inr d" "signInterest (BaseSigner L) i = Inr i"
  by (simp_all add: signData_def signInterest_def BaseSigner_def)

text \<open>
  The base validator accepts within the call: a received V3 packet that decodes is processed at once
  and its status is that of a verified packet, though nothing has looked at its signature.
\<close>

lemma base_validator_accepts:
  assumes "sec_validator so = Some BaseValidator" and "m_hasValidator c" and "m_gateOpen c"
    and "ro_version (m_protocolOptions c) = V3"
    and "decode (ce_ndn E) (ce_compression E) (ce_clk E) i (m_syncPrefix c) V3 False = Inr e"
    and "env_stateVectorData e = Some d"
  shows "secure_receive so E i face c =
    onSyncInterestValidated E i face (set_status Verified (emit (ValidateData d i) c))"
  using assms
  by (simp add: secure_receive_def onSyncInterest_def emit_def answer_validation_def BaseValidator_def data_validated_def)

end
